(* ===== verification/Prelude.thy ===== *)
theory Prelude
  imports Complex_Main "HOL-Library.Word" "HOL-Library.Monad_Syntax" "HOL-Library.AList"
    "HOL-Library.Signed_Division" "HOL-Library.Sublist" "HOL-Library.Multiset"
begin

text \<open>
  Shared vocabulary of the development: bytes and byte strings, Go slice and index
  expressions, big-endian integers (package \<open>encoding/binary\<close>), and the generic lemmas and
  fact collections the component theories use.

  Conventions.  A Go function that can panic (a slice or index expression out of range) or
  that contains a loop which may run forever is modelled in the option monad: \<open>None\<close> means
  that the call panics or does not return.  A theorem of the form \<open>\<exists>r. f x = Some r\<close> thus says
  that the call returns normally.  Go checks the upper bound of a slice expression of a slice
  against its capacity; the model checks it against the length, which is stricter.
\<close>

unbundle bit_operations_syntax

named_theorems go_simps \<open>evaluation of slice, index and integer expressions that are in range\<close>
named_theorems spec_defs \<open>definitions that unfold to their specification\<close>

type_synonym byte = "8 word"
type_synonym bytes = "byte list"
type_synonym u8 = "8 word"
type_synonym u16 = "16 word"
type_synonym u32 = "32 word"
type_synonym u64 = "64 word"

declare Option.bind_cong [fundef_cong]

text \<open>Positions are written \<open>p + 2\<close>, never \<open>Suc (Suc p)\<close>.\<close>

declare add_2_eq_Suc [simp del] add_2_eq_Suc' [simp del]

section \<open>Slices\<close>

text \<open>\<open>xs[i:j]\<close> and \<open>xs[i]\<close>; \<open>None\<close> is the run-time panic.\<close>

definition slice :: "'a list \<Rightarrow> nat \<Rightarrow> nat \<Rightarrow> 'a list option" where
  "slice xs i j = (if i \<le> j \<and> j \<le> length xs then Some (take (j - i) (drop i xs)) else None)"

definition index :: "'a list \<Rightarrow> nat \<Rightarrow> 'a option" where
  "index xs i = (if i < length xs then Some (xs ! i) else None)"

lemma slice_in_range [go_simps]:
  "i \<le> j \<Longrightarrow> j \<le> length xs \<Longrightarrow> slice xs i j = Some (take (j - i) (drop i xs))"
  by (simp add: slice_def)

lemma slice_SomeD: "slice xs i j = Some ys \<Longrightarrow> i \<le> j \<and> j \<le> length xs \<and> ys = take (j - i) (drop i xs)"
  by (auto simp: slice_def split: if_splits)

lemma slice_length: "slice xs i j = Some ys \<Longrightarrow> length ys = j - i"
  by (auto dest: slice_SomeD)

lemma slice_all [go_simps]: "slice xs 0 (length xs) = Some xs"
  by (simp add: slice_def)

lemma index_in_range [go_simps]: "i < length xs \<Longrightarrow> index xs i = Some (xs ! i)"
  by (simp add: index_def)

lemma slice_append_left [go_simps]: "slice (xs @ ys) 0 (length xs) = Some xs"
  by (simp add: slice_def)

text \<open>Several index expressions evaluated from left to right, as in \<open>net.IP{r[0], r[1], \<dots>}\<close>.\<close>

fun indices :: "'a list \<Rightarrow> nat list \<Rightarrow> 'a list option" where
  "indices xs [] = Some []"
| "indices xs (i # is) = do { x \<leftarrow> index xs i; ys \<leftarrow> indices xs is; Some (x # ys) }"

section \<open>Big-endian integers\<close>

text \<open>\<open>binary.BigEndian.Uint16\<close> and \<open>Uint32\<close> panic on a slice that is too short and ignore
  what follows the bytes they read.\<close>

fun be16 :: "bytes \<Rightarrow> u16 option" where
  "be16 (a # b # _) = Some (push_bit 8 (ucast a) OR ucast b)"
| "be16 _ = None"

fun be32 :: "bytes \<Rightarrow> u32 option" where
  "be32 (a # b # c # d # _) =
     Some (push_bit 24 (ucast a) OR push_bit 16 (ucast b) OR push_bit 8 (ucast c) OR ucast d)"
| "be32 _ = None"

text \<open>\<open>binary.BigEndian.PutUint16\<close> and \<open>PutUint32\<close>, as the bytes they store.\<close>

definition put16 :: "u16 \<Rightarrow> bytes" where
  "put16 x = [ucast (drop_bit 8 x), ucast x]"

definition put32 :: "u32 \<Rightarrow> bytes" where
  "put32 x = [ucast (drop_bit 24 x), ucast (drop_bit 16 x), ucast (drop_bit 8 x), ucast x]"

text \<open>The idiom \<open>binary.BigEndian.Uint16(b[p:p+2])\<close> and its 32-bit form.\<close>

definition rd16 :: "bytes \<Rightarrow> nat \<Rightarrow> u16 option" where
  "rd16 b p = Option.bind (slice b p (p + 2)) be16"

definition rd32 :: "bytes \<Rightarrow> nat \<Rightarrow> u32 option" where
  "rd32 b p = Option.bind (slice b p (p + 4)) be32"

lemma be16_total: "2 \<le> length b \<Longrightarrow> \<exists>x. be16 b = Some x"
  by (cases b rule: be16.cases) auto

lemma be32_total: "4 \<le> length b \<Longrightarrow> \<exists>x. be32 b = Some x"
  by (cases b rule: be32.cases) auto

lemma rd16_total [intro]: "p + 2 \<le> length b \<Longrightarrow> \<exists>x. rd16 b p = Some x"
  using be16_total [of "take 2 (drop p b)"] by (simp add: rd16_def slice_def)

lemma rd32_total [intro]: "p + 4 \<le> length b \<Longrightarrow> \<exists>x. rd32 b p = Some x"
  using be32_total [of "take 4 (drop p b)"] by (simp add: rd32_def slice_def)

lemma rd16_SomeD: "rd16 b p = Some x \<Longrightarrow> p + 2 \<le> length b"
  by (auto simp: rd16_def slice_def split: Option.bind_splits if_splits)

lemma be16_put16 [simp]: "be16 (put16 x @ rest) = Some x"
  unfolding put16_def by (simp, rule bit_word_eqI) (auto simp: bit_simps)

lemma be32_put32 [simp]: "be32 (put32 x @ rest) = Some x"
proof -
  have "bit (push_bit 24 (ucast (ucast (drop_bit 24 x) :: u8)) OR push_bit 16 (ucast (ucast (drop_bit 16 x) :: u8))
      OR push_bit 8 (ucast (ucast (drop_bit 8 x) :: u8)) OR ucast (ucast x :: u8) :: u32) n = bit x n" if "n < 32" for n
  proof -
    consider "n < 8" | "8 \<le> n" "n < 16" | "16 \<le> n" "n < 24" | "24 \<le> n" by linarith
    then show ?thesis using that by cases (auto simp: bit_simps)
  qed
  then show ?thesis unfolding put32_def by (simp, intro bit_word_eqI) simp
qed

lemma length_put16 [simp]: "length (put16 x) = 2"
  by (simp add: put16_def)

lemma length_put32 [simp]: "length (put32 x) = 4"
  by (simp add: put32_def)

lemma unat_u16_less [simp]: "unat (x :: u16) < 65536"
  using unsigned_less [of x] by simp

lemma rd16_put16 [go_simps]: "length pre = p \<Longrightarrow> rd16 (pre @ put16 x @ rest) p = Some x"
  using be16_put16 [of x "[]"] by (simp add: rd16_def slice_def del: be16_put16)

lemma rd32_put32 [go_simps]: "length pre = p \<Longrightarrow> rd32 (pre @ put32 x @ rest) p = Some x"
  using be32_put32 [of x "[]"] by (simp add: rd32_def slice_def del: be32_put32)

section \<open>Numbers at a position\<close>

text \<open>The big-endian value of the \<open>n\<close> bytes at position \<open>p\<close>, for specifications.\<close>

definition nat_at :: "bytes \<Rightarrow> nat \<Rightarrow> nat \<Rightarrow> nat" where
  "nat_at b p n = foldl (\<lambda>v w. v * 256 + unat w) 0 (take n (drop p b))"

lemma be16_eq: "push_bit 8 (ucast (a :: byte)) OR ucast (b :: byte) = (of_nat (unat a * 256 + unat b) :: u16)"
proof -
  have "push_bit 8 (ucast a) OR ucast b = push_bit 8 (ucast a) + (ucast b :: u16)"
    by (rule disjunctive_add [symmetric]) (auto simp: bit_simps dest: bit_imp_le_length)
  then show ?thesis by (simp add: push_bit_eq_mult)
qed

lemma be32_eq: "push_bit 24 (ucast (a :: byte)) OR push_bit 16 (ucast (b :: byte)) OR push_bit 8 (ucast (c :: byte)) OR ucast (d :: byte)
   = (of_nat (((unat a * 256 + unat b) * 256 + unat c) * 256 + unat d) :: u32)"
proof -
  have 1: "push_bit 8 (ucast c) OR ucast d = push_bit 8 (ucast c) + (ucast d :: u32)"
    by (rule disjunctive_add [symmetric]) (auto simp: bit_simps dest: bit_imp_le_length)
  have 2: "push_bit 16 (ucast b) OR (push_bit 8 (ucast c) OR ucast d) = push_bit 16 (ucast b) + (push_bit 8 (ucast c) OR (ucast d :: u32))"
    by (rule disjunctive_add [symmetric]) (auto simp: bit_simps dest: bit_imp_le_length)
  have 3: "push_bit 24 (ucast a) OR (push_bit 16 (ucast b) OR (push_bit 8 (ucast c) OR ucast d)) = push_bit 24 (ucast a) + (push_bit 16 (ucast b) OR (push_bit 8 (ucast c) OR (ucast d :: u32)))"
    by (rule disjunctive_add [symmetric]) (auto simp: bit_simps dest: bit_imp_le_length)
  show ?thesis by (subst 3, subst 2, subst 1) (simp add: push_bit_eq_mult algebra_simps)
qed

lemma nat_at_less: "nat_at b p n < 256 ^ n"
proof -
  have "foldl (\<lambda>v w. v * 256 + unat w) a xs < (a + 1) * 256 ^ length xs" for a and xs :: bytes
  proof (induction xs arbitrary: a)
    case (Cons x xs)
    have "unat x < 2 ^ LENGTH(8)" by (rule unsigned_less)
    then have "(a * 256 + unat x + 1) * 256 ^ length xs \<le> (a + 1) * 256 * 256 ^ length xs"
      by (intro mult_le_mono1) simp
    then have "foldl (\<lambda>v w. v * 256 + unat w) (a * 256 + unat x) xs < (a + 1) * 256 * 256 ^ length xs"
      by (rule less_le_trans [OF Cons.IH])
    then show ?case by (simp add: distrib_right mult.assoc)
  qed simp
  from this [of 0 "take n (drop p b)"]
  have "nat_at b p n < 256 ^ length (take n (drop p b))" by (simp add: nat_at_def)
  also have "\<dots> \<le> 256 ^ n" by (rule power_increasing) auto
  finally show ?thesis .
qed

lemma rd16_nat_at [go_simps]: "p + 2 \<le> length b \<Longrightarrow> rd16 b p = Some (of_nat (nat_at b p 2))"
proof -
  assume p: "p + 2 \<le> length b"
  then obtain x y where "take 2 (drop p b) = [x, y]"
    by (cases "drop p b" rule: be16.cases) (auto simp: not_le  dest!: arg_cong [of _ _ length])
  with p show ?thesis by (simp add: rd16_def slice_def nat_at_def be16_eq del: of_nat_add of_nat_mult)
qed

lemma rd32_nat_at [go_simps]: "p + 4 \<le> length b \<Longrightarrow> rd32 b p = Some (of_nat (nat_at b p 4))"
proof -
  assume p: "p + 4 \<le> length b"
  then obtain x y z w where "take 4 (drop p b) = [x, y, z, w]"
    by (cases "drop p b" rule: be32.cases) (auto simp: not_le  dest!: arg_cong [of _ _ length])
  with p show ?thesis by (simp add: rd32_def slice_def nat_at_def be32_eq del: of_nat_add of_nat_mult)
qed

lemma take_bit_nat_at [simp]:
  "take_bit 16 (nat_at b p 2) = nat_at b p 2" "take_bit 32 (nat_at b p 4) = nat_at b p 4"
  using nat_at_less [of b p 2] nat_at_less [of b p 4] by (simp_all add: take_bit_nat_eq_self)

lemma unat_of_nat_at [simp]:
  "unat (of_nat (nat_at b p 2) :: u16) = nat_at b p 2"
  "unat (of_nat (nat_at b p 4) :: u32) = nat_at b p 4"
  by (simp_all add: unsigned_of_nat)

lemma of_nat_at_eq_numeral [simp]:
  "(of_nat (nat_at b p 2) = (numeral n :: u16)) \<longleftrightarrow> nat_at b p 2 = take_bit 16 (numeral n)"
  by (simp add: word_unat_eq_iff unsigned_of_nat)

lemma of_nat_at_eq_0 [simp]: "(of_nat (nat_at b p 2) = (0 :: u16)) \<longleftrightarrow> nat_at b p 2 = 0"
  by (simp add: word_unat_eq_iff unsigned_of_nat)

lemma uint_of_nat_at [simp]:
  "uint (of_nat (nat_at b p 2) :: u16) = int (nat_at b p 2)"
  "uint (of_nat (nat_at b p 4) :: u32) = int (nat_at b p 4)"
  by (simp_all add: unsigned_of_nat)

lemma ucast_of_nat_at [simp]: "ucast (of_nat (nat_at b p 4) :: u32) = (of_nat (nat_at b p 4) :: u64)"
  by (simp add: unsigned_of_nat)

lemma signed63_id: "0 \<le> k \<Longrightarrow> k < 2 ^ 63 \<Longrightarrow> signed_take_bit 63 k = (k :: int)"
  by (simp add: signed_take_bit_int_eq_self)

lemma sint_of_nat_u64: "n < 2 ^ 63 \<Longrightarrow> sint (of_nat n :: u64) = int n"
  by (simp add: sint_uint unsigned_of_nat take_bit_nat_eq_self signed63_id)

lemma sint_u32_u64 [simp]: "sint (ucast (x :: u32) :: u64) = uint x"
proof -
  have "uint x < 2 ^ LENGTH(32)" by (rule unsigned_less)
  then show ?thesis
    by (simp add: sint_uint unsigned_ucast_eq signed63_id take_bit_int_eq_self)
qed

lemma nat_at_append: "p + n \<le> length xs \<Longrightarrow> nat_at (xs @ ys) p n = nat_at xs p n"
  by (simp add: nat_at_def)

lemma nat_at_append2: "length xs \<le> p \<Longrightarrow> nat_at (xs @ ys) p n = nat_at ys (p - length xs) n"
  by (simp add: nat_at_def)

lemma nat_at_put16 [simp]: "nat_at (put16 x @ rest) 0 2 = unat x"
proof -
  have "rd16 (put16 x @ rest) 0 = Some x" using rd16_put16 [of "[]" 0 x rest] by simp
  moreover have "rd16 (put16 x @ rest) 0 = Some (of_nat (nat_at (put16 x @ rest) 0 2))"
    by (rule rd16_nat_at) simp
  ultimately show ?thesis by (metis option.inject unat_of_nat_at(1))
qed

lemma nat_at_put32 [simp]: "nat_at (put32 x @ rest) 0 4 = unat x"
proof -
  have "rd32 (put32 x @ rest) 0 = Some x" using rd32_put32 [of "[]" 0 x rest] by simp
  moreover have "rd32 (put32 x @ rest) 0 = Some (of_nat (nat_at (put32 x @ rest) 0 4))"
    by (rule rd32_nat_at) simp
  ultimately show ?thesis by (metis option.inject unat_of_nat_at(2))
qed

lemma drop_put16 [simp]: "drop 2 (put16 x @ rest) = rest"
  by (simp add: put16_def)

lemma unat_numeral_255 [simp]: "unat (255 :: byte) = 255"
  by simp

lemma unat_of_nat_u16: "n < 65536 \<Longrightarrow> unat (of_nat n :: u16) = n"
  by (simp add: unsigned_of_nat take_bit_nat_eq_self)

lemma unat_of_nat_u8: "n < 256 \<Longrightarrow> unat (of_nat n :: byte) = n"
  by (simp add: unsigned_of_nat take_bit_nat_eq_self)

section \<open>Option and list lemmas\<close>

lemma bind_SomeI [intro]: "m = Some x \<Longrightarrow> f x = Some y \<Longrightarrow> Option.bind m f = Some y"
  by simp

lemma ex_bind_SomeI:
  "\<exists>x. m = Some x \<Longrightarrow> (\<And>x. m = Some x \<Longrightarrow> \<exists>y. f x = Some y) \<Longrightarrow> \<exists>y. Option.bind m f = Some y"
  by auto

lemma filter_length_less:
  "x \<in> set xs \<Longrightarrow> \<not> P x \<Longrightarrow> length (filter P xs) < length xs"
  by (metis length_filter_less)

lemma delete_length_less:
  "k \<in> fst ` set al \<Longrightarrow> length (AList.delete k al) < length al"
  by (auto simp: AList.delete_eq intro: filter_length_less)

lemma delete_not_in [simp]: "k \<notin> fst ` set al \<Longrightarrow> AList.delete k al = al"
  by (force simp: AList.delete_eq filter_id_conv)

lemma length_alist_update: "length (AList.update k v al) \<le> Suc (length al)"
  by (induction al) auto

lemma length_alist_update_in: "k \<in> fst ` set al \<Longrightarrow> length (AList.update k v al) = length al"
  by (induction al) auto

lemma alist_update_in: "(k, v) \<in> set (AList.update k' v' al) \<Longrightarrow> (k, v) = (k', v') \<or> (k, v) \<in> set al"
  by (induction al) (auto split: if_splits)

lemma map_of_fold_update:
  "distinct (map fst es) \<Longrightarrow>
   map_of (foldl (\<lambda>acc p. AList.update (fst p) (g (snd p)) acc) acc es) k =
     (case map_of es k of None \<Rightarrow> map_of acc k | Some v \<Rightarrow> Some (g v))"
proof (induction es arbitrary: acc)
  case (Cons a es)
  then have "map_of es (fst a) = None" by (simp add: map_of_eq_None_iff)
  with Cons show ?case by (cases "fst a = k") (simp_all add: update_conv' split: option.splits)
qed simp

lemma find_key_None: "find (\<lambda>x. f x = k) xs = None \<longleftrightarrow> (\<forall>x \<in> set xs. f x \<noteq> k)"
  by (induction xs) auto

lemma find_key_Some:
  "distinct (map f xs) \<Longrightarrow> find (\<lambda>x. f x = k) xs = Some y \<longleftrightarrow> y \<in> set xs \<and> f y = k"
  by (induction xs) (auto simp: rev_image_eqI)

section \<open>Chunks\<close>

text \<open>The complete pieces of length \<open>n\<close> of a list, from the front.\<close>

function chunks :: "nat \<Rightarrow> 'a list \<Rightarrow> 'a list list" where
  "chunks n xs = (if n = 0 \<or> length xs < n then [] else take n xs # chunks n (drop n xs))"
  by pat_completeness auto
termination
  by (relation "measure (\<lambda>(n, xs). length xs)") auto

declare chunks.simps [simp del]

lemma length_chunks: "0 < n \<Longrightarrow> length (chunks n xs) = length xs div n"
proof (induction n xs rule: chunks.induct)
  case (1 n xs)
  then show ?case by (subst chunks.simps) (auto simp: le_div_geq)
qed

lemma chunks_step: "0 < n \<Longrightarrow> n \<le> length xs \<Longrightarrow> chunks n xs = take n xs # chunks n (drop n xs)"
  by (subst chunks.simps) simp

lemma chunks_short: "length xs < n \<Longrightarrow> chunks n xs = []"
  by (subst chunks.simps) simp

lemma chunks_length: "r \<in> set (chunks n xs) \<Longrightarrow> length r = n"
proof (induction n xs rule: chunks.induct)
  case (1 n xs)
  from "1.prems" show ?case
    by (subst (asm) chunks.simps) (auto split: if_splits simp: "1.IH")
qed

lemma chunks_concat:
  "0 < n \<Longrightarrow> (\<And>r. r \<in> set rs \<Longrightarrow> length r = n) \<Longrightarrow> chunks n (concat rs) = rs"
  by (induction rs) (simp_all add: chunks_step chunks_short)

end
