(* ===== verification/Go_Time.thy ===== *)
theory Go_Time
  imports Prelude
begin

text \<open>
  The part of Go's package \<open>time\<close> the program uses.  A \<open>time.Time\<close> holds the seconds since
  1 January of year 1 (an \<open>int64\<close>) and the nanoseconds within the second; its zero value is
  that first instant.  A \<open>time.Duration\<close> is an \<open>int64\<close> number of nanoseconds.
  \<open>int64\<close> values are \<open>int\<close> and the wrap-around is written out with \<open>wrap64\<close> where an
  operation can leave the range.
\<close>

definition wrap64 :: "int \<Rightarrow> int" where
  "wrap64 x = signed_take_bit 63 x"

definition in_int64 :: "int \<Rightarrow> bool" where
  "in_int64 x \<longleftrightarrow> - (2 ^ 63) \<le> x \<and> x < 2 ^ 63"

lemma wrap64_id [simp]: "in_int64 x \<Longrightarrow> wrap64 x = x"
  by (simp add: wrap64_def in_int64_def signed_take_bit_int_eq_self)

lemma in_int64_wrap64 [simp]: "in_int64 (wrap64 x)"
  using signed_take_bit_int_less_exp [of 63 x] signed_take_bit_int_greater_eq_minus_exp [of 63 x]
  by (simp add: wrap64_def in_int64_def)

lemma in_int64_sint [simp]: "in_int64 (sint (x :: u64))"
  using sint_lt [of x] sint_ge [of x] by (simp add: in_int64_def)

record gotime =
  t_sec :: int
  t_nsec :: int

definition zero_time :: gotime where
  "zero_time = \<lparr>t_sec = 0, t_nsec = 0\<rparr>"

definition time_IsZero :: "gotime \<Rightarrow> bool" where
  "time_IsZero t \<longleftrightarrow> t_sec t = 0 \<and> t_nsec t = 0"

definition unixToInternal :: int where
  "unixToInternal = 62135596800"

text \<open>\<open>time.Unix(sec, nsec)\<close>, with its normalisation of the nanoseconds.\<close>

definition time_Unix :: "int \<Rightarrow> int \<Rightarrow> gotime" where
  "time_Unix sec nsec =
     (let (s, n) =
        (if nsec < 0 \<or> nsec \<ge> 1000000000 then
           let q = nsec sdiv 1000000000; s = sec + q; n = nsec - q * 1000000000
           in if n < 0 then (s - 1, n + 1000000000) else (s, n)
         else (sec, nsec))
      in \<lparr>t_sec = wrap64 (s + unixToInternal), t_nsec = n\<rparr>)"

text \<open>\<open>Time.UnixNano\<close> without its truncation to 64 bits: the instant on the Unix time line.\<close>

definition unix_ns :: "gotime \<Rightarrow> int" where
  "unix_ns t = (t_sec t - unixToInternal) * 1000000000 + t_nsec t"

definition time_wf :: "gotime \<Rightarrow> bool" where
  "time_wf t \<longleftrightarrow> in_int64 (t_sec t) \<and> 0 \<le> t_nsec t \<and> t_nsec t < 1000000000"

lemma sdiv_smod_bounds:
  fixes x :: int
  shows "\<bar>x - (x sdiv 1000000000) * 1000000000\<bar> < 1000000000"
proof (cases "0 \<le> x")
  case True
  then show ?thesis by (cases "x = 0") (auto simp: signed_divide_int_def)
next
  case False
  then show ?thesis by (simp add: signed_divide_int_def minus_mod_eq_div_mult [symmetric])
qed

lemma time_Unix_wf: "time_wf (time_Unix sec nsec)"
  using sdiv_smod_bounds [of nsec]
  by (auto simp: time_Unix_def time_wf_def Let_def abs_less_iff)

text \<open>Both decoders of template-based protocols and the NetFlow v5 decoder declare the same
  helper \<open>msToTime\<close>; each maps to its own copy of the source.\<close>

definition ms_to_time :: "int \<Rightarrow> gotime" where
  "ms_to_time ms = time_Unix (ms sdiv 1000) ((ms smod 1000) * 1000000)"

lemma ms_split:
  fixes ms :: int
  shows "(ms sdiv 1000) * 1000 + ms smod 1000 = ms" "\<bar>ms smod 1000\<bar> < 1000"
proof -
  show "(ms sdiv 1000) * 1000 + ms smod 1000 = ms"
    by (rule sdiv_mult_smod_eq)
  show "\<bar>ms smod 1000\<bar> < 1000"
    by (auto simp: signed_modulo_int_def abs_mult abs_sgn_eq)
qed

lemma ms_to_time_instant:
  assumes "in_int64 ms"
  shows "unix_ns (ms_to_time ms) = ms * 1000000"
proof -
  define q r where "q = ms sdiv 1000" and "r = ms smod 1000"
  have qr: "q * 1000 + r = ms" "\<bar>r\<bar> < 1000"
    using ms_split [of ms] by (simp_all add: q_def r_def)
  have bound: "in_int64 (q + unixToInternal)" "in_int64 (q - 1 + unixToInternal)"
    using qr assms by (auto simp: in_int64_def unixToInternal_def)
  show ?thesis
  proof (cases "r < 0")
    case True
    then have "r * 1000000 sdiv 1000000000 = 0"
      using qr(2) by (simp add: signed_divide_int_def)
    then show ?thesis
      using True qr bound
      by (simp add: ms_to_time_def time_Unix_def unix_ns_def q_def [symmetric] r_def [symmetric])
  next
    case False
    then show ?thesis
      using qr bound
      by (simp add: ms_to_time_def time_Unix_def unix_ns_def q_def [symmetric] r_def [symmetric])
  qed
qed

end
