(* ===== verification/Go_Strings.thy ===== *)
theory Go_Strings
  imports Prelude
begin

text \<open>
  The part of Go's packages \<open>strings\<close>, \<open>bytes\<close> and \<open>strconv\<close> the program uses.  A Go string
  is a byte string and is modelled as \<open>string\<close> (a list of 8-bit characters).
\<close>

definition str_of_bytes :: "bytes \<Rightarrow> string" where
  "str_of_bytes b = map (\<lambda>w. char_of (unat w)) b"

definition bytes_of_str :: "string \<Rightarrow> bytes" where
  "bytes_of_str s = map (\<lambda>c. of_nat (of_char c)) s"

lemma unat_byte_mod [simp]: "unat (w :: byte) mod 256 = unat w"
proof -
  have "unat w < 2 ^ LENGTH(8)" by (rule unsigned_less)
  then show ?thesis by simp
qed

lemma bytes_of_str_of_bytes [simp]: "bytes_of_str (str_of_bytes b) = b"
  by (induction b) (simp_all add: bytes_of_str_def str_of_bytes_def)

lemma str_of_bytes_of_str [simp]: "str_of_bytes (bytes_of_str s) = s"
  by (induction s) (simp_all add: str_of_bytes_def bytes_of_str_def unsigned_of_nat take_bit_eq_mod)

lemma str_of_bytes_inj: "str_of_bytes a = str_of_bytes b \<Longrightarrow> a = b"
  by (metis bytes_of_str_of_bytes)

section \<open>White space\<close>

text \<open>The UTF-8 encodings of the runes for which \<open>unicode.IsSpace\<close> holds.\<close>

definition space_runes :: "bytes list" where
  "space_runes =
     [[0x20], [0x09], [0x0A], [0x0B], [0x0C], [0x0D], [0xC2, 0x85], [0xC2, 0xA0],
      [0xE1, 0x9A, 0x80],
      [0xE2, 0x80, 0x80], [0xE2, 0x80, 0x81], [0xE2, 0x80, 0x82], [0xE2, 0x80, 0x83],
      [0xE2, 0x80, 0x84], [0xE2, 0x80, 0x85], [0xE2, 0x80, 0x86], [0xE2, 0x80, 0x87],
      [0xE2, 0x80, 0x88], [0xE2, 0x80, 0x89], [0xE2, 0x80, 0x8A],
      [0xE2, 0x80, 0xA8], [0xE2, 0x80, 0xA9], [0xE2, 0x80, 0xAF], [0xE2, 0x81, 0x9F],
      [0xE3, 0x80, 0x80]]"

function strip_front :: "bytes list \<Rightarrow> bytes \<Rightarrow> bytes" where
  "strip_front rs b =
     (case find (\<lambda>r. r \<noteq> [] \<and> prefix r b) rs of
        None \<Rightarrow> b
      | Some r \<Rightarrow> strip_front rs (drop (length r) b))"
  by pat_completeness auto
termination
  by (relation "measure (\<lambda>(rs, b). length b)") (auto simp: find_Some_iff prefix_def)

declare strip_front.simps [simp del]

text \<open>\<open>bytes.TrimSpace\<close> (and \<open>strings.TrimSpace\<close>): leading and trailing white space removed.\<close>

definition trim_space :: "bytes \<Rightarrow> bytes" where
  "trim_space b =
     rev (strip_front (map rev space_runes) (rev (strip_front space_runes b)))"

definition trim_str :: "string \<Rightarrow> string" where
  "trim_str s = str_of_bytes (trim_space (bytes_of_str s))"

lemma strip_front_suffix: "suffix (strip_front rs b) b"
proof (induction rs b rule: strip_front.induct)
  case (1 rs b)
  show ?case
    by (subst strip_front.simps)
      (auto split: option.splits intro: suffix_order.trans [OF "1.IH"] suffix_drop)
qed

lemma trim_space_sublist: "sublist (trim_space b) b"
proof -
  have "suffix (strip_front (map rev space_runes) (rev (strip_front space_runes b)))
     (rev (strip_front space_runes b))" by (rule strip_front_suffix)
  then have "prefix (trim_space b) (strip_front space_runes b)"
    by (simp add: trim_space_def suffix_to_prefix)
  then show ?thesis
    by (meson prefix_imp_sublist strip_front_suffix sublist_order.order.trans suffix_imp_sublist)
qed

section \<open>Case\<close>

text \<open>Case mapping on ASCII letters.\<close>

definition to_upper :: "string \<Rightarrow> string" where
  "to_upper = map (\<lambda>c. let n = of_char c :: nat in if 97 \<le> n \<and> n \<le> 122 then char_of (n - 32) else c)"

definition to_lower :: "string \<Rightarrow> string" where
  "to_lower = map (\<lambda>c. let n = of_char c :: nat in if 65 \<le> n \<and> n \<le> 90 then char_of (n + 32) else c)"

definition equal_fold :: "string \<Rightarrow> string \<Rightarrow> bool" where
  "equal_fold s t \<longleftrightarrow> to_lower s = to_lower t"

section \<open>Decimal numerals\<close>

definition digit :: "nat \<Rightarrow> char" where
  "digit d = char_of (48 + d)"

fun dec_string :: "nat \<Rightarrow> string" where
  "dec_string n = (if n < 10 then [digit n] else dec_string (n div 10) @ [digit (n mod 10)])"

declare dec_string.simps [simp del]

definition digit_value :: "char \<Rightarrow> nat" where
  "digit_value c = of_char c - 48"

definition is_digit :: "char \<Rightarrow> bool" where
  "is_digit c \<longleftrightarrow> 48 \<le> (of_char c :: nat) \<and> (of_char c :: nat) \<le> 57"

definition dec_value :: "string \<Rightarrow> nat" where
  "dec_value s = foldl (\<lambda>v c. v * 10 + digit_value c) 0 s"

lemma digit_value_digit [simp]: "d < 10 \<Longrightarrow> digit_value (digit d) = d"
  by (simp add: digit_value_def digit_def)

lemma is_digit_digit [simp]: "d < 10 \<Longrightarrow> is_digit (digit d)"
  by (simp add: is_digit_def digit_def)

lemma dec_value_dec_string [simp]: "dec_value (dec_string n) = n"
proof (induction n rule: dec_string.induct)
  case (1 n)
  then show ?case
    by (subst dec_string.simps) (auto simp: dec_value_def)
qed

lemma dec_string_inj: "dec_string m = dec_string n \<Longrightarrow> m = n"
  by (metis dec_value_dec_string)

lemma dec_string_digits: "list_all is_digit (dec_string n)"
proof (induction n rule: dec_string.induct)
  case (1 n)
  then show ?case by (subst dec_string.simps) auto
qed

lemma dec_string_not_Nil [simp]: "dec_string n \<noteq> []"
  by (subst dec_string.simps) simp

text \<open>Splitting at the first separator is injective when the heads do not contain it.\<close>

lemma sep_append_inj:
  assumes "a @ c # b = a' @ c # b'" and "c \<notin> set a" and "c \<notin> set a'"
  shows "a = a' \<and> b = b'"
  using assms by (auto simp: append_eq_append_conv2 append_eq_Cons_conv Cons_eq_append_conv)

lemma dec_string_no_dot: "CHR ''.'' \<notin> set (dec_string n)"
  using dec_string_digits [of n] by (auto simp: list_all_iff is_digit_def)

text \<open>\<open>strconv.ParseUint(s, 10, bits)\<close>: the value and whether there was no error.\<close>

fun uint_digits :: "nat \<Rightarrow> nat \<Rightarrow> string \<Rightarrow> nat \<times> bool" where
  "uint_digits maxVal n [] = (n, True)"
| "uint_digits maxVal n (c # s) =
     (if \<not> is_digit c then (0, False)
      else let m = n * 10 + digit_value c in if m > maxVal then (maxVal, False) else uint_digits maxVal m s)"

definition ParseUint :: "nat \<Rightarrow> string \<Rightarrow> nat \<times> bool" where
  "ParseUint bits s = (if s = [] then (0, False) else uint_digits (2 ^ bits - 1) 0 s)"

lemma dec_string_length: "n < 10 ^ Suc k \<Longrightarrow> length (dec_string n) \<le> Suc k"
proof (induction k arbitrary: n)
  case 0
  then show ?case by (subst dec_string.simps) simp
next
  case (Suc k)
  then have "n div 10 < 10 ^ Suc k" by (simp add: less_mult_imp_div_less)
  then show ?case using Suc.IH[of "n div 10"] by (subst dec_string.simps) auto
qed

section \<open>Hexadecimal numerals\<close>

definition hex_digit :: "nat \<Rightarrow> char" where
  "hex_digit d = (if d < 10 then char_of (48 + d) else char_of (87 + d))"

fun hex_string :: "nat \<Rightarrow> string" where
  "hex_string n = (if n < 16 then [hex_digit n] else hex_string (n div 16) @ [hex_digit (n mod 16)])"

declare hex_string.simps [simp del]

text \<open>Two digits per byte, as \<open>hex.EncodeToString\<close> and the \<open>hexString\<close> of package \<open>net\<close>.\<close>

definition hex_bytes :: "bytes \<Rightarrow> string" where
  "hex_bytes b = concat (map (\<lambda>w. [hex_digit (unat w div 16), hex_digit (unat w mod 16)]) b)"

end
