(* ===== verification/Go_Net.thy ===== *)
theory Go_Net
  imports Go_Strings
begin

text \<open>
  The part of Go's package \<open>net\<close> the program uses: the type \<open>net.IP\<close>, its classification
  methods, its textual form and \<open>net.ParseIP\<close>.  A \<open>net.IP\<close> is a byte string; \<open>nil\<close> is the
  empty one (the program never builds an empty address that is not \<open>nil\<close>).
\<close>

type_synonym ip = bytes

abbreviation nil_ip :: ip where
  "nil_ip \<equiv> []"

definition v4InV6Prefix :: bytes where
  "v4InV6Prefix = [0, 0, 0, 0, 0, 0, 0, 0, 0, 0, 0xff, 0xff]"

text \<open>\<open>IP.To4\<close> returns \<open>nil\<close> (here \<open>None\<close>) or a 4-byte address.\<close>

definition ip_to4 :: "ip \<Rightarrow> ip option" where
  "ip_to4 a =
     (if length a = 4 then Some a
      else if length a = 16 \<and> take 12 a = v4InV6Prefix then Some (drop 12 a)
      else None)"

definition ip_to16 :: "ip \<Rightarrow> ip option" where
  "ip_to16 a =
     (if length a = 4 then Some (v4InV6Prefix @ a)
      else if length a = 16 then Some a
      else None)"

definition ip_equal :: "ip \<Rightarrow> ip \<Rightarrow> bool" where
  "ip_equal a b =
     (if length a = length b then a = b
      else if length a = 4 \<and> length b = 16 then take 12 b = v4InV6Prefix \<and> a = drop 12 b
      else if length a = 16 \<and> length b = 4 then take 12 a = v4InV6Prefix \<and> drop 12 a = b
      else False)"

definition ipv4_16 :: "byte \<Rightarrow> byte \<Rightarrow> byte \<Rightarrow> byte \<Rightarrow> ip" where
  "ipv4_16 a b c d = v4InV6Prefix @ [a, b, c, d]"

definition IPv4zero :: ip where
  "IPv4zero = ipv4_16 0 0 0 0"

definition IPv6unspecified :: ip where
  "IPv6unspecified = replicate 16 0"

definition IPv6loopback :: ip where
  "IPv6loopback = replicate 15 0 @ [1]"

definition ip_IsUnspecified :: "ip \<Rightarrow> bool" where
  "ip_IsUnspecified a \<longleftrightarrow> ip_equal a IPv4zero \<or> ip_equal a IPv6unspecified"

definition ip_IsLoopback :: "ip \<Rightarrow> bool" where
  "ip_IsLoopback a =
     (case ip_to4 a of Some v \<Rightarrow> v ! 0 = 127 | None \<Rightarrow> ip_equal a IPv6loopback)"

definition ip_IsLinkLocalUnicast :: "ip \<Rightarrow> bool" where
  "ip_IsLinkLocalUnicast a =
     (case ip_to4 a of
        Some v \<Rightarrow> v ! 0 = 169 \<and> v ! 1 = 254
      | None \<Rightarrow> length a = 16 \<and> a ! 0 = 0xfe \<and> a ! 1 AND 0xc0 = 0x80)"

definition ip_IsPrivate :: "ip \<Rightarrow> bool" where
  "ip_IsPrivate a =
     (case ip_to4 a of
        Some v \<Rightarrow> v ! 0 = 10 \<or> (v ! 0 = 172 \<and> v ! 1 AND 0xf0 = 16) \<or> (v ! 0 = 192 \<and> v ! 1 = 168)
      | None \<Rightarrow> length a = 16 \<and> a ! 0 AND 0xfe = 0xfc)"

lemma ip_to4_length: "ip_to4 a = Some v \<Longrightarrow> length v = 4"
  by (auto simp: ip_to4_def split: if_splits)

lemma ip_to4_idem: "ip_to4 a = Some v \<Longrightarrow> ip_to4 v = Some v"
  by (simp add: ip_to4_def [of v] ip_to4_length)

lemma ip_to4_nil [simp]: "ip_to4 nil_ip = None"
  by (simp add: ip_to4_def)

lemma ip_to4_v4 [simp]: "ip_to4 [a, b, c, d] = Some [a, b, c, d]"
  by (simp add: ip_to4_def)

lemma ip_to4_ipv4_16 [simp]: "ip_to4 (ipv4_16 a b c d) = Some [a, b, c, d]"
  by (simp add: ip_to4_def ipv4_16_def v4InV6Prefix_def)

lemma ip_equal_refl [simp]: "ip_equal a a"
  by (simp add: ip_equal_def)

lemma ip_equal_sym: "ip_equal a b \<longleftrightarrow> ip_equal b a"
  by (auto simp: ip_equal_def)

section \<open>Textual form\<close>

text \<open>\<open>IP.String\<close>: dotted decimals for IPv4, the compressed form of RFC 5952 for IPv6.\<close>

fun dotted :: "bytes \<Rightarrow> string" where
  "dotted [] = []"
| "dotted [a] = dec_string (unat a)"
| "dotted (a # as) = dec_string (unat a) @ CHR ''.'' # dotted as"

fun groups16 :: "bytes \<Rightarrow> nat list" where
  "groups16 (a # b # rest) = (unat a * 256 + unat b) # groups16 rest"
| "groups16 _ = []"

definition zero_run :: "nat list \<Rightarrow> nat \<Rightarrow> nat" where
  "zero_run gs i = length (takeWhile (\<lambda>g. g = 0) (drop i gs))"

text \<open>The first longest run of at least two zero groups: its start and length.\<close>

definition longest_zero_run :: "nat list \<Rightarrow> nat \<times> nat" where
  "longest_zero_run gs =
     foldl (\<lambda>(s, l) i. let r = zero_run gs i in if 2 \<le> r \<and> l < r then (i, r) else (s, l))
       (255, 0) [0..<length gs]"

fun join_hex :: "nat list \<Rightarrow> string" where
  "join_hex [] = []"
| "join_hex [g] = hex_string g"
| "join_hex (g # gs) = hex_string g @ CHR '':'' # join_hex gs"

definition ip6_string :: "bytes \<Rightarrow> string" where
  "ip6_string b =
     (let gs = groups16 b; (s, l) = longest_zero_run gs
      in if l = 0 then join_hex gs
         else join_hex (take s gs) @ ''::'' @ join_hex (drop (s + l) gs))"

definition ip_String :: "ip \<Rightarrow> string" where
  "ip_String a =
     (if a = [] then ''<nil>''
      else if length a \<noteq> 4 \<and> length a \<noteq> 16 then CHR ''?'' # hex_bytes a
      else case ip_to4 a of Some v \<Rightarrow> dotted v | None \<Rightarrow> ip6_string a)"

lemma unat_byte_inj: "unat (a :: byte) = unat b \<Longrightarrow> a = b"
  by (simp add: word_unat_eq_iff)

lemma dotted_inj:
  "length a = length b \<Longrightarrow> dotted a = dotted b \<Longrightarrow> a = b"
proof (induction a arbitrary: b rule: dotted.induct)
  case 1
  then show ?case by simp
next
  case (2 x)
  then obtain y where "b = [y]" by (cases b) auto
  with 2 show ?case by (auto dest: dec_string_inj unat_byte_inj)
next
  case (3 x y zs)
  then obtain x' y' zs' where b: "b = x' # y' # zs'" by (cases b rule: dotted.cases) auto
  with "3.prems"(2)
  have "dec_string (unat x) = dec_string (unat x') \<and> dotted (y # zs) = dotted (y' # zs')"
    by (intro sep_append_inj [of _ "CHR ''.''"]) (auto simp: dec_string_no_dot)
  then have "x = x'" and "dotted (y # zs) = dotted (y' # zs')"
    by (auto dest: dec_string_inj unat_byte_inj)
  with "3.IH" [of "y' # zs'"] "3.prems"(1) b show ?case by simp
qed

text \<open>Two IPv4 addresses, in either of Go's forms, print alike only if they are the same.\<close>

lemma ip_String_v4_inj:
  assumes "ip_to4 a = Some v" and "ip_to4 b = Some w" and "ip_String a = ip_String b"
  shows "v = w"
proof -
  have len: "length a = 4 \<or> length a = 16" "length b = 4 \<or> length b = 16"
    using assms by (auto simp: ip_to4_def split: if_splits)
  then have "a \<noteq> []" "b \<noteq> []" by auto
  with len assms have "dotted v = dotted w" by (auto simp: ip_String_def)
  with assms show ?thesis by (metis dotted_inj ip_to4_length)
qed

section \<open>Parsing\<close>

text \<open>
  \<open>net.ParseIP\<close>, which is \<open>netip.ParseAddr\<close> without zones: the four fields of a dotted address
  (no leading zeros, each at most 255), and the groups of an IPv6 address with one ellipsis and
  an optional dotted tail.  The result is a 16-byte address, or \<open>nil\<close>.
\<close>

fun v4_fields :: "string \<Rightarrow> nat list \<Rightarrow> nat \<Rightarrow> nat \<Rightarrow> bytes option" where
  "v4_fields [] fs val digLen = (if length fs < 3 then None else Some (map of_nat (fs @ [val])))"
| "v4_fields (c # s) fs val digLen =
     (if is_digit c then
        if digLen = 1 \<and> val = 0 then None
        else let v = val * 10 + digit_value c in if v > 255 then None else v4_fields s fs v (Suc digLen)
      else if c = CHR ''.'' then
        if digLen = 0 \<or> s = [] \<or> length fs = 3 then None else v4_fields s (fs @ [val]) 0 0
      else None)"

definition hex_value :: "char \<Rightarrow> nat option" where
  "hex_value c =
     (let n = of_char c :: nat in
      if 48 \<le> n \<and> n \<le> 57 then Some (n - 48)
      else if 97 \<le> n \<and> n \<le> 102 then Some (n - 87)
      else if 65 \<le> n \<and> n \<le> 70 then Some (n - 55)
      else None)"

text \<open>The group loop: the bytes so far (their number is \<open>i\<close>), the position of the ellipsis, the
  rest of the string.\<close>

function v6_groups :: "bytes \<Rightarrow> nat option \<Rightarrow> string \<Rightarrow> (bytes \<times> nat option \<times> string) option" where
  "v6_groups a ell s =
     (if length a \<ge> 16 then Some (a, ell, s)
      else
        let h = takeWhile (\<lambda>c. hex_value c \<noteq> None) s;
            rest = drop (length h) s;
            acc = foldl (\<lambda>v c. v * 16 + the (hex_value c)) 0 h
        in if length h > 4 \<or> h = [] then None
           else if rest \<noteq> [] \<and> hd rest = CHR ''.'' then
             if (ell = None \<and> length a \<noteq> 12) \<or> length a + 4 > 16 then None
             else map_option (\<lambda>v4. (a @ v4, ell, [])) (v4_fields s [] 0 0)
           else
             let a' = a @ [of_nat (acc div 256), of_nat (acc mod 256)]
             in case rest of
                  [] \<Rightarrow> Some (a', ell, [])
                | c # t \<Rightarrow>
                    if c \<noteq> CHR '':'' \<or> t = [] then None
                    else if hd t = CHR '':'' then
                      if ell \<noteq> None then None
                      else if tl t = [] then Some (a', Some (length a'), [])
                      else v6_groups a' (Some (length a')) (tl t)
                    else v6_groups a' ell t)"
  by pat_completeness auto
termination
  by (relation "measure (\<lambda>(a, ell, s). 16 - length a)") auto

declare v6_groups.simps [simp del]

definition parse_v6 :: "string \<Rightarrow> bytes option" where
  "parse_v6 s =
     (let (ell, s') = (if take 2 s = ''::'' then (Some 0, drop 2 s) else (None, s))
      in if ell = Some 0 \<and> s' = [] then Some (replicate 16 0)
         else case v6_groups [] ell s' of
           None \<Rightarrow> None
         | Some (a, ell, rest) \<Rightarrow>
             if rest \<noteq> [] then None
             else if length a < 16 then
               (case ell of None \<Rightarrow> None
                | Some p \<Rightarrow> Some (take p a @ replicate (16 - length a) 0 @ drop p a))
             else if ell \<noteq> None then None else Some a)"

definition ParseIP :: "string \<Rightarrow> ip" where
  "ParseIP s =
     (case find (\<lambda>c. c = CHR ''.'' \<or> c = CHR '':'' \<or> c = CHR ''%'') s of
        Some c \<Rightarrow>
          if c = CHR ''.'' then (case v4_fields s [] 0 0 of Some v \<Rightarrow> v4InV6Prefix @ v | None \<Rightarrow> nil_ip)
          else if c = CHR '':'' \<and> CHR ''%'' \<notin> set s then (case parse_v6 s of Some a \<Rightarrow> a | None \<Rightarrow> nil_ip)
          else nil_ip
      | None \<Rightarrow> nil_ip)"

lemma v4_fields_dec:
  "n < 256 \<Longrightarrow> v4_fields (dec_string n @ rest) fs 0 0 = v4_fields rest fs n (length (dec_string n))"
proof (induction n arbitrary: rest rule: dec_string.induct)
  case (1 n)
  show ?case
  proof (cases "n < 10")
    case True
    then have "dec_string n = [digit n]" by (simp add: dec_string.simps)
    with True show ?thesis by simp
  next
    case False
    then have d: "dec_string n = dec_string (n div 10) @ [digit (n mod 10)]" by (subst dec_string.simps) simp
    have "v4_fields (dec_string n @ rest) fs 0 0
        = v4_fields (digit (n mod 10) # rest) fs (n div 10) (length (dec_string (n div 10)))"
      using "1.IH" [OF False, of "digit (n mod 10) # rest"] "1.prems" by (simp add: d)
    also have "\<dots> = v4_fields rest fs n (Suc (length (dec_string (n div 10))))"
      using div_greater_zero_iff [of n 10] False "1.prems" by (auto simp: Let_def)
    finally show ?thesis by (simp add: d)
  qed
qed

lemma find_append_none: "(\<And>x. x \<in> set xs \<Longrightarrow> \<not> P x) \<Longrightarrow> P y \<Longrightarrow> find P (xs @ y # ys) = Some y"
  by (induction xs) auto

lemma find_dotted_head:
  "find (\<lambda>c. c = CHR ''.'' \<or> c = CHR '':'' \<or> c = CHR ''%'') (dec_string n @ CHR ''.'' # rest) = Some (CHR ''.'')"
proof -
  have "\<not> (c = CHR ''.'' \<or> c = CHR '':'' \<or> c = CHR ''%'')" if "c \<in> set (dec_string n)" for c
    using that dec_string_digits [of n] by (auto simp: list_all_iff is_digit_def)
  then show ?thesis by (intro find_append_none) auto
qed

text \<open>Parsing the dotted form gives the address back.\<close>

lemma ParseIP_dotted: "ParseIP (dotted [a, b, c, d]) = ipv4_16 a b c d"
proof -
  have small: "unat x < 256" for x :: byte using unsigned_less [of x] by simp
  have nd: "\<not> is_digit CHR ''.''" by (simp add: is_digit_def)
  have "v4_fields (dotted [a, b, c, d]) [] 0 0 = Some [a, b, c, d]"
    using v4_fields_dec [OF small, of d "[]"] by (simp add: v4_fields_dec [OF small] nd)
  moreover have "find (\<lambda>c. c = CHR ''.'' \<or> c = CHR '':'' \<or> c = CHR ''%'') (dotted [a, b, c, d]) = Some (CHR ''.'')"
    using find_dotted_head by simp
  ultimately show ?thesis unfolding ParseIP_def by (simp add: ipv4_16_def)
qed

end
