(* ===== verification/Flow_Types.thy ===== *)
theory Flow_Types
  imports Go_Time Go_Net
begin

text \<open>
  Package \<open>decoder\<close> (\<open>internal/decoder/decoder.go\<close>): the protocol-agnostic flow record every
  decoder emits, the errors the decoders return, and the contract of the \<open>Decoder\<close> interface.
  The contract is the locale \<open>flow_decoder\<close>; each decoder theory interprets it.
\<close>

record flow =
  f_SrcIP :: ip
  f_DstIP :: ip
  f_SrcPort :: u16
  f_DstPort :: u16
  f_Protocol :: u8
  f_TOS :: u8
  f_TCPFlags :: u8
  f_Bytes :: u64
  f_Packets :: u64
  f_FlowStart :: gotime
  f_FlowEnd :: gotime
  f_NatPublicIP :: ip
  f_NatPublicPort :: u16
  f_NatDestIP :: ip
  f_NatDestPort :: u16
  f_NatEvent :: u8
  f_Username :: string
  f_ExporterIP :: ip

text \<open>The zero value of the Go struct.\<close>

definition zero_flow :: flow where
  "zero_flow = \<lparr>f_SrcIP = nil_ip, f_DstIP = nil_ip, f_SrcPort = 0, f_DstPort = 0,
     f_Protocol = 0, f_TOS = 0, f_TCPFlags = 0, f_Bytes = 0, f_Packets = 0,
     f_FlowStart = zero_time, f_FlowEnd = zero_time,
     f_NatPublicIP = nil_ip, f_NatPublicPort = 0, f_NatDestIP = nil_ip, f_NatDestPort = 0,
     f_NatEvent = 0, f_Username = [], f_ExporterIP = nil_ip\<rparr>"

text \<open>The errors a decoder can return.  NetFlow v5 wraps the offending version number.\<close>

datatype decode_error =
    ErrUnsupported
  | ErrShortPacket
  | ErrWrongVersion "u16 option"
  | ErrMessage string

text \<open>
  The result of one \<open>Decode\<close> call: the extended slice, the error (or \<open>nil\<close>) and the state of
  the decoder afterwards; \<open>None\<close> is a panic or a call that does not return.
\<close>

type_synonym 's decode_result = "(flow list \<times> decode_error option \<times> 's) option"

text \<open>
  The contract of \<open>Decoder.Decode\<close>: from a well-formed decoder state the call returns
  normally, the state stays well formed, flows are only appended to \<open>dst\<close>, at most \<open>cap\<close> of
  them, and nothing is appended when an error is reported.
\<close>

locale flow_decoder =
  fixes decode :: "'s \<Rightarrow> flow list \<Rightarrow> bytes \<Rightarrow> ip \<Rightarrow> 's decode_result"
    and dinv :: "'s \<Rightarrow> bool"
    and cap :: nat
  assumes decode_returns:
      "dinv s \<Longrightarrow> \<exists>fs err s'. decode s dst payload exporter = Some (dst @ fs, err, s')
         \<and> dinv s' \<and> length fs \<le> cap \<and> (err \<noteq> None \<longrightarrow> fs = [])"
begin

lemma decode_keeps_dinv: "dinv s \<Longrightarrow> decode s dst p e = Some (out, err, s') \<Longrightarrow> dinv s'"
  using decode_returns [of s dst p e] by auto

lemma decode_appends:
  "dinv s \<Longrightarrow> decode s dst p e = Some (out, err, s') \<Longrightarrow>
   \<exists>fs. out = dst @ fs \<and> length fs \<le> cap \<and> (err \<noteq> None \<longrightarrow> fs = [])"
  using decode_returns [of s dst p e] by auto

end

end
