(* ===== verification/Template_Cache.thy ===== *)
theory Template_Cache
  imports Go_Time
begin

text \<open>
  The template cache that the packages \<open>netflow9\<close> and \<open>ipfix\<close> each contain, with the same text
  (\<open>putTemplate\<close>, \<open>getTemplate\<close>, \<open>sweepLocked\<close>): templates by key, each with the time it was last
  seen, a sweep that drops idle templates, and a hard cap enforced by evicting the oldest.
  The definitions are polymorphic in the key and the template; the decoder theories
  instantiate them.  A Go map is an association list with distinct keys, whose order stands
  for the iteration order.

  \<open>time.Now().UnixNano()\<close> is read from a clock: reading number \<open>i\<close> is \<open>clk i\<close>, and the cache
  counts the readings.  The eviction loop does not end when every entry carries the largest
  \<open>int64\<close> as its time; it is a partial function, and it is shown to return for clocks that
  stay below that value.

  The contract of the cache towards the decoders is the locale \<open>template_store\<close>.
\<close>

record ('k, 't) tcache =
  tc_entries :: "('k \<times> ('t \<times> int)) list"
  tc_lastSweep :: int
  tc_ticks :: nat

definition empty_cache :: "('k, 't) tcache" where
  "empty_cache = \<lparr>tc_entries = [], tc_lastSweep = 0, tc_ticks = 0\<rparr>"

definition templateTTL :: int where "templateTTL = 30 * 60 * 1000000000"
definition sweepEvery :: int where "sweepEvery = 60 * 1000000000"
definition maxTemplates :: nat where "maxTemplates = 65536"
definition maxInt64 :: int where "maxInt64 = 2 ^ 63 - 1"

text \<open>The inner loop of the eviction: the key of an entry with the least time, or the zero key.\<close>

definition oldestKey :: "'k \<Rightarrow> ('k \<times> ('t \<times> int)) list \<Rightarrow> 'k" where
  "oldestKey zk es =
     snd (foldl (\<lambda>(oldest, ok) (k, t, ls). if ls < oldest then (ls, k) else (oldest, ok))
       (maxInt64, zk) es)"

partial_function (option) evictOldest ::
  "'k \<Rightarrow> ('k \<times> ('t \<times> int)) list \<Rightarrow> ('k \<times> ('t \<times> int)) list option" where
  "evictOldest zk es =
     (if maxTemplates < length es then evictOldest zk (AList.delete (oldestKey zk es) es)
      else Some es)"

definition sweepLocked :: "'k \<Rightarrow> int \<Rightarrow> ('k, 't) tcache \<Rightarrow> ('k, 't) tcache option" where
  "sweepLocked zk now c = do {
     let es = filter (\<lambda>(k, t, ls). \<not> now - ls > templateTTL) (tc_entries c);
     es' \<leftarrow> evictOldest zk es;
     Some (c\<lparr>tc_lastSweep := now, tc_entries := es'\<rparr>)
   }"

definition putTemplate ::
  "(nat \<Rightarrow> int) \<Rightarrow> 'k \<Rightarrow> 'k \<Rightarrow> 't \<Rightarrow> ('k, 't) tcache \<Rightarrow> ('k, 't) tcache option" where
  "putTemplate clk zk k t c =
     (let now = clk (tc_ticks c);
          c = c\<lparr>tc_ticks := Suc (tc_ticks c), tc_entries := AList.update k (t, now) (tc_entries c)\<rparr>
      in if now - tc_lastSweep c > sweepEvery \<or> length (tc_entries c) > maxTemplates
         then sweepLocked zk now c else Some c)"

definition getTemplate ::
  "(nat \<Rightarrow> int) \<Rightarrow> 'k \<Rightarrow> ('k, 't) tcache \<Rightarrow> 't option \<times> ('k, 't) tcache" where
  "getTemplate clk k c =
     (case map_of (tc_entries c) k of
        None \<Rightarrow> (None, c)
      | Some (t, _) \<Rightarrow>
          (Some t, c\<lparr>tc_ticks := Suc (tc_ticks c),
                     tc_entries := AList.update k (t, clk (tc_ticks c)) (tc_entries c)\<rparr>))"

definition deleteTemplate :: "'k \<Rightarrow> ('k, 't) tcache \<Rightarrow> ('k, 't) tcache" where
  "deleteTemplate k c = c\<lparr>tc_entries := AList.delete k (tc_entries c)\<rparr>"

section \<open>The eviction loop\<close>

definition tc_find :: "('k, 't) tcache \<Rightarrow> 'k \<Rightarrow> 't option" where
  "tc_find c k = map_option fst (map_of (tc_entries c) k)"

definition clock_ok :: "(nat \<Rightarrow> int) \<Rightarrow> bool" where
  "clock_ok clk \<longleftrightarrow> (\<forall>i. clk i < maxInt64)"

definition entries_ok :: "('k \<times> ('t \<times> int)) list \<Rightarrow> bool" where
  "entries_ok es \<longleftrightarrow> distinct (map fst es) \<and> list_all (\<lambda>(k, t, ls). ls < maxInt64) es"

definition cache_inv :: "(nat \<Rightarrow> int) \<Rightarrow> ('k, 't) tcache \<Rightarrow> bool" where
  "cache_inv clk c \<longleftrightarrow> clock_ok clk \<and> entries_ok (tc_entries c) \<and> length (tc_entries c) \<le> maxTemplates"

lemma oldest_scan_in:
  "snd (foldl (\<lambda>(oldest, ok) (k, t, ls). if ls < oldest then (ls, k) else (oldest, ok)) (m, zk) es)
     \<in> insert zk (fst ` set es)"
  by (induction es arbitrary: m zk) (fastforce split: if_splits)+

lemma oldestKey_in:
  assumes "es \<noteq> []" and "list_all (\<lambda>(k, t, ls). ls < maxInt64) es"
  shows "oldestKey zk es \<in> fst ` set es"
proof -
  obtain k t ls es' where es: "es = (k, t, ls) # es'" using assms(1) by (cases es) auto
  then have "ls < maxInt64" using assms(2) by simp
  then show ?thesis
    using oldest_scan_in [of ls k es'] by (auto simp: oldestKey_def es)
qed

lemma entries_ok_delete: "entries_ok es \<Longrightarrow> entries_ok (AList.delete k es)"
  by (auto simp: entries_ok_def list_all_iff AList.delete_eq intro: distinct_map_filter)

lemma evictOldest_returns:
  "entries_ok es \<Longrightarrow> \<exists>es'. evictOldest zk es = Some es' \<and> length es' \<le> maxTemplates \<and> entries_ok es'
     \<and> set es' \<subseteq> set es \<and> (length es \<le> maxTemplates \<longrightarrow> es' = es)"
proof (induction "length es" arbitrary: es rule: less_induct)
  case less
  show ?case
  proof (cases "maxTemplates < length es")
    case True
    let ?d = "AList.delete (oldestKey zk es) es"
    from True have "oldestKey zk es \<in> fst ` set es"
      using less.prems by (intro oldestKey_in) (auto simp: entries_ok_def)
    then have "length ?d < length es" by (rule delete_length_less)
    then obtain es' where "evictOldest zk ?d = Some es'" "length es' \<le> maxTemplates" "entries_ok es'"
      "set es' \<subseteq> set ?d"
      using less.hyps [of ?d] entries_ok_delete [OF less.prems] by blast
    moreover have "set ?d \<subseteq> set es" by (auto simp: AList.delete_eq)
    ultimately show ?thesis using True by (subst evictOldest.simps) auto
  next
    case False
    then show ?thesis using less.prems by (subst evictOldest.simps) auto
  qed
qed

lemma entries_ok_update:
  "entries_ok es \<Longrightarrow> ls < maxInt64 \<Longrightarrow> entries_ok (AList.update k (t, ls) es)"
  by (auto simp: entries_ok_def list_all_iff distinct_update dest!: alist_update_in)

lemma map_of_subset:
  "distinct (map fst xs) \<Longrightarrow> set ys \<subseteq> set xs \<Longrightarrow> map_of ys k = Some v \<Longrightarrow> map_of xs k = Some v"
  by (meson map_of_SomeD map_of_is_SomeI subsetD)

lemma sweepLocked_returns:
  assumes "entries_ok (tc_entries c)"
  shows "\<exists>c'. sweepLocked zk now c = Some c' \<and> entries_ok (tc_entries c')
    \<and> length (tc_entries c') \<le> maxTemplates \<and> set (tc_entries c') \<subseteq> set (tc_entries c)
    \<and> (length (tc_entries c) \<le> maxTemplates \<longrightarrow>
         tc_entries c' = filter (\<lambda>(k, t, ls). \<not> now - ls > templateTTL) (tc_entries c))"
proof -
  let ?es = "filter (\<lambda>(k, t, ls). \<not> now - ls > templateTTL) (tc_entries c)"
  have "entries_ok ?es"
    using assms by (auto simp: entries_ok_def list_all_iff intro: distinct_map_filter)
  from evictOldest_returns [OF this, of zk]
  obtain es' where "evictOldest zk ?es = Some es'" "length es' \<le> maxTemplates" "entries_ok es'"
    "set es' \<subseteq> set ?es" "length ?es \<le> maxTemplates \<longrightarrow> es' = ?es"
    by (elim exE conjE)
  moreover have "length ?es \<le> maxTemplates" if "length (tc_entries c) \<le> maxTemplates"
    using that by (rule order.trans [OF length_filter_le])
  ultimately show ?thesis by (auto simp: sweepLocked_def Let_def)
qed

section \<open>The contract\<close>

locale template_store =
  fixes put :: "'k \<Rightarrow> 't \<Rightarrow> 's \<Rightarrow> 's option"
    and find :: "'s \<Rightarrow> 'k \<Rightarrow> 't option"
    and sinv :: "'s \<Rightarrow> bool"
    and room :: "'s \<Rightarrow> bool"
  assumes put_returns: "sinv s \<Longrightarrow> \<exists>s'. put k t s = Some s' \<and> sinv s'"
    and put_find: "sinv s \<Longrightarrow> put k t s = Some s' \<Longrightarrow> find s' j = Some u \<Longrightarrow>
        (j = k \<and> u = t) \<or> (j \<noteq> k \<and> find s j = Some u)"
    and put_room: "sinv s \<Longrightarrow> room s \<Longrightarrow> put k t s = Some s' \<Longrightarrow> find s' k = Some t"
begin

text \<open>A property of the stored templates is kept when the new template has it.\<close>

lemma put_keeps_all:
  assumes "sinv s" and "put k t s = Some s'" and "P k t" and "\<And>j u. find s j = Some u \<Longrightarrow> P j u"
  shows "find s' j = Some u \<Longrightarrow> P j u"
  using put_find [OF assms(1,2)] assms(3,4) by blast

text \<open>No other key appears, and no other key changes its template.\<close>

lemma put_frame:
  "sinv s \<Longrightarrow> put k t s = Some s' \<Longrightarrow> j \<noteq> k \<Longrightarrow> find s j = None \<Longrightarrow> find s' j = None"
  using put_find [of s k t s' j] by (cases "find s' j") auto

end

lemma putTemplate_spec:
  assumes inv: "cache_inv clk c"
  shows "\<exists>c'. putTemplate clk zk k t c = Some c' \<and> cache_inv clk c'
    \<and> set (tc_entries c') \<subseteq> set (AList.update k (t, clk (tc_ticks c)) (tc_entries c))
    \<and> (length (tc_entries c) < maxTemplates \<longrightarrow> tc_find c' k = Some t)"
proof -
  let ?now = "clk (tc_ticks c)"
  let ?es = "AList.update k (t, ?now) (tc_entries c)"
  let ?c = "c\<lparr>tc_ticks := Suc (tc_ticks c), tc_entries := ?es\<rparr>"
  have ok: "entries_ok ?es"
    using inv by (auto simp: cache_inv_def clock_ok_def intro: entries_ok_update)
  have get: "map_of ?es k = Some (t, ?now)" by (simp add: update_conv')
  show ?thesis
  proof (cases "?now - tc_lastSweep c > sweepEvery \<or> length ?es > maxTemplates")
    case True
    obtain c' where c': "sweepLocked zk ?now ?c = Some c'" "entries_ok (tc_entries c')"
      "length (tc_entries c') \<le> maxTemplates" "set (tc_entries c') \<subseteq> set ?es"
      "length ?es \<le> maxTemplates \<longrightarrow> tc_entries c' = filter (\<lambda>(k, t, ls). \<not> ?now - ls > templateTTL) ?es"
      using sweepLocked_returns [of ?c zk ?now] ok by auto
    have "tc_find c' k = Some t" if "length (tc_entries c) < maxTemplates"
    proof -
      have "length ?es \<le> maxTemplates"
        using that length_alist_update [of k "(t, ?now)" "tc_entries c"] by linarith
      then have "(k, t, ?now) \<in> set (tc_entries c')"
        using c'(5) map_of_SomeD [OF get] by (simp add: templateTTL_def)
      then show ?thesis using c'(2) by (auto simp: tc_find_def entries_ok_def)
    qed
    with True c' inv show ?thesis
      by (auto simp: putTemplate_def Let_def cache_inv_def)
  next
    case False
    with ok inv get show ?thesis
      by (auto simp: putTemplate_def Let_def cache_inv_def tc_find_def)
  qed
qed

interpretation tc: template_store "putTemplate clk zk" tc_find "cache_inv clk"
  "\<lambda>c. length (tc_entries c) < maxTemplates" for clk zk
proof
  fix c :: "('a, 'b) tcache" and k t
  assume inv: "cache_inv clk c"
  from putTemplate_spec [OF inv, of zk k t]
  show "\<exists>c'. putTemplate clk zk k t c = Some c' \<and> cache_inv clk c'" by blast
  fix c'
  assume put: "putTemplate clk zk k t c = Some c'"
  show "tc_find c' k = Some t" if "length (tc_entries c) < maxTemplates"
    using putTemplate_spec [OF inv, of zk k t] put that by auto
  fix j u
  assume "tc_find c' j = Some u"
  then obtain ls where "map_of (tc_entries c') j = Some (u, ls)" by (auto simp: tc_find_def)
  moreover have "set (tc_entries c') \<subseteq> set (AList.update k (t, clk (tc_ticks c)) (tc_entries c))"
    using putTemplate_spec [OF inv, of zk k t] put by auto
  moreover have "distinct (map fst (AList.update k (t, clk (tc_ticks c)) (tc_entries c)))"
    using inv by (auto simp: cache_inv_def entries_ok_def distinct_update)
  ultimately have "map_of (AList.update k (t, clk (tc_ticks c)) (tc_entries c)) j = Some (u, ls)"
    by (blast intro: map_of_subset)
  then show "(j = k \<and> u = t) \<or> (j \<noteq> k \<and> tc_find c j = Some u)"
    by (auto simp: update_conv' tc_find_def split: if_splits)
qed

lemma getTemplate_spec:
  assumes "cache_inv clk c"
  shows "fst (getTemplate clk k c) = tc_find c k"
    and "cache_inv clk (snd (getTemplate clk k c))"
    and "tc_find (snd (getTemplate clk k c)) = tc_find c"
proof -
  show "fst (getTemplate clk k c) = tc_find c k"
    by (auto simp: getTemplate_def tc_find_def split: option.splits)
  show "tc_find (snd (getTemplate clk k c)) = tc_find c"
    by (auto simp: getTemplate_def tc_find_def fun_eq_iff update_conv' split: option.splits)
  show "cache_inv clk (snd (getTemplate clk k c))"
  proof (cases "map_of (tc_entries c) k")
    case (Some p)
    then have "k \<in> fst ` set (tc_entries c)" by (force dest: map_of_SomeD)
    then have "length (AList.update k v (tc_entries c)) = length (tc_entries c)" for v
      by (rule length_alist_update_in)
    with Some assms show ?thesis
      by (cases p) (auto simp: getTemplate_def cache_inv_def clock_ok_def intro: entries_ok_update)
  qed (use assms in \<open>auto simp: getTemplate_def\<close>)
qed

lemma deleteTemplate_spec:
  assumes "cache_inv clk c"
  shows "cache_inv clk (deleteTemplate k c)"
    and "tc_find (deleteTemplate k c) = (tc_find c)(k := None)"
proof -
  show "cache_inv clk (deleteTemplate k c)"
    using assms by (auto simp: deleteTemplate_def cache_inv_def entries_ok_delete
        intro: order.trans [OF AList.length_delete_le])
  show "tc_find (deleteTemplate k c) = (tc_find c)(k := None)"
    by (auto simp: deleteTemplate_def tc_find_def fun_eq_iff delete_conv')
qed

lemma cache_inv_empty: "clock_ok clk \<Longrightarrow> cache_inv clk empty_cache"
  by (simp add: cache_inv_def empty_cache_def entries_ok_def)

end
