(* ===== verification/NetFlow9.thy ===== *)
theory NetFlow9
  imports Flow_Types Template_Cache
begin

text \<open>
  Package \<open>netflow9\<close> (\<open>internal/decoder/netflow9/netflow9.go\<close>): the template-based decoder of
  NetFlow version 9.  The definitions follow the Go functions, with every slice expression
  checked; the lemmas show that a datagram never makes the decoder panic or hang, that the
  cached templates keep their record length consistent with their fields, how many flows a
  datagram can produce, and which flows a Data FlowSet yields under a cached template.
\<close>

definition version_v9 :: u16 where "version_v9 = 9"
definition headerLen_v9 :: nat where "headerLen_v9 = 20"
definition flowsetTemplate :: u16 where "flowsetTemplate = 0"
definition flowsetOptionsTemplate :: u16 where "flowsetOptionsTemplate = 1"
definition flowsetDataMin :: u16 where "flowsetDataMin = 256"
definition maxRecordsPerPacket_v9 :: int where "maxRecordsPerPacket_v9 = 8192"

section \<open>Field values\<close>

text \<open>\<open>beUint\<close> reads at most the last eight bytes.\<close>

definition beUint_v9 :: "bytes \<Rightarrow> u64" where
  "beUint_v9 b =
     (let b = (if length b > 8 then drop (length b - 8) b else b)
      in foldl (\<lambda>x c. push_bit 8 x OR ucast c) 0 b)"

definition cloneIP_v9 :: "bytes \<Rightarrow> ip" where
  "cloneIP_v9 b = (if length b = 0 then nil_ip else b)"

definition msToTime_v9 :: "int \<Rightarrow> gotime" where
  "msToTime_v9 ms = time_Unix (ms sdiv 1000) ((ms smod 1000) * 1000000)"

text \<open>\<open>bytes.IndexByte(v, 0)\<close> cuts at the first NUL; then white space is trimmed.\<close>

definition trimField_v9 :: "bytes \<Rightarrow> string" where
  "trimField_v9 v = str_of_bytes (trim_space (takeWhile (\<lambda>b. b \<noteq> 0) v))"

definition fIN_BYTES :: u16 where "fIN_BYTES = 1"
definition fIN_PKTS :: u16 where "fIN_PKTS = 2"
definition fPROTOCOL :: u16 where "fPROTOCOL = 4"
definition fTOS :: u16 where "fTOS = 5"
definition fTCP_FLAGS :: u16 where "fTCP_FLAGS = 6"
definition fL4_SRC_PORT :: u16 where "fL4_SRC_PORT = 7"
definition fIPV4_SRC_ADDR :: u16 where "fIPV4_SRC_ADDR = 8"
definition fL4_DST_PORT :: u16 where "fL4_DST_PORT = 11"
definition fIPV4_DST_ADDR :: u16 where "fIPV4_DST_ADDR = 12"
definition fLAST_SWITCHED :: u16 where "fLAST_SWITCHED = 21"
definition fFIRST_SWITCHED :: u16 where "fFIRST_SWITCHED = 22"
definition fOUT_BYTES :: u16 where "fOUT_BYTES = 23"
definition fIPV6_SRC_ADDR :: u16 where "fIPV6_SRC_ADDR = 27"
definition fIPV6_DST_ADDR :: u16 where "fIPV6_DST_ADDR = 28"
definition fNAT_SRC_IPV4 :: u16 where "fNAT_SRC_IPV4 = 225"
definition fNAT_DST_IPV4 :: u16 where "fNAT_DST_IPV4 = 226"
definition fNAT_SRC_PORT :: u16 where "fNAT_SRC_PORT = 227"
definition fNAT_DST_PORT :: u16 where "fNAT_DST_PORT = 228"
definition fNAT_SRC_IPV6 :: u16 where "fNAT_SRC_IPV6 = 281"
definition fNAT_DST_IPV6 :: u16 where "fNAT_DST_IPV6 = 282"
definition fNAT_EVENT :: u16 where "fNAT_EVENT = 230"
definition fUSERNAME :: u16 where "fUSERNAME = 371"
definition fFLOW_START_MS :: u16 where "fFLOW_START_MS = 152"
definition fFLOW_END_MS :: u16 where "fFLOW_END_MS = 153"
definition fOBS_TIME_SEC :: u16 where "fOBS_TIME_SEC = 322"
definition fOBS_TIME_MS :: u16 where "fOBS_TIME_MS = 323"

lemmas v9_field_ids =
  fIN_BYTES_def fIN_PKTS_def fPROTOCOL_def fTOS_def fTCP_FLAGS_def fL4_SRC_PORT_def
  fIPV4_SRC_ADDR_def fL4_DST_PORT_def fIPV4_DST_ADDR_def fLAST_SWITCHED_def
  fFIRST_SWITCHED_def fOUT_BYTES_def fIPV6_SRC_ADDR_def fIPV6_DST_ADDR_def
  fNAT_SRC_IPV4_def fNAT_DST_IPV4_def fNAT_SRC_PORT_def fNAT_DST_PORT_def
  fNAT_SRC_IPV6_def fNAT_DST_IPV6_def fNAT_EVENT_def fUSERNAME_def
  fFLOW_START_MS_def fFLOW_END_MS_def fOBS_TIME_SEC_def fOBS_TIME_MS_def

text \<open>The observation-time elements fill whichever flow time is still zero.\<close>

definition setObsTime :: "gotime \<Rightarrow> flow \<Rightarrow> flow" where
  "setObsTime t f =
     (let f = (if time_IsZero (f_FlowStart f) then f\<lparr>f_FlowStart := t\<rparr> else f)
      in if time_IsZero (f_FlowEnd f) then f\<lparr>f_FlowEnd := t\<rparr> else f)"

definition applyField_v9 :: "flow \<Rightarrow> u16 \<Rightarrow> bytes \<Rightarrow> int \<Rightarrow> flow" where
  "applyField_v9 f typ v bootMS =
     (if typ = fIN_BYTES then f\<lparr>f_Bytes := beUint_v9 v\<rparr>
      else if typ = fOUT_BYTES then (if f_Bytes f = 0 then f\<lparr>f_Bytes := beUint_v9 v\<rparr> else f)
      else if typ = fIN_PKTS then f\<lparr>f_Packets := beUint_v9 v\<rparr>
      else if typ = fPROTOCOL then f\<lparr>f_Protocol := ucast (beUint_v9 v)\<rparr>
      else if typ = fTOS then f\<lparr>f_TOS := ucast (beUint_v9 v)\<rparr>
      else if typ = fTCP_FLAGS then f\<lparr>f_TCPFlags := ucast (beUint_v9 v)\<rparr>
      else if typ = fL4_SRC_PORT then f\<lparr>f_SrcPort := ucast (beUint_v9 v)\<rparr>
      else if typ = fL4_DST_PORT then f\<lparr>f_DstPort := ucast (beUint_v9 v)\<rparr>
      else if typ = fIPV4_SRC_ADDR \<or> typ = fIPV6_SRC_ADDR then f\<lparr>f_SrcIP := cloneIP_v9 v\<rparr>
      else if typ = fIPV4_DST_ADDR \<or> typ = fIPV6_DST_ADDR then f\<lparr>f_DstIP := cloneIP_v9 v\<rparr>
      else if typ = fFIRST_SWITCHED then
        f\<lparr>f_FlowStart := msToTime_v9 (wrap64 (bootMS + sint (beUint_v9 v)))\<rparr>
      else if typ = fLAST_SWITCHED then
        f\<lparr>f_FlowEnd := msToTime_v9 (wrap64 (bootMS + sint (beUint_v9 v)))\<rparr>
      else if typ = fNAT_SRC_IPV4 \<or> typ = fNAT_SRC_IPV6 then f\<lparr>f_NatPublicIP := cloneIP_v9 v\<rparr>
      else if typ = fNAT_SRC_PORT then f\<lparr>f_NatPublicPort := ucast (beUint_v9 v)\<rparr>
      else if typ = fNAT_DST_IPV4 \<or> typ = fNAT_DST_IPV6 then f\<lparr>f_NatDestIP := cloneIP_v9 v\<rparr>
      else if typ = fNAT_DST_PORT then f\<lparr>f_NatDestPort := ucast (beUint_v9 v)\<rparr>
      else if typ = fNAT_EVENT then f\<lparr>f_NatEvent := ucast (beUint_v9 v)\<rparr>
      else if typ = fUSERNAME then f\<lparr>f_Username := trimField_v9 v\<rparr>
      else if typ = fFLOW_START_MS then f\<lparr>f_FlowStart := msToTime_v9 (sint (beUint_v9 v))\<rparr>
      else if typ = fFLOW_END_MS then f\<lparr>f_FlowEnd := msToTime_v9 (sint (beUint_v9 v))\<rparr>
      else if typ = fOBS_TIME_MS then setObsTime (msToTime_v9 (sint (beUint_v9 v))) f
      else if typ = fOBS_TIME_SEC then setObsTime (msToTime_v9 (wrap64 (sint (beUint_v9 v) * 1000))) f
      else f)"

section \<open>Templates and the decoder state\<close>

record v9_field =
  typ_v9 :: u16
  length_v9 :: u16

record v9_template =
  fields_v9 :: "v9_field list"
  recordLen_v9 :: int
  isOptions_v9 :: bool

record v9_templateKey =
  exporter_v9 :: string
  sourceID_v9 :: u32
  id_v9 :: u16

definition zeroKey_v9 :: v9_templateKey where
  "zeroKey_v9 = \<lparr>exporter_v9 = [], sourceID_v9 = 0, id_v9 = 0\<rparr>"

text \<open>The two Prometheus counters may be absent (\<open>nil\<close>).\<close>

record v9_decoder =
  cache_v9 :: "(v9_templateKey, v9_template) tcache"
  templatesReceived_v9 :: "nat option"
  unknownTemplate_v9 :: "nat option"

definition New_v9 :: "nat option \<Rightarrow> nat option \<Rightarrow> v9_decoder" where
  "New_v9 received unknown =
     \<lparr>cache_v9 = empty_cache, templatesReceived_v9 = received, unknownTemplate_v9 = unknown\<rparr>"

definition Kind_v9 :: string where
  "Kind_v9 = ''netflow9''"

definition putTemplate_v9 ::
  "(nat \<Rightarrow> int) \<Rightarrow> v9_templateKey \<Rightarrow> v9_template \<Rightarrow> v9_decoder \<Rightarrow> v9_decoder option" where
  "putTemplate_v9 clk k t d = do {
     c \<leftarrow> putTemplate clk zeroKey_v9 k t (cache_v9 d);
     Some (d\<lparr>cache_v9 := c\<rparr>)
   }"

definition getTemplate_v9 ::
  "(nat \<Rightarrow> int) \<Rightarrow> v9_templateKey \<Rightarrow> v9_decoder \<Rightarrow> v9_template option \<times> v9_decoder" where
  "getTemplate_v9 clk k d = (let (t, c) = getTemplate clk k (cache_v9 d) in (t, d\<lparr>cache_v9 := c\<rparr>))"

definition incReceived_v9 :: "v9_decoder \<Rightarrow> v9_decoder" where
  "incReceived_v9 d = d\<lparr>templatesReceived_v9 := map_option Suc (templatesReceived_v9 d)\<rparr>"

definition incUnknown_v9 :: "v9_decoder \<Rightarrow> v9_decoder" where
  "incUnknown_v9 d = d\<lparr>unknownTemplate_v9 := map_option Suc (unknownTemplate_v9 d)\<rparr>"

section \<open>Template FlowSets\<close>

text \<open>The inner loop of \<open>parseTemplates\<close>: the fields, the position after them, the sum of
  their lengths.\<close>

fun readFields_v9 :: "bytes \<Rightarrow> nat \<Rightarrow> nat \<Rightarrow> (v9_field list \<times> nat \<times> int) option" where
  "readFields_v9 body p 0 = Some ([], p, 0)"
| "readFields_v9 body p (Suc n) = do {
     ft \<leftarrow> rd16 body p;
     fl \<leftarrow> rd16 body (p + 2);
     (fs, p', recLen) \<leftarrow> readFields_v9 body (p + 4) n;
     Some (\<lparr>typ_v9 = ft, length_v9 = fl\<rparr> # fs, p', uint fl + recLen)
   }"

lemma readFields_v9_pos: "readFields_v9 body p n = Some (fs, p', r) \<Longrightarrow> p' = p + 4 * n"
  by (induction n arbitrary: p fs p' r) (fastforce split: Option.bind_splits)+

function parseTemplates_v9 ::
  "(nat \<Rightarrow> int) \<Rightarrow> string \<Rightarrow> u32 \<Rightarrow> bytes \<Rightarrow> nat \<Rightarrow> v9_decoder \<Rightarrow> v9_decoder option" where
  "parseTemplates_v9 clk expS sourceID body p d =
     (if p + 4 \<le> length body then do {
        tid \<leftarrow> rd16 body p;
        fc \<leftarrow> rd16 body (p + 2);
        if unat fc = 0 \<or> p + 4 + unat fc * 4 > length body then Some d
        else do {
          (flds, p', recLen) \<leftarrow> readFields_v9 body (p + 4) (unat fc);
          d \<leftarrow> putTemplate_v9 clk \<lparr>exporter_v9 = expS, sourceID_v9 = sourceID, id_v9 = tid\<rparr>
                 \<lparr>fields_v9 = flds, recordLen_v9 = recLen, isOptions_v9 = False\<rparr> d;
          parseTemplates_v9 clk expS sourceID body p' (incReceived_v9 d)
        }
      } else Some d)"
  by pat_completeness auto
termination
  by (relation "measure (\<lambda>(clk, expS, sid, body, p, d). length body - p)")
    (auto dest!: readFields_v9_pos)

declare parseTemplates_v9.simps [simp del]

text \<open>\<open>for q := p; q+4 <= p+total; q += 4\<close>: the sum of the lengths of the option fields.\<close>

function optionLens_v9 :: "bytes \<Rightarrow> nat \<Rightarrow> nat \<Rightarrow> int option" where
  "optionLens_v9 body q stop =
     (if q + 4 \<le> stop then do {
        l \<leftarrow> rd16 body (q + 2);
        rest \<leftarrow> optionLens_v9 body (q + 4) stop;
        Some (uint l + rest)
      } else Some 0)"
  by pat_completeness auto
termination
  by (relation "measure (\<lambda>(body, q, stop). stop - q)") auto

declare optionLens_v9.simps [simp del]

definition parseOptionsTemplate_v9 ::
  "(nat \<Rightarrow> int) \<Rightarrow> string \<Rightarrow> u32 \<Rightarrow> bytes \<Rightarrow> v9_decoder \<Rightarrow> v9_decoder option" where
  "parseOptionsTemplate_v9 clk expS sourceID body d =
     (if length body < 6 then Some d
      else do {
        tid \<leftarrow> rd16 body 0;
        sl \<leftarrow> rd16 body 2;
        ol \<leftarrow> rd16 body 4;
        let total = unat sl + unat ol;
        if total \<le> 0 \<or> 6 + total > length body then Some d
        else do {
          recLen \<leftarrow> optionLens_v9 body 6 (6 + total);
          d \<leftarrow> putTemplate_v9 clk \<lparr>exporter_v9 = expS, sourceID_v9 = sourceID, id_v9 = tid\<rparr>
                 \<lparr>fields_v9 = [], recordLen_v9 = recLen, isOptions_v9 = True\<rparr> d;
          Some (incReceived_v9 d)
        }
      })"

section \<open>Data FlowSets\<close>

fun applyFields_v9 :: "v9_field list \<Rightarrow> bytes \<Rightarrow> nat \<Rightarrow> int \<Rightarrow> flow \<Rightarrow> flow option" where
  "applyFields_v9 [] r fp bootMS f = Some f"
| "applyFields_v9 (fld # fs) r fp bootMS f = do {
     let n = unat (length_v9 fld);
     v \<leftarrow> slice r fp (fp + n);
     applyFields_v9 fs r (fp + n) bootMS (applyField_v9 f (typ_v9 fld) v bootMS)
   }"

text \<open>The record loop of \<open>decodeData\<close>, for a record length \<open>n > 0\<close>.\<close>

function decodeRecords_v9 ::
  "v9_field list \<Rightarrow> nat \<Rightarrow> bytes \<Rightarrow> int \<Rightarrow> ip \<Rightarrow> int \<Rightarrow> nat \<Rightarrow> nat \<Rightarrow> flow list \<Rightarrow> flow list option" where
  "decodeRecords_v9 flds n body bootMS expIP limit pos emitted dst =
     (if pos + n \<le> length body \<and> int emitted < limit then do {
        r \<leftarrow> slice body pos (pos + n);
        f \<leftarrow> applyFields_v9 flds r 0 bootMS (zero_flow\<lparr>f_ExporterIP := expIP\<rparr>);
        decodeRecords_v9 flds n body bootMS expIP limit (pos + n) (Suc emitted) (dst @ [f])
      } else Some dst)"
  by pat_completeness auto
termination
  by (relation "measure (\<lambda>(flds, n, body, bootMS, expIP, limit, pos, emitted, dst). nat (limit - int emitted))")
    auto

declare decodeRecords_v9.simps [simp del]

definition decodeData_v9 ::
  "(nat \<Rightarrow> int) \<Rightarrow> flow list \<Rightarrow> string \<Rightarrow> u32 \<Rightarrow> u16 \<Rightarrow> bytes \<Rightarrow> int \<Rightarrow> ip \<Rightarrow> int \<Rightarrow> v9_decoder
    \<Rightarrow> (flow list \<times> v9_decoder) option" where
  "decodeData_v9 clk dst expS sourceID tid body bootMS exporter limit d =
     (case getTemplate_v9 clk \<lparr>exporter_v9 = expS, sourceID_v9 = sourceID, id_v9 = tid\<rparr> d of
        (None, d) \<Rightarrow> Some (dst, incUnknown_v9 d)
      | (Some tmpl, d) \<Rightarrow>
          if isOptions_v9 tmpl \<or> recordLen_v9 tmpl \<le> 0 then Some (dst, d)
          else do {
            dst' \<leftarrow> decodeRecords_v9 (fields_v9 tmpl) (nat (recordLen_v9 tmpl)) body bootMS
                      (cloneIP_v9 exporter) limit 0 0 dst;
            Some (dst', d)
          })"

section \<open>Decode\<close>

text \<open>The FlowSet loop of \<open>Decode\<close>.\<close>

function decodeSets_v9 ::
  "(nat \<Rightarrow> int) \<Rightarrow> string \<Rightarrow> u32 \<Rightarrow> int \<Rightarrow> ip \<Rightarrow> bytes \<Rightarrow> nat \<Rightarrow> int \<Rightarrow> flow list \<Rightarrow> v9_decoder
    \<Rightarrow> (flow list \<times> v9_decoder) option" where
  "decodeSets_v9 clk expS sourceID bootMS exporter payload off budget dst d =
     (if off + 4 \<le> length payload then do {
        fsID \<leftarrow> rd16 payload off;
        fl \<leftarrow> rd16 payload (off + 2);
        if unat fl < 4 \<or> off + unat fl > length payload then Some (dst, d)
        else do {
          body \<leftarrow> slice payload (off + 4) (off + unat fl);
          if fsID = flowsetTemplate then do {
            d \<leftarrow> parseTemplates_v9 clk expS sourceID body 0 d;
            decodeSets_v9 clk expS sourceID bootMS exporter payload (off + unat fl) budget dst d
          } else if fsID = flowsetOptionsTemplate then do {
            d \<leftarrow> parseOptionsTemplate_v9 clk expS sourceID body d;
            decodeSets_v9 clk expS sourceID bootMS exporter payload (off + unat fl) budget dst d
          } else if fsID \<ge> flowsetDataMin then do {
            (dst', d) \<leftarrow> decodeData_v9 clk dst expS sourceID fsID body bootMS exporter budget d;
            let budget' = budget - (int (length dst') - int (length dst));
            if budget' \<le> 0 then Some (dst', d)
            else decodeSets_v9 clk expS sourceID bootMS exporter payload (off + unat fl) budget' dst' d
          } else decodeSets_v9 clk expS sourceID bootMS exporter payload (off + unat fl) budget dst d
        }
      } else Some (dst, d))"
  by pat_completeness auto
termination
  by (relation "measure (\<lambda>(clk, expS, sid, boot, e, payload, off, budget, dst, d). length payload - off)")
    auto

declare decodeSets_v9.simps [simp del]

definition Decode_v9 ::
  "(nat \<Rightarrow> int) \<Rightarrow> v9_decoder \<Rightarrow> flow list \<Rightarrow> bytes \<Rightarrow> ip \<Rightarrow> v9_decoder decode_result" where
  "Decode_v9 clk d dst payload exporter =
     (if length payload < headerLen_v9 then Some (dst, Some ErrShortPacket, d)
      else do {
        v \<leftarrow> rd16 payload 0;
        if v \<noteq> version_v9 then Some (dst, Some (ErrWrongVersion None), d)
        else do {
          sysUptime \<leftarrow> rd32 payload 4;
          unixSecs \<leftarrow> rd32 payload 8;
          sourceID \<leftarrow> rd32 payload 16;
          let bootMS = uint unixSecs * 1000 - uint sysUptime;
          (dst', d') \<leftarrow> decodeSets_v9 clk (ip_String exporter) sourceID bootMS exporter payload
                          headerLen_v9 maxRecordsPerPacket_v9 dst d;
          Some (dst', None, d')
        }
      })"

section \<open>What a Data FlowSet means\<close>

text \<open>A record cut into its fields, and the flow it describes under a template.\<close>

definition fieldsLen_v9 :: "v9_field list \<Rightarrow> nat" where
  "fieldsLen_v9 fs = sum_list (map (\<lambda>f. unat (length_v9 f)) fs)"

fun fieldValues_v9 :: "v9_field list \<Rightarrow> bytes \<Rightarrow> (u16 \<times> bytes) list" where
  "fieldValues_v9 [] r = []"
| "fieldValues_v9 (f # fs) r =
     (typ_v9 f, take (unat (length_v9 f)) r) # fieldValues_v9 fs (drop (unat (length_v9 f)) r)"

definition v9_record_flow :: "v9_field list \<Rightarrow> int \<Rightarrow> ip \<Rightarrow> bytes \<Rightarrow> flow" where
  "v9_record_flow fs bootMS expIP r =
     foldl (\<lambda>f (t, v). applyField_v9 f t v bootMS) (zero_flow\<lparr>f_ExporterIP := expIP\<rparr>)
       (fieldValues_v9 fs r)"

lemma applyFields_v9_eq:
  "fp + fieldsLen_v9 fs \<le> length r \<Longrightarrow>
   applyFields_v9 fs r fp boot f =
     Some (foldl (\<lambda>f (t, v). applyField_v9 f t v boot) f (fieldValues_v9 fs (drop fp r)))"
  by (induction fs arbitrary: fp f)
    (simp_all add: fieldsLen_v9_def go_simps Let_def add.commute add.left_commute)

lemma decodeRecords_v9_eq:
  assumes "0 < n" and "fieldsLen_v9 fs = n"
  shows "decodeRecords_v9 fs n body boot e limit pos emitted dst =
    Some (dst @ map (v9_record_flow fs boot e) (take (nat (limit - int emitted)) (chunks n (drop pos body))))"
  using assms
proof (induction fs n body boot e limit pos emitted dst rule: decodeRecords_v9.induct)
  case (1 fs n body boot e limit pos emitted dst)
  show ?case
  proof (cases "pos + n \<le> length body \<and> int emitted < limit")
    case True
    let ?r = "take n (drop pos body)"
    have slice: "slice body pos (pos + n) = Some ?r" using True by (simp add: go_simps)
    have app: "applyFields_v9 fs ?r 0 boot (zero_flow\<lparr>f_ExporterIP := e\<rparr>) = Some (v9_record_flow fs boot e ?r)"
      using True "1.prems" by (subst applyFields_v9_eq) (auto simp: v9_record_flow_def)
    have "nat (limit - int emitted) = Suc (nat (limit - int (Suc emitted)))" using True by arith
    moreover have "chunks n (drop pos body) = ?r # chunks n (drop (pos + n) body)"
    proof -
      have "n \<le> length (drop pos body)" using True by auto
      from chunks_step [OF "1.prems"(1) this] show ?thesis by (simp add: add.commute)
    qed
    ultimately show ?thesis
      using True "1.IH" [OF True slice app "1.prems"]
      by (subst decodeRecords_v9.simps) (simp add: slice app)
  next
    case False
    then show ?thesis
      using "1.prems" by (subst decodeRecords_v9.simps) (auto simp: chunks_short not_le)
  qed
qed

section \<open>The invariant\<close>

definition template_ok_v9 :: "v9_template \<Rightarrow> bool" where
  "template_ok_v9 t \<longleftrightarrow> isOptions_v9 t \<or> recordLen_v9 t = int (fieldsLen_v9 (fields_v9 t))"

definition find_v9 :: "v9_decoder \<Rightarrow> v9_templateKey \<Rightarrow> v9_template option" where
  "find_v9 d = tc_find (cache_v9 d)"

definition v9_inv :: "(nat \<Rightarrow> int) \<Rightarrow> v9_decoder \<Rightarrow> bool" where
  "v9_inv clk d \<longleftrightarrow> cache_inv clk (cache_v9 d) \<and> (\<forall>k t. find_v9 d k = Some t \<longrightarrow> template_ok_v9 t)"

text \<open>Every template of \<open>d'\<close> is one of \<open>d\<close> or belongs to the exporter \<open>expS\<close>.\<close>

definition v9_from :: "string \<Rightarrow> v9_decoder \<Rightarrow> v9_decoder \<Rightarrow> bool" where
  "v9_from expS d d' \<longleftrightarrow> (\<forall>k t. find_v9 d' k = Some t \<longrightarrow> find_v9 d k = Some t \<or> exporter_v9 k = expS)"

lemma v9_from_refl [intro, simp]: "v9_from expS d d"
  by (simp add: v9_from_def)

lemma v9_from_trans: "v9_from expS d d' \<Longrightarrow> v9_from expS d' d'' \<Longrightarrow> v9_from expS d d''"
  by (fastforce simp: v9_from_def)

lemma inc_v9 [simp]:
  "find_v9 (incReceived_v9 d) = find_v9 d" "find_v9 (incUnknown_v9 d) = find_v9 d"
  "v9_inv clk (incReceived_v9 d) = v9_inv clk d" "v9_inv clk (incUnknown_v9 d) = v9_inv clk d"
  "v9_from expS d0 (incReceived_v9 d) = v9_from expS d0 d"
  "v9_from expS d0 (incUnknown_v9 d) = v9_from expS d0 d"
  by (simp_all add: find_v9_def v9_inv_def v9_from_def incReceived_v9_def incUnknown_v9_def)

lemma putTemplate_v9_ok:
  assumes "v9_inv clk d" and "template_ok_v9 t"
  shows "\<exists>d'. putTemplate_v9 clk k t d = Some d' \<and> v9_inv clk d' \<and> v9_from (exporter_v9 k) d d'"
proof -
  have inv: "cache_inv clk (cache_v9 d)" using assms(1) by (simp add: v9_inv_def)
  from tc.put_returns [OF inv, of zeroKey_v9 k t]
  obtain c where c: "putTemplate clk zeroKey_v9 k t (cache_v9 d) = Some c" "cache_inv clk c"
    by (elim exE conjE)
  have "(j = k \<and> u = t) \<or> (j \<noteq> k \<and> tc_find (cache_v9 d) j = Some u)" if "tc_find c j = Some u" for j u
    using tc.put_find [OF inv c(1) that] .
  then have "v9_inv clk (d\<lparr>cache_v9 := c\<rparr>)" "v9_from (exporter_v9 k) d (d\<lparr>cache_v9 := c\<rparr>)"
    using assms c(2) by (fastforce simp: v9_inv_def find_v9_def v9_from_def)+
  with c(1) show ?thesis by (simp add: putTemplate_v9_def)
qed

lemma getTemplate_v9_ok:
  assumes "v9_inv clk d" and "getTemplate_v9 clk k d = (t, d')"
  shows "t = find_v9 d k" "v9_inv clk d'" "find_v9 d' = find_v9 d"
  using assms getTemplate_spec [of clk "cache_v9 d" k]
  by (auto simp: v9_inv_def find_v9_def getTemplate_v9_def split: prod.splits)

section \<open>No datagram makes the decoder panic or hang\<close>

lemma readFields_v9_returns:
  "p + 4 * n \<le> length body \<Longrightarrow>
   \<exists>fs. readFields_v9 body p n = Some (fs, p + 4 * n, int (fieldsLen_v9 fs)) \<and> length fs = n"
proof (induction n arbitrary: p)
  case (Suc n)
  have "p + 4 + 4 * n \<le> length body" using Suc.prems by simp
  then obtain fs where "readFields_v9 body (p + 4) n = Some (fs, p + 4 + 4 * n, int (fieldsLen_v9 fs))" "length fs = n"
    using Suc.IH by blast
  with Suc.prems show ?case by (simp add: go_simps fieldsLen_v9_def)
qed (simp add: fieldsLen_v9_def)

lemma parseTemplates_v9_ok:
  "v9_inv clk d \<Longrightarrow> \<exists>d'. parseTemplates_v9 clk expS sid body p d = Some d' \<and> v9_inv clk d' \<and> v9_from expS d d'"
proof (induction "length body - p" arbitrary: p d rule: less_induct)
  case less
  show ?case
  proof (cases "p + 4 \<le> length body")
    case True
    let ?fc = "nat_at body (p + 2) 2"
    show ?thesis
    proof (cases "?fc = 0 \<or> p + 4 + ?fc * 4 > length body")
      case True
      with \<open>p + 4 \<le> length body\<close> less.prems show ?thesis
        by (subst parseTemplates_v9.simps) (auto simp: go_simps)
    next
      case False
      then obtain fs where fs: "readFields_v9 body (p + 4) ?fc = Some (fs, p + 4 + 4 * ?fc, int (fieldsLen_v9 fs))"
        using readFields_v9_returns [of "p + 4" ?fc body] by auto
      let ?k = "\<lparr>exporter_v9 = expS, sourceID_v9 = sid, id_v9 = of_nat (nat_at body p 2)\<rparr>"
      let ?t = "\<lparr>fields_v9 = fs, recordLen_v9 = int (fieldsLen_v9 fs), isOptions_v9 = False\<rparr>"
      obtain d1 where d1: "putTemplate_v9 clk ?k ?t d = Some d1" "v9_inv clk d1" "v9_from expS d d1"
        using putTemplate_v9_ok [OF less.prems, of ?t ?k] by (auto simp: template_ok_v9_def)
      have "length body - (p + 4 + 4 * ?fc) < length body - p" using True by linarith
      then obtain d' where "parseTemplates_v9 clk expS sid body (p + 4 + 4 * ?fc) (incReceived_v9 d1) = Some d'"
          "v9_inv clk d'" "v9_from expS (incReceived_v9 d1) d'"
        using less.hyps [of "p + 4 + 4 * ?fc" "incReceived_v9 d1"] d1(2) by auto
      moreover have "v9_from expS d d'"
        using d1(3) calculation(3) by (fastforce simp: v9_from_def)
      ultimately show ?thesis
        using True False fs d1(1) by (subst parseTemplates_v9.simps) (simp add: go_simps)
    qed
  next
    case False
    with less.prems show ?thesis by (subst parseTemplates_v9.simps) auto
  qed
qed

lemma optionLens_v9_returns: "stop \<le> length body \<Longrightarrow> \<exists>r. optionLens_v9 body q stop = Some r"
proof (induction body q stop rule: optionLens_v9.induct)
  case (1 body q stop)
  show ?case
  proof (cases "q + 4 \<le> stop")
    case True
    then have "rd16 body (q + 2) = Some (of_nat (nat_at body (q + 2) 2))"
      using "1.prems" by (simp add: go_simps)
    with "1.IH" [OF True this "1.prems"] True show ?thesis
      by (subst optionLens_v9.simps) auto
  qed (subst optionLens_v9.simps, simp)
qed

lemma parseOptionsTemplate_v9_ok:
  assumes "v9_inv clk d"
  shows "\<exists>d'. parseOptionsTemplate_v9 clk expS sid body d = Some d' \<and> v9_inv clk d' \<and> v9_from expS d d'"
proof (cases "length body < 6 \<or> nat_at body 2 2 + nat_at body 4 2 = 0
    \<or> 6 + (nat_at body 2 2 + nat_at body 4 2) > length body")
  case True
  with assms show ?thesis by (auto simp: parseOptionsTemplate_v9_def go_simps)
next
  case False
  let ?stop = "6 + (nat_at body 2 2 + nat_at body 4 2)"
  obtain r where r: "optionLens_v9 body 6 ?stop = Some r"
    using optionLens_v9_returns [of ?stop body 6] False by auto
  let ?k = "\<lparr>exporter_v9 = expS, sourceID_v9 = sid, id_v9 = of_nat (nat_at body 0 2)\<rparr>"
  let ?t = "\<lparr>fields_v9 = [], recordLen_v9 = r, isOptions_v9 = True\<rparr>"
  obtain d' where "putTemplate_v9 clk ?k ?t d = Some d'" "v9_inv clk d'" "v9_from expS d d'"
    using putTemplate_v9_ok [OF assms, of ?t ?k] by (auto simp: template_ok_v9_def)
  with False r show ?thesis by (auto simp: parseOptionsTemplate_v9_def go_simps)
qed

text \<open>What a Data FlowSet yields, by the template its key has in the cache.\<close>

definition v9_data_flows :: "v9_template option \<Rightarrow> int \<Rightarrow> bytes \<Rightarrow> int \<Rightarrow> ip \<Rightarrow> flow list" where
  "v9_data_flows tmpl limit body bootMS exporter =
     (case tmpl of
        None \<Rightarrow> []
      | Some t \<Rightarrow>
          if isOptions_v9 t \<or> recordLen_v9 t \<le> 0 then []
          else map (v9_record_flow (fields_v9 t) bootMS (cloneIP_v9 exporter))
                 (take (nat limit) (chunks (nat (recordLen_v9 t)) body)))"

lemma decodeData_v9_eq:
  assumes "v9_inv clk d"
  shows "\<exists>d'. decodeData_v9 clk dst expS sid tid body boot e limit d =
      Some (dst @ v9_data_flows (find_v9 d \<lparr>exporter_v9 = expS, sourceID_v9 = sid, id_v9 = tid\<rparr>) limit body boot e, d')
    \<and> v9_inv clk d' \<and> find_v9 d' = find_v9 d"
proof -
  let ?k = "\<lparr>exporter_v9 = expS, sourceID_v9 = sid, id_v9 = tid\<rparr>"
  obtain t d1 where get: "getTemplate_v9 clk ?k d = (t, d1)" by (metis surj_pair)
  note ok = getTemplate_v9_ok [OF assms get]
  show ?thesis
  proof (cases t)
    case None
    with get ok show ?thesis by (simp add: decodeData_v9_def v9_data_flows_def)
  next
    case (Some tm)
    then have found: "find_v9 d ?k = Some tm" using ok(1) by simp
    then have "template_ok_v9 tm" using assms by (simp add: v9_inv_def)
    then have len: "fieldsLen_v9 (fields_v9 tm) = nat (recordLen_v9 tm)"
      if "\<not> isOptions_v9 tm" using that by (simp add: template_ok_v9_def)
    show ?thesis
    proof (cases "isOptions_v9 tm \<or> recordLen_v9 tm \<le> 0")
      case True
      with get ok(2,3) Some found show ?thesis by (auto simp: decodeData_v9_def v9_data_flows_def)
    next
      case False
      then have "decodeRecords_v9 (fields_v9 tm) (nat (recordLen_v9 tm)) body boot (cloneIP_v9 e) limit 0 0 dst =
        Some (dst @ map (v9_record_flow (fields_v9 tm) boot (cloneIP_v9 e))
           (take (nat limit) (chunks (nat (recordLen_v9 tm)) body)))"
        using len by (subst decodeRecords_v9_eq) auto
      with False get ok(2,3) Some found show ?thesis
        by (auto simp: decodeData_v9_def v9_data_flows_def)
    qed
  qed
qed

lemma v9_data_flows_length: "0 \<le> limit \<Longrightarrow> int (length (v9_data_flows t limit body boot e)) \<le> limit"
  by (auto simp: v9_data_flows_def split: option.splits)

text \<open>One round of the FlowSet loop on a FlowSet that fits the datagram.\<close>

lemma decodeSets_v9_step:
  fixes off payload
  defines "l \<equiv> nat_at payload (off + 2) 2" and "fsID \<equiv> of_nat (nat_at payload off 2) :: u16"
  assumes "off + 4 \<le> length payload" and "4 \<le> l" and "off + l \<le> length payload"
  shows "decodeSets_v9 clk expS sid boot e payload off budget dst d =
     (let body = take (l - 4) (drop (off + 4) payload) in
      if fsID = flowsetTemplate then do {
        d \<leftarrow> parseTemplates_v9 clk expS sid body 0 d;
        decodeSets_v9 clk expS sid boot e payload (off + l) budget dst d
      } else if fsID = flowsetOptionsTemplate then do {
        d \<leftarrow> parseOptionsTemplate_v9 clk expS sid body d;
        decodeSets_v9 clk expS sid boot e payload (off + l) budget dst d
      } else if fsID \<ge> flowsetDataMin then do {
        (dst', d) \<leftarrow> decodeData_v9 clk dst expS sid fsID body boot e budget d;
        let budget' = budget - (int (length dst') - int (length dst));
        if budget' \<le> 0 then Some (dst', d)
        else decodeSets_v9 clk expS sid boot e payload (off + l) budget' dst' d
      } else decodeSets_v9 clk expS sid boot e payload (off + l) budget dst d)"
  using assms(3-5) unfolding l_def fsID_def
  by (subst decodeSets_v9.simps) (simp add: go_simps Let_def cong: if_cong)

lemma decodeSets_v9_ok:
  "v9_inv clk d \<Longrightarrow> 0 \<le> budget \<Longrightarrow>
   \<exists>fs d'. decodeSets_v9 clk expS sid boot e payload off budget dst d = Some (dst @ fs, d')
     \<and> v9_inv clk d' \<and> v9_from expS d d' \<and> int (length fs) \<le> budget"
proof (induction "length payload - off" arbitrary: off budget dst d rule: less_induct)
  case less
  let ?l = "nat_at payload (off + 2) 2"
  show ?case
  proof (cases "off + 4 \<le> length payload \<and> 4 \<le> ?l \<and> off + ?l \<le> length payload")
    case False
    with less.prems show ?thesis
      by (subst decodeSets_v9.simps) (auto simp: go_simps)
  next
    case True
    then have dec: "length payload - (off + ?l) < length payload - off" by linarith
    let ?id = "of_nat (nat_at payload off 2) :: u16"
    let ?body = "take (?l - 4) (drop (off + 4) payload)"
    note IH = less.hyps [OF dec]
    have step: "\<exists>fs d'. decodeSets_v9 clk expS sid boot e payload (off + ?l) budget dst d1 = Some (dst @ fs, d')
        \<and> v9_inv clk d' \<and> v9_from expS d d' \<and> int (length fs) \<le> budget"
      if "v9_inv clk d1" "v9_from expS d d1" for d1
      using IH [OF that(1) less.prems(2), of dst] v9_from_trans [OF that(2)] by blast
    have unfold: "off + 4 \<le> length payload" "4 \<le> ?l" "off + ?l \<le> length payload" using True by auto
    note unfold = decodeSets_v9_step [OF unfold, unfolded Let_def]
    consider "?id = flowsetTemplate" | "?id \<noteq> flowsetTemplate" "?id = flowsetOptionsTemplate"
      | "?id \<noteq> flowsetTemplate" "?id \<noteq> flowsetOptionsTemplate" "?id \<ge> flowsetDataMin"
      | "?id \<noteq> flowsetTemplate" "?id \<noteq> flowsetOptionsTemplate" "\<not> ?id \<ge> flowsetDataMin" by blast
    then show ?thesis
    proof cases
      case 1
      obtain d1 where "parseTemplates_v9 clk expS sid ?body 0 d = Some d1" "v9_inv clk d1" "v9_from expS d d1"
        using parseTemplates_v9_ok [OF less.prems(1)] by blast
      with 1 step [of d1] show ?thesis unfolding unfold by simp
    next
      case 2
      obtain d1 where "parseOptionsTemplate_v9 clk expS sid ?body d = Some d1" "v9_inv clk d1" "v9_from expS d d1"
        using parseOptionsTemplate_v9_ok [OF less.prems(1)] by blast
      with 2 step [of d1] show ?thesis unfolding unfold by simp
    next
      case 3
      define fs where "fs = v9_data_flows (find_v9 d \<lparr>exporter_v9 = expS, sourceID_v9 = sid, id_v9 = ?id\<rparr>) budget ?body boot e"
      obtain d1 where d1: "decodeData_v9 clk dst expS sid ?id ?body boot e budget d = Some (dst @ fs, d1)"
        "v9_inv clk d1" "find_v9 d1 = find_v9 d"
        using decodeData_v9_eq [OF less.prems(1)] unfolding fs_def by blast
      have frm: "v9_from expS d d1" using d1(3) by (simp add: v9_from_def)
      have len: "int (length fs) \<le> budget" using v9_data_flows_length [OF less.prems(2)] by (simp add: fs_def)
      show ?thesis
      proof (cases "budget - int (length fs) \<le> 0")
        case True
        with 3 d1 frm len show ?thesis unfolding unfold by auto
      next
        case False
        then obtain gs d' where "decodeSets_v9 clk expS sid boot e payload (off + ?l) (budget - int (length fs)) (dst @ fs) d1
            = Some ((dst @ fs) @ gs, d')" "v9_inv clk d'" "v9_from expS d1 d'" "int (length gs) \<le> budget - int (length fs)"
          using IH [OF d1(2), of "budget - int (length fs)" "dst @ fs"] by auto
        with 3 d1 False v9_from_trans [OF frm] show ?thesis
          unfolding unfold by (intro exI [of _ "fs @ gs"]) simp
      qed
    next
      case 4
      with step [of d] less.prems show ?thesis unfolding unfold by simp
    qed
  qed
qed

lemma Decode_v9_ok:
  assumes "v9_inv clk d"
  shows "\<exists>fs err d'. Decode_v9 clk d dst payload e = Some (dst @ fs, err, d') \<and> v9_inv clk d'
    \<and> v9_from (ip_String e) d d' \<and> length fs \<le> 8192 \<and> (err \<noteq> None \<longrightarrow> fs = [] \<and> d' = d)"
proof (cases "length payload < 20 \<or> nat_at payload 0 2 \<noteq> 9")
  case True
  with assms show ?thesis
    by (auto simp: Decode_v9_def go_simps headerLen_v9_def version_v9_def)
next
  case False
  let ?boot = "int (nat_at payload 8 4) * 1000 - int (nat_at payload 4 4)"
  obtain fs d' where "decodeSets_v9 clk (ip_String e) (of_nat (nat_at payload 16 4)) ?boot e payload 20 8192 dst d
      = Some (dst @ fs, d')" "v9_inv clk d'" "v9_from (ip_String e) d d'" "int (length fs) \<le> 8192"
    using decodeSets_v9_ok [OF assms, of 8192] by (metis zero_le_numeral)
  with False show ?thesis
    by (simp add: Decode_v9_def go_simps headerLen_v9_def version_v9_def maxRecordsPerPacket_v9_def)
qed

lemma Decode_v9_error_iff:
  "Decode_v9 clk d dst payload e = Some (out, err, d') \<Longrightarrow>
   err \<noteq> None \<longleftrightarrow> length payload < headerLen_v9 \<or> nat_at payload 0 2 \<noteq> unat version_v9"
  by (cases "length payload < 20")
    (auto simp: Decode_v9_def go_simps headerLen_v9_def version_v9_def split: Option.bind_splits if_splits)

interpretation v9: flow_decoder "Decode_v9 clk" "v9_inv clk" 8192 for clk
  by unfold_locales (metis Decode_v9_ok)

lemma v9_inv_New: "clock_ok clk \<Longrightarrow> v9_inv clk (New_v9 r u)"
  by (simp add: v9_inv_def New_v9_def find_v9_def cache_inv_empty)
    (simp add: tc_find_def empty_cache_def)

section \<open>Datagrams with one FlowSet\<close>

text \<open>A FlowSet on the wire, and the specifiers of a template in it.\<close>

definition v9_set :: "u16 \<Rightarrow> bytes \<Rightarrow> bytes" where
  "v9_set sid body = put16 sid @ put16 (of_nat (4 + length body)) @ body"

definition v9_specs :: "v9_field list \<Rightarrow> bytes" where
  "v9_specs fs = concat (map (\<lambda>f. put16 (typ_v9 f) @ put16 (length_v9 f)) fs)"

lemma v9_specs_simps [simp]:
  "v9_specs [] = []" "v9_specs (f # fs) = put16 (typ_v9 f) @ put16 (length_v9 f) @ v9_specs fs"
  by (simp_all add: v9_specs_def)

lemma length_v9_specs [simp]: "length (v9_specs fs) = 4 * length fs"
  by (induction fs) simp_all

lemma readFields_v9_specs:
  "length pre = p \<Longrightarrow> readFields_v9 (pre @ v9_specs fs @ rest) p (length fs) =
     Some (fs, p + 4 * length fs, int (fieldsLen_v9 fs))"
proof (induction fs arbitrary: pre p)
  case (Cons f fs)
  have "rd16 (pre @ put16 (typ_v9 f) @ put16 (length_v9 f) @ v9_specs fs @ rest) (p + 2) = Some (length_v9 f)"
    using Cons.prems rd16_put16 [of "pre @ put16 (typ_v9 f)" "p + 2"] by simp
  moreover have "readFields_v9 (pre @ put16 (typ_v9 f) @ put16 (length_v9 f) @ v9_specs fs @ rest) (p + 4) (length fs)
      = Some (fs, p + 4 + 4 * length fs, int (fieldsLen_v9 fs))"
    using Cons.prems Cons.IH [of "pre @ put16 (typ_v9 f) @ put16 (length_v9 f)" "p + 4"] by simp
  ultimately show ?case
    using Cons.prems by (simp add: rd16_put16 fieldsLen_v9_def)
qed (simp add: fieldsLen_v9_def)

lemma decodeSets_v9_end: "length payload < off + 4 \<Longrightarrow>
  decodeSets_v9 clk expS sid boot e payload off budget dst d = Some (dst, d)"
  by (subst decodeSets_v9.simps) simp

lemma Decode_v9_one_set:
  assumes "length h = 20" and "nat_at h 0 2 = 9" and "4 + length body < 65536"
  shows "Decode_v9 clk d dst (h @ v9_set sid body) e =
    (let expS = ip_String e; src = of_nat (nat_at h 16 4); boot = int (nat_at h 8 4) * 1000 - int (nat_at h 4 4) in
     if sid = flowsetTemplate then
       Option.bind (parseTemplates_v9 clk expS src body 0 d) (\<lambda>d. Some (dst, None, d))
     else if sid = flowsetOptionsTemplate then
       Option.bind (parseOptionsTemplate_v9 clk expS src body d) (\<lambda>d. Some (dst, None, d))
     else if sid \<ge> flowsetDataMin then
       Option.bind (decodeData_v9 clk dst expS src sid body boot e 8192 d) (\<lambda>(dst, d). Some (dst, None, d))
     else Some (dst, None, d))"
proof -
  define p where "p = h @ v9_set sid body"
  have hdr: "nat_at p 0 2 = 9" "nat_at p 4 4 = nat_at h 4 4" "nat_at p 8 4 = nat_at h 8 4"
    "nat_at p 16 4 = nat_at h 16 4" using assms by (simp_all add: p_def nat_at_append)
  have set1: "nat_at p 20 2 = unat sid" using assms(1) by (simp add: p_def nat_at_append2 v9_set_def)
  have "nat_at p 22 2 = nat_at (put16 (of_nat (4 + length body)) @ body) 0 2"
    using assms(1) nat_at_append2 [of "h @ put16 sid" 22 "put16 (of_nat (4 + length body)) @ body"]
    by (simp add: p_def v9_set_def)
  then have set2: "nat_at p 22 2 = 4 + length body"
    using assms(3) by (simp add: unat_of_nat_u16 del: of_nat_add)
  have len: "length p = 24 + length body" using assms(1) by (simp add: p_def v9_set_def)
  have body: "take (length body) (drop 24 p) = body" using assms(1) by (simp add: p_def v9_set_def)
  have step: "decodeSets_v9 clk (ip_String e) src boot e p 20 8192 dst d =
     (if sid = flowsetTemplate then
       Option.bind (parseTemplates_v9 clk (ip_String e) src body 0 d) (\<lambda>d. Some (dst, d))
     else if sid = flowsetOptionsTemplate then
       Option.bind (parseOptionsTemplate_v9 clk (ip_String e) src body d) (\<lambda>d. Some (dst, d))
     else if sid \<ge> flowsetDataMin then
       decodeData_v9 clk dst (ip_String e) src sid body boot e 8192 d
     else Some (dst, d))" for src boot
    using decodeSets_v9_step [of 20 p] len body
    by (simp add: set1 set2 decodeSets_v9_end Let_def case_prod_beta cong: if_cong)
  show ?thesis
    unfolding p_def [symmetric] using hdr len step
    by (simp add: Decode_v9_def go_simps headerLen_v9_def version_v9_def maxRecordsPerPacket_v9_def
        Let_def case_prod_beta split: Option.bind_splits)
qed

lemma putTemplate_v9_room:
  assumes "v9_inv clk d" and "length (tc_entries (cache_v9 d)) < maxTemplates"
    and "putTemplate_v9 clk k t d = Some d'"
  shows "find_v9 d' k = Some t"
proof -
  from assms(3) obtain c where "putTemplate clk zeroKey_v9 k t (cache_v9 d) = Some c" "d' = d\<lparr>cache_v9 := c\<rparr>"
    by (auto simp: putTemplate_v9_def split: Option.bind_splits)
  with tc.put_room [of clk "cache_v9 d" zeroKey_v9 k t c] assms(1,2) show ?thesis
    by (simp add: find_v9_def v9_inv_def)
qed

lemma parseTemplates_v9_one:
  assumes "fs \<noteq> []" and "length fs < 65536"
  shows "parseTemplates_v9 clk expS src (put16 tid @ put16 (of_nat (length fs)) @ v9_specs fs) 0 d =
    Option.bind (putTemplate_v9 clk \<lparr>exporter_v9 = expS, sourceID_v9 = src, id_v9 = tid\<rparr>
        \<lparr>fields_v9 = fs, recordLen_v9 = int (fieldsLen_v9 fs), isOptions_v9 = False\<rparr> d)
      (\<lambda>d. Some (incReceived_v9 d))"
proof -
  define b where "b = put16 tid @ put16 (of_nat (length fs)) @ v9_specs fs"
  have len: "length b = 4 + 4 * length fs" by (simp add: b_def)
  have rd: "rd16 b 0 = Some tid" "rd16 b 2 = Some (of_nat (length fs))"
    using rd16_put16 [of "[]" 0 tid "put16 (of_nat (length fs)) @ v9_specs fs"]
      rd16_put16 [of "put16 tid" 2 "of_nat (length fs)" "v9_specs fs"] by (simp_all add: b_def)
  have fields: "readFields_v9 b 4 (length fs) = Some (fs, 4 + 4 * length fs, int (fieldsLen_v9 fs))"
    using readFields_v9_specs [of "put16 tid @ put16 (of_nat (length fs))" 4 fs "[]"] by (simp add: b_def)
  have stop: "parseTemplates_v9 clk expS src b (4 + 4 * length fs) d = Some d" for d
    by (subst parseTemplates_v9.simps) (simp add: len)
  show ?thesis
    unfolding b_def [symmetric] using assms
    by (subst parseTemplates_v9.simps)
      (simp add: len rd fields stop unat_of_nat_u16)
qed

section \<open>Persistence of the cache\<close>

record v9_serializableField =
  sf_Type_v9 :: u16
  sf_Length_v9 :: u16

record v9_serializableTemplate =
  st_Exporter_v9 :: string
  st_SourceID_v9 :: u32
  st_ID_v9 :: u16
  st_Fields_v9 :: "v9_serializableField list"
  st_RecordLen_v9 :: int
  st_IsOptions_v9 :: bool

text \<open>
  Package \<open>encoding/json\<close> enters as the two parameters \<open>marshal\<close> and \<open>unmarshal\<close>, whose error
  is the left summand.
\<close>

definition DumpTemplates_v9 ::
  "(v9_serializableTemplate list \<Rightarrow> 'err + bytes) \<Rightarrow> v9_decoder \<Rightarrow> 'err + bytes" where
  "DumpTemplates_v9 marshal d =
     marshal (map (\<lambda>(k, t, ls).
       \<lparr>st_Exporter_v9 = exporter_v9 k, st_SourceID_v9 = sourceID_v9 k, st_ID_v9 = id_v9 k,
        st_Fields_v9 = map (\<lambda>f. \<lparr>sf_Type_v9 = typ_v9 f, sf_Length_v9 = length_v9 f\<rparr>) (fields_v9 t),
        st_RecordLen_v9 = recordLen_v9 t, st_IsOptions_v9 = isOptions_v9 t\<rparr>)
       (tc_entries (cache_v9 d)))"

definition restored_v9 :: "v9_serializableTemplate \<Rightarrow> v9_template" where
  "restored_v9 s =
     \<lparr>fields_v9 = map (\<lambda>f. \<lparr>typ_v9 = sf_Type_v9 f, length_v9 = sf_Length_v9 f\<rparr>) (st_Fields_v9 s),
      recordLen_v9 = st_RecordLen_v9 s, isOptions_v9 = st_IsOptions_v9 s\<rparr>"

definition LoadTemplates_v9 ::
  "(nat \<Rightarrow> int) \<Rightarrow> (bytes \<Rightarrow> 'err + v9_serializableTemplate list) \<Rightarrow> bytes \<Rightarrow> v9_decoder
    \<Rightarrow> 'err option \<times> v9_decoder" where
  "LoadTemplates_v9 clk unmarshal data d =
     (if length data = 0 then (None, d)
      else case unmarshal data of
        Inl err \<Rightarrow> (Some err, d)
      | Inr list \<Rightarrow>
          (let now = clk (tc_ticks (cache_v9 d));
               es = foldl (\<lambda>es s. AList.update
                      \<lparr>exporter_v9 = st_Exporter_v9 s, sourceID_v9 = st_SourceID_v9 s, id_v9 = st_ID_v9 s\<rparr>
                      (restored_v9 s, now) es) (tc_entries (cache_v9 d)) list
           in (None, d\<lparr>cache_v9 := (cache_v9 d)\<lparr>tc_entries := es, tc_ticks := Suc (tc_ticks (cache_v9 d))\<rparr>\<rparr>)))"

lemma v9_record_eta [simp]:
  "\<lparr>exporter_v9 = exporter_v9 k, sourceID_v9 = sourceID_v9 k, id_v9 = id_v9 k\<rparr> = k"
  "\<lparr>typ_v9 = typ_v9 f, length_v9 = length_v9 f\<rparr> = f"
  by simp_all

lemma restored_v9_dump:
  "restored_v9 \<lparr>st_Exporter_v9 = x, st_SourceID_v9 = y, st_ID_v9 = z,
     st_Fields_v9 = map (\<lambda>f. \<lparr>sf_Type_v9 = typ_v9 f, sf_Length_v9 = length_v9 f\<rparr>) (fields_v9 t),
     st_RecordLen_v9 = recordLen_v9 t, st_IsOptions_v9 = isOptions_v9 t\<rparr> = t"
  by (simp add: restored_v9_def o_def v9_record_eta)

lemma Load_Dump_v9:
  assumes "DumpTemplates_v9 marshal d = Inr data" and "data \<noteq> []"
    and "\<And>l. marshal l = Inr data \<Longrightarrow> unmarshal data = Inr l"
    and "distinct (map fst (tc_entries (cache_v9 d)))"
  shows "\<exists>d'. LoadTemplates_v9 clk unmarshal data (New_v9 r u) = (None, d') \<and> find_v9 d' = find_v9 d"
  using assms map_of_fold_update [OF assms(4), of "\<lambda>v. (fst v, clk 0)" "[]"]
  by (auto simp: LoadTemplates_v9_def DumpTemplates_v9_def New_v9_def empty_cache_def find_v9_def
      tc_find_def fun_eq_iff foldl_map restored_v9_dump v9_record_eta case_prod_beta option.map_comp o_def
      split: option.splits)


section \<open>Properties\<close>

text \<open>A decoder that has learned one template, for the examples below.\<close>

definition v9_example :: v9_decoder where
  "v9_example = (New_v9 None None)\<lparr>cache_v9 := \<lparr>tc_entries =
      [(\<lparr>exporter_v9 = ''192.0.2.7'', sourceID_v9 = 1, id_v9 = 256\<rparr>,
        \<lparr>fields_v9 = [\<lparr>typ_v9 = 8, length_v9 = 4\<rparr>], recordLen_v9 = 4, isOptions_v9 = False\<rparr>, 0)],
      tc_lastSweep = 0, tc_ticks = 0\<rparr>\<rparr>"

definition v9_example_header :: bytes where
  "v9_example_header = put16 9 @ put16 1 @ put32 1000 @ put32 2000 @ put32 7 @ put32 1"

lemma v9_example_header [simp]: "length v9_example_header = 20" "nat_at v9_example_header 0 2 = 9"
  by (simp_all add: v9_example_header_def)

lemma v9_inv_example: "v9_inv (\<lambda>_. 0) v9_example"
  by (auto simp: v9_inv_def v9_example_def cache_inv_def clock_ok_def maxInt64_def entries_ok_def
      maxTemplates_def find_v9_def tc_find_def template_ok_v9_def fieldsLen_v9_def)

text \<open>
  C2.  Decoding is safe on every byte sequence.  From a well-formed decoder, \<open>Decode\<close> returns
  (no slice expression is out of range and no loop runs forever), only appends flows to \<open>dst\<close>,
  at most \<open>maxRecordsPerPacket\<close> of them, reports an error exactly for a datagram shorter than
  the header or of another version, then leaves the decoder untouched, and keeps the decoder
  well formed: at most 65536 templates, each with the record length of its fields.
\<close>

theorem Decode_v9_safe:
  assumes "v9_inv clk d"
  shows "\<exists>fs err d'. Decode_v9 clk d dst payload e = Some (dst @ fs, err, d') \<and> v9_inv clk d'
    \<and> int (length fs) \<le> maxRecordsPerPacket_v9
    \<and> (err \<noteq> None \<longleftrightarrow> length payload < headerLen_v9 \<or> nat_at payload 0 2 \<noteq> unat version_v9)
    \<and> (err \<noteq> None \<longrightarrow> fs = [] \<and> d' = d)"
  using Decode_v9_ok [OF assms, of dst payload e] Decode_v9_error_iff [of clk d dst payload e]
  by (auto simp: maxRecordsPerPacket_v9_def)

theorem Decode_v9_safe_witness:
  "\<exists>fs err d'. Decode_v9 (\<lambda>_. 0) (New_v9 (Some 0) None) [] [0, 9, 0, 0] [10, 0, 0, 1] = Some ([] @ fs, err, d')
    \<and> v9_inv (\<lambda>_. 0) d' \<and> int (length fs) \<le> maxRecordsPerPacket_v9
    \<and> (err \<noteq> None \<longleftrightarrow> length [0::byte, 9, 0, 0] < headerLen_v9 \<or> nat_at [0, 9, 0, 0] 0 2 \<noteq> unat version_v9)
    \<and> (err \<noteq> None \<longrightarrow> fs = [] \<and> d' = New_v9 (Some 0) None)"
  by (rule Decode_v9_safe, rule v9_inv_New) (simp add: clock_ok_def maxInt64_def)

text \<open>
   Exporters are isolated.  A datagram from one exporter never adds or changes a template
  of another: after the call, every cached template was there before under the same key or
  belongs to the exporter that sent the datagram.
\<close>

theorem Decode_v9_isolated:
  assumes "v9_inv clk d" and "Decode_v9 clk d dst payload e = Some (out, err, d')"
    and "find_v9 d' k = Some t" and "exporter_v9 k \<noteq> ip_String e"
  shows "find_v9 d k = Some t"
  using Decode_v9_ok [OF assms(1), of dst payload e] assms(2-4) by (auto simp: v9_from_def)


theorem Decode_v9_isolated_witness:
  "find_v9 v9_example \<lparr>exporter_v9 = ''192.0.2.7'', sourceID_v9 = 1, id_v9 = 256\<rparr>
    = Some \<lparr>fields_v9 = [\<lparr>typ_v9 = 8, length_v9 = 4\<rparr>], recordLen_v9 = 4, isOptions_v9 = False\<rparr>"
proof (rule Decode_v9_isolated [of "\<lambda>_. 0" v9_example "[]" "[0, 9]" "[10, 0, 0, 1]"])
  show "v9_inv (\<lambda>_. 0) v9_example" by (rule v9_inv_example)
  show "Decode_v9 (\<lambda>_. 0) v9_example [] [0, 9] [10, 0, 0, 1] = Some ([], Some ErrShortPacket, v9_example)"
    by (simp add: Decode_v9_def headerLen_v9_def)
  show "find_v9 v9_example \<lparr>exporter_v9 = ''192.0.2.7'', sourceID_v9 = 1, id_v9 = 256\<rparr>
    = Some \<lparr>fields_v9 = [\<lparr>typ_v9 = 8, length_v9 = 4\<rparr>], recordLen_v9 = 4, isOptions_v9 = False\<rparr>"
    by (simp add: v9_example_def find_v9_def tc_find_def)
  show "exporter_v9 \<lparr>exporter_v9 = ''192.0.2.7'', sourceID_v9 = 1, id_v9 = 256\<rparr> \<noteq> ip_String [10, 0, 0, 1]"
    by code_simp
qed

text \<open>
   What a Data FlowSet means.  After a valid header, a FlowSet with a data id yields one
  flow per complete record of its body, in order, up to the budget: each record is cut by the
  fields of the template that this exporter and source id announced under that id, and its
  fields are applied from left to right to an empty flow.  With no such template, or an
  options template, it yields nothing.  The template cache keeps its contents.
\<close>

theorem Decode_v9_data:
  assumes "v9_inv clk d" and "length h = 20" and "nat_at h 0 2 = 9"
    and "flowsetDataMin \<le> sid" and "4 + length body < 65536"
  shows "\<exists>d'. Decode_v9 clk d dst (h @ v9_set sid body) e =
      Some (dst @ v9_data_flows
              (find_v9 d \<lparr>exporter_v9 = ip_String e, sourceID_v9 = of_nat (nat_at h 16 4), id_v9 = sid\<rparr>)
              maxRecordsPerPacket_v9 body (int (nat_at h 8 4) * 1000 - int (nat_at h 4 4)) e, None, d')
    \<and> find_v9 d' = find_v9 d"
proof -
  have "sid \<noteq> flowsetTemplate" "sid \<noteq> flowsetOptionsTemplate"
    using assms(4) by (auto simp: flowsetDataMin_def flowsetTemplate_def flowsetOptionsTemplate_def word_le_nat_alt)
  then show ?thesis
    using assms(4) decodeData_v9_eq [OF assms(1)]
    by (force simp: Decode_v9_one_set [OF assms(2,3,5)] Let_def maxRecordsPerPacket_v9_def)
qed

theorem Decode_v9_data_witness:
  "(\<exists>d'. Decode_v9 (\<lambda>_. 0) v9_example [] (v9_example_header @ v9_set 256 [10, 1, 1, 5, 9]) [192, 0, 2, 7] =
      Some ([] @ v9_data_flows
              (find_v9 v9_example \<lparr>exporter_v9 = ip_String [192, 0, 2, 7],
                 sourceID_v9 = of_nat (nat_at v9_example_header 16 4), id_v9 = 256\<rparr>)
              maxRecordsPerPacket_v9 [10, 1, 1, 5, 9]
              (int (nat_at v9_example_header 8 4) * 1000 - int (nat_at v9_example_header 4 4)) [192, 0, 2, 7],
            None, d')
    \<and> find_v9 d' = find_v9 v9_example)
   \<and> v9_data_flows
       (find_v9 v9_example \<lparr>exporter_v9 = ip_String [192, 0, 2, 7],
          sourceID_v9 = of_nat (nat_at v9_example_header 16 4), id_v9 = 256\<rparr>)
       maxRecordsPerPacket_v9 [10, 1, 1, 5, 9] 0 [192, 0, 2, 7]
     = [zero_flow\<lparr>f_SrcIP := [10, 1, 1, 5], f_ExporterIP := [192, 0, 2, 7]\<rparr>]"
proof
  show "\<exists>d'. Decode_v9 (\<lambda>_. 0) v9_example [] (v9_example_header @ v9_set 256 [10, 1, 1, 5, 9]) [192, 0, 2, 7] =
      Some ([] @ v9_data_flows
              (find_v9 v9_example \<lparr>exporter_v9 = ip_String [192, 0, 2, 7],
                 sourceID_v9 = of_nat (nat_at v9_example_header 16 4), id_v9 = 256\<rparr>)
              maxRecordsPerPacket_v9 [10, 1, 1, 5, 9]
              (int (nat_at v9_example_header 8 4) * 1000 - int (nat_at v9_example_header 4 4)) [192, 0, 2, 7],
            None, d')
    \<and> find_v9 d' = find_v9 v9_example"
    by (rule Decode_v9_data [OF v9_inv_example]) (simp_all add: flowsetDataMin_def)
qed code_simp

text \<open>
   Templates are learned.  A Template FlowSet with one non-empty template, sent by an
  exporter while the cache has room, makes the cache answer with exactly these fields and
  their total length for the key of that exporter, source id and template id.
\<close>

theorem Decode_v9_learns:
  assumes "v9_inv clk d" and "length (tc_entries (cache_v9 d)) < maxTemplates"
    and "length h = 20" and "nat_at h 0 2 = 9" and "flds \<noteq> []" and "length flds < 16382"
  shows "\<exists>d'. Decode_v9 clk d dst
        (h @ v9_set flowsetTemplate (put16 tid @ put16 (of_nat (length flds)) @ v9_specs flds)) e
      = Some (dst, None, d') \<and> v9_inv clk d'
    \<and> find_v9 d' \<lparr>exporter_v9 = ip_String e, sourceID_v9 = of_nat (nat_at h 16 4), id_v9 = tid\<rparr>
      = Some \<lparr>fields_v9 = flds, recordLen_v9 = int (fieldsLen_v9 flds), isOptions_v9 = False\<rparr>"
proof -
  let ?k = "\<lparr>exporter_v9 = ip_String e, sourceID_v9 = of_nat (nat_at h 16 4), id_v9 = tid\<rparr>"
  let ?t = "\<lparr>fields_v9 = flds, recordLen_v9 = int (fieldsLen_v9 flds), isOptions_v9 = False\<rparr>"
  obtain d' where d': "putTemplate_v9 clk ?k ?t d = Some d'" "v9_inv clk d'"
    using putTemplate_v9_ok [OF assms(1), of ?t ?k] by (auto simp: template_ok_v9_def)
  moreover have "find_v9 d' ?k = Some ?t" by (rule putTemplate_v9_room [OF assms(1,2) d'(1)])
  ultimately show ?thesis
    using assms(3-6) by (simp add: Decode_v9_one_set Let_def parseTemplates_v9_one)
qed


theorem Decode_v9_learns_witness:
  "\<exists>d'. Decode_v9 (\<lambda>_. 0) v9_example []
        (v9_example_header @ v9_set flowsetTemplate
          (put16 300 @ put16 (of_nat (length [\<lparr>typ_v9 = 8, length_v9 = 4\<rparr>])) @ v9_specs [\<lparr>typ_v9 = 8, length_v9 = 4\<rparr>]))
        [10, 0, 0, 1]
      = Some ([], None, d') \<and> v9_inv (\<lambda>_. 0) d'
    \<and> find_v9 d' \<lparr>exporter_v9 = ip_String [10, 0, 0, 1],
          sourceID_v9 = of_nat (nat_at v9_example_header 16 4), id_v9 = 300\<rparr>
      = Some \<lparr>fields_v9 = [\<lparr>typ_v9 = 8, length_v9 = 4\<rparr>],
              recordLen_v9 = int (fieldsLen_v9 [\<lparr>typ_v9 = 8, length_v9 = 4\<rparr>]), isOptions_v9 = False\<rparr>"
  by (rule Decode_v9_learns [OF v9_inv_example]) (simp_all add: v9_example_def maxTemplates_def)

text \<open>
   The template cache survives a restart.  If the JSON written by \<open>DumpTemplates\<close> is not
  empty and reads back as the list that was written, then loading it into a new decoder
  reports no error and gives a cache that answers every key as the old one did.
\<close>

theorem LoadTemplates_v9_Dump:
  assumes "v9_inv clk d" and "DumpTemplates_v9 marshal d = Inr data" and "data \<noteq> []"
    and "\<And>l. marshal l = Inr data \<Longrightarrow> unmarshal data = Inr l"
  shows "\<exists>d'. LoadTemplates_v9 clk' unmarshal data (New_v9 r u) = (None, d') \<and> find_v9 d' = find_v9 d"
proof (rule Load_Dump_v9 [OF assms(2,3)])
  show "unmarshal data = Inr l" if "marshal l = Inr data" for l using that by (rule assms(4))
  show "distinct (map fst (tc_entries (cache_v9 d)))"
    using assms(1) by (simp add: v9_inv_def cache_inv_def entries_ok_def)
qed

definition v9_example_dump :: v9_serializableTemplate where
  "v9_example_dump = \<lparr>st_Exporter_v9 = ''192.0.2.7'', st_SourceID_v9 = 1, st_ID_v9 = 256,
     st_Fields_v9 = [\<lparr>sf_Type_v9 = 8, sf_Length_v9 = 4\<rparr>], st_RecordLen_v9 = 4, st_IsOptions_v9 = False\<rparr>"

theorem LoadTemplates_v9_Dump_witness:
  "\<exists>d'. LoadTemplates_v9 (\<lambda>_. 5) (\<lambda>b. if b = [1] then Inr [v9_example_dump] else Inl ()) [1] (New_v9 None None) = (None, d')
     \<and> find_v9 d' = find_v9 v9_example"
proof (rule LoadTemplates_v9_Dump [OF v9_inv_example,
      where marshal = "\<lambda>l. if l = [v9_example_dump] then Inr [1] else Inl ()"])
  show "DumpTemplates_v9 (\<lambda>l. if l = [v9_example_dump] then Inr [1] else Inl ()) v9_example = Inr [1]"
    by (simp add: DumpTemplates_v9_def v9_example_def v9_example_dump_def)
qed (auto split: if_splits)

end
