(* ===== verification/Ipfix.thy ===== *)
theory Ipfix
  imports Flow_Types Template_Cache
begin

text \<open>
  Package \<open>ipfix\<close> (\<open>internal/decoder/ipfix/ipfix.go\<close>): the decoder of IPFIX (RFC 7011).  Over
  NetFlow v9 it adds enterprise elements, variable-length fields, template withdrawal, the
  clamping of the message length, and flow times that default to the export time.  The lemmas
  give the same guarantees as for version 9, the meaning of a Data Set for fixed and for
  variable-length templates, and the round trip of variable-length records.
\<close>

definition version_ipfix :: u16 where "version_ipfix = 10"
definition headerLen_ipfix :: nat where "headerLen_ipfix = 16"
definition setTemplate :: u16 where "setTemplate = 2"
definition setOptionsTemplate :: u16 where "setOptionsTemplate = 3"
definition setDataMin :: u16 where "setDataMin = 256"
definition enterpriseBit :: u16 where "enterpriseBit = 0x8000"
definition varLen :: u16 where "varLen = 0xFFFF"
definition maxRecordsPerPacket_ipfix :: int where "maxRecordsPerPacket_ipfix = 8192"

section \<open>Field values\<close>

definition beUint_ipfix :: "bytes \<Rightarrow> u64" where
  "beUint_ipfix b =
     (let b = (if length b > 8 then drop (length b - 8) b else b)
      in foldl (\<lambda>x c. push_bit 8 x OR ucast c) 0 b)"

definition cloneIP_ipfix :: "bytes \<Rightarrow> ip" where
  "cloneIP_ipfix b = (if length b = 0 then nil_ip else b)"

definition msToTime_ipfix :: "int \<Rightarrow> gotime" where
  "msToTime_ipfix ms = time_Unix (ms sdiv 1000) ((ms smod 1000) * 1000000)"

definition trimField_ipfix :: "bytes \<Rightarrow> string" where
  "trimField_ipfix v = str_of_bytes (trim_space (takeWhile (\<lambda>b. b \<noteq> 0) v))"

definition eOCTETS :: u16 where "eOCTETS = 1"
definition ePKTS :: u16 where "ePKTS = 2"
definition ePROTOCOL :: u16 where "ePROTOCOL = 4"
definition eTOS :: u16 where "eTOS = 5"
definition eTCP_FLAGS :: u16 where "eTCP_FLAGS = 6"
definition eSRC_PORT :: u16 where "eSRC_PORT = 7"
definition eSRC_IPV4 :: u16 where "eSRC_IPV4 = 8"
definition eDST_PORT :: u16 where "eDST_PORT = 11"
definition eDST_IPV4 :: u16 where "eDST_IPV4 = 12"
definition ePOST_OCTETS :: u16 where "ePOST_OCTETS = 23"
definition eSRC_IPV6 :: u16 where "eSRC_IPV6 = 27"
definition eDST_IPV6 :: u16 where "eDST_IPV6 = 28"
definition eFLOW_START_S :: u16 where "eFLOW_START_S = 150"
definition eFLOW_END_S :: u16 where "eFLOW_END_S = 151"
definition eFLOW_START_MS :: u16 where "eFLOW_START_MS = 152"
definition eFLOW_END_MS :: u16 where "eFLOW_END_MS = 153"
definition eNAT_SRC_IPV4 :: u16 where "eNAT_SRC_IPV4 = 225"
definition eNAT_DST_IPV4 :: u16 where "eNAT_DST_IPV4 = 226"
definition eNAT_SRC_PORT :: u16 where "eNAT_SRC_PORT = 227"
definition eNAT_DST_PORT :: u16 where "eNAT_DST_PORT = 228"
definition eNAT_SRC_IPV6 :: u16 where "eNAT_SRC_IPV6 = 281"
definition eNAT_DST_IPV6 :: u16 where "eNAT_DST_IPV6 = 282"
definition eNAT_EVENT :: u16 where "eNAT_EVENT = 230"
definition eUSERNAME :: u16 where "eUSERNAME = 371"

lemmas ipfix_element_ids =
  eOCTETS_def ePKTS_def ePROTOCOL_def eTOS_def eTCP_FLAGS_def eSRC_PORT_def eSRC_IPV4_def
  eDST_PORT_def eDST_IPV4_def ePOST_OCTETS_def eSRC_IPV6_def eDST_IPV6_def eFLOW_START_S_def
  eFLOW_END_S_def eFLOW_START_MS_def eFLOW_END_MS_def eNAT_SRC_IPV4_def eNAT_DST_IPV4_def
  eNAT_SRC_PORT_def eNAT_DST_PORT_def eNAT_SRC_IPV6_def eNAT_DST_IPV6_def eNAT_EVENT_def
  eUSERNAME_def

definition applyField_ipfix :: "flow \<Rightarrow> u16 \<Rightarrow> bytes \<Rightarrow> flow" where
  "applyField_ipfix f ie v =
     (if ie = eOCTETS then f\<lparr>f_Bytes := beUint_ipfix v\<rparr>
      else if ie = ePOST_OCTETS then (if f_Bytes f = 0 then f\<lparr>f_Bytes := beUint_ipfix v\<rparr> else f)
      else if ie = ePKTS then f\<lparr>f_Packets := beUint_ipfix v\<rparr>
      else if ie = ePROTOCOL then f\<lparr>f_Protocol := ucast (beUint_ipfix v)\<rparr>
      else if ie = eTOS then f\<lparr>f_TOS := ucast (beUint_ipfix v)\<rparr>
      else if ie = eTCP_FLAGS then f\<lparr>f_TCPFlags := ucast (beUint_ipfix v)\<rparr>
      else if ie = eSRC_PORT then f\<lparr>f_SrcPort := ucast (beUint_ipfix v)\<rparr>
      else if ie = eDST_PORT then f\<lparr>f_DstPort := ucast (beUint_ipfix v)\<rparr>
      else if ie = eSRC_IPV4 \<or> ie = eSRC_IPV6 then f\<lparr>f_SrcIP := cloneIP_ipfix v\<rparr>
      else if ie = eDST_IPV4 \<or> ie = eDST_IPV6 then f\<lparr>f_DstIP := cloneIP_ipfix v\<rparr>
      else if ie = eFLOW_START_S then f\<lparr>f_FlowStart := time_Unix (sint (beUint_ipfix v)) 0\<rparr>
      else if ie = eFLOW_END_S then f\<lparr>f_FlowEnd := time_Unix (sint (beUint_ipfix v)) 0\<rparr>
      else if ie = eFLOW_START_MS then f\<lparr>f_FlowStart := msToTime_ipfix (sint (beUint_ipfix v))\<rparr>
      else if ie = eFLOW_END_MS then f\<lparr>f_FlowEnd := msToTime_ipfix (sint (beUint_ipfix v))\<rparr>
      else if ie = eNAT_SRC_IPV4 \<or> ie = eNAT_SRC_IPV6 then f\<lparr>f_NatPublicIP := cloneIP_ipfix v\<rparr>
      else if ie = eNAT_SRC_PORT then f\<lparr>f_NatPublicPort := ucast (beUint_ipfix v)\<rparr>
      else if ie = eNAT_DST_IPV4 \<or> ie = eNAT_DST_IPV6 then f\<lparr>f_NatDestIP := cloneIP_ipfix v\<rparr>
      else if ie = eNAT_DST_PORT then f\<lparr>f_NatDestPort := ucast (beUint_ipfix v)\<rparr>
      else if ie = eNAT_EVENT then f\<lparr>f_NatEvent := ucast (beUint_ipfix v)\<rparr>
      else if ie = eUSERNAME then f\<lparr>f_Username := trimField_ipfix v\<rparr>
      else f)"

section \<open>Templates and the decoder state\<close>

record ipfix_field =
  ie_ipfix :: u16
  length_ipfix :: u16
  enterprise_ipfix :: bool

record ipfix_template =
  fields_ipfix :: "ipfix_field list"
  recordLen_ipfix :: int
  hasVarlen_ipfix :: bool
  isOptions_ipfix :: bool

record ipfix_templateKey =
  exporter_ipfix :: string
  obsDomain_ipfix :: u32
  id_ipfix :: u16

definition zeroKey_ipfix :: ipfix_templateKey where
  "zeroKey_ipfix = \<lparr>exporter_ipfix = [], obsDomain_ipfix = 0, id_ipfix = 0\<rparr>"

record ipfix_decoder =
  cache_ipfix :: "(ipfix_templateKey, ipfix_template) tcache"
  templatesReceived_ipfix :: "nat option"
  unknownTemplate_ipfix :: "nat option"

definition New_ipfix :: "nat option \<Rightarrow> nat option \<Rightarrow> ipfix_decoder" where
  "New_ipfix received unknown =
     \<lparr>cache_ipfix = empty_cache, templatesReceived_ipfix = received, unknownTemplate_ipfix = unknown\<rparr>"

definition Kind_ipfix :: string where
  "Kind_ipfix = ''ipfix''"

definition putTemplate_ipfix ::
  "(nat \<Rightarrow> int) \<Rightarrow> ipfix_templateKey \<Rightarrow> ipfix_template \<Rightarrow> ipfix_decoder \<Rightarrow> ipfix_decoder option" where
  "putTemplate_ipfix clk k t d = do {
     c \<leftarrow> putTemplate clk zeroKey_ipfix k t (cache_ipfix d);
     Some (d\<lparr>cache_ipfix := c\<rparr>)
   }"

definition deleteTemplate_ipfix :: "ipfix_templateKey \<Rightarrow> ipfix_decoder \<Rightarrow> ipfix_decoder" where
  "deleteTemplate_ipfix k d = d\<lparr>cache_ipfix := deleteTemplate k (cache_ipfix d)\<rparr>"

definition getTemplate_ipfix ::
  "(nat \<Rightarrow> int) \<Rightarrow> ipfix_templateKey \<Rightarrow> ipfix_decoder \<Rightarrow> ipfix_template option \<times> ipfix_decoder" where
  "getTemplate_ipfix clk k d = (let (t, c) = getTemplate clk k (cache_ipfix d) in (t, d\<lparr>cache_ipfix := c\<rparr>))"

definition incReceived_ipfix :: "ipfix_decoder \<Rightarrow> ipfix_decoder" where
  "incReceived_ipfix d = d\<lparr>templatesReceived_ipfix := map_option Suc (templatesReceived_ipfix d)\<rparr>"

definition incUnknown_ipfix :: "ipfix_decoder \<Rightarrow> ipfix_decoder" where
  "incUnknown_ipfix d = d\<lparr>unknownTemplate_ipfix := map_option Suc (unknownTemplate_ipfix d)\<rparr>"

section \<open>Template Sets\<close>

text \<open>
  \<open>parseFieldSpecs\<close>: the outer option is a panic, the inner one the result \<open>ok\<close>; the result
  holds the fields, the position after them, the sum of the fixed lengths, and whether a field
  is of variable length.
\<close>

fun parseFieldSpecs ::
  "bytes \<Rightarrow> nat \<Rightarrow> nat \<Rightarrow> (ipfix_field list \<times> nat \<times> int \<times> bool) option option" where
  "parseFieldSpecs body p 0 = Some (Some ([], p, 0, False))"
| "parseFieldSpecs body p (Suc n) =
     (if p + 4 > length body then Some None
      else do {
        ie \<leftarrow> rd16 body p;
        flen \<leftarrow> rd16 body (p + 2);
        let ent = (ie AND enterpriseBit \<noteq> 0);
        if ent \<and> p + 4 + 4 > length body then Some None
        else do {
          r \<leftarrow> parseFieldSpecs body (if ent then p + 4 + 4 else p + 4) n;
          case r of
            None \<Rightarrow> Some None
          | Some (fs, p', recLen, hasVar) \<Rightarrow>
              Some (Some (\<lparr>ie_ipfix = ie AND 0x7fff, length_ipfix = flen, enterprise_ipfix = ent\<rparr> # fs, p',
                (if flen = varLen then recLen else uint flen + recLen), flen = varLen \<or> hasVar))
        }
      })"

lemma parseFieldSpecs_pos: "parseFieldSpecs body p n = Some (Some (fs, p', r, v)) \<Longrightarrow> p \<le> p'"
  by (induction n arbitrary: p fs p' r v)
    (fastforce simp: Let_def split: Option.bind_splits option.splits if_splits)+

function parseTemplates_ipfix ::
  "(nat \<Rightarrow> int) \<Rightarrow> string \<Rightarrow> u32 \<Rightarrow> bytes \<Rightarrow> nat \<Rightarrow> ipfix_decoder \<Rightarrow> ipfix_decoder option" where
  "parseTemplates_ipfix clk expS obsDomain body p d =
     (if p + 4 \<le> length body then do {
        tid \<leftarrow> rd16 body p;
        fcount \<leftarrow> rd16 body (p + 2);
        if tid = 0 then Some d
        else if fcount = 0 then
          parseTemplates_ipfix clk expS obsDomain body (p + 4)
            (deleteTemplate_ipfix \<lparr>exporter_ipfix = expS, obsDomain_ipfix = obsDomain, id_ipfix = tid\<rparr> d)
        else do {
          r \<leftarrow> parseFieldSpecs body (p + 4) (unat fcount);
          case r of
            None \<Rightarrow> Some d
          | Some (flds, p', recLen, hasVar) \<Rightarrow> do {
              d \<leftarrow> putTemplate_ipfix clk \<lparr>exporter_ipfix = expS, obsDomain_ipfix = obsDomain, id_ipfix = tid\<rparr>
                     \<lparr>fields_ipfix = flds, recordLen_ipfix = recLen, hasVarlen_ipfix = hasVar,
                      isOptions_ipfix = False\<rparr> d;
              parseTemplates_ipfix clk expS obsDomain body p' (incReceived_ipfix d)
            }
        }
      } else Some d)"
  by pat_completeness auto
termination
  by (relation "measure (\<lambda>(clk, expS, sid, body, p, d). length body - p)")
    (auto dest!: parseFieldSpecs_pos)

declare parseTemplates_ipfix.simps [simp del]

function parseOptionsTemplates_ipfix ::
  "(nat \<Rightarrow> int) \<Rightarrow> string \<Rightarrow> u32 \<Rightarrow> bytes \<Rightarrow> nat \<Rightarrow> ipfix_decoder \<Rightarrow> ipfix_decoder option" where
  "parseOptionsTemplates_ipfix clk expS obsDomain body p d =
     (if p + 6 \<le> length body then do {
        tid \<leftarrow> rd16 body p;
        fcount \<leftarrow> rd16 body (p + 2);
        if tid = 0 then Some d
        else do {
          r \<leftarrow> parseFieldSpecs body (p + 6) (unat fcount);
          case r of
            None \<Rightarrow> Some d
          | Some (_, p', _, _) \<Rightarrow> do {
              d \<leftarrow> putTemplate_ipfix clk \<lparr>exporter_ipfix = expS, obsDomain_ipfix = obsDomain, id_ipfix = tid\<rparr>
                     \<lparr>fields_ipfix = [], recordLen_ipfix = 0, hasVarlen_ipfix = False, isOptions_ipfix = True\<rparr> d;
              parseOptionsTemplates_ipfix clk expS obsDomain body p' (incReceived_ipfix d)
            }
        }
      } else Some d)"
  by pat_completeness auto
termination
  by (relation "measure (\<lambda>(clk, expS, sid, body, p, d). length body - p)")
    (auto dest!: parseFieldSpecs_pos)

declare parseOptionsTemplates_ipfix.simps [simp del]

section \<open>Data Sets\<close>

text \<open>The field loop of \<open>decodeRecord\<close>; a truncated record gives the flow so far, 0 and \<open>False\<close>.\<close>

fun decodeFields_ipfix :: "ipfix_field list \<Rightarrow> bytes \<Rightarrow> nat \<Rightarrow> flow \<Rightarrow> (flow \<times> nat \<times> bool) option" where
  "decodeFields_ipfix [] body pos f = Some (f, pos, True)"
| "decodeFields_ipfix (fld # fs) body pos f = do {
     len \<leftarrow> (if length_ipfix fld = varLen then
        if pos \<ge> length body then Some None
        else do {
          b \<leftarrow> index body pos;
          if unat b = 255 then
            if pos + 1 + 2 > length body then Some None
            else do { l \<leftarrow> rd16 body (pos + 1); Some (Some (unat l, pos + 1 + 2)) }
          else Some (Some (unat b, pos + 1))
        }
      else Some (Some (unat (length_ipfix fld), pos)));
     case len of
       None \<Rightarrow> Some (f, 0, False)
     | Some (flen, pos) \<Rightarrow>
         if pos + flen > length body then Some (f, 0, False)
         else do {
           v \<leftarrow> slice body pos (pos + flen);
           decodeFields_ipfix fs body (pos + flen)
             (if \<not> enterprise_ipfix fld then applyField_ipfix f (ie_ipfix fld) v else f)
         }
   }"

definition defaultTimes :: "gotime \<Rightarrow> flow \<Rightarrow> flow" where
  "defaultTimes exportTime f =
     (let f = (if time_IsZero (f_FlowStart f) then f\<lparr>f_FlowStart := exportTime\<rparr> else f)
      in if time_IsZero (f_FlowEnd f) then f\<lparr>f_FlowEnd := exportTime\<rparr> else f)"

definition decodeRecord_ipfix ::
  "bytes \<Rightarrow> ipfix_field list \<Rightarrow> gotime \<Rightarrow> ip \<Rightarrow> (flow \<times> nat \<times> bool) option" where
  "decodeRecord_ipfix body flds exportTime expIP = do {
     (f, pos, ok) \<leftarrow> decodeFields_ipfix flds body 0 (zero_flow\<lparr>f_ExporterIP := expIP\<rparr>);
     Some (if ok then (defaultTimes exportTime f, pos, True) else (f, pos, False))
   }"

function decodeFixed_ipfix ::
  "ipfix_field list \<Rightarrow> nat \<Rightarrow> bytes \<Rightarrow> gotime \<Rightarrow> ip \<Rightarrow> int \<Rightarrow> nat \<Rightarrow> nat \<Rightarrow> flow list \<Rightarrow> flow list option" where
  "decodeFixed_ipfix flds n body exportTime expIP limit pos emitted dst =
     (if pos + n \<le> length body \<and> int emitted < limit then do {
        r \<leftarrow> slice body pos (pos + n);
        (f, _, _) \<leftarrow> decodeRecord_ipfix r flds exportTime expIP;
        decodeFixed_ipfix flds n body exportTime expIP limit (pos + n) (Suc emitted) (dst @ [f])
      } else Some dst)"
  by pat_completeness auto
termination
  by (relation "measure (\<lambda>(flds, n, body, x, expIP, limit, pos, emitted, dst). nat (limit - int emitted))")
    auto

declare decodeFixed_ipfix.simps [simp del]

function decodeVar_ipfix ::
  "ipfix_field list \<Rightarrow> bytes \<Rightarrow> gotime \<Rightarrow> ip \<Rightarrow> int \<Rightarrow> nat \<Rightarrow> nat \<Rightarrow> flow list \<Rightarrow> flow list option" where
  "decodeVar_ipfix flds body exportTime expIP limit pos emitted dst =
     (if pos < length body \<and> int emitted < limit then do {
        r \<leftarrow> slice body pos (length body);
        (f, n, ok) \<leftarrow> decodeRecord_ipfix r flds exportTime expIP;
        if \<not> ok \<or> n = 0 then Some dst
        else decodeVar_ipfix flds body exportTime expIP limit (pos + n) (Suc emitted) (dst @ [f])
      } else Some dst)"
  by pat_completeness auto
termination
  by (relation "measure (\<lambda>(flds, body, x, expIP, limit, pos, emitted, dst). nat (limit - int emitted))")
    auto

declare decodeVar_ipfix.simps [simp del]

definition decodeData_ipfix ::
  "(nat \<Rightarrow> int) \<Rightarrow> flow list \<Rightarrow> string \<Rightarrow> u32 \<Rightarrow> u16 \<Rightarrow> bytes \<Rightarrow> gotime \<Rightarrow> ip \<Rightarrow> int \<Rightarrow> ipfix_decoder
    \<Rightarrow> (flow list \<times> ipfix_decoder) option" where
  "decodeData_ipfix clk dst expS obsDomain setID body exportTime exporter limit d =
     (case getTemplate_ipfix clk \<lparr>exporter_ipfix = expS, obsDomain_ipfix = obsDomain, id_ipfix = setID\<rparr> d of
        (None, d) \<Rightarrow> Some (dst, incUnknown_ipfix d)
      | (Some tmpl, d) \<Rightarrow>
          if isOptions_ipfix tmpl then Some (dst, d)
          else if \<not> hasVarlen_ipfix tmpl then
            if recordLen_ipfix tmpl \<le> 0 then Some (dst, d)
            else do {
              dst' \<leftarrow> decodeFixed_ipfix (fields_ipfix tmpl) (nat (recordLen_ipfix tmpl)) body exportTime
                        (cloneIP_ipfix exporter) limit 0 0 dst;
              Some (dst', d)
            }
          else do {
            dst' \<leftarrow> decodeVar_ipfix (fields_ipfix tmpl) body exportTime (cloneIP_ipfix exporter) limit 0 0 dst;
            Some (dst', d)
          })"

section \<open>Decode\<close>

text \<open>The Set loop of \<open>Decode\<close>; \<open>stop\<close> is the variable \<open>end\<close> of the source.\<close>

function decodeSets_ipfix ::
  "(nat \<Rightarrow> int) \<Rightarrow> string \<Rightarrow> u32 \<Rightarrow> gotime \<Rightarrow> ip \<Rightarrow> bytes \<Rightarrow> nat \<Rightarrow> nat \<Rightarrow> int \<Rightarrow> flow list \<Rightarrow> ipfix_decoder
    \<Rightarrow> (flow list \<times> ipfix_decoder) option" where
  "decodeSets_ipfix clk expS obsDomain exportTime exporter payload stop off budget dst d =
     (if off + 4 \<le> stop then do {
        setID \<leftarrow> rd16 payload off;
        sl \<leftarrow> rd16 payload (off + 2);
        if unat sl < 4 \<or> off + unat sl > stop then Some (dst, d)
        else do {
          body \<leftarrow> slice payload (off + 4) (off + unat sl);
          if setID = setTemplate then do {
            d \<leftarrow> parseTemplates_ipfix clk expS obsDomain body 0 d;
            decodeSets_ipfix clk expS obsDomain exportTime exporter payload stop (off + unat sl) budget dst d
          } else if setID = setOptionsTemplate then do {
            d \<leftarrow> parseOptionsTemplates_ipfix clk expS obsDomain body 0 d;
            decodeSets_ipfix clk expS obsDomain exportTime exporter payload stop (off + unat sl) budget dst d
          } else if setID \<ge> setDataMin then do {
            (dst', d) \<leftarrow> decodeData_ipfix clk dst expS obsDomain setID body exportTime exporter budget d;
            let budget' = budget - (int (length dst') - int (length dst));
            if budget' \<le> 0 then Some (dst', d)
            else decodeSets_ipfix clk expS obsDomain exportTime exporter payload stop (off + unat sl) budget' dst' d
          } else decodeSets_ipfix clk expS obsDomain exportTime exporter payload stop (off + unat sl) budget dst d
        }
      } else Some (dst, d))"
  by pat_completeness auto
termination
  by (relation "measure (\<lambda>(clk, expS, sid, x, e, payload, stop, off, budget, dst, d). stop - off)")
    auto

declare decodeSets_ipfix.simps [simp del]

definition Decode_ipfix ::
  "(nat \<Rightarrow> int) \<Rightarrow> ipfix_decoder \<Rightarrow> flow list \<Rightarrow> bytes \<Rightarrow> ip \<Rightarrow> ipfix_decoder decode_result" where
  "Decode_ipfix clk d dst payload exporter =
     (if length payload < headerLen_ipfix then Some (dst, Some ErrShortPacket, d)
      else do {
        v \<leftarrow> rd16 payload 0;
        if v \<noteq> version_ipfix then Some (dst, Some (ErrWrongVersion None), d)
        else do {
          msgLen \<leftarrow> rd16 payload 2;
          let stop = (if unat msgLen \<ge> headerLen_ipfix \<and> unat msgLen < length payload then unat msgLen
                      else length payload);
          secs \<leftarrow> rd32 payload 4;
          let exportTime = time_Unix (uint secs) 0;
          obsDomain \<leftarrow> rd32 payload 12;
          (dst', d') \<leftarrow> decodeSets_ipfix clk (ip_String exporter) obsDomain exportTime exporter payload stop
                          headerLen_ipfix maxRecordsPerPacket_ipfix dst d;
          Some (dst', None, d')
        }
      })"

section \<open>What a Data Set means\<close>

text \<open>
  The specification cuts the body of a Data Set by the fields of the template: the value of
  every field of the first record, and the rest of the body; \<open>None\<close> for a truncated record.
\<close>

fun var_length :: "bytes \<Rightarrow> (nat \<times> bytes) option" where
  "var_length [] = None"
| "var_length (b # r) =
     (if b \<noteq> 255 then Some (unat b, r)
      else if length r < 2 then None else Some (nat_at r 0 2, drop 2 r))"

fun ipfix_values :: "ipfix_field list \<Rightarrow> bytes \<Rightarrow> ((ipfix_field \<times> bytes) list \<times> bytes) option" where
  "ipfix_values [] r = Some ([], r)"
| "ipfix_values (fld # fs) r =
     (case (if length_ipfix fld = varLen then var_length r else Some (unat (length_ipfix fld), r)) of
        None \<Rightarrow> None
      | Some (n, r') \<Rightarrow>
          if length r' < n then None
          else map_option (\<lambda>(vs, rest). ((fld, take n r') # vs, rest)) (ipfix_values fs (drop n r')))"

definition apply_value :: "flow \<Rightarrow> ipfix_field \<times> bytes \<Rightarrow> flow" where
  "apply_value f = (\<lambda>(fld, v). if enterprise_ipfix fld then f else applyField_ipfix f (ie_ipfix fld) v)"

definition ipfix_record_flow :: "gotime \<Rightarrow> ip \<Rightarrow> (ipfix_field \<times> bytes) list \<Rightarrow> flow" where
  "ipfix_record_flow exportTime expIP vs =
     defaultTimes exportTime (foldl apply_value (zero_flow\<lparr>f_ExporterIP := expIP\<rparr>) vs)"

text \<open>The records of a body, up to the first that is truncated or consumes nothing.\<close>

function ipfix_records :: "ipfix_field list \<Rightarrow> bytes \<Rightarrow> (ipfix_field \<times> bytes) list list" where
  "ipfix_records fs r =
     (case ipfix_values fs r of
        None \<Rightarrow> []
      | Some (vs, rest) \<Rightarrow> if length rest < length r then vs # ipfix_records fs rest else [])"
  by pat_completeness auto
termination
  by (relation "measure (\<lambda>(fs, r). length r)") auto

declare ipfix_records.simps [simp del]

definition ipfix_data_flows :: "ipfix_template option \<Rightarrow> int \<Rightarrow> bytes \<Rightarrow> gotime \<Rightarrow> ip \<Rightarrow> flow list" where
  "ipfix_data_flows tmpl limit body exportTime exporter =
     (case tmpl of
        None \<Rightarrow> []
      | Some t \<Rightarrow>
          if isOptions_ipfix t then []
          else map (ipfix_record_flow exportTime (cloneIP_ipfix exporter))
                 (take (nat limit) (ipfix_records (fields_ipfix t) body)))"

lemma var_length_suffix: "var_length r = Some (n, r') \<Longrightarrow> suffix r' r"
  by (cases r) (auto split: if_splits intro: suffix_ConsI suffix_drop)

lemma ipfix_values_suffix: "ipfix_values fs r = Some (vs, rest) \<Longrightarrow> suffix rest r"
proof (induction fs arbitrary: r vs rest)
  case (Cons f fs)
  then obtain n r' us where r': "(if length_ipfix f = varLen then var_length r else Some (unat (length_ipfix f), r)) = Some (n, r')"
    and us: "ipfix_values fs (drop n r') = Some (us, rest)"
    by (auto split: option.splits if_splits)
  have "suffix r' r" using r' var_length_suffix by (auto split: if_splits)
  with Cons.IH [OF us] show ?case by (meson suffix_drop suffix_order.trans)
qed simp

lemma suffix_eq_drop: "suffix ys xs \<Longrightarrow> ys = drop (length xs - length ys) xs"
  by (auto simp: suffix_def)

text \<open>The length prefix of a variable-length field, read at a position.\<close>

lemma ipfix_var_length_at:
  assumes "pos \<le> length body"
  shows "(if pos \<ge> length body then Some None
        else do {
          b \<leftarrow> index body pos;
          if unat b = 255 then
            if pos + 1 + 2 > length body then Some None
            else do { l \<leftarrow> rd16 body (pos + 1); Some (Some (unat l, pos + 1 + 2)) }
          else Some (Some (unat b, pos + 1))
        }) = Some (case var_length (drop pos body) of None \<Rightarrow> None | Some (n, r') \<Rightarrow> Some (n, length body - length r'))
    \<and> (case var_length (drop pos body) of None \<Rightarrow> True
       | Some (n, r') \<Rightarrow> length r' \<le> length body \<and> r' = drop (length body - length r') body)"
proof (cases "pos < length body")
  case True
  have d: "drop pos body = body ! pos # drop (Suc pos) body" using True by (rule Cons_nth_drop_Suc [symmetric])
  have "nat_at (drop (Suc pos) body) 0 2 = nat_at body (Suc pos) 2" by (simp add: nat_at_def)
  moreover have "unat (body ! pos) = 255 \<longleftrightarrow> body ! pos = 255" by (simp add: word_unat_eq_iff)
  ultimately show ?thesis using True
    unfolding d by (auto simp: go_simps)
qed (use assms in simp)

lemma decodeFields_ipfix_eq:
  assumes "pos \<le> length body"
  shows "case ipfix_values fs (drop pos body) of
      None \<Rightarrow> \<exists>f'. decodeFields_ipfix fs body pos f = Some (f', 0, False)
    | Some (vs, rest) \<Rightarrow> decodeFields_ipfix fs body pos f
        = Some (foldl apply_value f vs, length body - length rest, True)"
  using assms
proof (induction fs arbitrary: pos f)
  case (Cons fld fs)
  define len where "len = (if length_ipfix fld = varLen then
        if pos \<ge> length body then Some None
        else do {
          b \<leftarrow> index body pos;
          if unat b = 255 then
            if pos + 1 + 2 > length body then Some None
            else do { l \<leftarrow> rd16 body (pos + 1); Some (Some (unat l, pos + 1 + 2)) }
          else Some (Some (unat b, pos + 1))
        }
      else Some (Some (unat (length_ipfix fld), pos)))"
  define sp where "sp = (if length_ipfix fld = varLen then var_length (drop pos body)
      else Some (unat (length_ipfix fld), drop pos body))"
  have len: "len = Some (case sp of None \<Rightarrow> None | Some (n, r') \<Rightarrow> Some (n, length body - length r'))
      \<and> (case sp of None \<Rightarrow> True | Some (n, r') \<Rightarrow> length r' \<le> length body \<and> r' = drop (length body - length r') body)"
    using Cons.prems ipfix_var_length_at [of pos body] unfolding len_def sp_def by auto
  show ?case
  proof (cases sp)
    case None
    with len show ?thesis by (simp add: len_def [symmetric] sp_def [symmetric])
  next
    case (Some p)
    then obtain n r' where sp: "sp = Some (n, r')" by (cases p) auto
    define q where "q = length body - length r'"
    have q: "len = Some (Some (n, q))" "r' = drop q body" "q \<le> length body" "length r' = length body - q"
      using len sp by (auto simp: q_def)
    show ?thesis
    proof (cases "length r' < n")
      case True
      then have "length body < q + n" using q by linarith
      with True sp q show ?thesis by (simp add: len_def [symmetric] sp_def [symmetric])
    next
      case False
      let ?f = "apply_value f (fld, take n r')"
      have "q + n \<le> length body" using False q by linarith
      with Cons.IH [of "q + n" ?f] False q sp show ?thesis
        by (cases "enterprise_ipfix fld")
          (simp_all add: len_def [symmetric] sp_def [symmetric] slice_def apply_value_def add.commute
            split: option.splits prod.splits)
    qed
  qed
qed simp

lemma decodeRecord_ipfix_eq:
  "case ipfix_values fs body of
      None \<Rightarrow> \<exists>f'. decodeRecord_ipfix body fs x e = Some (f', 0, False)
    | Some (vs, rest) \<Rightarrow> decodeRecord_ipfix body fs x e
        = Some (ipfix_record_flow x e vs, length body - length rest, True)"
  using decodeFields_ipfix_eq [of 0 body fs "zero_flow\<lparr>f_ExporterIP := e\<rparr>"]
  by (auto simp: decodeRecord_ipfix_def ipfix_record_flow_def split: option.splits)

lemma ipfix_records_step:
  "ipfix_values fs r = Some (vs, rest) \<Longrightarrow> length rest < length r \<Longrightarrow>
   ipfix_records fs r = vs # ipfix_records fs rest"
  by (subst ipfix_records.simps) simp

lemma ipfix_records_stop:
  "(case ipfix_values fs r of None \<Rightarrow> True | Some (vs, rest) \<Rightarrow> length rest = length r) \<Longrightarrow>
   ipfix_records fs r = []"
  by (subst ipfix_records.simps) (auto split: option.splits)

lemma ipfix_records_Nil [simp]: "ipfix_records fs [] = []"
  by (rule ipfix_records_stop) (auto split: option.splits dest: ipfix_values_suffix)

lemma decodeVar_ipfix_eq:
  "pos \<le> length body \<Longrightarrow> decodeVar_ipfix fs body x e limit pos emitted dst =
   Some (dst @ map (ipfix_record_flow x e) (take (nat (limit - int emitted)) (ipfix_records fs (drop pos body))))"
proof (induction "nat (limit - int emitted)" arbitrary: pos emitted dst)
  case 0
  then show ?case by (subst decodeVar_ipfix.simps) simp
next
  case (Suc m)
  show ?case
  proof (cases "pos < length body")
    case True
    let ?r = "drop pos body"
    note rec = decodeRecord_ipfix_eq [of ?r fs x e]
    have lim: "int emitted < limit" "m = nat (limit - int (Suc emitted))" using Suc.hyps(2) by arith+
    have slice: "slice body pos (length body) = Some ?r" using True by (simp add: slice_def)
    show ?thesis
    proof (cases "ipfix_values fs ?r")
      case None
      with True lim rec slice show ?thesis
        by (subst decodeVar_ipfix.simps) (auto simp: ipfix_records_stop)
    next
      case (Some p)
      then obtain vs rest where p: "ipfix_values fs ?r = Some (vs, rest)" by (cases p) auto
      let ?n = "length ?r - length rest"
      have suf: "suffix rest ?r" by (rule ipfix_values_suffix [OF p])
      then have len: "length rest \<le> length ?r" by (rule suffix_length_le)
      have rest: "drop (pos + ?n) body = rest"
        using suffix_eq_drop [OF suf] by (simp add: add.commute)
      show ?thesis
      proof (cases "length rest = length ?r")
        case True
        with \<open>pos < length body\<close> lim rec slice p show ?thesis
          by (subst decodeVar_ipfix.simps) (simp add: ipfix_records_stop)
      next
        case False
        then have "length rest < length ?r" using len by simp
        then have recs: "take (nat (limit - int emitted)) (ipfix_records fs ?r)
            = vs # take (nat (limit - int (Suc emitted))) (ipfix_records fs rest)"
          unfolding ipfix_records_step [OF p \<open>length rest < length ?r\<close>]
          by (simp only: Suc.hyps(2) [symmetric] lim(2) [symmetric] take_Suc_Cons)
        have "decodeVar_ipfix fs body x e limit pos emitted dst =
            decodeVar_ipfix fs body x e limit (pos + ?n) (Suc emitted) (dst @ [ipfix_record_flow x e vs])"
          using True lim(1) rec slice p \<open>length rest < length ?r\<close>
          by (subst decodeVar_ipfix.simps) auto
        also have "\<dots> = Some ((dst @ [ipfix_record_flow x e vs]) @ map (ipfix_record_flow x e)
            (take (nat (limit - int (Suc emitted))) (ipfix_records fs rest)))"
          using Suc.hyps(1) [OF lim(2), of "pos + ?n" "dst @ [ipfix_record_flow x e vs]"] True
          unfolding rest by simp
        finally show ?thesis unfolding recs by simp
      qed
    qed
  next
    case False
    with Suc.prems show ?thesis by (subst decodeVar_ipfix.simps) simp
  qed
qed

section \<open>Fixed-length templates\<close>

definition fieldsLen_ipfix :: "ipfix_field list \<Rightarrow> nat" where
  "fieldsLen_ipfix fs = sum_list (map (\<lambda>f. if length_ipfix f = varLen then 0 else unat (length_ipfix f)) fs)"

definition hasVar_ipfix :: "ipfix_field list \<Rightarrow> bool" where
  "hasVar_ipfix fs \<longleftrightarrow> list_ex (\<lambda>f. length_ipfix f = varLen) fs"

lemma ipfix_values_fixed:
  "\<not> hasVar_ipfix fs \<Longrightarrow> fieldsLen_ipfix fs \<le> length r \<Longrightarrow>
   \<exists>vs. \<forall>n \<ge> fieldsLen_ipfix fs. ipfix_values fs (take n r) = Some (vs, drop (fieldsLen_ipfix fs) (take n r))"
proof (induction fs arbitrary: r)
  case (Cons f fs)
  let ?l = "unat (length_ipfix f)"
  have f: "length_ipfix f \<noteq> varLen" "\<not> hasVar_ipfix fs" using Cons.prems(1) by (auto simp: hasVar_ipfix_def)
  have len: "fieldsLen_ipfix (f # fs) = ?l + fieldsLen_ipfix fs" using f by (simp add: fieldsLen_ipfix_def)
  then have le: "fieldsLen_ipfix fs \<le> length (drop ?l r)" using Cons.prems(2) by simp
  obtain vs where vs: "\<And>n. fieldsLen_ipfix fs \<le> n \<Longrightarrow>
      ipfix_values fs (take n (drop ?l r)) = Some (vs, drop (fieldsLen_ipfix fs) (take n (drop ?l r)))"
    using Cons.IH [OF f(2) le] by blast
  have "ipfix_values (f # fs) (take n r) = Some ((f, take ?l r) # vs, drop (fieldsLen_ipfix (f # fs)) (take n r))"
    if "fieldsLen_ipfix (f # fs) \<le> n" for n
  proof -
    have "drop ?l (take n r) = take (n - ?l) (drop ?l r)" by (simp add: drop_take)
    moreover have "fieldsLen_ipfix fs \<le> n - ?l" "?l \<le> n" "?l \<le> length r" using that Cons.prems(2) len by linarith+
    ultimately show ?thesis
      using f vs [of "n - ?l"] len by (simp add: min_def add.commute flip: drop_take)
  qed
  then show ?case by blast
qed (simp add: fieldsLen_ipfix_def)

lemma ipfix_values_short: "\<not> hasVar_ipfix fs \<Longrightarrow> length r < fieldsLen_ipfix fs \<Longrightarrow> ipfix_values fs r = None"
proof (induction fs arbitrary: r)
  case (Cons f fs)
  then have "length_ipfix f \<noteq> varLen" "\<not> hasVar_ipfix fs" by (auto simp: hasVar_ipfix_def)
  with Cons show ?case by (auto simp: fieldsLen_ipfix_def)
qed (simp add: fieldsLen_ipfix_def)

lemma decodeFixed_ipfix_eq:
  assumes "0 < n" and "n = fieldsLen_ipfix fs" and "\<not> hasVar_ipfix fs"
  shows "pos \<le> length body \<Longrightarrow> decodeFixed_ipfix fs n body x e limit pos emitted dst =
   Some (dst @ map (ipfix_record_flow x e) (take (nat (limit - int emitted)) (ipfix_records fs (drop pos body))))"
proof (induction "nat (limit - int emitted)" arbitrary: pos emitted dst)
  case 0
  then show ?case by (subst decodeFixed_ipfix.simps) simp
next
  case (Suc m)
  show ?case
  proof (cases "pos + n \<le> length body")
    case True
    let ?r = "drop pos body"
    have lim: "int emitted < limit" "m = nat (limit - int (Suc emitted))" using Suc.hyps(2) by arith+
    have "fieldsLen_ipfix fs \<le> length ?r" using True assms(2) by simp
    from ipfix_values_fixed [OF assms(3) this] obtain vs
      where vs: "\<And>k. n \<le> k \<Longrightarrow> ipfix_values fs (take k ?r) = Some (vs, drop n (take k ?r))"
      unfolding assms(2) by blast
    have "decodeRecord_ipfix (take n ?r) fs x e = Some (ipfix_record_flow x e vs, n, True)"
      using decodeRecord_ipfix_eq [of "take n ?r" fs x e] vs [of n] True by simp
    moreover have "ipfix_records fs ?r = vs # ipfix_records fs (drop (pos + n) body)"
      using vs [of "length ?r"] True assms(1) by (intro ipfix_records_step) (auto simp: add.commute)
    ultimately show ?thesis
      using True lim Suc.hyps(1) [OF lim(2), of "pos + n" "dst @ [ipfix_record_flow x e vs]"] Suc.hyps(2)
      by (subst decodeFixed_ipfix.simps) (simp add: slice_def flip: Suc.hyps(2))
  next
    case False
    then have "ipfix_values fs (drop pos body) = None"
      using assms by (intro ipfix_values_short) auto
    with False show ?thesis by (subst decodeFixed_ipfix.simps) (simp add: ipfix_records_stop)
  qed
qed

section \<open>The invariant\<close>

definition template_ok_ipfix :: "ipfix_template \<Rightarrow> bool" where
  "template_ok_ipfix t \<longleftrightarrow> isOptions_ipfix t \<or>
     (recordLen_ipfix t = int (fieldsLen_ipfix (fields_ipfix t)) \<and> hasVarlen_ipfix t = hasVar_ipfix (fields_ipfix t))"

definition find_ipfix :: "ipfix_decoder \<Rightarrow> ipfix_templateKey \<Rightarrow> ipfix_template option" where
  "find_ipfix d = tc_find (cache_ipfix d)"

definition ipfix_inv :: "(nat \<Rightarrow> int) \<Rightarrow> ipfix_decoder \<Rightarrow> bool" where
  "ipfix_inv clk d \<longleftrightarrow>
     cache_inv clk (cache_ipfix d) \<and> (\<forall>k t. find_ipfix d k = Some t \<longrightarrow> template_ok_ipfix t)"

text \<open>Every template of \<open>d'\<close> is one of \<open>d\<close> or belongs to the exporter \<open>expS\<close>.\<close>

definition ipfix_from :: "string \<Rightarrow> ipfix_decoder \<Rightarrow> ipfix_decoder \<Rightarrow> bool" where
  "ipfix_from expS d d' \<longleftrightarrow>
     (\<forall>k t. find_ipfix d' k = Some t \<longrightarrow> find_ipfix d k = Some t \<or> exporter_ipfix k = expS)"

lemma ipfix_from_refl [intro, simp]: "ipfix_from expS d d"
  by (simp add: ipfix_from_def)

lemma ipfix_from_trans: "ipfix_from expS d d' \<Longrightarrow> ipfix_from expS d' d'' \<Longrightarrow> ipfix_from expS d d''"
  by (fastforce simp: ipfix_from_def)

lemma inc_ipfix [simp]:
  "find_ipfix (incReceived_ipfix d) = find_ipfix d" "find_ipfix (incUnknown_ipfix d) = find_ipfix d"
  "ipfix_inv clk (incReceived_ipfix d) = ipfix_inv clk d" "ipfix_inv clk (incUnknown_ipfix d) = ipfix_inv clk d"
  "ipfix_from expS d0 (incReceived_ipfix d) = ipfix_from expS d0 d"
  "ipfix_from expS (incReceived_ipfix d) d0 = ipfix_from expS d d0"
  by (simp_all add: find_ipfix_def ipfix_inv_def ipfix_from_def incReceived_ipfix_def incUnknown_ipfix_def)

lemma putTemplate_ipfix_ok:
  assumes "ipfix_inv clk d" and "template_ok_ipfix t"
  shows "\<exists>d'. putTemplate_ipfix clk k t d = Some d' \<and> ipfix_inv clk d' \<and> ipfix_from (exporter_ipfix k) d d'
    \<and> (length (tc_entries (cache_ipfix d)) < maxTemplates \<longrightarrow> find_ipfix d' k = Some t)"
proof -
  have inv: "cache_inv clk (cache_ipfix d)" using assms(1) by (simp add: ipfix_inv_def)
  from tc.put_returns [OF inv, of zeroKey_ipfix k t]
  obtain c where c: "putTemplate clk zeroKey_ipfix k t (cache_ipfix d) = Some c" "cache_inv clk c"
    by (elim exE conjE)
  have "(j = k \<and> u = t) \<or> (j \<noteq> k \<and> tc_find (cache_ipfix d) j = Some u)" if "tc_find c j = Some u" for j u
    using tc.put_find [OF inv c(1) that] .
  then have "ipfix_inv clk (d\<lparr>cache_ipfix := c\<rparr>)" "ipfix_from (exporter_ipfix k) d (d\<lparr>cache_ipfix := c\<rparr>)"
    using assms c(2) by (fastforce simp: ipfix_inv_def find_ipfix_def ipfix_from_def)+
  moreover have "find_ipfix (d\<lparr>cache_ipfix := c\<rparr>) k = Some t" if "length (tc_entries (cache_ipfix d)) < maxTemplates"
    using tc.put_room [OF inv that c(1)] by (simp add: find_ipfix_def)
  ultimately show ?thesis using c(1) by (simp add: putTemplate_ipfix_def)
qed

lemma getTemplate_ipfix_ok:
  assumes "ipfix_inv clk d" and "getTemplate_ipfix clk k d = (t, d')"
  shows "t = find_ipfix d k" "ipfix_inv clk d'" "find_ipfix d' = find_ipfix d"
  using assms getTemplate_spec [of clk "cache_ipfix d" k]
  by (auto simp: ipfix_inv_def find_ipfix_def getTemplate_ipfix_def split: prod.splits)

lemma deleteTemplate_ipfix_ok:
  assumes "ipfix_inv clk d"
  shows "ipfix_inv clk (deleteTemplate_ipfix k d)" "ipfix_from expS d (deleteTemplate_ipfix k d)"
    "find_ipfix (deleteTemplate_ipfix k d) = (find_ipfix d)(k := None)"
  using assms deleteTemplate_spec [of clk "cache_ipfix d" k]
  by (auto simp: ipfix_inv_def find_ipfix_def ipfix_from_def deleteTemplate_ipfix_def split: if_splits)

section \<open>No message makes the decoder panic or hang\<close>

lemma parseFieldSpecs_returns:
  "\<exists>r. parseFieldSpecs body p n = Some r \<and>
    (case r of None \<Rightarrow> True
     | Some (fs, p', recLen, hasVar) \<Rightarrow> recLen = int (fieldsLen_ipfix fs) \<and> hasVar = hasVar_ipfix fs \<and> length fs = n)"
proof (induction n arbitrary: p)
  case (Suc n)
  show ?case
  proof (cases "p + 4 \<le> length body")
    case True
    then have rd: "rd16 body p = Some (of_nat (nat_at body p 2))"
      "rd16 body (p + 2) = Some (of_nat (nat_at body (p + 2) 2))" by (simp_all add: go_simps)
    let ?p = "if (of_nat (nat_at body p 2) :: u16) AND enterpriseBit \<noteq> 0 then p + 4 + 4 else p + 4"
    obtain r where "parseFieldSpecs body ?p n = Some r" "case r of None \<Rightarrow> True
     | Some (fs, p', recLen, hasVar) \<Rightarrow> recLen = int (fieldsLen_ipfix fs) \<and> hasVar = hasVar_ipfix fs \<and> length fs = n"
      using Suc.IH [of ?p] by blast
    with True show ?thesis
      by (auto simp: rd Let_def fieldsLen_ipfix_def hasVar_ipfix_def split: option.splits)
  qed auto
qed (simp add: fieldsLen_ipfix_def hasVar_ipfix_def)

lemma parseTemplates_ipfix_ok:
  "ipfix_inv clk d \<Longrightarrow>
   \<exists>d'. parseTemplates_ipfix clk expS sid body p d = Some d' \<and> ipfix_inv clk d' \<and> ipfix_from expS d d'"
proof (induction "length body - p" arbitrary: p d rule: less_induct)
  case less
  show ?case
  proof (cases "p + 4 \<le> length body")
    case True
    let ?tid = "of_nat (nat_at body p 2) :: u16" and ?fc = "nat_at body (p + 2) 2"
    let ?k = "\<lparr>exporter_ipfix = expS, obsDomain_ipfix = sid, id_ipfix = ?tid\<rparr>"
    have dec: "length body - q < length body - p" if "p + 4 \<le> q" for q using that True by linarith
    obtain r where r: "parseFieldSpecs body (p + 4) ?fc = Some r" "case r of None \<Rightarrow> True
     | Some (fs, p', recLen, hasVar) \<Rightarrow> recLen = int (fieldsLen_ipfix fs) \<and> hasVar = hasVar_ipfix fs \<and> length fs = ?fc"
      using parseFieldSpecs_returns by blast
    consider "?tid = 0 \<or> (?fc \<noteq> 0 \<and> r = None)" | "?tid \<noteq> 0" "?fc = 0"
      | fs p' l v where "?tid \<noteq> 0" "?fc \<noteq> 0" "r = Some (fs, p', l, v)"
      by (cases r) auto
    then show ?thesis
    proof cases
      case 1
      with True r less.prems show ?thesis by (subst parseTemplates_ipfix.simps) (auto simp: go_simps)
    next
      case 2
      note del = deleteTemplate_ipfix_ok [OF less.prems, where k = ?k]
      from less.hyps [OF dec, of "p + 4" "deleteTemplate_ipfix ?k d"] del(1) ipfix_from_trans [OF del(2)]
      show ?thesis using 2 True by (subst parseTemplates_ipfix.simps) (auto simp: go_simps)
    next
      case 3
      let ?t = "\<lparr>fields_ipfix = fs, recordLen_ipfix = l, hasVarlen_ipfix = v, isOptions_ipfix = False\<rparr>"
      have "template_ok_ipfix ?t" using 3 r(2) by (simp add: template_ok_ipfix_def)
      from putTemplate_ipfix_ok [OF less.prems this, of ?k]
      obtain d1 where d1: "putTemplate_ipfix clk ?k ?t d = Some d1" "ipfix_inv clk d1" "ipfix_from expS d d1" by auto
      have "p + 4 \<le> p'" using 3 r(1) parseFieldSpecs_pos by blast
      from less.hyps [OF dec [OF this], of "incReceived_ipfix d1"] d1(2) ipfix_from_trans [OF d1(3)]
      show ?thesis using 3 True r(1) d1(1)
        by (subst parseTemplates_ipfix.simps) (auto simp: go_simps)
    qed
  next
    case False
    with less.prems show ?thesis by (subst parseTemplates_ipfix.simps) auto
  qed
qed

lemma parseOptionsTemplates_ipfix_ok:
  "ipfix_inv clk d \<Longrightarrow>
   \<exists>d'. parseOptionsTemplates_ipfix clk expS sid body p d = Some d' \<and> ipfix_inv clk d' \<and> ipfix_from expS d d'"
proof (induction "length body - p" arbitrary: p d rule: less_induct)
  case less
  show ?case
  proof (cases "p + 6 \<le> length body")
    case True
    let ?tid = "of_nat (nat_at body p 2) :: u16" and ?fc = "nat_at body (p + 2) 2"
    let ?k = "\<lparr>exporter_ipfix = expS, obsDomain_ipfix = sid, id_ipfix = ?tid\<rparr>"
    obtain r where r: "parseFieldSpecs body (p + 6) ?fc = Some r" using parseFieldSpecs_returns by blast
    consider "?tid = 0 \<or> r = None" | fs p' l v where "?tid \<noteq> 0" "r = Some (fs, p', l, v)"
      by (cases r) auto
    then show ?thesis
    proof cases
      case 1
      with True r less.prems show ?thesis by (subst parseOptionsTemplates_ipfix.simps) (auto simp: go_simps)
    next
      case 2
      let ?t = "\<lparr>fields_ipfix = [], recordLen_ipfix = 0, hasVarlen_ipfix = False, isOptions_ipfix = True\<rparr>"
      obtain d1 where d1: "putTemplate_ipfix clk ?k ?t d = Some d1" "ipfix_inv clk d1" "ipfix_from expS d d1"
        using putTemplate_ipfix_ok [OF less.prems, of ?t ?k] by (auto simp: template_ok_ipfix_def)
      have "p + 6 \<le> p'" using 2 r parseFieldSpecs_pos by blast
      then have "length body - p' < length body - p" using True by linarith
      from less.hyps [OF this, of "incReceived_ipfix d1"] d1(2) ipfix_from_trans [OF d1(3)]
      show ?thesis using 2 True r d1(1)
        by (subst parseOptionsTemplates_ipfix.simps) (auto simp: go_simps)
    qed
  next
    case False
    with less.prems show ?thesis by (subst parseOptionsTemplates_ipfix.simps) auto
  qed
qed

lemma decodeData_ipfix_eq:
  assumes "ipfix_inv clk d"
  shows "\<exists>d'. decodeData_ipfix clk dst expS sid tid body x e limit d =
      Some (dst @ ipfix_data_flows (find_ipfix d \<lparr>exporter_ipfix = expS, obsDomain_ipfix = sid, id_ipfix = tid\<rparr>) limit body x e, d')
    \<and> ipfix_inv clk d' \<and> find_ipfix d' = find_ipfix d"
proof -
  let ?k = "\<lparr>exporter_ipfix = expS, obsDomain_ipfix = sid, id_ipfix = tid\<rparr>"
  obtain t d1 where get: "getTemplate_ipfix clk ?k d = (t, d1)" by (metis surj_pair)
  note ok = getTemplate_ipfix_ok [OF assms get]
  show ?thesis
  proof (cases t)
    case None
    with get ok show ?thesis by (simp add: decodeData_ipfix_def ipfix_data_flows_def)
  next
    case (Some tm)
    then have found: "find_ipfix d ?k = Some tm" using ok(1) by simp
    then have tm: "template_ok_ipfix tm" using assms by (simp add: ipfix_inv_def)
    consider "isOptions_ipfix tm" | "\<not> isOptions_ipfix tm" "hasVarlen_ipfix tm"
      | "\<not> isOptions_ipfix tm" "\<not> hasVarlen_ipfix tm" "recordLen_ipfix tm \<le> 0"
      | "\<not> isOptions_ipfix tm" "\<not> hasVarlen_ipfix tm" "recordLen_ipfix tm > 0" by linarith
    then show ?thesis
    proof cases
      case 3
      then have z: "fieldsLen_ipfix (fields_ipfix tm) = 0" "\<not> hasVar_ipfix (fields_ipfix tm)"
        using tm by (auto simp: template_ok_ipfix_def)
      obtain vs where "\<And>n. ipfix_values (fields_ipfix tm) (take n body) = Some (vs, take n body)"
        using ipfix_values_fixed [OF z(2), of body] z(1) by auto
      from this [of "length body"] have "ipfix_records (fields_ipfix tm) body = []"
        by (simp add: ipfix_records_stop)
      with 3 get ok Some found show ?thesis by (simp add: decodeData_ipfix_def ipfix_data_flows_def)
    next
      case 4
      then have "nat (recordLen_ipfix tm) = fieldsLen_ipfix (fields_ipfix tm)" "\<not> hasVar_ipfix (fields_ipfix tm)"
        using tm by (auto simp: template_ok_ipfix_def)
      with 4 get ok Some found show ?thesis
        by (simp add: decodeData_ipfix_def ipfix_data_flows_def decodeFixed_ipfix_eq)
    qed (use get ok Some found in \<open>simp_all add: decodeData_ipfix_def ipfix_data_flows_def decodeVar_ipfix_eq\<close>)
  qed
qed

lemma ipfix_data_flows_length: "0 \<le> limit \<Longrightarrow> int (length (ipfix_data_flows t limit body x e)) \<le> limit"
  by (auto simp: ipfix_data_flows_def split: option.splits)

text \<open>One round of the Set loop on a Set that fits the message.\<close>

lemma decodeSets_ipfix_step:
  fixes off payload
  defines "l \<equiv> nat_at payload (off + 2) 2" and "setID \<equiv> of_nat (nat_at payload off 2) :: u16"
  assumes "off + 4 \<le> stop" and "4 \<le> l" and "off + l \<le> stop" and "stop \<le> length payload"
  shows "decodeSets_ipfix clk expS sid x e payload stop off budget dst d =
     (let body = take (l - 4) (drop (off + 4) payload) in
      if setID = setTemplate then do {
        d \<leftarrow> parseTemplates_ipfix clk expS sid body 0 d;
        decodeSets_ipfix clk expS sid x e payload stop (off + l) budget dst d
      } else if setID = setOptionsTemplate then do {
        d \<leftarrow> parseOptionsTemplates_ipfix clk expS sid body 0 d;
        decodeSets_ipfix clk expS sid x e payload stop (off + l) budget dst d
      } else if setID \<ge> setDataMin then do {
        (dst', d) \<leftarrow> decodeData_ipfix clk dst expS sid setID body x e budget d;
        let budget' = budget - (int (length dst') - int (length dst));
        if budget' \<le> 0 then Some (dst', d)
        else decodeSets_ipfix clk expS sid x e payload stop (off + l) budget' dst' d
      } else decodeSets_ipfix clk expS sid x e payload stop (off + l) budget dst d)"
  using assms(3-6) unfolding l_def setID_def
  by (subst decodeSets_ipfix.simps) (simp add: go_simps Let_def cong: if_cong)

lemma decodeSets_ipfix_ok:
  assumes "stop \<le> length payload"
  shows "ipfix_inv clk d \<Longrightarrow> 0 \<le> budget \<Longrightarrow>
   \<exists>fs d'. decodeSets_ipfix clk expS sid x e payload stop off budget dst d = Some (dst @ fs, d')
     \<and> ipfix_inv clk d' \<and> ipfix_from expS d d' \<and> int (length fs) \<le> budget"
proof (induction "stop - off" arbitrary: off budget dst d rule: less_induct)
  case less
  let ?l = "nat_at payload (off + 2) 2"
  show ?case
  proof (cases "off + 4 \<le> stop \<and> 4 \<le> ?l \<and> off + ?l \<le> stop")
    case False
    with less.prems assms show ?thesis
      by (subst decodeSets_ipfix.simps) (auto simp: go_simps)
  next
    case True
    then have dec: "stop - (off + ?l) < stop - off" by linarith
    let ?id = "of_nat (nat_at payload off 2) :: u16"
    let ?body = "take (?l - 4) (drop (off + 4) payload)"
    note IH = less.hyps [OF dec]
    have step: "\<exists>fs d'. decodeSets_ipfix clk expS sid x e payload stop (off + ?l) budget dst d1 = Some (dst @ fs, d')
        \<and> ipfix_inv clk d' \<and> ipfix_from expS d d' \<and> int (length fs) \<le> budget"
      if "ipfix_inv clk d1" "ipfix_from expS d d1" for d1
      using IH [OF that(1) less.prems(2), of dst] ipfix_from_trans [OF that(2)] by blast
    have fits: "off + 4 \<le> stop" "4 \<le> ?l" "off + ?l \<le> stop" using True by auto
    note unfold = decodeSets_ipfix_step [OF fits assms, unfolded Let_def]
    consider "?id = setTemplate" | "?id \<noteq> setTemplate" "?id = setOptionsTemplate"
      | "?id \<noteq> setTemplate" "?id \<noteq> setOptionsTemplate" "?id \<ge> setDataMin"
      | "?id \<noteq> setTemplate" "?id \<noteq> setOptionsTemplate" "\<not> ?id \<ge> setDataMin" by blast
    then show ?thesis
    proof cases
      case 1
      obtain d1 where "parseTemplates_ipfix clk expS sid ?body 0 d = Some d1" "ipfix_inv clk d1" "ipfix_from expS d d1"
        using parseTemplates_ipfix_ok [OF less.prems(1)] by blast
      with 1 step [of d1] show ?thesis unfolding unfold by simp
    next
      case 2
      obtain d1 where "parseOptionsTemplates_ipfix clk expS sid ?body 0 d = Some d1" "ipfix_inv clk d1" "ipfix_from expS d d1"
        using parseOptionsTemplates_ipfix_ok [OF less.prems(1)] by blast
      with 2 step [of d1] show ?thesis unfolding unfold by simp
    next
      case 3
      define fs where "fs = ipfix_data_flows (find_ipfix d \<lparr>exporter_ipfix = expS, obsDomain_ipfix = sid, id_ipfix = ?id\<rparr>) budget ?body x e"
      obtain d1 where d1: "decodeData_ipfix clk dst expS sid ?id ?body x e budget d = Some (dst @ fs, d1)"
        "ipfix_inv clk d1" "find_ipfix d1 = find_ipfix d"
        using decodeData_ipfix_eq [OF less.prems(1)] unfolding fs_def by blast
      have frm: "ipfix_from expS d d1" using d1(3) by (simp add: ipfix_from_def)
      have len: "int (length fs) \<le> budget" using ipfix_data_flows_length [OF less.prems(2)] by (simp add: fs_def)
      show ?thesis
      proof (cases "budget - int (length fs) \<le> 0")
        case True
        with 3 d1 frm len show ?thesis unfolding unfold by auto
      next
        case False
        then obtain gs d' where "decodeSets_ipfix clk expS sid x e payload stop (off + ?l) (budget - int (length fs)) (dst @ fs) d1
            = Some ((dst @ fs) @ gs, d')" "ipfix_inv clk d'" "ipfix_from expS d1 d'" "int (length gs) \<le> budget - int (length fs)"
          using IH [OF d1(2), of "budget - int (length fs)" "dst @ fs"] by auto
        with 3 d1 False ipfix_from_trans [OF frm] show ?thesis
          unfolding unfold by (intro exI [of _ "fs @ gs"]) simp
      qed
    next
      case 4
      with step [of d] less.prems show ?thesis unfolding unfold by simp
    qed
  qed
qed

text \<open>The end of the part of the datagram that is parsed.\<close>

definition ipfix_stop :: "bytes \<Rightarrow> nat" where
  "ipfix_stop payload =
     (let m = nat_at payload 2 2 in if 16 \<le> m \<and> m < length payload then m else length payload)"

lemma Decode_ipfix_unfold:
  assumes "16 \<le> length payload" and "nat_at payload 0 2 = 10"
  shows "Decode_ipfix clk d dst payload e =
    Option.bind (decodeSets_ipfix clk (ip_String e) (of_nat (nat_at payload 12 4))
        (time_Unix (int (nat_at payload 4 4)) 0) e payload (ipfix_stop payload) 16 8192 dst d)
      (\<lambda>(dst, d). Some (dst, None, d))"
  using assms
  by (simp add: Decode_ipfix_def go_simps headerLen_ipfix_def version_ipfix_def
      maxRecordsPerPacket_ipfix_def ipfix_stop_def Let_def cong: if_cong)

lemma Decode_ipfix_ok:
  assumes "ipfix_inv clk d"
  shows "\<exists>fs err d'. Decode_ipfix clk d dst payload e = Some (dst @ fs, err, d') \<and> ipfix_inv clk d'
    \<and> ipfix_from (ip_String e) d d' \<and> length fs \<le> 8192 \<and> (err \<noteq> None \<longrightarrow> fs = [] \<and> d' = d)
    \<and> (err \<noteq> None \<longleftrightarrow> length payload < headerLen_ipfix \<or> nat_at payload 0 2 \<noteq> unat version_ipfix)"
proof (cases "length payload < 16 \<or> nat_at payload 0 2 \<noteq> 10")
  case True
  with assms show ?thesis
    by (auto simp: Decode_ipfix_def go_simps headerLen_ipfix_def version_ipfix_def)
next
  case False
  have "ipfix_stop payload \<le> length payload" by (simp add: ipfix_stop_def Let_def)
  from decodeSets_ipfix_ok [OF this assms, of 8192]
  obtain fs d' where "decodeSets_ipfix clk (ip_String e) (of_nat (nat_at payload 12 4))
        (time_Unix (int (nat_at payload 4 4)) 0) e payload (ipfix_stop payload) 16 8192 dst d
      = Some (dst @ fs, d')" "ipfix_inv clk d'" "ipfix_from (ip_String e) d d'" "int (length fs) \<le> 8192"
    by (metis zero_le_numeral)
  with False show ?thesis
    by (simp add: Decode_ipfix_unfold headerLen_ipfix_def version_ipfix_def)
qed

interpretation ipfix: flow_decoder "Decode_ipfix clk" "ipfix_inv clk" 8192 for clk
  by unfold_locales (metis Decode_ipfix_ok)

lemma ipfix_inv_New: "clock_ok clk \<Longrightarrow> ipfix_inv clk (New_ipfix r u)"
  by (simp add: ipfix_inv_def New_ipfix_def find_ipfix_def cache_inv_empty)
    (simp add: tc_find_def empty_cache_def)

section \<open>Persistence of the cache\<close>

record ipfix_serializableField =
  sf_Type_ipfix :: u16
  sf_Length_ipfix :: u16
  sf_Enterprise_ipfix :: bool

record ipfix_serializableTemplate =
  st_Exporter_ipfix :: string
  st_ObsDomain_ipfix :: u32
  st_ID_ipfix :: u16
  st_Fields_ipfix :: "ipfix_serializableField list"
  st_RecordLen_ipfix :: int
  st_HasVarlen_ipfix :: bool
  st_IsOptions_ipfix :: bool

definition dumped_ipfix :: "ipfix_templateKey \<Rightarrow> ipfix_template \<Rightarrow> ipfix_serializableTemplate" where
  "dumped_ipfix k t =
     \<lparr>st_Exporter_ipfix = exporter_ipfix k, st_ObsDomain_ipfix = obsDomain_ipfix k, st_ID_ipfix = id_ipfix k,
      st_Fields_ipfix = map (\<lambda>f. \<lparr>sf_Type_ipfix = ie_ipfix f, sf_Length_ipfix = length_ipfix f,
        sf_Enterprise_ipfix = enterprise_ipfix f\<rparr>) (fields_ipfix t),
      st_RecordLen_ipfix = recordLen_ipfix t, st_HasVarlen_ipfix = hasVarlen_ipfix t,
      st_IsOptions_ipfix = isOptions_ipfix t\<rparr>"

definition DumpTemplates_ipfix ::
  "(ipfix_serializableTemplate list \<Rightarrow> 'err + bytes) \<Rightarrow> ipfix_decoder \<Rightarrow> 'err + bytes" where
  "DumpTemplates_ipfix marshal d = marshal (map (\<lambda>(k, t, ls). dumped_ipfix k t) (tc_entries (cache_ipfix d)))"

definition restored_ipfix :: "ipfix_serializableTemplate \<Rightarrow> ipfix_template" where
  "restored_ipfix s =
     \<lparr>fields_ipfix = map (\<lambda>f. \<lparr>ie_ipfix = sf_Type_ipfix f, length_ipfix = sf_Length_ipfix f,
        enterprise_ipfix = sf_Enterprise_ipfix f\<rparr>) (st_Fields_ipfix s),
      recordLen_ipfix = st_RecordLen_ipfix s, hasVarlen_ipfix = st_HasVarlen_ipfix s,
      isOptions_ipfix = st_IsOptions_ipfix s\<rparr>"

definition LoadTemplates_ipfix ::
  "(nat \<Rightarrow> int) \<Rightarrow> (bytes \<Rightarrow> 'err + ipfix_serializableTemplate list) \<Rightarrow> bytes \<Rightarrow> ipfix_decoder
    \<Rightarrow> 'err option \<times> ipfix_decoder" where
  "LoadTemplates_ipfix clk unmarshal data d =
     (if length data = 0 then (None, d)
      else case unmarshal data of
        Inl err \<Rightarrow> (Some err, d)
      | Inr list \<Rightarrow>
          (let now = clk (tc_ticks (cache_ipfix d));
               es = foldl (\<lambda>es s. AList.update
                      \<lparr>exporter_ipfix = st_Exporter_ipfix s, obsDomain_ipfix = st_ObsDomain_ipfix s, id_ipfix = st_ID_ipfix s\<rparr>
                      (restored_ipfix s, now) es) (tc_entries (cache_ipfix d)) list
           in (None, d\<lparr>cache_ipfix := (cache_ipfix d)\<lparr>tc_entries := es, tc_ticks := Suc (tc_ticks (cache_ipfix d))\<rparr>\<rparr>)))"

lemma restored_dumped_ipfix [simp]: "restored_ipfix (dumped_ipfix k t) = t"
  by (cases t) (auto simp: restored_ipfix_def dumped_ipfix_def o_def intro!: map_idI)

lemma dumped_ipfix_key [simp]:
  "\<lparr>exporter_ipfix = st_Exporter_ipfix (dumped_ipfix k t), obsDomain_ipfix = st_ObsDomain_ipfix (dumped_ipfix k t),
    id_ipfix = st_ID_ipfix (dumped_ipfix k t)\<rparr> = k"
  by (simp add: dumped_ipfix_def)

lemma Load_Dump_ipfix:
  assumes "DumpTemplates_ipfix marshal d = Inr data" and "data \<noteq> []"
    and "\<And>l. marshal l = Inr data \<Longrightarrow> unmarshal data = Inr l"
    and "distinct (map fst (tc_entries (cache_ipfix d)))"
  shows "\<exists>d'. LoadTemplates_ipfix clk unmarshal data (New_ipfix r u) = (None, d') \<and> find_ipfix d' = find_ipfix d"
  using assms map_of_fold_update [OF assms(4), of "\<lambda>v. (fst v, clk 0)" "[]"]
  by (auto simp: LoadTemplates_ipfix_def DumpTemplates_ipfix_def New_ipfix_def empty_cache_def find_ipfix_def
      tc_find_def fun_eq_iff foldl_map case_prod_beta option.map_comp o_def split: option.splits)

section \<open>Messages with one Set\<close>

definition ipfix_set :: "u16 \<Rightarrow> bytes \<Rightarrow> bytes" where
  "ipfix_set sid body = put16 sid @ put16 (of_nat (4 + length body)) @ body"

text \<open>A header whose length field covers one Set with a body of \<open>n\<close> bytes.\<close>

definition ipfix_header_ok :: "bytes \<Rightarrow> nat \<Rightarrow> bool" where
  "ipfix_header_ok h n \<longleftrightarrow> length h = 16 \<and> nat_at h 0 2 = 10 \<and> nat_at h 2 2 = 20 + n \<and> 20 + n < 65536"

lemma decodeSets_ipfix_end: "stop < off + 4 \<Longrightarrow>
  decodeSets_ipfix clk expS sid x e payload stop off budget dst d = Some (dst, d)"
  by (subst decodeSets_ipfix.simps) simp

lemma Decode_ipfix_one_set:
  assumes "ipfix_header_ok h (length body)"
  shows "Decode_ipfix clk d dst (h @ ipfix_set sid body) e =
    (let expS = ip_String e; dom = of_nat (nat_at h 12 4); x = time_Unix (int (nat_at h 4 4)) 0 in
     if sid = setTemplate then
       Option.bind (parseTemplates_ipfix clk expS dom body 0 d) (\<lambda>d. Some (dst, None, d))
     else if sid = setOptionsTemplate then
       Option.bind (parseOptionsTemplates_ipfix clk expS dom body 0 d) (\<lambda>d. Some (dst, None, d))
     else if sid \<ge> setDataMin then
       Option.bind (decodeData_ipfix clk dst expS dom sid body x e 8192 d) (\<lambda>(dst, d). Some (dst, None, d))
     else Some (dst, None, d))"
proof -
  define p where "p = h @ ipfix_set sid body"
  note h = assms [unfolded ipfix_header_ok_def]
  have hdr: "nat_at p 0 2 = 10" "nat_at p 2 2 = 20 + length body" "nat_at p 4 4 = nat_at h 4 4"
    "nat_at p 12 4 = nat_at h 12 4" using h by (simp_all add: p_def nat_at_append)
  have set1: "nat_at p 16 2 = unat sid" using h by (simp add: p_def nat_at_append2 ipfix_set_def)
  have "nat_at p 18 2 = nat_at (put16 (of_nat (4 + length body)) @ body) 0 2"
    using h nat_at_append2 [of "h @ put16 sid" 18 "put16 (of_nat (4 + length body)) @ body"]
    by (simp add: p_def ipfix_set_def)
  then have set2: "nat_at p 18 2 = 4 + length body"
    using h by (simp add: unat_of_nat_u16 del: of_nat_add)
  have len: "length p = 20 + length body" using h by (simp add: p_def ipfix_set_def)
  have body: "take (length body) (drop 20 p) = body" using h by (simp add: p_def ipfix_set_def)
  have stop: "ipfix_stop p = 20 + length body" using hdr len by (simp add: ipfix_stop_def)
  have step: "decodeSets_ipfix clk (ip_String e) dom x e p (20 + length body) 16 8192 dst d =
     (if sid = setTemplate then
       Option.bind (parseTemplates_ipfix clk (ip_String e) dom body 0 d) (\<lambda>d. Some (dst, d))
     else if sid = setOptionsTemplate then
       Option.bind (parseOptionsTemplates_ipfix clk (ip_String e) dom body 0 d) (\<lambda>d. Some (dst, d))
     else if sid \<ge> setDataMin then
       decodeData_ipfix clk dst (ip_String e) dom sid body x e 8192 d
     else Some (dst, d))" for dom x
    using decodeSets_ipfix_step [of 16 "20 + length body" p] len body
    by (simp add: set1 set2 decodeSets_ipfix_end Let_def case_prod_beta cong: if_cong)
  show ?thesis
    unfolding p_def [symmetric] using hdr len
    by (simp add: Decode_ipfix_unfold stop step Let_def case_prod_beta split: Option.bind_splits)
qed

section \<open>Records on the wire\<close>

definition enc_value :: "ipfix_field \<times> bytes \<Rightarrow> bytes" where
  "enc_value = (\<lambda>(fld, v).
     (if length_ipfix fld \<noteq> varLen then []
      else if length v < 255 then [of_nat (length v)] else 255 # put16 (of_nat (length v))) @ v)"

definition value_ok :: "ipfix_field \<times> bytes \<Rightarrow> bool" where
  "value_ok = (\<lambda>(fld, v).
     if length_ipfix fld = varLen then length v < 65536 else length v = unat (length_ipfix fld))"

definition enc_record :: "(ipfix_field \<times> bytes) list \<Rightarrow> bytes" where
  "enc_record vs = concat (map enc_value vs)"

lemma var_length_short: "length v < 255 \<Longrightarrow> var_length (of_nat (length v) # v @ rest) = Some (length v, v @ rest)"
proof -
  assume l: "length v < 255"
  then have "unat (of_nat (length v) :: byte) = length v" by (simp add: unsigned_of_nat take_bit_nat_eq_self)
  moreover have "(of_nat (length v) :: byte) \<noteq> 255"
    using l calculation by (metis less_irrefl unat_numeral_255)
  ultimately show ?thesis by simp
qed

lemma ipfix_values_encode:
  "list_all value_ok vs \<Longrightarrow> ipfix_values (map fst vs) (enc_record vs @ rest) = Some (vs, rest)"
proof (induction vs)
  case (Cons p vs)
  obtain fld v where p: "p = (fld, v)" by (cases p)
  have ok: "value_ok (fld, v)" "list_all value_ok vs" using Cons.prems p by auto
  define r where "r = enc_value (fld, v) @ enc_record vs @ rest"
  have "(if length_ipfix fld = varLen then var_length r else Some (unat (length_ipfix fld), r))
      = Some (length v, v @ enc_record vs @ rest)"
    using ok(1) var_length_short [of v]
    by (auto simp: r_def enc_value_def value_ok_def unat_of_nat_u16 drop_put16)
  then have "ipfix_values (fld # map fst vs) r = Some ((fld, v) # vs, rest)"
    using Cons.IH [OF ok(2)] by (simp only: ipfix_values.simps) simp
  then show ?case by (simp add: p r_def enc_record_def)
qed (simp add: enc_record_def)

lemma ipfix_records_encode:
  "list_all (\<lambda>vs. map fst vs = fs \<and> list_all value_ok vs \<and> enc_record vs \<noteq> []) rs \<Longrightarrow>
   ipfix_records fs (concat (map enc_record rs)) = rs"
proof (induction rs)
  case (Cons vs rs)
  have "ipfix_values fs (enc_record vs @ concat (map enc_record rs)) = Some (vs, concat (map enc_record rs))"
    using Cons.prems ipfix_values_encode [of vs] by auto
  with Cons show ?case by (simp add: ipfix_records_step)
qed simp

section \<open>Properties\<close>

text \<open>Example decoder: one exporter, one template with a fixed and a variable-length field.\<close>

definition ipfix_example_fields :: "ipfix_field list" where
  "ipfix_example_fields = [\<lparr>ie_ipfix = 8, length_ipfix = 4, enterprise_ipfix = False\<rparr>,
     \<lparr>ie_ipfix = 371, length_ipfix = varLen, enterprise_ipfix = False\<rparr>]"

definition ipfix_example :: ipfix_decoder where
  "ipfix_example = (New_ipfix None None)\<lparr>cache_ipfix := \<lparr>tc_entries =
      [(\<lparr>exporter_ipfix = ''192.0.2.7'', obsDomain_ipfix = 1, id_ipfix = 256\<rparr>,
        \<lparr>fields_ipfix = ipfix_example_fields, recordLen_ipfix = 4, hasVarlen_ipfix = True,
         isOptions_ipfix = False\<rparr>, 0)],
      tc_lastSweep = 0, tc_ticks = 0\<rparr>\<rparr>"

definition ipfix_example_header :: "nat \<Rightarrow> bytes" where
  "ipfix_example_header n = put16 10 @ put16 (of_nat (20 + n)) @ put32 2000 @ put32 7 @ put32 1"

lemma ipfix_inv_example: "ipfix_inv (\<lambda>_. 0) ipfix_example"
  by (auto simp: ipfix_inv_def ipfix_example_def ipfix_example_fields_def cache_inv_def clock_ok_def maxInt64_def
      entries_ok_def maxTemplates_def find_ipfix_def tc_find_def template_ok_ipfix_def fieldsLen_ipfix_def
      hasVar_ipfix_def varLen_def)

lemma ipfix_example_header:
  assumes "20 + n < 65536"
  shows "ipfix_header_ok (ipfix_example_header n) n" "of_nat (nat_at (ipfix_example_header n) 12 4) = (1 :: u32)"
proof -
  have "nat_at (ipfix_example_header n) 2 2 = nat_at (put16 (of_nat (20 + n)) @ put32 2000 @ put32 7 @ put32 1) 0 2"
    by (simp add: ipfix_example_header_def nat_at_append2)
  then show "ipfix_header_ok (ipfix_example_header n) n"
    using assms by (simp add: ipfix_header_ok_def ipfix_example_header_def unat_of_nat_u16 del: of_nat_add)
  have "nat_at (ipfix_example_header n) 12 4 = nat_at (put32 1 @ []) 0 4"
    unfolding ipfix_example_header_def
    using nat_at_append2 [of "put16 10 @ put16 (of_nat (20 + n)) @ put32 2000 @ put32 7" 12 "put32 1" 4] by simp
  then show "of_nat (nat_at (ipfix_example_header n) 12 4) = (1 :: u32)" by (simp del: append_Nil2)
qed

text \<open>
  C3.  Decoding IPFIX is safe on every byte sequence: from a well-formed decoder, \<open>Decode\<close>
  returns, only appends flows to \<open>dst\<close>, at most \<open>maxRecordsPerPacket\<close> of them, reports an error
  exactly for a datagram shorter than the header or of another version, then leaves the
  decoder untouched, and keeps the decoder well formed.
\<close>

theorem Decode_ipfix_safe:
  assumes "ipfix_inv clk d"
  shows "\<exists>fs err d'. Decode_ipfix clk d dst payload e = Some (dst @ fs, err, d') \<and> ipfix_inv clk d'
    \<and> int (length fs) \<le> maxRecordsPerPacket_ipfix
    \<and> (err \<noteq> None \<longleftrightarrow> length payload < headerLen_ipfix \<or> nat_at payload 0 2 \<noteq> unat version_ipfix)
    \<and> (err \<noteq> None \<longrightarrow> fs = [] \<and> d' = d)"
  using Decode_ipfix_ok [OF assms, of dst payload e]
  by (elim exE) (auto simp: maxRecordsPerPacket_ipfix_def)

theorem Decode_ipfix_safe_witness:
  "\<exists>fs err d'. Decode_ipfix (\<lambda>_. 0) ipfix_example [] [0, 10, 0, 0] [10, 0, 0, 1] = Some ([] @ fs, err, d')
    \<and> ipfix_inv (\<lambda>_. 0) d' \<and> int (length fs) \<le> maxRecordsPerPacket_ipfix
    \<and> (err \<noteq> None \<longleftrightarrow> length [0::byte, 10, 0, 0] < headerLen_ipfix \<or> nat_at [0, 10, 0, 0] 0 2 \<noteq> unat version_ipfix)
    \<and> (err \<noteq> None \<longrightarrow> fs = [] \<and> d' = ipfix_example)"
  by (rule Decode_ipfix_safe [OF ipfix_inv_example])

text \<open>
  C4.  Records survive the wire.  Let the exporter have announced a template with the fields
  \<open>fs\<close>, fixed or of variable length.  A message with one Data Set that holds the encodings of
  the records \<open>rs\<close> (variable-length values with the one-byte or the three-byte length form)
  decodes to exactly one flow per record, in order, each with the values of that record
  applied to an empty flow; enterprise fields are skipped, and absent times are the export time.
\<close>

theorem Decode_ipfix_roundtrip:
  assumes "ipfix_inv clk d"
    and "find_ipfix d \<lparr>exporter_ipfix = ip_String e, obsDomain_ipfix = of_nat (nat_at h 12 4), id_ipfix = sid\<rparr> = Some t"
    and "\<not> isOptions_ipfix t" and "setDataMin \<le> sid"
    and "list_all (\<lambda>vs. map fst vs = fields_ipfix t \<and> list_all value_ok vs \<and> enc_record vs \<noteq> []) rs"
    and "ipfix_header_ok h (length (concat (map enc_record rs)))"
    and "int (length rs) \<le> maxRecordsPerPacket_ipfix"
  shows "\<exists>d'. Decode_ipfix clk d dst (h @ ipfix_set sid (concat (map enc_record rs))) e =
      Some (dst @ map (ipfix_record_flow (time_Unix (int (nat_at h 4 4)) 0) (cloneIP_ipfix e)) rs, None, d')
    \<and> find_ipfix d' = find_ipfix d"
proof -
  have "sid \<noteq> setTemplate" "sid \<noteq> setOptionsTemplate"
    using assms(4) by (auto simp: setDataMin_def setTemplate_def setOptionsTemplate_def word_le_nat_alt)
  moreover have "ipfix_data_flows (Some t) 8192 (concat (map enc_record rs)) x e =
      map (ipfix_record_flow x (cloneIP_ipfix e)) rs" for x
    using assms(3,7) ipfix_records_encode [OF assms(5)]
    by (simp add: ipfix_data_flows_def maxRecordsPerPacket_ipfix_def)
  moreover obtain d' where "decodeData_ipfix clk dst (ip_String e) (of_nat (nat_at h 12 4)) sid
      (concat (map enc_record rs)) (time_Unix (int (nat_at h 4 4)) 0) e 8192 d =
      Some (dst @ ipfix_data_flows (Some t) 8192 (concat (map enc_record rs)) (time_Unix (int (nat_at h 4 4)) 0) e, d')"
    "find_ipfix d' = find_ipfix d"
    using decodeData_ipfix_eq [OF assms(1)] unfolding assms(2) [symmetric] by blast
  ultimately show ?thesis
    using assms(4) by (simp add: Decode_ipfix_one_set [OF assms(6)] Let_def)
qed

theorem Decode_ipfix_roundtrip_witness:
  fixes v h
  defines "v \<equiv> zip ipfix_example_fields [[10, 0, 0, 7], [98, 111, 98]]"
    and "h \<equiv> ipfix_example_header (length (concat (map enc_record
           [zip ipfix_example_fields [[10, 0, 0, 7], [98, 111, 98]]])))"
  shows "\<exists>d'. Decode_ipfix (\<lambda>_. 0) ipfix_example [] (h @ ipfix_set 256 (concat (map enc_record [v]))) [192, 0, 2, 7] =
      Some ([] @ map (ipfix_record_flow (time_Unix (int (nat_at h 4 4)) 0) (cloneIP_ipfix [192, 0, 2, 7])) [v], None, d')
    \<and> find_ipfix d' = find_ipfix ipfix_example"
proof (rule Decode_ipfix_roundtrip [OF ipfix_inv_example])
  have len: "length (concat (map enc_record [v])) = 8"
    by (simp add: v_def enc_record_def enc_value_def ipfix_example_fields_def varLen_def)
  note hdr = ipfix_example_header [of 8]
  have h: "h = ipfix_example_header 8" using len by (simp add: h_def v_def)
  show "ipfix_header_ok h (length (concat (map enc_record [v])))" unfolding len h by (rule hdr) simp
  have "of_nat (nat_at h 12 4) = (1 :: u32)" unfolding h by (rule hdr) simp
  moreover have "ip_String [192, 0, 2, 7] = ''192.0.2.7''" by code_simp
  ultimately show "find_ipfix ipfix_example \<lparr>exporter_ipfix = ip_String [192, 0, 2, 7],
      obsDomain_ipfix = of_nat (nat_at h 12 4), id_ipfix = 256\<rparr>
    = Some \<lparr>fields_ipfix = ipfix_example_fields, recordLen_ipfix = 4, hasVarlen_ipfix = True, isOptions_ipfix = False\<rparr>"
    by (simp add: ipfix_example_def find_ipfix_def tc_find_def)
qed (simp_all add: setDataMin_def v_def value_ok_def ipfix_example_fields_def varLen_def enc_record_def enc_value_def
    maxRecordsPerPacket_ipfix_def)

text \<open>
   Exporters are isolated: after a message from one exporter, every cached template of
  another exporter was there before, under the same key and with the same fields.
\<close>

theorem Decode_ipfix_isolated:
  assumes "ipfix_inv clk d" and "Decode_ipfix clk d dst payload e = Some (out, err, d')"
    and "find_ipfix d' k = Some t" and "exporter_ipfix k \<noteq> ip_String e"
  shows "find_ipfix d k = Some t"
  using Decode_ipfix_ok [OF assms(1), of dst payload e] assms(2-4) by (auto simp: ipfix_from_def)

theorem Decode_ipfix_isolated_witness:
  "find_ipfix ipfix_example \<lparr>exporter_ipfix = ''192.0.2.7'', obsDomain_ipfix = 1, id_ipfix = 256\<rparr>
    = Some \<lparr>fields_ipfix = ipfix_example_fields, recordLen_ipfix = 4, hasVarlen_ipfix = True, isOptions_ipfix = False\<rparr>"
proof (rule Decode_ipfix_isolated [OF ipfix_inv_example, where e = "[10, 0, 0, 1]" and dst = "[]" and payload = "[0, 10]"])
  show "Decode_ipfix (\<lambda>_. 0) ipfix_example [] [0, 10] [10, 0, 0, 1] = Some ([], Some ErrShortPacket, ipfix_example)"
    by (simp add: Decode_ipfix_def headerLen_ipfix_def)
  show "find_ipfix ipfix_example \<lparr>exporter_ipfix = ''192.0.2.7'', obsDomain_ipfix = 1, id_ipfix = 256\<rparr>
    = Some \<lparr>fields_ipfix = ipfix_example_fields, recordLen_ipfix = 4, hasVarlen_ipfix = True, isOptions_ipfix = False\<rparr>"
    by (simp add: ipfix_example_def find_ipfix_def tc_find_def)
  show "exporter_ipfix \<lparr>exporter_ipfix = ''192.0.2.7'', obsDomain_ipfix = 1, id_ipfix = 256\<rparr> \<noteq> ip_String [10, 0, 0, 1]"
    by code_simp
qed

text \<open>
   Template withdrawal (RFC 7011).  A template record with the id \<open>tid\<close> and no fields
  removes exactly the template of that exporter, observation domain and id from the cache and
  emits no flow.
\<close>

theorem Decode_ipfix_withdraws:
  assumes "ipfix_inv clk d" and "tid \<noteq> 0" and "ipfix_header_ok h 4"
  shows "\<exists>d'. Decode_ipfix clk d dst (h @ ipfix_set setTemplate (put16 tid @ put16 0)) e = Some (dst, None, d')
    \<and> ipfix_inv clk d'
    \<and> find_ipfix d' = (find_ipfix d)
        (\<lparr>exporter_ipfix = ip_String e, obsDomain_ipfix = of_nat (nat_at h 12 4), id_ipfix = tid\<rparr> := None)"
proof -
  let ?b = "put16 tid @ put16 0"
  have rd: "rd16 ?b 0 = Some tid" "rd16 ?b 2 = Some 0"
    using rd16_put16 [of "[]" 0 tid "put16 0"] rd16_put16 [of "put16 tid" 2 0 "[]"] by simp_all
  have "parseTemplates_ipfix clk expS dom ?b 4 d = Some d" for expS dom d
    by (subst parseTemplates_ipfix.simps) simp
  then have "parseTemplates_ipfix clk expS dom ?b 0 d =
      Some (deleteTemplate_ipfix \<lparr>exporter_ipfix = expS, obsDomain_ipfix = dom, id_ipfix = tid\<rparr> d)" for expS dom
    using assms(2) rd by (subst parseTemplates_ipfix.simps) simp
  moreover have "ipfix_header_ok h (length ?b)" using assms(3) by simp
  ultimately show ?thesis
    using deleteTemplate_ipfix_ok [OF assms(1)] by (simp add: Decode_ipfix_one_set Let_def)
qed

theorem Decode_ipfix_withdraws_witness:
  "\<exists>d'. Decode_ipfix (\<lambda>_. 0) ipfix_example [] (ipfix_example_header 4 @ ipfix_set setTemplate (put16 256 @ put16 0)) [192, 0, 2, 7]
      = Some ([], None, d') \<and> ipfix_inv (\<lambda>_. 0) d'
    \<and> find_ipfix d' = (find_ipfix ipfix_example)
        (\<lparr>exporter_ipfix = ip_String [192, 0, 2, 7], obsDomain_ipfix = of_nat (nat_at (ipfix_example_header 4) 12 4), id_ipfix = 256\<rparr> := None)"
  by (rule Decode_ipfix_withdraws [OF ipfix_inv_example]) (simp_all add: ipfix_example_header)

text \<open>
   The IPFIX template cache survives a restart, under the same assumption on JSON as for
  NetFlow v9.
\<close>

theorem LoadTemplates_ipfix_Dump:
  assumes "ipfix_inv clk d" and "DumpTemplates_ipfix marshal d = Inr data" and "data \<noteq> []"
    and "\<And>l. marshal l = Inr data \<Longrightarrow> unmarshal data = Inr l"
  shows "\<exists>d'. LoadTemplates_ipfix clk' unmarshal data (New_ipfix r u) = (None, d') \<and> find_ipfix d' = find_ipfix d"
proof (rule Load_Dump_ipfix [OF assms(2,3)])
  show "unmarshal data = Inr l" if "marshal l = Inr data" for l using that by (rule assms(4))
  show "distinct (map fst (tc_entries (cache_ipfix d)))"
    using assms(1) by (simp add: ipfix_inv_def cache_inv_def entries_ok_def)
qed

definition ipfix_example_dump :: ipfix_serializableTemplate where
  "ipfix_example_dump = dumped_ipfix \<lparr>exporter_ipfix = ''192.0.2.7'', obsDomain_ipfix = 1, id_ipfix = 256\<rparr>
     \<lparr>fields_ipfix = ipfix_example_fields, recordLen_ipfix = 4, hasVarlen_ipfix = True, isOptions_ipfix = False\<rparr>"

theorem LoadTemplates_ipfix_Dump_witness:
  "\<exists>d'. LoadTemplates_ipfix (\<lambda>_. 5) (\<lambda>b. if b = [1] then Inr [ipfix_example_dump] else Inl ()) [1] (New_ipfix None None)
      = (None, d') \<and> find_ipfix d' = find_ipfix ipfix_example"
proof (rule LoadTemplates_ipfix_Dump [OF ipfix_inv_example,
      where marshal = "\<lambda>l. if l = [ipfix_example_dump] then Inr [1] else Inl ()"])
  show "DumpTemplates_ipfix (\<lambda>l. if l = [ipfix_example_dump] then Inr [1] else Inl ()) ipfix_example = Inr [1]"
    by (simp add: DumpTemplates_ipfix_def ipfix_example_def ipfix_example_dump_def)
qed (auto split: if_splits)

end
