(* ===== verification/Normalizer.thy ===== *)
theory Normalizer
  imports Flow_Types
begin

text \<open>
  Package \<open>normalizer\<close> (\<open>internal/normalizer/normalizer.go\<close>): the canonical flow record and the
  function that fills it from a decoded flow, the identity of the device and the clock of the
  collector.
\<close>

record flow_record =
  r_ISPID :: u32
  r_DeviceID :: u32
  r_SrcIP :: ip
  r_SrcPort :: u16
  r_DstIP :: ip
  r_DstPort :: u16
  r_NatPublicIP :: ip
  r_NatPublicPort :: u16
  r_NatDestIP :: ip
  r_NatDestPort :: u16
  r_NatEvent :: u8
  r_Username :: string
  r_Protocol :: u8
  r_Bytes :: u64
  r_Packets :: u64
  r_FlowStart :: gotime
  r_FlowEnd :: gotime
  r_ExporterFlowStart :: gotime
  r_ExporterFlowEnd :: gotime
  r_CollectorReceived :: gotime
  r_FlowType :: string
  r_ExporterIP :: ip

text \<open>\<open>now\<close> is the value of \<open>time.Now()\<close>.\<close>

definition Normalize :: "gotime \<Rightarrow> flow \<Rightarrow> string \<Rightarrow> u32 \<Rightarrow> u32 \<Rightarrow> flow_record" where
  "Normalize now f flowType ispID deviceID =
     \<lparr>r_ISPID = ispID, r_DeviceID = deviceID,
      r_SrcIP = f_SrcIP f, r_SrcPort = f_SrcPort f, r_DstIP = f_DstIP f, r_DstPort = f_DstPort f,
      r_NatPublicIP = f_NatPublicIP f, r_NatPublicPort = f_NatPublicPort f,
      r_NatDestIP = f_NatDestIP f, r_NatDestPort = f_NatDestPort f, r_NatEvent = f_NatEvent f,
      r_Username = f_Username f, r_Protocol = f_Protocol f, r_Bytes = f_Bytes f, r_Packets = f_Packets f,
      r_FlowStart = now, r_FlowEnd = now,
      r_ExporterFlowStart = f_FlowStart f, r_ExporterFlowEnd = f_FlowEnd f,
      r_CollectorReceived = now, r_FlowType = flowType, r_ExporterIP = f_ExporterIP f\<rparr>"

end
