(* ===== verification/NetFlow5.thy ===== *)
theory NetFlow5
  imports Flow_Types
begin

text \<open>
  Package \<open>netflow5\<close> (\<open>internal/decoder/netflow5/netflow5.go\<close>): the decoder of the fixed-format
  NetFlow version 5.  \<open>Decode_v5\<close> follows the Go code with its slice expressions checked;
  \<open>v5_flow_at\<close> states what the record at a given position of the datagram means.  The decoder
  is shown to return normally on every payload and to emit exactly the records the header
  and the datagram's length allow.
\<close>

definition version_v5 :: u16 where "version_v5 = 5"
definition headerLen_v5 :: nat where "headerLen_v5 = 24"
definition recordLen_v5 :: nat where "recordLen_v5 = 48"
definition maxRecords_v5 :: nat where "maxRecords_v5 = 30"

definition Kind_v5 :: string where
  "Kind_v5 = ''netflow5''"

definition msToTime_v5 :: "int \<Rightarrow> gotime" where
  "msToTime_v5 ms = time_Unix (ms sdiv 1000) ((ms smod 1000) * 1000000)"

definition cloneIP4 :: "ip \<Rightarrow> ip" where
  "cloneIP4 a = (case ip_to4 a of None \<Rightarrow> nil_ip | Some v \<Rightarrow> v)"

text \<open>The body of the record loop for one record \<open>r\<close> (48 bytes).\<close>

definition decodeRecord_v5 :: "bytes \<Rightarrow> int \<Rightarrow> ip \<Rightarrow> flow option" where
  "decodeRecord_v5 r bootMS expIP = do {
     first \<leftarrow> rd32 r 24;
     last \<leftarrow> rd32 r 28;
     src \<leftarrow> indices r [0, 1, 2, 3];
     dst \<leftarrow> indices r [4, 5, 6, 7];
     sport \<leftarrow> rd16 r 32;
     dport \<leftarrow> rd16 r 34;
     packets \<leftarrow> rd32 r 16;
     octets \<leftarrow> rd32 r 20;
     flags \<leftarrow> index r 37;
     proto \<leftarrow> index r 38;
     tos \<leftarrow> index r 39;
     Some (zero_flow\<lparr>f_SrcIP := src, f_DstIP := dst, f_SrcPort := sport, f_DstPort := dport,
       f_Packets := ucast packets, f_Bytes := ucast octets,
       f_TCPFlags := flags, f_Protocol := proto, f_TOS := tos,
       f_FlowStart := msToTime_v5 (wrap64 (bootMS + sint (ucast first :: u64))),
       f_FlowEnd := msToTime_v5 (wrap64 (bootMS + sint (ucast last :: u64))),
       f_ExporterIP := expIP\<rparr>)
   }"

text \<open>\<open>for i := 0; i < count; i++\<close>: record \<open>i\<close>, with \<open>n\<close> records left.\<close>

fun decodeRecords_v5 :: "bytes \<Rightarrow> int \<Rightarrow> ip \<Rightarrow> nat \<Rightarrow> nat \<Rightarrow> flow list \<Rightarrow> flow list option" where
  "decodeRecords_v5 payload bootMS expIP i 0 dst = Some dst"
| "decodeRecords_v5 payload bootMS expIP i (Suc n) dst = do {
     let off = headerLen_v5 + i * recordLen_v5;
     r \<leftarrow> slice payload off (off + recordLen_v5);
     f \<leftarrow> decodeRecord_v5 r bootMS expIP;
     decodeRecords_v5 payload bootMS expIP (Suc i) n (dst @ [f])
   }"

definition Decode_v5 :: "unit \<Rightarrow> flow list \<Rightarrow> bytes \<Rightarrow> ip \<Rightarrow> unit decode_result" where
  "Decode_v5 s dst payload exporter =
     (if length payload < headerLen_v5 then Some (dst, Some ErrShortPacket, s)
      else do {
        v \<leftarrow> rd16 payload 0;
        if v \<noteq> version_v5 then Some (dst, Some (ErrWrongVersion (Some v)), s)
        else do {
          c \<leftarrow> rd16 payload 2;
          let count = unat c;
          let count = (if count > maxRecords_v5 then maxRecords_v5 else count);
          let avail = (length payload - headerLen_v5) div recordLen_v5;
          let count = (if count > avail then avail else count);
          if count = 0 then Some (dst, None, s)
          else do {
            uptime \<leftarrow> rd32 payload 4;
            secs \<leftarrow> rd32 payload 8;
            nsecs \<leftarrow> rd32 payload 12;
            let exportMS = (ucast secs :: u64) * 1000 + (ucast nsecs :: u64) div 1000000;
            let bootMS = wrap64 (sint exportMS - sint (ucast uptime :: u64));
            let expIP = cloneIP4 exporter;
            dst' \<leftarrow> decodeRecords_v5 payload bootMS expIP 0 count dst;
            Some (dst', None, s)
          }
        }
      })"

section \<open>What a datagram means\<close>

text \<open>The exporter's boot instant in milliseconds, from the datagram's header.\<close>

definition v5_boot_ms :: "bytes \<Rightarrow> int" where
  "v5_boot_ms b = int (nat_at b 8 4) * 1000 + int (nat_at b 12 4 div 1000000) - int (nat_at b 4 4)"

text \<open>The flow the \<open>i\<close>-th record of a datagram describes, by the layout of NetFlow v5.\<close>

definition v5_flow_at :: "bytes \<Rightarrow> ip \<Rightarrow> nat \<Rightarrow> flow" where
  "v5_flow_at b exporter i =
     (let p = 24 + i * 48 in
      zero_flow\<lparr>f_SrcIP := take 4 (drop p b), f_DstIP := take 4 (drop (p + 4) b),
        f_SrcPort := of_nat (nat_at b (p + 32) 2), f_DstPort := of_nat (nat_at b (p + 34) 2),
        f_Packets := of_nat (nat_at b (p + 16) 4), f_Bytes := of_nat (nat_at b (p + 20) 4),
        f_TCPFlags := b ! (p + 37), f_Protocol := b ! (p + 38), f_TOS := b ! (p + 39),
        f_FlowStart := ms_to_time (v5_boot_ms b + int (nat_at b (p + 24) 4)),
        f_FlowEnd := ms_to_time (v5_boot_ms b + int (nat_at b (p + 28) 4)),
        f_ExporterIP := (case ip_to4 exporter of None \<Rightarrow> nil_ip | Some v \<Rightarrow> v)\<rparr>)"

definition v5_count :: "bytes \<Rightarrow> nat" where
  "v5_count b = min (min (nat_at b 2 2) 30) ((length b - 24) div 48)"

lemmas v5_consts = version_v5_def headerLen_v5_def recordLen_v5_def maxRecords_v5_def

lemma nat_at_shift: "p + n \<le> m \<Longrightarrow> nat_at (take m (drop q b)) p n = nat_at b (q + p) n"
  by (simp add: nat_at_def drop_take min_def add.commute)

lemma decodeRecord_v5_eq:
  assumes "p + 48 \<le> length b" and "\<bar>boot\<bar> < 2 ^ 62"
  shows "decodeRecord_v5 (take 48 (drop p b)) boot e =
    Some (zero_flow\<lparr>f_SrcIP := take 4 (drop p b), f_DstIP := take 4 (drop (p + 4) b),
        f_SrcPort := of_nat (nat_at b (p + 32) 2), f_DstPort := of_nat (nat_at b (p + 34) 2),
        f_Packets := of_nat (nat_at b (p + 16) 4), f_Bytes := of_nat (nat_at b (p + 20) 4),
        f_TCPFlags := b ! (p + 37), f_Protocol := b ! (p + 38), f_TOS := b ! (p + 39),
        f_FlowStart := ms_to_time (boot + int (nat_at b (p + 24) 4)),
        f_FlowEnd := ms_to_time (boot + int (nat_at b (p + 28) 4)),
        f_ExporterIP := e\<rparr>)"
proof -
  have in64: "in_int64 (boot + int (nat_at b q 4))" for q
    using assms(2) nat_at_less [of b q 4] by (simp add: in_int64_def abs_less_iff)
  have four: "take 4 (drop q b) = [b ! q, b ! (q + 1), b ! (q + 2), b ! (q + 3)]"
    if "q + 4 \<le> length b" for q
    using that by (intro nth_equalityI) (auto simp: nth_Cons less_Suc_eq numeral_eq_Suc split: nat.splits)
  have "take 4 (drop (p + 4) b) = [b ! (p + 4), b ! (p + 5), b ! (p + 6), b ! (p + 7)]"
    using four [of "p + 4"] assms(1) by (simp add: add.commute)
  then show ?thesis
    using assms(1) in64 four [of p]
    by (simp add: decodeRecord_v5_def go_simps nat_at_shift msToTime_v5_def ms_to_time_def
        add.assoc)
qed

lemma v5_boot_bound: "\<bar>v5_boot_ms b\<bar> < 2 ^ 62"
  using nat_at_less [of b 8 4] nat_at_less [of b 12 4] nat_at_less [of b 4 4]
  by (simp add: v5_boot_ms_def abs_less_iff)

lemma v5_exportMS:
  "sint (of_nat (nat_at b 8 4) * 1000 + of_nat (nat_at b 12 4) div 1000000 :: u64) =
    int (nat_at b 8 4) * 1000 + int (nat_at b 12 4 div 1000000)"
proof -
  let ?n = "nat_at b 8 4 * 1000 + nat_at b 12 4 div 1000000"
  have n: "?n < 2 ^ 63" using nat_at_less [of b 8 4] nat_at_less [of b 12 4] by simp
  have "(of_nat (nat_at b 12 4) :: u64) div 1000000 = of_nat (nat_at b 12 4 div 1000000)"
  proof -
    have "take_bit 64 (nat_at b 12 4) = nat_at b 12 4"
      using nat_at_less [of b 12 4] by (simp add: take_bit_nat_eq_self)
    moreover have "int (nat_at b 12 4) div 1000000 = int (nat_at b 12 4 div 1000000)"
      by (simp add: zdiv_int)
    ultimately show ?thesis by (simp add: word_div_def unsigned_of_nat del: of_nat_div)
  qed
  then have "(of_nat (nat_at b 8 4) * 1000 + of_nat (nat_at b 12 4) div 1000000 :: u64) = of_nat ?n"
    by simp
  then show ?thesis
    using sint_of_nat_u64 [OF n] by simp
qed

lemma decodeRecords_v5_eq:
  "24 + (i + n) * 48 \<le> length b \<Longrightarrow>
   decodeRecords_v5 b (v5_boot_ms b) (cloneIP4 e) i n dst = Some (dst @ map (v5_flow_at b e) [i..<i + n])"
proof (induction n arbitrary: i dst)
  case (Suc n)
  have "24 + (Suc i + n) * 48 \<le> length b" using Suc.prems by simp
  note IH = Suc.IH [OF this]
  have "slice b (24 + i * 48) (24 + i * 48 + 48) = Some (take 48 (drop (24 + i * 48) b))"
    using Suc.prems by (simp add: slice_def)
  moreover have "decodeRecord_v5 (take 48 (drop (24 + i * 48) b)) (v5_boot_ms b) (cloneIP4 e) =
      Some (v5_flow_at b e i)"
    using Suc.prems decodeRecord_v5_eq [of "24 + i * 48" b "v5_boot_ms b" "cloneIP4 e"] v5_boot_bound
    by (simp add: v5_flow_at_def Let_def cloneIP4_def)
  ultimately show ?case
    using IH by (simp add: v5_consts upt_conv_Cons del: upt_Suc)
qed simp

lemma Decode_v5_eq:
  "Decode_v5 s dst b e =
     Some (if length b < 24 then (dst, Some ErrShortPacket, s)
           else if nat_at b 0 2 \<noteq> 5 then (dst, Some (ErrWrongVersion (Some (of_nat (nat_at b 0 2)))), s)
           else (dst @ map (v5_flow_at b e) [0..<v5_count b], None, s))"
proof (cases "length b < 24 \<or> nat_at b 0 2 \<noteq> 5")
  case True
  then show ?thesis
    by (auto simp: Decode_v5_def go_simps v5_consts)
next
  case False
  then have len: "24 \<le> length b" and v: "nat_at b 0 2 = 5" by auto
  have bound: "24 + (0 + v5_count b) * 48 \<le> length b"
    using len by (simp add: v5_count_def min_def) linarith
  have boot: "wrap64 (int (nat_at b 8 4) * 1000 + int (nat_at b 12 4 div 1000000) - int (nat_at b 4 4)) = v5_boot_ms b"
    using v5_boot_bound [of b] by (simp add: v5_boot_ms_def in_int64_def abs_less_iff)
  show ?thesis
    using len v boot decodeRecords_v5_eq [OF bound, of e dst]
    by (simp add: Decode_v5_def go_simps v5_consts Let_def v5_exportMS)
       (auto simp: v5_count_def min_def)
qed

interpretation v5: flow_decoder Decode_v5 "\<lambda>_. True" 30
proof
  fix s :: unit and dst b e
  show "\<exists>fs err s'. Decode_v5 s dst b e = Some (dst @ fs, err, s') \<and> True \<and> length fs \<le> 30
      \<and> (err \<noteq> None \<longrightarrow> fs = [])"
    by (auto simp: Decode_v5_eq v5_count_def)
qed


text \<open>
  C1.  The NetFlow v5 decoder is total and exact.  On every payload it returns normally: a
  payload shorter than the header or of another version is refused with the corresponding
  error and nothing is emitted; otherwise it appends, in order, exactly the flows of the
  first records, as many as the header announces, the protocol's maximum of 30 and the
  datagram's length allow, each with the field values of the v5 layout and absolute times.
\<close>

theorem Decode_v5_exact:
  "Decode_v5 s dst b e =
     Some (if length b < 24 then (dst, Some ErrShortPacket, s)
           else if nat_at b 0 2 \<noteq> 5 then (dst, Some (ErrWrongVersion (Some (of_nat (nat_at b 0 2)))), s)
           else (dst @ map (v5_flow_at b e) [0..<v5_count b], None, s))"
  by (rule Decode_v5_eq)

end
