(* ===== verification/Rules.thy ===== *)
theory Rules
  imports Normalizer NetFlow5
begin

text \<open>
  Package \<open>rules\<close> (\<open>internal/rules/rules.go\<close>): the skip filters applied to every normalized
  record.  The properties state the retention policy the comments of the source announce: a
  record with a translation is kept whatever the configuration, and a record is dropped for
  want of a translation exactly when it carries no post-NAT address, which is the case for
  everything a NetFlow v5 exporter sends.
\<close>

definition dnsPort :: u16 where "dnsPort = 53"
definition ReasonNoNAT :: string where "ReasonNoNAT = ''no_nat_translation''"

record rule_set =
  SkipDNS :: bool
  SkipPrivateToPrivate :: bool
  SkipZeroBytes :: bool

definition New_rules :: "bool \<Rightarrow> bool \<Rightarrow> bool \<Rightarrow> rule_set" where
  "New_rules skipDNS skipPrivateToPrivate skipZeroBytes =
     \<lparr>SkipDNS = skipDNS, SkipPrivateToPrivate = skipPrivateToPrivate, SkipZeroBytes = skipZeroBytes\<rparr>"

definition isUnsetIP :: "ip \<Rightarrow> bool" where
  "isUnsetIP a \<longleftrightarrow> length a = 0 \<or> ip_IsUnspecified a"

definition isPrivate :: "ip \<Rightarrow> bool" where
  "isPrivate a =
     (if a = nil_ip then False
      else if ip_IsLoopback a \<or> ip_IsLinkLocalUnicast a then True
      else if ip_IsPrivate a then True
      else case ip_to4 a of Some v4 \<Rightarrow> v4 ! 0 = 100 \<and> v4 ! 1 AND 0xc0 = 0x40 | None \<Rightarrow> False)"

definition isTranslation :: "flow_record \<Rightarrow> bool" where
  "isTranslation rec =
     (if \<not> isUnsetIP (r_NatDestIP rec) \<and>
          (\<not> ip_equal (r_NatDestIP rec) (r_DstIP rec) \<or>
           (r_NatDestPort rec \<noteq> 0 \<and> r_NatDestPort rec \<noteq> r_DstPort rec)) then True
      else if isUnsetIP (r_NatPublicIP rec) then False
      else if r_NatPublicPort rec \<noteq> 0 then True
      else \<not> ip_equal (r_NatPublicIP rec) (r_SrcIP rec))"

definition ShouldSkip :: "rule_set \<Rightarrow> flow_record \<Rightarrow> bool \<times> string" where
  "ShouldSkip r rec =
     (if isUnsetIP (r_NatPublicIP rec) \<and> isUnsetIP (r_NatDestIP rec) then (True, ReasonNoNAT)
      else if isTranslation rec then (False, [])
      else if SkipZeroBytes r \<and> r_Bytes rec = 0 then (True, ''zero_bytes'')
      else if SkipDNS r \<and> (r_SrcPort rec = dnsPort \<or> r_DstPort rec = dnsPort) then (True, ''dns'')
      else if SkipPrivateToPrivate r \<and> isPrivate (r_SrcIP rec) \<and> isPrivate (r_DstIP rec)
        then (True, ''private_to_private'')
      else (False, []))"

section \<open>Lemmas\<close>

lemma isUnsetIP_nil [simp]: "isUnsetIP nil_ip"
  by (simp add: isUnsetIP_def)

lemma isTranslation_set:
  "isTranslation rec \<Longrightarrow> \<not> (isUnsetIP (r_NatPublicIP rec) \<and> isUnsetIP (r_NatDestIP rec))"
  by (auto simp: isTranslation_def split: if_splits)

lemma ShouldSkip_reason:
  "ShouldSkip r rec = (True, ReasonNoNAT) \<longleftrightarrow> isUnsetIP (r_NatPublicIP rec) \<and> isUnsetIP (r_NatDestIP rec)"
  by (auto simp: ShouldSkip_def ReasonNoNAT_def)

lemma ShouldSkip_translation: "isTranslation rec \<Longrightarrow> ShouldSkip r rec = (False, [])"
  using isTranslation_set [of rec] by (auto simp: ShouldSkip_def)

lemma zero_neq_255: "(0 :: byte) \<noteq> 255"
  by simp

text \<open>Which bytes an unset address has: none, 0.0.0.0 in either form, or \<open>::\<close>.\<close>

lemma isUnsetIP_bytes:
  "isUnsetIP a \<longleftrightarrow> a = [] \<or> a = [0, 0, 0, 0] \<or> a = v4InV6Prefix @ [0, 0, 0, 0] \<or> a = replicate 16 0"
proof -
  have v4: "ip_equal a IPv4zero \<longleftrightarrow> a = [0, 0, 0, 0] \<or> a = v4InV6Prefix @ [0, 0, 0, 0]"
    by (auto simp: ip_equal_def IPv4zero_def ipv4_16_def v4InV6Prefix_def)
  have "take 12 (replicate 16 (0 :: byte)) ! 10 = 0" "v4InV6Prefix ! 10 = 255"
    by (simp_all add: v4InV6Prefix_def)
  then have "take 12 (replicate 16 (0 :: byte)) \<noteq> v4InV6Prefix" by (metis zero_neq_255)
  then have v6: "ip_equal a IPv6unspecified \<longleftrightarrow> a = replicate 16 0"
    by (auto simp: ip_equal_def IPv6unspecified_def)
  show ?thesis by (auto simp: isUnsetIP_def ip_IsUnspecified_def v4 v6)
qed

lemma v5_flow_no_nat:
  "f_NatPublicIP (v5_flow_at payload e i) = nil_ip" "f_NatDestIP (v5_flow_at payload e i) = nil_ip"
  by (simp_all add: v5_flow_at_def zero_flow_def)

section \<open>Properties\<close>


definition example_record :: flow_record where
  "example_record = Normalize zero_time
     (zero_flow\<lparr>f_SrcIP := [10, 0, 0, 7], f_DstIP := [8, 8, 8, 8], f_DstPort := 53,
        f_NatPublicIP := [203, 0, 113, 5], f_NatPublicPort := 4000\<rparr>) ''ipfix'' 1 2"


text \<open>
   NetFlow v5 yields no evidence.  Every flow a NetFlow v5 datagram decodes to is dropped
  as \<open>no_nat_translation\<close> after normalization, whatever the rules and the identity of the
  device.
\<close>

theorem v5_always_skipped:
  assumes "Decode_v5 s [] payload e = Some (fs, err, s')" and "f \<in> set fs"
  shows "ShouldSkip r (Normalize now f flowType ispID deviceID) = (True, ReasonNoNAT)"
proof -
  obtain i where "f = v5_flow_at payload e i"
    using assms by (auto simp: Decode_v5_eq split: if_splits)
  then show ?thesis by (simp add: ShouldSkip_reason Normalize_def v5_flow_no_nat)
qed

theorem v5_always_skipped_witness:
  fixes payload :: bytes
  defines "payload \<equiv> put16 5 @ put16 1 @ replicate 68 0"
  shows "ShouldSkip (New_rules False False False)
      (Normalize zero_time (v5_flow_at payload [10, 0, 0, 1] 0) ''netflow5'' 1 2) = (True, ReasonNoNAT)"
proof (rule v5_always_skipped)
  have "length payload = 72" "nat_at payload 0 2 = 5" "nat_at payload 2 2 = 1"
    by (simp_all add: payload_def nat_at_append2)
  then show "Decode_v5 () [] payload [10, 0, 0, 1] = Some ([v5_flow_at payload [10, 0, 0, 1] 0], None, ())"
    by (simp add: Decode_v5_eq v5_count_def)
qed simp

end
