(* ===== verification/Device.thy ===== *)
theory Device
  imports Rules
begin

text \<open>
  Package \<open>device\<close> (\<open>internal/device/device.go\<close>): the registry that maps the source address of
  an exporter to its ISP and device identity and its effective skip rules.  The lemmas show
  which specifications \<open>Validate\<close> accepts, and that a built registry attributes every address,
  in its 4-byte or 16-byte form, to the one specification that names it.
\<close>

datatype unknown_mode = ModeAllow | ModeObserve | ModeReject

fun String_mode :: "unknown_mode \<Rightarrow> string" where
  "String_mode ModeObserve = ''observe''"
| "String_mode ModeReject = ''reject''"
| "String_mode ModeAllow = ''allow''"

datatype device_error =
    InvalidMode string
  | InvalidExporterIP string string
  | DuplicateExporterIP string string string
  | ISPIDZero string
  | DeviceIDZero string
  | InvalidProtocol string string
  | InvalidProfile string string
  | PortOutOfRange string int

definition ParseUnknownMode :: "string \<Rightarrow> device_error + unknown_mode" where
  "ParseUnknownMode s =
     (if s = [] \<or> s = ''allow'' then Inr ModeAllow
      else if s = ''observe'' then Inr ModeObserve
      else if s = ''reject'' then Inr ModeReject
      else Inl (InvalidMode s))"

definition validProfiles :: "string list" where
  "validProfiles = [[], ''mikrotik'', ''cisco'', ''juniper'', ''huawei'', ''generic'']"

definition validProtocols :: "string list" where
  "validProtocols = [[], ''netflow5'', ''netflow9'', ''ipfix'', ''auto'']"

definition validProfile :: "string \<Rightarrow> bool" where
  "validProfile s \<longleftrightarrow> s \<in> set validProfiles"

definition validProtocol :: "string \<Rightarrow> bool" where
  "validProtocol s \<longleftrightarrow> s \<in> set validProtocols"

text \<open>A \<open>nil\<close> field of a \<open>RuleSpec\<close> inherits the global rule.\<close>

record rule_spec =
  rs_SkipDNS :: "bool option"
  rs_SkipPrivateToPrivate :: "bool option"
  rs_SkipZeroBytes :: "bool option"

record device_spec =
  ds_Name :: string
  ds_Enabled :: bool
  ds_ExporterIP :: string
  ds_ISPID :: u32
  ds_DeviceID :: u32
  ds_Protocol :: string
  ds_Profile :: string
  ds_AllowedPorts :: "int list"
  ds_Rules :: "rule_spec option"

record device =
  d_Name :: string
  d_Enabled :: bool
  d_ExporterIP :: ip
  d_ISPID :: u32
  d_DeviceID :: u32
  d_Protocol :: string
  d_Profile :: string
  d_AllowedPorts :: "int list"
  d_Rules :: rule_set

text \<open>The key of an address is the byte string of its shortest form.\<close>

definition device_key :: "ip \<Rightarrow> bytes" where
  "device_key a = (case ip_to4 a of Some v4 \<Rightarrow> v4 | None \<Rightarrow> a)"

type_synonym registry = "(bytes \<times> device) list"

text \<open>A \<open>nil\<close> registry is \<open>None\<close>; so is the result when no device is found.\<close>

definition Lookup_device :: "registry option \<Rightarrow> ip \<Rightarrow> device option" where
  "Lookup_device r a =
     (case r of None \<Rightarrow> None
      | Some byIP \<Rightarrow> if a = nil_ip then None else map_of byIP (device_key a))"

definition Len_registry :: "registry option \<Rightarrow> nat" where
  "Len_registry r = (case r of None \<Rightarrow> 0 | Some byIP \<Rightarrow> length byIP)"

section \<open>Validation\<close>

definition device_label :: "nat \<Rightarrow> device_spec \<Rightarrow> string" where
  "device_label i s = (if ds_Name s = [] then CHR ''#'' # dec_string i else ds_Name s)"

fun validate_specs :: "nat \<Rightarrow> (bytes \<times> string) list \<Rightarrow> device_spec list \<Rightarrow> device_error option" where
  "validate_specs i seen [] = None"
| "validate_specs i seen (s # ss) =
     (let label = device_label i s; a = ParseIP (ds_ExporterIP s); k = device_key a in
      if a = nil_ip then Some (InvalidExporterIP label (ds_ExporterIP s))
      else case map_of seen k of
        Some other \<Rightarrow> Some (DuplicateExporterIP label (ds_ExporterIP s) other)
      | None \<Rightarrow>
          if ds_ISPID s = 0 then Some (ISPIDZero label)
          else if ds_DeviceID s = 0 then Some (DeviceIDZero label)
          else if \<not> validProtocol (ds_Protocol s) then Some (InvalidProtocol label (ds_Protocol s))
          else if \<not> validProfile (ds_Profile s) then Some (InvalidProfile label (ds_Profile s))
          else case find (\<lambda>p. p < 1 \<or> p > 65535) (ds_AllowedPorts s) of
            Some p \<Rightarrow> Some (PortOutOfRange label p)
          | None \<Rightarrow> validate_specs (Suc i) (AList.update k label seen) ss)"

definition Validate_devices :: "device_spec list \<Rightarrow> device_error option" where
  "Validate_devices specs = validate_specs 0 [] specs"

section \<open>The registry\<close>

definition effective_rules :: "rule_set \<Rightarrow> rule_spec option \<Rightarrow> rule_set" where
  "effective_rules global spec =
     (case spec of
        None \<Rightarrow> global
      | Some rs \<Rightarrow>
          let eff = (case rs_SkipDNS rs of Some b \<Rightarrow> global\<lparr>SkipDNS := b\<rparr> | None \<Rightarrow> global);
              eff = (case rs_SkipPrivateToPrivate rs of Some b \<Rightarrow> eff\<lparr>SkipPrivateToPrivate := b\<rparr> | None \<Rightarrow> eff)
          in case rs_SkipZeroBytes rs of Some b \<Rightarrow> eff\<lparr>SkipZeroBytes := b\<rparr> | None \<Rightarrow> eff)"

definition device_of :: "rule_set \<Rightarrow> device_spec \<Rightarrow> device" where
  "device_of global s =
     (let a = ParseIP (ds_ExporterIP s);
          a = (case ip_to4 a of Some v4 \<Rightarrow> v4 | None \<Rightarrow> a)
      in \<lparr>d_Name = ds_Name s, d_Enabled = ds_Enabled s, d_ExporterIP = a,
          d_ISPID = ds_ISPID s, d_DeviceID = ds_DeviceID s,
          d_Protocol = (if ds_Protocol s = [] then ''auto'' else ds_Protocol s),
          d_Profile = (if ds_Profile s = [] then ''generic'' else ds_Profile s),
          d_AllowedPorts = ds_AllowedPorts s, d_Rules = effective_rules global (ds_Rules s)\<rparr>)"

definition Build_registry :: "device_spec list \<Rightarrow> rule_set \<Rightarrow> device_error + registry" where
  "Build_registry specs global =
     (case Validate_devices specs of
        Some err \<Rightarrow> Inl err
      | None \<Rightarrow> Inr (foldl (\<lambda>byIP s. AList.update (device_key (d_ExporterIP (device_of global s)))
                          (device_of global s) byIP) [] specs))"

text \<open>\<open>Store\<close> holds the current registry; the state is the stored pointer.\<close>

definition NewStore_device :: "registry option \<Rightarrow> registry option" where
  "NewStore_device r = r"

definition Load_device :: "registry option \<Rightarrow> registry option" where
  "Load_device v = v"

definition Store_device :: "registry option \<Rightarrow> registry option \<Rightarrow> registry option" where
  "Store_device r v = r"

section \<open>What validation accepts\<close>

definition spec_key :: "device_spec \<Rightarrow> bytes" where
  "spec_key s = device_key (ParseIP (ds_ExporterIP s))"

definition spec_ok :: "device_spec \<Rightarrow> bool" where
  "spec_ok s \<longleftrightarrow> ParseIP (ds_ExporterIP s) \<noteq> nil_ip \<and> ds_ISPID s \<noteq> 0 \<and> ds_DeviceID s \<noteq> 0
     \<and> validProtocol (ds_Protocol s) \<and> validProfile (ds_Profile s)
     \<and> list_all (\<lambda>p. 1 \<le> p \<and> p \<le> 65535) (ds_AllowedPorts s)"

lemma find_bad_port_None: "find (\<lambda>p. p < 1 \<or> p > 65535) ps = None \<longleftrightarrow> list_all (\<lambda>p :: int. 1 \<le> p \<and> p \<le> 65535) ps"
  by (auto simp: find_None_iff list_all_iff not_less)

lemma validate_specs_step:
  "validate_specs i seen (s # ss) = None \<longleftrightarrow> spec_ok s \<and> map_of seen (spec_key s) = None \<and>
     validate_specs (Suc i) (AList.update (spec_key s) (device_label i s) seen) ss = None"
proof (cases "map_of seen (spec_key s)")
  case None
  then show ?thesis
    using find_bad_port_None [of "ds_AllowedPorts s"]
    by (auto simp: Let_def spec_ok_def spec_key_def split: option.split)
qed (simp add: Let_def spec_key_def)

lemma validate_specs_None_iff:
  "validate_specs i seen specs = None \<longleftrightarrow>
     list_all spec_ok specs \<and> distinct (map spec_key specs) \<and> (\<forall>s \<in> set specs. map_of seen (spec_key s) = None)"
proof (induction specs arbitrary: i seen)
  case (Cons s specs)
  have upd: "map_of (AList.update (spec_key s) l seen) k = None \<longleftrightarrow> k \<noteq> spec_key s \<and> map_of seen k = None" for l k
    by (simp add: update_conv')
  show ?case
    unfolding validate_specs_step Cons.IH upd by (auto simp: image_iff)
qed simp

lemma device_key_idem [simp]: "device_key (device_key a) = device_key a"
  by (auto simp: device_key_def ip_to4_idem split: option.splits)

lemma device_of_key [simp]: "device_key (d_ExporterIP (device_of g s)) = spec_key s"
  by (auto simp: device_of_def spec_key_def device_key_def ip_to4_idem split: option.splits)

lemma map_of_build:
  "distinct (map spec_key specs) \<Longrightarrow>
   map_of (foldl (\<lambda>byIP s. AList.update (device_key (d_ExporterIP (device_of g s))) (device_of g s) byIP) acc specs) k =
     (case find (\<lambda>s. spec_key s = k) specs of Some s \<Rightarrow> Some (device_of g s) | None \<Rightarrow> map_of acc k)"
proof (induction specs arbitrary: acc)
  case (Cons s specs)
  have "find (\<lambda>s. spec_key s = k) specs = None" if "spec_key s = k"
    using Cons.prems that by (auto simp: find_key_None intro: rev_image_eqI)
  with Cons show ?case by (cases "spec_key s = k") (simp_all add: update_conv' split: option.split)
qed simp

lemma Build_registry_ok:
  assumes "Build_registry specs g = Inr r"
  shows "list_all spec_ok specs" "distinct (map spec_key specs)"
    "a \<noteq> nil_ip \<Longrightarrow> Lookup_device (Some r) a =
       map_option (device_of g) (find (\<lambda>s. spec_key s = device_key a) specs)"
proof -
  have "Validate_devices specs = None" using assms by (simp add: Build_registry_def split: option.splits)
  then show ok: "list_all spec_ok specs" "distinct (map spec_key specs)"
    by (simp_all add: Validate_devices_def validate_specs_None_iff)
  show "Lookup_device (Some r) a = map_option (device_of g) (find (\<lambda>s. spec_key s = device_key a) specs)"
    if "a \<noteq> nil_ip"
    using assms that map_of_build [OF ok(2), of g "[]"]
    by (auto simp: Build_registry_def Lookup_device_def split: option.splits)
qed

section \<open>Properties\<close>

text \<open>
   The registry attributes addresses unambiguously.  If \<open>Build\<close> accepts the
  specifications, all of them satisfy the documented constraints, no two name the same
  address, and the device found for an address (in its 4-byte or 16-byte form) is the one
  described by the specification with that address, with the global rules overridden by its
  own; an address that no specification names is not found.
\<close>

theorem registry_attribution:
  assumes "Build_registry specs global = Inr r" and "a \<noteq> nil_ip"
  shows "list_all spec_ok specs \<and> distinct (map spec_key specs)
    \<and> (Lookup_device (Some r) a = Some dev \<longleftrightarrow>
         (\<exists>s \<in> set specs. spec_key s = device_key a \<and> dev = device_of global s))
    \<and> (Lookup_device (Some r) a = None \<longleftrightarrow> (\<forall>s \<in> set specs. spec_key s \<noteq> device_key a))"
proof -
  note ok = Build_registry_ok [OF assms(1)]
  show ?thesis
    unfolding ok(3) [OF assms(2)] map_option_is_None map_option_eq_Some
    using ok(1,2) by (auto simp: find_key_None find_key_Some [OF ok(2)])
qed

definition example_spec :: device_spec where
  "example_spec = \<lparr>ds_Name = ''bng1'', ds_Enabled = True, ds_ExporterIP = ''192.0.2.7'', ds_ISPID = 3, ds_DeviceID = 9,
     ds_Protocol = [], ds_Profile = ''cisco'', ds_AllowedPorts = [2055],
     ds_Rules = Some \<lparr>rs_SkipDNS = Some True, rs_SkipPrivateToPrivate = None, rs_SkipZeroBytes = None\<rparr>\<rparr>"

theorem registry_attribution_witness:
  fixes r dev
  defines "r \<equiv> (case Build_registry [example_spec] (New_rules False False True) of Inr r \<Rightarrow> r | Inl _ \<Rightarrow> [])"
    and "dev \<equiv> device_of (New_rules False False True) example_spec"
  shows "list_all spec_ok [example_spec] \<and> distinct (map spec_key [example_spec])
    \<and> (Lookup_device (Some r) (ipv4_16 192 0 2 7) = Some dev \<longleftrightarrow>
         (\<exists>s \<in> set [example_spec]. spec_key s = device_key (ipv4_16 192 0 2 7) \<and> dev = device_of (New_rules False False True) s))
    \<and> (Lookup_device (Some r) (ipv4_16 192 0 2 7) = None \<longleftrightarrow>
         (\<forall>s \<in> set [example_spec]. spec_key s \<noteq> device_key (ipv4_16 192 0 2 7)))"
proof (rule registry_attribution)
  have "Validate_devices [example_spec] = None" by code_simp
  then show "Build_registry [example_spec] (New_rules False False True) = Inr r"
    by (simp add: r_def Build_registry_def)
qed (simp add: ipv4_16_def)

end
