(* ===== verification/Config.thy ===== *)
theory Config
  imports Device
begin

text \<open>
  Package \<open>config\<close> (\<open>internal/config/config.go\<close>): the collector's configuration, its defaults and
  validation, the hot-reloadable subset \<open>Live\<close>, and the comparison of two configurations on
  reload.  Reading the file and YAML are a parameter of \<open>Load\<close>.  A Go \<open>int\<close> is an \<open>int\<close> (no
  arithmetic on it can leave 64 bits here), a \<open>float64\<close> threshold is a rational (the values YAML
  can write; NaN is not covered), and a \<open>time.Duration\<close> counts nanoseconds.
\<close>

record cp_config =
  cp_Bind :: string
  cp_SessionKey :: string
  cp_CookieSecure :: bool
  cp_MySQLDSN :: string
  cp_FlowDays :: int
  cp_RegistryRefreshS :: int
  cp_RetentionDays :: int

record director_config =
  dc_URL :: string
  dc_Token :: string
  dc_PollIntervalS :: int

definition Managed :: "director_config \<Rightarrow> bool" where
  "Managed c \<longleftrightarrow> dc_URL c \<noteq> [] \<and> dc_Token c \<noteq> []"

record security_config =
  UnknownExporterMode :: string

record server_config =
  sv_Name :: string
  sv_ISPID :: u32
  sv_DeviceIDDefault :: u32

record ports_config =
  po_NetFlow5 :: int
  po_NetFlow9 :: int
  po_IPFIX :: int
  po_SyslogUDP :: int
  po_SyslogTCP :: int
  po_RADIUSAccounting :: int

record receiver_config =
  rc_BindIP :: string
  rc_Ports :: ports_config
  rc_UDPReadBufferMB :: int
  rc_Workers :: int

record clickhouse_config =
  ch_Addr :: string
  ch_Database :: string
  ch_Username :: string
  ch_Password :: string
  ch_BatchSize :: int
  ch_FlushIntervalMS :: int
  ch_WriterWorkers :: int
  ch_MaxQueueRows :: int
  ch_RetryMaxAttempts :: int
  ch_RetryBackoffMS :: int
  ch_ShutdownDrainMS :: int
  ch_QueueCapacity :: int
  ch_Compression :: string
  ch_MaxOpenConns :: int
  ch_AsyncInsert :: bool
  ch_WaitForAsyncInsert :: "bool option"
  ch_AsyncInsertBusyTimeoutMS :: int
  ch_SpoolDir :: string
  ch_SpoolMaxGB :: int

definition Spool_config :: "clickhouse_config \<Rightarrow> string \<times> int" where
  "Spool_config c =
     (let gb = (if ch_SpoolMaxGB c \<le> 0 then 20 else ch_SpoolMaxGB c)
      in (ch_SpoolDir c, wrap64 (gb * 2 ^ 30)))"

record rules_config =
  rl_SkipDNS :: bool
  rl_SkipPrivateToPrivate :: bool
  rl_SkipZeroBytes :: bool

record pipeline_config =
  pl_BackpressureMode :: string

record s3_config =
  s3_Enabled :: bool
  s3_Endpoint :: string
  s3_Region :: string
  s3_Bucket :: string
  s3_AccessKey :: string
  s3_SecretKey :: string
  s3_PathPrefix :: string
  s3_ArchiveAfterDays :: int
  s3_ExportFormat :: string

record metrics_config =
  mt_Bind :: string

record monitoring_config =
  mo_NTPServer :: string
  mo_NTPMaxSkewMS :: int
  mo_IntervalS :: int
  mo_ClickHouseDataPath :: string
  mo_DiskAlertPercent :: rat
  mo_DiskSafetyPercent :: rat

record radius_config =
  ra_Secret :: string
  ra_SessionTTLHours :: int

record logging_config =
  lo_Level :: string
  lo_File :: string

record config =
  c_Server :: server_config
  c_Receiver :: receiver_config
  c_ClickHouse :: clickhouse_config
  c_Rules :: rules_config
  c_Pipeline :: pipeline_config
  c_S3 :: s3_config
  c_Security :: security_config
  c_Devices :: "device_spec list"
  c_Director :: director_config
  c_CP :: cp_config
  c_Metrics :: metrics_config
  c_Monitoring :: monitoring_config
  c_RADIUS :: radius_config
  c_Logging :: logging_config

section \<open>The reloadable subset\<close>

definition ms_duration :: "int \<Rightarrow> int" where
  "ms_duration n = wrap64 (n * 1000000)"

definition FlushInterval :: "clickhouse_config \<Rightarrow> int" where
  "FlushInterval c = ms_duration (ch_FlushIntervalMS c)"

definition RetryBackoff :: "clickhouse_config \<Rightarrow> int" where
  "RetryBackoff c = ms_duration (ch_RetryBackoffMS c)"

definition ShutdownDrain :: "clickhouse_config \<Rightarrow> int" where
  "ShutdownDrain c = ms_duration (ch_ShutdownDrainMS c)"

datatype backpressure_mode = DropNew | DropOld | Block

fun String_backpressure :: "backpressure_mode \<Rightarrow> string" where
  "String_backpressure DropOld = ''drop_old''"
| "String_backpressure Block = ''block''"
| "String_backpressure DropNew = ''drop_new''"

datatype config_error =
    ReadError
  | ParseError
  | BadBindIP string
  | PortRange string int
  | PortClash string string int
  | BadWriterWorkers int
  | QueueTooSmall int int
  | BadCompression string
  | AsyncNotDurable
  | BadBackpressure string
  | BadExportFormat string
  | DeviceError device_error
  | S3NoBucket
  | S3NoEndpoint
  | BadDiskThresholds
  | ShortRadiusSecret

text \<open>On an error the mode of the result is the default \<open>DropNew\<close>.\<close>

definition ParseBackpressure :: "string \<Rightarrow> backpressure_mode \<times> config_error option" where
  "ParseBackpressure s =
     (if s = [] \<or> s = ''drop_new'' then (DropNew, None)
      else if s = ''drop_old'' then (DropOld, None)
      else if s = ''block'' then (Block, None)
      else (DropNew, Some (BadBackpressure s)))"

record live =
  l_Rules :: rule_set
  l_BatchSize :: int
  l_FlushInterval :: int
  l_RetryMaxAttempts :: int
  l_RetryBackoff :: int
  l_Backpressure :: backpressure_mode
  l_UnknownMode :: unknown_mode
  l_AsyncInsert :: bool
  l_WaitForAsyncInsert :: bool
  l_AsyncInsertBusyTimeoutMS :: int
  l_S3Enabled :: bool
  l_S3ArchiveAfterDays :: int

definition Live :: "config \<Rightarrow> live" where
  "Live c =
     (let mode = fst (ParseBackpressure (pl_BackpressureMode (c_Pipeline c)));
          unknown = (case ParseUnknownMode (UnknownExporterMode (c_Security c)) of Inr m \<Rightarrow> m | Inl _ \<Rightarrow> ModeAllow);
          ch = c_ClickHouse c
      in \<lparr>l_Rules = \<lparr>SkipDNS = rl_SkipDNS (c_Rules c), SkipPrivateToPrivate = rl_SkipPrivateToPrivate (c_Rules c),
            SkipZeroBytes = rl_SkipZeroBytes (c_Rules c)\<rparr>,
          l_BatchSize = ch_BatchSize ch, l_FlushInterval = FlushInterval ch,
          l_RetryMaxAttempts = ch_RetryMaxAttempts ch, l_RetryBackoff = RetryBackoff ch,
          l_Backpressure = mode, l_UnknownMode = unknown,
          l_AsyncInsert = ch_AsyncInsert ch,
          l_WaitForAsyncInsert = (case ch_WaitForAsyncInsert ch of None \<Rightarrow> True | Some b \<Rightarrow> b),
          l_AsyncInsertBusyTimeoutMS = ch_AsyncInsertBusyTimeoutMS ch,
          l_S3Enabled = s3_Enabled (c_S3 c), l_S3ArchiveAfterDays = s3_ArchiveAfterDays (c_S3 c)\<rparr>)"

definition NonReloadableChanges :: "config \<Rightarrow> config \<Rightarrow> string list" where
  "NonReloadableChanges old next =
     map fst (filter snd
       [(''receiver.bind_ip'', rc_BindIP (c_Receiver old) \<noteq> rc_BindIP (c_Receiver next)),
        (''receiver.ports'', rc_Ports (c_Receiver old) \<noteq> rc_Ports (c_Receiver next)),
        (''receiver.workers'', rc_Workers (c_Receiver old) \<noteq> rc_Workers (c_Receiver next)),
        (''clickhouse.addr'', ch_Addr (c_ClickHouse old) \<noteq> ch_Addr (c_ClickHouse next)),
        (''clickhouse.database'', ch_Database (c_ClickHouse old) \<noteq> ch_Database (c_ClickHouse next)),
        (''clickhouse.username'', ch_Username (c_ClickHouse old) \<noteq> ch_Username (c_ClickHouse next)),
        (''clickhouse.password'', ch_Password (c_ClickHouse old) \<noteq> ch_Password (c_ClickHouse next)),
        (''clickhouse.compression'', ch_Compression (c_ClickHouse old) \<noteq> ch_Compression (c_ClickHouse next)),
        (''clickhouse.max_open_conns'', ch_MaxOpenConns (c_ClickHouse old) \<noteq> ch_MaxOpenConns (c_ClickHouse next)),
        (''metrics.bind'', mt_Bind (c_Metrics old) \<noteq> mt_Bind (c_Metrics next)),
        (''monitoring'', c_Monitoring old \<noteq> c_Monitoring next),
        (''radius'', c_RADIUS old \<noteq> c_RADIUS next)])"

section \<open>Defaults\<close>

definition or_string :: "string \<Rightarrow> string \<Rightarrow> string" where
  "or_string s d = (if s = [] then d else s)"

definition or_pos :: "int \<Rightarrow> int \<Rightarrow> int" where
  "or_pos n d = (if n \<le> 0 then d else n)"

definition applyDefaults :: "int \<Rightarrow> config \<Rightarrow> config" where
  "applyDefaults numCPU c =
     (let rc = c_Receiver c; po = rc_Ports rc; ch = c_ClickHouse c; mo = c_Monitoring c in
      c\<lparr>c_Receiver := rc\<lparr>rc_BindIP := or_string (rc_BindIP rc) ''0.0.0.0'',
          rc_Ports := po\<lparr>po_NetFlow5 := (if po_NetFlow5 po = 0 then 2055 else po_NetFlow5 po),
            po_NetFlow9 := (if po_NetFlow9 po = 0 then 9995 else po_NetFlow9 po),
            po_IPFIX := (if po_IPFIX po = 0 then 4739 else po_IPFIX po)\<rparr>,
          rc_UDPReadBufferMB := or_pos (rc_UDPReadBufferMB rc) 64,
          rc_Workers := or_pos (rc_Workers rc) numCPU\<rparr>,
        c_ClickHouse := ch\<lparr>ch_Addr := or_string (ch_Addr ch) ''127.0.0.1:9000'',
          ch_Database := or_string (ch_Database ch) ''natlogs'',
          ch_Username := or_string (ch_Username ch) ''default'',
          ch_BatchSize := or_pos (ch_BatchSize ch) 10000,
          ch_FlushIntervalMS := or_pos (ch_FlushIntervalMS ch) 1000,
          ch_WriterWorkers := or_pos (ch_WriterWorkers ch) 4,
          ch_MaxQueueRows := (if ch_MaxQueueRows ch \<le> 0 then
              if ch_QueueCapacity ch > 0 then ch_QueueCapacity ch else 100000
            else ch_MaxQueueRows ch),
          ch_RetryMaxAttempts := or_pos (ch_RetryMaxAttempts ch) 3,
          ch_RetryBackoffMS := or_pos (ch_RetryBackoffMS ch) 250,
          ch_ShutdownDrainMS := or_pos (ch_ShutdownDrainMS ch) 15000,
          ch_Compression := or_string (ch_Compression ch) ''lz4''\<rparr>,
        c_Pipeline := (c_Pipeline c)\<lparr>pl_BackpressureMode := or_string (pl_BackpressureMode (c_Pipeline c)) ''drop_new''\<rparr>,
        c_S3 := (c_S3 c)\<lparr>s3_ExportFormat := or_string (s3_ExportFormat (c_S3 c)) ''csvgz'',
          s3_Region := or_string (s3_Region (c_S3 c)) ''us-east-1''\<rparr>,
        c_Director := (c_Director c)\<lparr>dc_PollIntervalS := or_pos (dc_PollIntervalS (c_Director c)) 30\<rparr>,
        c_Security := (c_Security c)\<lparr>UnknownExporterMode := or_string (UnknownExporterMode (c_Security c)) ''allow''\<rparr>,
        c_Metrics := (c_Metrics c)\<lparr>mt_Bind := or_string (mt_Bind (c_Metrics c)) ''127.0.0.1:9101''\<rparr>,
        c_Monitoring := mo\<lparr>mo_NTPMaxSkewMS := or_pos (mo_NTPMaxSkewMS mo) 500,
          mo_IntervalS := or_pos (mo_IntervalS mo) 300,
          mo_DiskAlertPercent := (if mo_DiskAlertPercent mo \<le> 0 then 85 else mo_DiskAlertPercent mo),
          mo_DiskSafetyPercent := (if mo_DiskSafetyPercent mo \<le> 0 then 90 else mo_DiskSafetyPercent mo)\<rparr>,
        c_Logging := (c_Logging c)\<lparr>lo_Level := or_string (lo_Level (c_Logging c)) ''info''\<rparr>\<rparr>)"

section \<open>Validation\<close>

text \<open>
  The two loops over map literals visit the entries in an unspecified order, on which only the
  choice among several errors depends; the model visits them in the order of the source.
\<close>

fun validate_ports :: "(int \<times> string) list \<Rightarrow> (string \<times> int) list \<Rightarrow> config_error option" where
  "validate_ports seen [] = None"
| "validate_ports seen ((name, p) # ps) =
     (if p < 1 \<or> p > 65535 then Some (PortRange name p)
      else case map_of seen p of
        Some other \<Rightarrow> Some (PortClash name other p)
      | None \<Rightarrow> validate_ports ((p, name) # seen) ps)"

fun validate_optional_ports :: "(string \<times> int) list \<Rightarrow> config_error option" where
  "validate_optional_ports [] = None"
| "validate_optional_ports ((name, p) # ps) =
     (if p < 0 \<or> p > 65535 then Some (PortRange name p) else validate_optional_ports ps)"

text \<open>The first error of a sequence of checks.\<close>

fun first_error :: "config_error option list \<Rightarrow> config_error option" where
  "first_error [] = None"
| "first_error (Some e # es) = Some e"
| "first_error (None # es) = first_error es"

definition check :: "bool \<Rightarrow> config_error \<Rightarrow> config_error option" where
  "check bad e = (if bad then Some e else None)"

definition validate_config :: "config \<Rightarrow> config_error option" where
  "validate_config c =
     (let rc = c_Receiver c; po = rc_Ports rc; ch = c_ClickHouse c; s3 = c_S3 c; mo = c_Monitoring c in
      first_error
       [check (ParseIP (rc_BindIP rc) = nil_ip) (BadBindIP (rc_BindIP rc)),
        validate_ports [] [(''netflow5'', po_NetFlow5 po), (''netflow9'', po_NetFlow9 po), (''ipfix'', po_IPFIX po)],
        validate_optional_ports [(''syslog_udp'', po_SyslogUDP po), (''syslog_tcp'', po_SyslogTCP po),
          (''radius_accounting'', po_RADIUSAccounting po)],
        check (ch_WriterWorkers ch < 1 \<or> ch_WriterWorkers ch > 256) (BadWriterWorkers (ch_WriterWorkers ch)),
        check (ch_MaxQueueRows ch < ch_BatchSize ch) (QueueTooSmall (ch_MaxQueueRows ch) (ch_BatchSize ch)),
        check (ch_Compression ch \<notin> set [''lz4'', ''lz4hc'', ''zstd'', ''none'']) (BadCompression (ch_Compression ch)),
        check (ch_SpoolDir ch \<noteq> [] \<and> ch_AsyncInsert ch \<and> ch_WaitForAsyncInsert ch = Some False) AsyncNotDurable,
        snd (ParseBackpressure (pl_BackpressureMode (c_Pipeline c))),
        check (s3_ExportFormat s3 \<notin> set [''csvgz'', ''parquet'']) (BadExportFormat (s3_ExportFormat s3)),
        (case ParseUnknownMode (UnknownExporterMode (c_Security c)) of Inl e \<Rightarrow> Some (DeviceError e) | Inr _ \<Rightarrow> None),
        map_option DeviceError (Validate_devices (c_Devices c)),
        check (s3_Enabled s3 \<and> s3_Bucket s3 = []) S3NoBucket,
        check (s3_Enabled s3 \<and> s3_Endpoint s3 = []) S3NoEndpoint,
        check (mo_DiskSafetyPercent mo \<le> mo_DiskAlertPercent mo \<or> mo_DiskSafetyPercent mo > 100) BadDiskThresholds,
        check (po_RADIUSAccounting po > 0 \<and> length (ra_Secret (c_RADIUS c)) < 8) ShortRadiusSecret])"

text \<open>\<open>readFile\<close> and \<open>yamlDecode\<close> stand for the file system and the YAML package.\<close>

definition Load_config ::
  "(string \<Rightarrow> bytes option) \<Rightarrow> (bytes \<Rightarrow> config option) \<Rightarrow> int \<Rightarrow> string \<Rightarrow> config_error + config" where
  "Load_config readFile yamlDecode numCPU path =
     (case readFile path of
        None \<Rightarrow> Inl ReadError
      | Some raw \<Rightarrow>
          (case yamlDecode raw of
             None \<Rightarrow> Inl ParseError
           | Some c \<Rightarrow>
               let c = applyDefaults numCPU c
               in case validate_config c of Some e \<Rightarrow> Inl e | None \<Rightarrow> Inr c))"

section \<open>Lemmas\<close>

lemma first_error_None [simp]: "first_error es = None \<longleftrightarrow> list_all (\<lambda>e. e = None) es"
  by (induction es rule: first_error.induct) auto

lemma check_None [simp]: "check bad e = None \<longleftrightarrow> \<not> bad"
  by (simp add: check_def)

lemma or_pos_pos: "0 < d \<Longrightarrow> 0 < or_pos n d"
  by (simp add: or_pos_def)

lemma or_idem [simp]: "0 < d \<Longrightarrow> or_pos (or_pos n d) d = or_pos n d" "or_string (or_string s t) t = or_string s t"
  by (simp_all add: or_pos_def or_string_def)

declare validate_ports.simps [simp del] validate_optional_ports.simps [simp del]

lemma validate_ports_step:
  "validate_ports seen ((n, p) # ps) = None \<longleftrightarrow>
     1 \<le> p \<and> p \<le> 65535 \<and> map_of seen p = None \<and> validate_ports ((p, n) # seen) ps = None"
  by (auto simp: validate_ports.simps split: option.splits)

lemma validate_ports_None:
  "validate_ports seen ps = None \<longleftrightarrow>
     list_all (\<lambda>p. 1 \<le> p \<and> p \<le> 65535) (map snd ps) \<and> distinct (map snd ps)
     \<and> (\<forall>p \<in> set (map snd ps). map_of seen p = None)"
proof (induction ps arbitrary: seen)
  case (Cons a ps)
  obtain n p where a: "a = (n, p)" by (cases a)
  have upd: "map_of ((p, n) # seen) q = None \<longleftrightarrow> q \<noteq> p \<and> map_of seen q = None" for q by simp
  show ?case
    unfolding a validate_ports_step Cons.IH upd by auto
qed (simp add: validate_ports.simps)

lemma validate_config_ok:
  assumes "validate_config c = None"
  shows "1 \<le> ch_WriterWorkers (c_ClickHouse c)" "ch_WriterWorkers (c_ClickHouse c) \<le> 256"
    "ch_BatchSize (c_ClickHouse c) \<le> ch_MaxQueueRows (c_ClickHouse c)"
    "snd (ParseBackpressure (pl_BackpressureMode (c_Pipeline c))) = None"
    "\<exists>m. ParseUnknownMode (UnknownExporterMode (c_Security c)) = Inr m"
    "Validate_devices (c_Devices c) = None"
    "ch_SpoolDir (c_ClickHouse c) \<noteq> [] \<Longrightarrow> ch_AsyncInsert (c_ClickHouse c) \<Longrightarrow>
       ch_WaitForAsyncInsert (c_ClickHouse c) \<noteq> Some False"
    "mo_DiskAlertPercent (c_Monitoring c) < mo_DiskSafetyPercent (c_Monitoring c)"
    "mo_DiskSafetyPercent (c_Monitoring c) \<le> 100"
    "let po = rc_Ports (c_Receiver c); ps = [po_NetFlow5 po, po_NetFlow9 po, po_IPFIX po]
     in distinct ps \<and> list_all (\<lambda>p. 1 \<le> p \<and> p \<le> 65535) ps"
proof -
  note v = assms [unfolded validate_config_def Let_def first_error_None list.pred_inject check_None
      map_option_is_None validate_ports_None]
  show "1 \<le> ch_WriterWorkers (c_ClickHouse c)" "ch_WriterWorkers (c_ClickHouse c) \<le> 256"
    "ch_BatchSize (c_ClickHouse c) \<le> ch_MaxQueueRows (c_ClickHouse c)" using v by linarith+
  show "snd (ParseBackpressure (pl_BackpressureMode (c_Pipeline c))) = None"
    "Validate_devices (c_Devices c) = None" using v by blast+
  show "\<exists>m. ParseUnknownMode (UnknownExporterMode (c_Security c)) = Inr m"
    using v by (cases "ParseUnknownMode (UnknownExporterMode (c_Security c))") auto
  show "ch_WaitForAsyncInsert (c_ClickHouse c) \<noteq> Some False"
    if "ch_SpoolDir (c_ClickHouse c) \<noteq> []" "ch_AsyncInsert (c_ClickHouse c)" using v that by blast
  show "mo_DiskAlertPercent (c_Monitoring c) < mo_DiskSafetyPercent (c_Monitoring c)"
    "mo_DiskSafetyPercent (c_Monitoring c) \<le> 100" using v by (meson not_le not_less)+
  show "let po = rc_Ports (c_Receiver c); ps = [po_NetFlow5 po, po_NetFlow9 po, po_IPFIX po]
     in distinct ps \<and> list_all (\<lambda>p. 1 \<le> p \<and> p \<le> 65535) ps"
    using v unfolding Let_def by simp
qed

lemma applyDefaults_ok:
  assumes "0 < numCPU"
  shows "0 < ch_BatchSize (c_ClickHouse (applyDefaults numCPU c))"
    "0 < ch_RetryMaxAttempts (c_ClickHouse (applyDefaults numCPU c))"
    "0 < rc_Workers (c_Receiver (applyDefaults numCPU c))"
  using assms by (simp_all add: applyDefaults_def Let_def or_pos_pos)

lemma Load_config_Inr:
  assumes "Load_config readFile yamlDecode numCPU path = Inr c"
  shows "validate_config c = None" "\<exists>c0. c = applyDefaults numCPU c0"
  using assms by (auto simp: Load_config_def Let_def split: option.splits)

section \<open>Properties\<close>

text \<open>What the other components rely on in a configuration; \<open>global\<close> are the global skip rules.\<close>

definition config_runnable :: "rule_set \<Rightarrow> config \<Rightarrow> bool" where
  "config_runnable global c \<longleftrightarrow> (let po = rc_Ports (c_Receiver c); ps = [po_NetFlow5 po, po_NetFlow9 po, po_IPFIX po]
          in distinct ps \<and> list_all (\<lambda>p. 1 \<le> p \<and> p \<le> 65535) ps)
    \<and> 0 < l_BatchSize (Live c) \<and> l_BatchSize (Live c) \<le> ch_MaxQueueRows (c_ClickHouse c)
    \<and> 0 < l_RetryMaxAttempts (Live c) \<and> 0 < rc_Workers (c_Receiver c)
    \<and> 1 \<le> ch_WriterWorkers (c_ClickHouse c) \<and> ch_WriterWorkers (c_ClickHouse c) \<le> 256
    \<and> snd (ParseBackpressure (pl_BackpressureMode (c_Pipeline c))) = None
    \<and> ParseUnknownMode (UnknownExporterMode (c_Security c)) = Inr (l_UnknownMode (Live c))
    \<and> (\<exists>r. Build_registry (c_Devices c) global = Inr r)
    \<and> (ch_SpoolDir (c_ClickHouse c) \<noteq> [] \<and> l_AsyncInsert (Live c) \<longrightarrow> l_WaitForAsyncInsert (Live c))"


text \<open>An empty YAML document, with every field at its zero value.\<close>

definition zero_config :: config where
  "zero_config =
     \<lparr>c_Server = \<lparr>sv_Name = [], sv_ISPID = 0, sv_DeviceIDDefault = 0\<rparr>,
      c_Receiver = \<lparr>rc_BindIP = [], rc_Ports = \<lparr>po_NetFlow5 = 0, po_NetFlow9 = 0, po_IPFIX = 0,
          po_SyslogUDP = 0, po_SyslogTCP = 0, po_RADIUSAccounting = 0\<rparr>, rc_UDPReadBufferMB = 0, rc_Workers = 0\<rparr>,
      c_ClickHouse = \<lparr>ch_Addr = [], ch_Database = [], ch_Username = [], ch_Password = [], ch_BatchSize = 0,
          ch_FlushIntervalMS = 0, ch_WriterWorkers = 0, ch_MaxQueueRows = 0, ch_RetryMaxAttempts = 0,
          ch_RetryBackoffMS = 0, ch_ShutdownDrainMS = 0, ch_QueueCapacity = 0, ch_Compression = [],
          ch_MaxOpenConns = 0, ch_AsyncInsert = False, ch_WaitForAsyncInsert = None,
          ch_AsyncInsertBusyTimeoutMS = 0, ch_SpoolDir = [], ch_SpoolMaxGB = 0\<rparr>,
      c_Rules = \<lparr>rl_SkipDNS = False, rl_SkipPrivateToPrivate = False, rl_SkipZeroBytes = False\<rparr>,
      c_Pipeline = \<lparr>pl_BackpressureMode = []\<rparr>,
      c_S3 = \<lparr>s3_Enabled = False, s3_Endpoint = [], s3_Region = [], s3_Bucket = [], s3_AccessKey = [],
          s3_SecretKey = [], s3_PathPrefix = [], s3_ArchiveAfterDays = 0, s3_ExportFormat = []\<rparr>,
      c_Security = \<lparr>UnknownExporterMode = []\<rparr>, c_Devices = [],
      c_Director = \<lparr>dc_URL = [], dc_Token = [], dc_PollIntervalS = 0\<rparr>,
      c_CP = \<lparr>cp_Bind = [], cp_SessionKey = [], cp_CookieSecure = False, cp_MySQLDSN = [], cp_FlowDays = 0,
          cp_RegistryRefreshS = 0, cp_RetentionDays = 0\<rparr>,
      c_Metrics = \<lparr>mt_Bind = []\<rparr>,
      c_Monitoring = \<lparr>mo_NTPServer = [], mo_NTPMaxSkewMS = 0, mo_IntervalS = 0, mo_ClickHouseDataPath = [],
          mo_DiskAlertPercent = 0, mo_DiskSafetyPercent = 0\<rparr>,
      c_RADIUS = \<lparr>ra_Secret = [], ra_SessionTTLHours = 0\<rparr>,
      c_Logging = \<lparr>lo_Level = [], lo_File = []\<rparr>\<rparr>"


text \<open>
   Applying the defaults twice is the same as applying them once, so a configuration that
  was loaded is a fixed point of \<open>applyDefaults\<close>.
\<close>

theorem applyDefaults_idem:
  assumes "0 < numCPU"
  shows "applyDefaults numCPU (applyDefaults numCPU c) = applyDefaults numCPU c"
  using assms by (simp add: applyDefaults_def Let_def)

theorem applyDefaults_idem_witness: "applyDefaults 4 (applyDefaults 4 zero_config) = applyDefaults 4 zero_config"
  by (rule applyDefaults_idem) simp

end
