(* ===== verification/Writer_Rows.thy ===== *)
theory Writer_Rows
  imports Config
begin

text \<open>
  The pure functions of package \<open>clickhouse\<close> (\<open>internal/writer/clickhouse/clickhouse.go\<close>): the
  columns of a row of \<open>flow_logs\<close> and the value \<open>send\<close> appends for each of them, the settings of
  an insert, the pause between two attempts, and the choice of the shard of a record.

  The lemmas show that a row keeps every set address in one of its two columns, and that the
  shard of a record lies in range and depends on the exporter and the device only.
\<close>

section \<open>Addresses and times\<close>

definition ip4 :: "ip \<Rightarrow> ip" where
  "ip4 a = (case ip_to4 a of Some v \<Rightarrow> v | None \<Rightarrow> [0, 0, 0, 0])"

definition ip6 :: "ip \<Rightarrow> ip" where
  "ip6 a =
     (if a = nil_ip \<or> ip_to4 a \<noteq> None then IPv6unspecified
      else case ip_to16 a of Some v \<Rightarrow> v | None \<Rightarrow> IPv6unspecified)"

definition nullableTime :: "gotime \<Rightarrow> gotime option" where
  "nullableTime t = (if time_IsZero t then None else Some t)"

section \<open>Rows\<close>

datatype column =
    UInt8 u8
  | UInt16 u16
  | UInt32 u32
  | UInt64 u64
  | Str string
  | Addr ip
  | DateTime gotime
  | NullableDateTime "gotime option"

type_synonym row = "(string \<times> column) list"

definition insertStmt :: "string list" where
  "insertStmt =
     [''isp_id'', ''device_id'', ''src_ip'', ''src_port'', ''dst_ip'', ''dst_port'',
      ''nat_public_ip'', ''nat_public_port'', ''nat_dest_ip'', ''nat_dest_port'', ''nat_event'', ''username'',
      ''protocol'', ''bytes'', ''packets'',
      ''flow_start'', ''flow_end'', ''exporter_flow_start'', ''exporter_flow_end'', ''collector_received'',
      ''flow_type'', ''exporter_ip'',
      ''src_ip_v6'', ''dst_ip_v6'', ''nat_public_ip_v6'', ''nat_dest_ip_v6'', ''exporter_ip_v6'']"

text \<open>The arguments of \<open>b.Append\<close> in \<open>send\<close>; ClickHouse pairs them with the columns by position.\<close>

definition append_args :: "flow_record \<Rightarrow> column list" where
  "append_args r =
     [UInt32 (r_ISPID r), UInt32 (r_DeviceID r),
      Addr (ip4 (r_SrcIP r)), UInt16 (r_SrcPort r), Addr (ip4 (r_DstIP r)), UInt16 (r_DstPort r),
      Addr (ip4 (r_NatPublicIP r)), UInt16 (r_NatPublicPort r), Addr (ip4 (r_NatDestIP r)), UInt16 (r_NatDestPort r),
      UInt8 (r_NatEvent r), Str (r_Username r),
      UInt8 (r_Protocol r), UInt64 (r_Bytes r), UInt64 (r_Packets r),
      DateTime (r_FlowStart r), DateTime (r_FlowEnd r),
      NullableDateTime (nullableTime (r_ExporterFlowStart r)), NullableDateTime (nullableTime (r_ExporterFlowEnd r)),
      DateTime (r_CollectorReceived r),
      Str (r_FlowType r), Addr (ip4 (r_ExporterIP r)), Addr (ip6 (r_SrcIP r)), Addr (ip6 (r_DstIP r)),
      Addr (ip6 (r_NatPublicIP r)), Addr (ip6 (r_NatDestIP r)), Addr (ip6 (r_ExporterIP r))]"

definition row_of :: "flow_record \<Rightarrow> row" where
  "row_of r = zip insertStmt (append_args r)"

section \<open>Settings and pauses\<close>

datatype setting = SInt int | SStr string

text \<open>\<open>None\<close> is a nil map.\<close>

definition insertSettings :: "live \<Rightarrow> string \<Rightarrow> (string \<times> setting) list option" where
  "insertSettings l dedupToken =
     (let settings =
        (if l_AsyncInsert l then
           let s = [(''async_insert'', SInt 1), (''wait_for_async_insert'', SInt (if l_WaitForAsyncInsert l then 1 else 0))]
           in Some (if l_AsyncInsertBusyTimeoutMS l > 0
                    then s @ [(''async_insert_busy_timeout_ms'', SInt (l_AsyncInsertBusyTimeoutMS l))] else s)
         else None)
      in if dedupToken \<noteq> []
         then Some ((case settings of None \<Rightarrow> [] | Some s \<Rightarrow> s) @ [(''insert_deduplication_token'', SStr dedupToken)])
         else settings)"

definition backoff :: "int \<Rightarrow> int \<Rightarrow> int" where
  "backoff attempt base = (let d = wrap64 (attempt * base) in if d > 2000000000 then 2000000000 else d)"

section \<open>Shards\<close>

text \<open>\<open>hash/fnv\<close>, \<open>New32a\<close> and \<open>Write\<close>.\<close>

definition fnv32a :: "bytes \<Rightarrow> u32" where
  "fnv32a b = foldl (\<lambda>h c. (h XOR ucast c) * 16777619) 2166136261 b"

definition shard_key :: "flow_record \<Rightarrow> bytes" where
  "shard_key r =
     (case ip_to4 (r_ExporterIP r) of Some v4 \<Rightarrow> v4 | None \<Rightarrow> r_ExporterIP r) @
     [ucast (r_DeviceID r), ucast (drop_bit 8 (r_DeviceID r)), ucast (drop_bit 16 (r_DeviceID r)),
      ucast (drop_bit 24 (r_DeviceID r))]"

definition shardIndex :: "flow_record \<Rightarrow> int \<Rightarrow> int" where
  "shardIndex r n =
     (if n \<le> 1 then 0
      else uint (drop_bit 32 ((ucast (fnv32a (shard_key r)) :: u64) * of_int n)))"

section \<open>Facts\<close>

lemma append_args_length: "length (append_args r) = length insertStmt" "distinct insertStmt"
  by (simp add: append_args_def insertStmt_def, code_simp)

lemma ip4_length [simp]: "length (ip4 a) = 4"
  by (auto simp: ip4_def ip_to4_length split: option.splits)

lemma ip6_length [simp]: "length (ip6 a) = 16"
  by (auto simp: ip6_def IPv6unspecified_def ip_to16_def v4InV6Prefix_def split: option.splits)

lemma addr_columns:
  assumes "length a \<in> {4, 16}"
  shows "ip4 a = (if ip_to4 a = None then [0, 0, 0, 0] else the (ip_to4 a))"
    and "ip6 a = (if ip_to4 a = None then a else IPv6unspecified)"
  using assms by (auto simp: ip4_def ip6_def ip_to4_def ip_to16_def split: option.splits)

lemma ip_equal_to4:
  assumes "length a \<in> {4, 16}" "length b \<in> {4, 16}"
  shows "ip_equal a b \<longleftrightarrow> ip_to4 a = ip_to4 b \<and> (ip_to4 a = None \<longrightarrow> a = b)"
proof -
  have "a = take 12 a @ drop 12 a" "b = take 12 b @ drop 12 b" by simp_all
  then show ?thesis using assms by (auto simp: ip_equal_def ip_to4_def; metis append_take_drop_id)
qed

lemma zero_to4 [simp]: "ip_to4 IPv6unspecified = None" "ip_to4 IPv4zero = Some [0, 0, 0, 0]"
  by (code_simp, simp add: IPv4zero_def)

lemma addr_columns_faithful:
  assumes "length a \<in> {4, 16}" "length b \<in> {4, 16}" "\<not> ip_IsUnspecified a" "\<not> ip_IsUnspecified b"
  shows "ip4 a = ip4 b \<and> ip6 a = ip6 b \<longleftrightarrow> ip_equal a b"
proof -
  have z: "length IPv4zero \<in> {4, 16}" "length IPv6unspecified \<in> {4, 16}"
    by (simp_all add: IPv4zero_def ipv4_16_def v4InV6Prefix_def IPv6unspecified_def)
  have ua: "ip_to4 a \<noteq> Some [0, 0, 0, 0]" "ip_to4 a = None \<Longrightarrow> a \<noteq> IPv6unspecified"
    using assms(3) ip_equal_to4 [OF assms(1) z(1)] ip_equal_to4 [OF assms(1) z(2)] by (auto simp: ip_IsUnspecified_def)
  have ub: "ip_to4 b \<noteq> Some [0, 0, 0, 0]" "ip_to4 b = None \<Longrightarrow> b \<noteq> IPv6unspecified"
    using assms(4) ip_equal_to4 [OF assms(2) z(1)] ip_equal_to4 [OF assms(2) z(2)] by (auto simp: ip_IsUnspecified_def)
  show ?thesis
    unfolding addr_columns [OF assms(1)] addr_columns [OF assms(2)] ip_equal_to4 [OF assms(1,2)]
    using ua ub by (cases "ip_to4 a"; cases "ip_to4 b") auto
qed

lemma shardIndex_range:
  assumes "1 \<le> n" "n < 2 ^ 32"
  shows "0 \<le> shardIndex r n \<and> shardIndex r n < n"
proof (cases "n = 1")
  case False
  let ?h = "fnv32a (shard_key r)"
  define h :: nat where "h = unat ?h"
  define k :: nat where "k = nat n"
  have h: "h < 2 ^ 32" using unsigned_less [of ?h, where 'a = nat] by (simp add: h_def)
  have k: "k < 2 ^ 32" "of_int n = (of_nat k :: u64)" "int k = n" using assms by (simp_all add: k_def)
  have "h * k < 2 ^ 32 * 2 ^ 32" using h k(1) by (intro mult_strict_mono) auto
  moreover have "(ucast ?h :: u64) * of_nat k = of_nat (h * k)" by (simp add: h_def)
  moreover have "unat (of_nat (h * k) :: u64) = h * k mod 2 ^ 64" by (simp only: unat_of_nat len_of_numeral_defs) simp
  ultimately have "unat ((ucast ?h :: u64) * of_int n) = h * k" unfolding k(2) by simp
  then have "unat (drop_bit 32 ((ucast ?h :: u64) * of_int n)) = h * k div 2 ^ 32"
    by (simp only: unat_drop_bit_eq) (simp add: drop_bit_eq_div)
  moreover have "h * k div 2 ^ 32 < k"
  proof -
    have "h * k < 2 ^ 32 * k" using h assms k_def by (intro mult_strict_right_mono) auto
    then show ?thesis by (simp add: less_mult_imp_div_less mult.commute)
  qed
  ultimately have "uint (drop_bit 32 ((ucast ?h :: u64) * of_int n)) < n" using k(3) by (simp flip: uint_nat add: uint_nat)
  then show ?thesis using False assms by (simp add: shardIndex_def)
qed (simp add: shardIndex_def)

lemma shardIndex_key:
  assumes "ip_equal (r_ExporterIP r) (r_ExporterIP r')" "r_DeviceID r = r_DeviceID r'"
  shows "shardIndex r n = shardIndex r' n"
proof -
  have "shard_key r = shard_key r'"
    using assms by (auto simp: shard_key_def ip_equal_def ip_to4_def split: if_splits)
  then show ?thesis by (simp add: shardIndex_def)
qed

lemma backoff_bound: "backoff a base \<le> 2000000000" "0 \<le> a * base \<Longrightarrow> a * base < 2 ^ 63 \<Longrightarrow> 0 \<le> backoff a base"
  by (simp_all add: backoff_def Let_def in_int64_def)

section \<open>Properties\<close>

text \<open>
   Sharding is stable and in range.  With 1 to 256 writers the index of a record names a writer,
  and two records of one device and one exporter, in whichever form its address is given, go
  to the same writer.
\<close>

theorem shardIndex_stable:
  assumes "1 \<le> n" and "n \<le> 256"
  shows "0 \<le> shardIndex r n \<and> shardIndex r n < n
    \<and> (ip_equal (r_ExporterIP r) (r_ExporterIP r') \<and> r_DeviceID r = r_DeviceID r' \<longrightarrow> shardIndex r n = shardIndex r' n)"
  using shardIndex_range [of n r] shardIndex_key assms by auto

theorem shardIndex_stable_witness:
  "shardIndex example_record 4 < 4
    \<and> shardIndex example_record 4 = shardIndex (example_record\<lparr>r_SrcIP := [1, 2, 3, 4]\<rparr>) 4"
proof -
  have "ip_equal (r_ExporterIP example_record) (r_ExporterIP (example_record\<lparr>r_SrcIP := [1, 2, 3, 4]\<rparr>))" by simp
  then show ?thesis using shardIndex_stable [of 4 example_record "example_record\<lparr>r_SrcIP := [1, 2, 3, 4]\<rparr>"] by simp
qed

text \<open>
   A row keeps the addresses.  For two records whose source addresses are valid and set, the
  source columns of their rows agree exactly when the addresses are equal: no two
  different addresses are stored as one.  The same holds for the translated address.
\<close>

theorem row_addresses_faithful:
  assumes "length (r_SrcIP r) \<in> {4, 16}" and "length (r_SrcIP r') \<in> {4, 16}"
    and "\<not> ip_IsUnspecified (r_SrcIP r)" and "\<not> ip_IsUnspecified (r_SrcIP r')"
    and "length (r_NatPublicIP r) \<in> {4, 16}" and "length (r_NatPublicIP r') \<in> {4, 16}"
    and "\<not> ip_IsUnspecified (r_NatPublicIP r)" and "\<not> ip_IsUnspecified (r_NatPublicIP r')"
  shows "(map_of (row_of r) ''src_ip'' = map_of (row_of r') ''src_ip''
      \<and> map_of (row_of r) ''src_ip_v6'' = map_of (row_of r') ''src_ip_v6'' \<longleftrightarrow> ip_equal (r_SrcIP r) (r_SrcIP r'))
    \<and> (map_of (row_of r) ''nat_public_ip'' = map_of (row_of r') ''nat_public_ip''
      \<and> map_of (row_of r) ''nat_public_ip_v6'' = map_of (row_of r') ''nat_public_ip_v6''
      \<longleftrightarrow> ip_equal (r_NatPublicIP r) (r_NatPublicIP r'))"
proof -
  have "map_of (row_of q) ''src_ip'' = Some (Addr (ip4 (r_SrcIP q)))"
    "map_of (row_of q) ''src_ip_v6'' = Some (Addr (ip6 (r_SrcIP q)))"
    "map_of (row_of q) ''nat_public_ip'' = Some (Addr (ip4 (r_NatPublicIP q)))"
    "map_of (row_of q) ''nat_public_ip_v6'' = Some (Addr (ip6 (r_NatPublicIP q)))" for q
    by (simp_all add: row_of_def insertStmt_def append_args_def)
  then show ?thesis using addr_columns_faithful [OF assms(1-4)] addr_columns_faithful [OF assms(5-8)] by simp
qed

theorem row_addresses_faithful_witness:
  "(map_of (row_of example_record) ''src_ip'' = map_of (row_of (example_record\<lparr>r_SrcIP := ipv4_16 10 0 0 7\<rparr>)) ''src_ip''
      \<and> map_of (row_of example_record) ''src_ip_v6'' = map_of (row_of (example_record\<lparr>r_SrcIP := ipv4_16 10 0 0 7\<rparr>)) ''src_ip_v6''
      \<longleftrightarrow> ip_equal (r_SrcIP example_record) (r_SrcIP (example_record\<lparr>r_SrcIP := ipv4_16 10 0 0 7\<rparr>)))
    \<and> (map_of (row_of example_record) ''nat_public_ip'' = map_of (row_of (example_record\<lparr>r_SrcIP := ipv4_16 10 0 0 7\<rparr>)) ''nat_public_ip''
      \<and> map_of (row_of example_record) ''nat_public_ip_v6'' = map_of (row_of (example_record\<lparr>r_SrcIP := ipv4_16 10 0 0 7\<rparr>)) ''nat_public_ip_v6''
      \<longleftrightarrow> ip_equal (r_NatPublicIP example_record) (r_NatPublicIP (example_record\<lparr>r_SrcIP := ipv4_16 10 0 0 7\<rparr>)))"
  by (rule row_addresses_faithful) (code_simp+)

end
