(* ===== verification/Spool.thy ===== *)
theory Spool
  imports Normalizer
begin

text \<open>
  Package \<open>spool\<close> (\<open>internal/writer/spool/spool.go\<close>): the bounded write-ahead log of batches.

  The state holds the regular files of the spool directory and those of its subdirectory
  \<open>quarantine\<close>, by name, next to the fields of the struct.  A directory has at most one file of
  a name.  Every system call may fail: the oracle \<open>flt\<close> says for call number \<open>i\<close> whether it
  fails, and the state counts the calls.  A failing call has no effect; \<open>fsync\<close> is a call that
  may fail, the loss of unsynced data at a power failure is not modelled, nor are modification
  times.  \<open>gobEncode\<close>, \<open>gobDecode\<close> and \<open>sha256\<close> stand for the packages of these names.

  The lemmas show the round trip and the integrity check of the batch format, that a name
  orders as its sequence number, and for every operation which stored batches it keeps.
\<close>

definition fileExt :: string where "fileExt = ''.spool''"
definition tmpExt :: string where "tmpExt = ''.tmp''"
definition activeExt :: string where "activeExt = ''.active''"
definition idFile :: string where "idFile = ''.wal-id''"
definition walHeader :: bytes where "walHeader = [78, 65, 84, 87, 65, 76, 1, 0]"

lemmas spool_exts = fileExt_def tmpExt_def activeExt_def idFile_def

type_synonym batch = "flow_record list"
type_synonym dir = "(string \<times> bytes) list"

record spool =
  sp_dir :: dir
  sp_quar :: dir
  sp_maxBytes :: int
  sp_id :: string
  sp_seq :: u64
  sp_bytes :: int
  sp_files :: int
  sp_full :: bool
  sp_calls :: nat

datatype spool_error =
    ErrFull
  | ErrEOF
  | ErrIO string

section \<open>System calls\<close>

definition sys :: "(nat \<Rightarrow> bool) \<Rightarrow> spool \<Rightarrow> bool \<times> spool" where
  "sys flt s = (flt (sp_calls s), s\<lparr>sp_calls := Suc (sp_calls s)\<rparr>)"

datatype stat_result = Present bytes | Absent | StatFailed

definition stat :: "(nat \<Rightarrow> bool) \<Rightarrow> string \<Rightarrow> spool \<Rightarrow> stat_result \<times> spool" where
  "stat flt n s =
     (let (bad, s) = sys flt s
      in (if bad then StatFailed else case map_of (sp_dir s) n of Some c \<Rightarrow> Present c | None \<Rightarrow> Absent, s))"

text \<open>\<open>os.OpenFile\<close> with \<open>O_CREATE|O_TRUNC\<close>, and writing the whole content.\<close>

definition write_file :: "(nat \<Rightarrow> bool) \<Rightarrow> string \<Rightarrow> bytes \<Rightarrow> spool \<Rightarrow> bool \<times> spool" where
  "write_file flt n c s =
     (let (bad, s) = sys flt s
      in if bad then (False, s) else (True, s\<lparr>sp_dir := AList.update n c (sp_dir s)\<rparr>))"

text \<open>\<open>os.Remove\<close> fails also for a file that does not exist.\<close>

definition remove_file :: "(nat \<Rightarrow> bool) \<Rightarrow> string \<Rightarrow> spool \<Rightarrow> bool \<times> spool" where
  "remove_file flt n s =
     (let (bad, s) = sys flt s
      in if bad \<or> map_of (sp_dir s) n = None then (False, s)
         else (True, s\<lparr>sp_dir := AList.delete n (sp_dir s)\<rparr>))"

text \<open>\<open>os.Rename\<close> within the directory replaces an existing target.\<close>

definition rename_file :: "(nat \<Rightarrow> bool) \<Rightarrow> string \<Rightarrow> string \<Rightarrow> spool \<Rightarrow> bool \<times> spool" where
  "rename_file flt a b s =
     (let (bad, s) = sys flt s
      in if bad then (False, s)
         else case map_of (sp_dir s) a of
           None \<Rightarrow> (False, s)
         | Some c \<Rightarrow> (True, s\<lparr>sp_dir := AList.update b c (AList.delete a (sp_dir s))\<rparr>))"

text \<open>\<open>syncDir\<close>, \<open>File.Sync\<close>, \<open>File.Stat\<close> and \<open>File.Close\<close> only succeed or fail.\<close>

definition ok_call :: "(nat \<Rightarrow> bool) \<Rightarrow> spool \<Rightarrow> bool \<times> spool" where
  "ok_call flt s = (let (bad, s) = sys flt s in (\<not> bad, s))"

section \<open>Names\<close>

definition pad20 :: "nat \<Rightarrow> string" where
  "pad20 n = replicate (20 - length (dec_string n)) CHR ''0'' @ dec_string n"

definition batch_name :: "u64 \<Rightarrow> string" where
  "batch_name q = pad20 (unat q) @ fileExt"

definition HasSuffix :: "string \<Rightarrow> string \<Rightarrow> bool" where
  "HasSuffix s suf \<longleftrightarrow> length suf \<le> length s \<and> drop (length s - length suf) s = suf"

definition TrimSuffix :: "string \<Rightarrow> string \<Rightarrow> string" where
  "TrimSuffix s suf = (if HasSuffix s suf then take (length s - length suf) s else s)"

text \<open>
  \<open>fmt.Sscanf(name, "%020d.spool", &n)\<close>: at most twenty digits, a value below \<open>2 ^ 64\<close>, then the
  literal; any other name gives 0.  (Names that begin with white space are not covered.)
\<close>

definition seqOf :: "string \<Rightarrow> u64" where
  "seqOf n =
     (let ds = takeWhile is_digit (take 20 n)
      in if ds = [] \<or> dec_value ds \<ge> 2 ^ 64 \<or> take (length fileExt) (drop (length ds) n) \<noteq> fileExt then 0
         else of_nat (dec_value ds))"

section \<open>The format of a batch\<close>

definition encodeBatch :: "(batch \<Rightarrow> bytes option) \<Rightarrow> (bytes \<Rightarrow> bytes) \<Rightarrow> batch \<Rightarrow> bytes option" where
  "encodeBatch gobEncode sha256 b =
     (case gobEncode b of None \<Rightarrow> None | Some g \<Rightarrow> Some (walHeader @ g @ sha256 g))"

definition decodeBatch ::
  "(bytes \<Rightarrow> spool_error + batch) \<Rightarrow> (bytes \<Rightarrow> bytes) \<Rightarrow> bytes \<Rightarrow> spool_error + batch" where
  "decodeBatch gobDecode sha256 f =
     (if length f < length walHeader \<or> take (length walHeader) f \<noteq> walHeader then gobDecode f
      else
        let payloadBytes = int (length f) - int (length walHeader) - 32 in
        if payloadBytes < 1 then Inl (ErrIO ''invalid WAL envelope length'')
        else
          let payload = take (nat payloadBytes) (drop (length walHeader) f);
              want = drop (length walHeader + nat payloadBytes) f
          in case gobDecode payload of
               Inl e \<Rightarrow> Inl e
             | Inr b \<Rightarrow> if sha256 payload \<noteq> want then Inl (ErrIO ''WAL checksum mismatch'') else Inr b)"

section \<open>Operations\<close>

text \<open>
  \<open>Begin\<close>.  The result \<open>Inr []\<close> is the empty handle for an empty batch.  On a failed step the
  temporary file is removed if possible.
\<close>

definition abort :: "(nat \<Rightarrow> bool) \<Rightarrow> string \<Rightarrow> string \<Rightarrow> spool \<Rightarrow> (spool_error + 'a) \<times> spool" where
  "abort flt n msg s = (Inl (ErrIO msg), snd (remove_file flt n s))"

definition writeActive ::
  "(nat \<Rightarrow> bool) \<Rightarrow> (batch \<Rightarrow> bytes option) \<Rightarrow> (bytes \<Rightarrow> bytes) \<Rightarrow> batch \<Rightarrow> string \<Rightarrow> string \<Rightarrow> spool
    \<Rightarrow> (spool_error + nat) \<times> spool" where
  "writeActive flt gobEncode sha256 b tmp active s =
     (let (ok, s) = write_file flt tmp [] s in
      if \<not> ok then (Inl (ErrIO ''spool create''), s)
      else case encodeBatch gobEncode sha256 b of
        None \<Rightarrow> abort flt tmp ''spool encode'' s
      | Some c \<Rightarrow>
          let (ok, s) = write_file flt tmp c s in
          if \<not> ok then abort flt tmp ''spool encode'' s
          else let (ok, s) = ok_call flt s in
          if \<not> ok then abort flt tmp ''spool sync'' s
          else let (ok, s) = ok_call flt s in
          if \<not> ok then abort flt tmp ''spool stat'' s
          else let (ok, s) = ok_call flt s in
          if \<not> ok then abort flt tmp ''spool close'' s
          else let (ok, s) = rename_file flt tmp active s in
          if \<not> ok then abort flt tmp ''spool rename active'' s
          else let (ok, s) = ok_call flt s in
          if \<not> ok then abort flt active ''spool sync directory'' s
          else (Inr (length c), s))"

definition Begin ::
  "(nat \<Rightarrow> bool) \<Rightarrow> (batch \<Rightarrow> bytes option) \<Rightarrow> (bytes \<Rightarrow> bytes) \<Rightarrow> batch \<Rightarrow> spool
    \<Rightarrow> (spool_error + string) \<times> spool" where
  "Begin flt gobEncode sha256 b s =
     (if b = [] then (Inr [], s)
      else if sp_maxBytes s > 0 \<and> sp_bytes s \<ge> sp_maxBytes s then (Inl ErrFull, s)
      else
        let s = s\<lparr>sp_seq := sp_seq s + 1\<rparr>;
            name = batch_name (sp_seq s)
        in case writeActive flt gobEncode sha256 b (name @ tmpExt) (name @ activeExt) s of
             (Inl e, s) \<Rightarrow> (Inl e, s)
           | (Inr n, s) \<Rightarrow> (Inr name, s\<lparr>sp_bytes := sp_bytes s + int n, sp_files := sp_files s + 1, sp_full := False\<rparr>))"

text \<open>The remaining operations return \<open>None\<close> for a \<open>nil\<close> error.\<close>

definition Ready :: "(nat \<Rightarrow> bool) \<Rightarrow> string \<Rightarrow> spool \<Rightarrow> spool_error option \<times> spool" where
  "Ready flt name s =
     (if name = [] then (None, s)
      else case stat flt name s of
        (Present c, s) \<Rightarrow> (None, s)
      | (_, s) \<Rightarrow>
          let (ok, s) = rename_file flt (name @ activeExt) name s in
          if \<not> ok then (Some (ErrIO ''spool release''), s)
          else let (ok, s) = ok_call flt s in
          if \<not> ok then (Some (ErrIO ''spool sync released entry''), s) else (None, s))"

definition Save ::
  "(nat \<Rightarrow> bool) \<Rightarrow> (batch \<Rightarrow> bytes option) \<Rightarrow> (bytes \<Rightarrow> bytes) \<Rightarrow> batch \<Rightarrow> spool
    \<Rightarrow> spool_error option \<times> spool" where
  "Save flt gobEncode sha256 b s =
     (case Begin flt gobEncode sha256 b s of
        (Inl e, s) \<Rightarrow> (Some e, s)
      | (Inr name, s) \<Rightarrow> if name = [] then (None, s) else Ready flt name s)"

text \<open>\<open>sort.Strings\<close> orders by bytes, as the characters do.\<close>

definition char_le :: "char \<Rightarrow> char \<Rightarrow> bool" where
  "char_le a b \<longleftrightarrow> (of_char a :: nat) \<le> of_char b"

fun string_le :: "string \<Rightarrow> string \<Rightarrow> bool" where
  "string_le [] b = True"
| "string_le (a # as) [] = False"
| "string_le (a # as) (b # bs) = (if a = b then string_le as bs else char_le a b)"

fun least_name :: "string list \<Rightarrow> string option" where
  "least_name [] = None"
| "least_name (n # ns) =
     (case least_name ns of None \<Rightarrow> Some n | Some m \<Rightarrow> if string_le n m then Some n else Some m)"

definition oldestName :: "(nat \<Rightarrow> bool) \<Rightarrow> spool \<Rightarrow> (spool_error + string option) \<times> spool" where
  "oldestName flt s =
     (let (bad, s) = sys flt s
      in if bad then (Inl (ErrIO ''readdir''), s)
         else (Inr (least_name (filter (\<lambda>n. HasSuffix n fileExt) (map fst (sp_dir s)))), s))"

text \<open>\<open>Oldest\<close>: the name, the batch, \<open>ok\<close> and the error.\<close>

definition Oldest ::
  "(nat \<Rightarrow> bool) \<Rightarrow> (bytes \<Rightarrow> spool_error + batch) \<Rightarrow> (bytes \<Rightarrow> bytes) \<Rightarrow> spool
    \<Rightarrow> (string \<times> batch \<times> bool \<times> spool_error option) \<times> spool" where
  "Oldest flt gobDecode sha256 s =
     (case oldestName flt s of
        (Inl e, s) \<Rightarrow> (([], [], False, Some e), s)
      | (Inr None, s) \<Rightarrow> (([], [], False, None), s)
      | (Inr (Some name), s) \<Rightarrow>
          let (bad, s) = sys flt s in
          if bad then ((name, [], False, Some (ErrIO ''open'')), s)
          else case map_of (sp_dir s) name of
            None \<Rightarrow> ((name, [], False, Some (ErrIO ''open'')), s)
          | Some f \<Rightarrow>
              (case decodeBatch gobDecode sha256 f of
                 Inr b \<Rightarrow> ((name, b, True, None), s)
               | Inl e \<Rightarrow> if e = ErrEOF then ((name, [], True, None), s)
                          else ((name, [], False, Some e), s)))"

definition removeStats :: "int \<Rightarrow> spool \<Rightarrow> spool" where
  "removeStats n s = s\<lparr>sp_bytes := max 0 (sp_bytes s - n), sp_files := max 0 (sp_files s - 1)\<rparr>"

definition quarantineStats :: "spool \<Rightarrow> spool" where
  "quarantineStats s = s\<lparr>sp_files := max 0 (sp_files s - 1)\<rparr>"

definition Done :: "(nat \<Rightarrow> bool) \<Rightarrow> string \<Rightarrow> spool \<Rightarrow> spool_error option \<times> spool" where
  "Done flt name s =
     (let (st, s) = stat flt name s;
          p = (if st = Absent then name @ activeExt else name);
          (fi, s) = stat flt p s;
          (ok, s) = remove_file flt p s
      in if \<not> ok then (Some (ErrIO ''remove''), s)
         else
           let s = (case fi of Present c \<Rightarrow> removeStats (int (length c)) s | _ \<Rightarrow> s);
               (ok, s) = ok_call flt s
           in (if ok then None else Some (ErrIO ''sync''), s))"

definition Quarantine :: "(nat \<Rightarrow> bool) \<Rightarrow> string \<Rightarrow> spool \<Rightarrow> spool_error option \<times> spool" where
  "Quarantine flt name s =
     (let (st, s) = stat flt name s;
          src = (if st = Absent then name @ activeExt else name);
          (ok, s) = ok_call flt s
      in if \<not> ok then (Some (ErrIO ''mkdir''), s)
         else
           let dst = TrimSuffix src activeExt;
               (bad, s) = sys flt s
           in if bad then (Some (ErrIO ''stat''), s)
              else if map_of (sp_quar s) dst \<noteq> None then (Some (ErrIO ''quarantine target already exists''), s)
              else
                let (bad, s) = sys flt s in
                if bad then (Some (ErrIO ''rename''), s)
                else case map_of (sp_dir s) src of
                  None \<Rightarrow> (Some (ErrIO ''rename''), s)
                | Some c \<Rightarrow>
                    let s = s\<lparr>sp_dir := AList.delete src (sp_dir s), sp_quar := AList.update dst c (sp_quar s)\<rparr>;
                        s = quarantineStats s;
                        (ok, s) = ok_call flt s
                    in if \<not> ok then (Some (ErrIO ''sync''), s)
                       else let (ok, s) = ok_call flt s in (if ok then None else Some (ErrIO ''sync''), s))"

definition Stats :: "spool \<Rightarrow> int \<times> int \<times> bool" where
  "Stats s = (sp_files s, sp_bytes s, sp_maxBytes s > 0 \<and> sp_bytes s \<ge> sp_maxBytes s)"

definition MarkFull :: "spool \<Rightarrow> bool \<times> spool" where
  "MarkFull s = (\<not> sp_full s, s\<lparr>sp_full := True\<rparr>)"

definition DedupToken :: "string \<Rightarrow> spool \<Rightarrow> string" where
  "DedupToken name s = (if name = [] then [] else sp_id s @ CHR '':'' # name)"

section \<open>Start\<close>

definition valid_id :: "string \<Rightarrow> bool" where
  "valid_id i \<longleftrightarrow> length i = 32 \<and> list_all (\<lambda>c. hex_value c \<noteq> None) i"

text \<open>\<open>loadOrCreateID\<close>; \<open>raw\<close> are the sixteen random bytes.\<close>

definition loadOrCreateID :: "(nat \<Rightarrow> bool) \<Rightarrow> bytes \<Rightarrow> spool \<Rightarrow> (spool_error + string) \<times> spool" where
  "loadOrCreateID flt raw s =
     (case stat flt idFile s of
        (StatFailed, s) \<Rightarrow> (Inl (ErrIO ''read identity''), s)
      | (Present b, s) \<Rightarrow>
          let i = str_of_bytes (trim_space b)
          in (if valid_id i then Inr i else Inl (ErrIO ''not a 128-bit hex identity''), s)
      | (Absent, s) \<Rightarrow>
          let (ok, s) = ok_call flt s in
          if \<not> ok then (Inl (ErrIO ''rand''), s)
          else let i = hex_bytes raw; tmp = idFile @ tmpExt; (ok, s) = write_file flt tmp [] s in
          if \<not> ok then (Inl (ErrIO ''create''), s)
          else let (ok, s) = write_file flt tmp (bytes_of_str (i @ [char_of (10 :: nat)])) s in
          if \<not> ok then abort flt tmp ''write'' s
          else let (ok, s) = ok_call flt s in
          if \<not> ok then abort flt tmp ''sync'' s
          else let (ok, s) = ok_call flt s in
          if \<not> ok then abort flt tmp ''close'' s
          else let (ok, s) = rename_file flt tmp idFile s in
          if \<not> ok then abort flt tmp ''rename'' s
          else let (ok, s) = ok_call flt s in
          (if ok then Inr i else Inl (ErrIO ''sync''), s))"

text \<open>Counting a replayable file, and the loop over the entries of the directory.\<close>

definition count_file :: "(nat \<Rightarrow> bool) \<Rightarrow> string \<Rightarrow> spool \<Rightarrow> spool" where
  "count_file flt n s =
     (case stat flt n s of
        (Present c, s) \<Rightarrow> s\<lparr>sp_bytes := sp_bytes s + int (length c), sp_files := sp_files s + 1,
                            sp_seq := max (sp_seq s) (seqOf n)\<rparr>
      | (_, s) \<Rightarrow> s)"

fun adopt_entries :: "(nat \<Rightarrow> bool) \<Rightarrow> string list \<Rightarrow> bool \<Rightarrow> spool \<Rightarrow> (spool_error + bool) \<times> spool" where
  "adopt_entries flt [] adopted s = (Inr adopted, s)"
| "adopt_entries flt (n # ns) adopted s =
     (if HasSuffix n tmpExt then adopt_entries flt ns adopted (snd (remove_file flt n s))
      else if HasSuffix n (fileExt @ activeExt) then
        let ready = TrimSuffix n activeExt in
        case stat flt ready s of
          (Present _, s) \<Rightarrow> (Inl (ErrIO ''spool contains both active and ready copies''), s)
        | (StatFailed, s) \<Rightarrow> (Inl (ErrIO ''spool inspect adopted target''), s)
        | (Absent, s) \<Rightarrow>
            let (ok, s) = rename_file flt n ready s in
            if \<not> ok then (Inl (ErrIO ''spool adopt''), s)
            else adopt_entries flt ns True (count_file flt ready s)
      else if \<not> HasSuffix n fileExt then adopt_entries flt ns adopted s
      else adopt_entries flt ns adopted (count_file flt n s))"

fun count_quarantine :: "(nat \<Rightarrow> bool) \<Rightarrow> dir \<Rightarrow> spool \<Rightarrow> spool_error option \<times> spool" where
  "count_quarantine flt [] s = (None, s)"
| "count_quarantine flt ((n, c) # es) s =
     (if \<not> HasSuffix n fileExt then count_quarantine flt es s
      else let (bad, s) = sys flt s in
      if bad then (Some (ErrIO ''spool stat quarantine''), s)
      else count_quarantine flt es (s\<lparr>sp_bytes := sp_bytes s + int (length c), sp_seq := max (sp_seq s) (seqOf n)\<rparr>))"

definition read_quarantine :: "(nat \<Rightarrow> bool) \<Rightarrow> spool \<Rightarrow> spool_error option \<times> spool" where
  "read_quarantine flt s =
     (if sp_quar s = [] then (None, s)
      else let (ok, s) = ok_call flt s in
      if \<not> ok then (Some (ErrIO ''spool read quarantine''), s) else count_quarantine flt (sp_quar s) s)"

text \<open>
  \<open>New\<close> on a directory with the files \<open>d\<close> and the quarantined files \<open>q\<close>; \<open>calls\<close> is the number
  of system calls made before.  The entries come in the order of \<open>d\<close>; the subdirectory
  \<open>quarantine\<close> comes last, since its name sorts after the names of batches, and exists when
  \<open>q\<close> is not empty.
\<close>

definition New_spool ::
  "(nat \<Rightarrow> bool) \<Rightarrow> string \<Rightarrow> int \<Rightarrow> bytes \<Rightarrow> dir \<Rightarrow> dir \<Rightarrow> nat \<Rightarrow> spool_error option \<times> spool" where
  "New_spool flt dirName maxBytes raw d q calls =
     (let s = \<lparr>sp_dir = d, sp_quar = q, sp_maxBytes = maxBytes, sp_id = [], sp_seq = 0, sp_bytes = 0,
               sp_files = 0, sp_full = False, sp_calls = calls\<rparr>
      in if trim_space (bytes_of_str dirName) = [] then (Some (ErrIO ''spool dir not set''), s)
         else let (ok, s) = ok_call flt s in
         if \<not> ok then (Some (ErrIO ''spool mkdir''), s)
         else case loadOrCreateID flt raw s of
           (Inl e, s) \<Rightarrow> (Some e, s)
         | (Inr i, s) \<Rightarrow>
             let s = s\<lparr>sp_id := i\<rparr>; (ok, s) = ok_call flt s in
             if \<not> ok then (Some (ErrIO ''spool read''), s)
             else case adopt_entries flt (map fst (sp_dir s)) False s of
               (Inl e, s) \<Rightarrow> (Some e, s)
             | (Inr adopted, s) \<Rightarrow>
                 (case read_quarantine flt s of
                    (Some e, s) \<Rightarrow> (Some e, s)
                  | (None, s) \<Rightarrow>
                      if \<not> adopted then (None, s)
                      else let (ok, s) = ok_call flt s in
                      (if ok then None else Some (ErrIO ''spool sync adopted entries''), s)))"

section \<open>The format\<close>

lemma walHeader_length [simp]: "length walHeader = 8"
  by (simp add: walHeader_def)

lemma decode_encode_batch:
  assumes "encodeBatch gobEncode sha b = Some f"
    and "\<And>g. gobEncode b = Some g \<Longrightarrow> gobDecode g = Inr b \<and> g \<noteq> []"
    and "\<And>x. length (sha x) = 32"
  shows "decodeBatch gobDecode sha f = Inr b"
proof -
  obtain g where g: "gobEncode b = Some g" "f = walHeader @ g @ sha g"
    using assms(1) by (auto simp: encodeBatch_def split: option.splits)
  have "gobDecode g = Inr b" "g \<noteq> []" using assms(2) g(1) by auto
  with g(2) assms(3) [of g] show ?thesis by (auto simp: decodeBatch_def Let_def)
qed

lemma decode_batch_checked:
  assumes "decodeBatch gobDecode sha f = Inr b" and "take 8 f = walHeader"
  shows "\<exists>g. f = walHeader @ g @ sha g \<and> gobDecode g = Inr b"
proof -
  let ?n = "nat (int (length f) - 8 - 32)"
  have len: "8 \<le> length f"
    using arg_cong [OF assms(2), of length] by simp
  with assms have pos: "\<not> int (length f) - 8 - 32 < 1" and dec: "gobDecode (take ?n (drop 8 f)) = Inr b"
    and sum: "sha (take ?n (drop 8 f)) = drop (8 + ?n) f"
    by (auto simp: decodeBatch_def Let_def split: if_splits sum.splits)
  have "drop 8 f = take ?n (drop 8 f) @ drop ?n (drop 8 f)" by (rule append_take_drop_id [symmetric])
  also have "drop ?n (drop 8 f) = sha (take ?n (drop 8 f))" unfolding sum drop_drop by (simp only: add.commute)
  finally have "f = walHeader @ take ?n (drop 8 f) @ sha (take ?n (drop 8 f))"
    using append_take_drop_id [of 8 f] assms(2) by simp
  with dec show ?thesis by (intro exI conjI)
qed

section \<open>Names\<close>

lemma dec_value_append: "dec_value (a @ b) = foldl (\<lambda>v c. v * 10 + digit_value c) (dec_value a) b"
  by (simp add: dec_value_def)

lemma dec_value_zeros [simp]: "dec_value (replicate k CHR ''0'' @ s) = dec_value s"
  by (induction k) (simp_all add: dec_value_def digit_value_def)

lemma pad20_length: "n < 10 ^ 20 \<Longrightarrow> length (pad20 n) = 20"
  using dec_string_length [of n 19] by (simp add: pad20_def)

lemma u64_digits: "unat (q :: u64) < 10 ^ 20"
proof -
  have "unat q < 2 ^ LENGTH(64)" by (rule unsigned_less)
  also have "(2 :: nat) ^ LENGTH(64) \<le> 10 ^ 20" by simp
  finally show ?thesis .
qed

lemma pad20_digits: "list_all is_digit (pad20 n)"
  using dec_string_digits [of n] by (auto simp: pad20_def list_all_iff is_digit_def)

lemma seqOf_batch_name [simp]: "seqOf (batch_name q) = q"
proof -
  have len: "length (pad20 (unat q)) = 20" by (rule pad20_length [OF u64_digits])
  then have take: "takeWhile is_digit (take 20 (batch_name q)) = pad20 (unat q)"
    using pad20_digits [of "unat q"] by (simp add: batch_name_def list_all_iff)
  have "pad20 (unat q) \<noteq> []" using len by auto
  moreover have "dec_value (pad20 (unat q)) = unat q" by (simp add: pad20_def)
  moreover have "unat q < 2 ^ 64"
  proof -
    have "unat q < 2 ^ LENGTH(64)" by (rule unsigned_less)
    then show ?thesis by simp
  qed
  moreover have "take (length fileExt) (drop (length (pad20 (unat q))) (batch_name q)) = fileExt"
    by (simp add: batch_name_def)
  ultimately show ?thesis
    by (simp add: seqOf_def take Let_def not_le)
qed

lemma batch_name_eq [simp]: "batch_name p = batch_name q \<longleftrightarrow> p = q"
  by (metis seqOf_batch_name)

lemmas batch_name_inj = batch_name_eq [THEN iffD1]

section \<open>Which batches an operation keeps\<close>

text \<open>A stored batch: under its own name, as an active file, or in quarantine.\<close>

definition held :: "spool \<Rightarrow> string \<Rightarrow> bytes \<Rightarrow> bool" where
  "held s n c \<longleftrightarrow> HasSuffix n fileExt \<and>
     (map_of (sp_dir s) n = Some c \<or> map_of (sp_dir s) (n @ activeExt) = Some c \<or> map_of (sp_quar s) n = Some c)"

text \<open>Everything but the files named in \<open>X\<close> is as before.\<close>

definition same_but :: "string set \<Rightarrow> spool \<Rightarrow> spool \<Rightarrow> bool" where
  "same_but X s s' \<longleftrightarrow> (\<forall>n. n \<notin> X \<longrightarrow> map_of (sp_dir s') n = map_of (sp_dir s) n)
     \<and> sp_quar s' = sp_quar s \<and> sp_seq s' = sp_seq s \<and> sp_id s' = sp_id s \<and> sp_maxBytes s' = sp_maxBytes s"

lemma same_but_trans: "same_but X s s' \<Longrightarrow> same_but X s' s'' \<Longrightarrow> same_but X s s''"
  by (simp add: same_but_def)

lemma same_but_mono: "same_but X s s' \<Longrightarrow> X \<subseteq> Y \<Longrightarrow> same_but Y s s'"
  by (auto simp: same_but_def)

lemma sys_same: "sys flt s = (bad, s') \<Longrightarrow> same_but X s s' \<and> sp_dir s' = sp_dir s"
  by (auto simp: sys_def same_but_def)

lemma ok_call_same: "ok_call flt s = (ok, s') \<Longrightarrow> same_but X s s' \<and> sp_dir s' = sp_dir s"
  by (auto simp: ok_call_def sys_def same_but_def Let_def)

lemma stat_same: "stat flt n s = (r, s') \<Longrightarrow> same_but X s s' \<and> sp_dir s' = sp_dir s
    \<and> (r = Absent \<longrightarrow> map_of (sp_dir s) n = None) \<and> (\<forall>c. r = Present c \<longrightarrow> map_of (sp_dir s) n = Some c)"
  by (auto simp: stat_def sys_def same_but_def Let_def split: if_splits option.splits)

lemma write_file_effect: "write_file flt n c s = (ok, s') \<Longrightarrow>
    same_but {n} s s' \<and> (ok \<longrightarrow> map_of (sp_dir s') n = Some c)"
  by (auto simp: write_file_def sys_def same_but_def Let_def update_conv' split: if_splits)

lemma remove_file_effect: "remove_file flt n s = (ok, s') \<Longrightarrow>
    same_but {n} s s' \<and> (ok \<longrightarrow> map_of (sp_dir s') n = None)"
  by (auto simp: remove_file_def sys_def same_but_def Let_def delete_conv' split: if_splits)

lemma rename_file_effect:
  assumes "rename_file flt a b s = (ok, s')" and "a \<noteq> b"
  shows "same_but {a, b} s s' \<and> (\<not> ok \<longrightarrow> sp_dir s' = sp_dir s)
    \<and> (ok \<longrightarrow> map_of (sp_dir s) a \<noteq> None \<and> map_of (sp_dir s') b = map_of (sp_dir s) a \<and> map_of (sp_dir s') a = None)"
  using assms
  by (auto simp: rename_file_def sys_def same_but_def Let_def update_conv' delete_conv' split: if_splits option.splits)

lemma abort_effect: "abort flt n msg s = (r, s') \<Longrightarrow> same_but {n} s s' \<and> (\<exists>e. r = Inl e)"
  using remove_file_effect [of flt n s] by (cases "remove_file flt n s") (auto simp: abort_def)

lemma writeActive_effect:
  fixes t a
  defines "X \<equiv> {t, a}"
  assumes "writeActive flt gobEncode sha b t a s = (r, s')" and "t \<noteq> a"
  shows "same_but X s s' \<and> (\<forall>k. r = Inr k \<longrightarrow>
    (\<exists>c. encodeBatch gobEncode sha b = Some c \<and> map_of (sp_dir s') a = Some c \<and> k = length c))"
proof -
  obtain ok1 s1 where 1: "write_file flt t [] s = (ok1, s1)" by (meson surj_pair)
  have c1: "same_but X s s1" using write_file_effect [OF 1] by (auto simp: X_def intro: same_but_mono)
  have ab: "same_but X s s' \<and> (\<exists>e. r = Inl e)" if "same_but X s u" "n \<in> X" "abort flt n m u = (r, s')" for n m u
    using that abort_effect [OF that(3)] same_but_mono [of "{n}" u s' X] by (auto intro: same_but_trans)
  show ?thesis
  proof (cases "encodeBatch gobEncode sha b")
    case None
    then show ?thesis
      using assms(2) 1 c1 ab [OF c1, of t] by (cases ok1) (auto simp: writeActive_def X_def)
  next
    case (Some c)
    obtain ok2 s2 where 2: "write_file flt t c s1 = (ok2, s2)" by (meson surj_pair)
    obtain ok3 s3 where 3: "ok_call flt s2 = (ok3, s3)" by (meson surj_pair)
    obtain ok4 s4 where 4: "ok_call flt s3 = (ok4, s4)" by (meson surj_pair)
    obtain ok5 s5 where 5: "ok_call flt s4 = (ok5, s5)" by (meson surj_pair)
    obtain ok6 s6 where 6: "rename_file flt t a s5 = (ok6, s6)" by (meson surj_pair)
    obtain ok7 s7 where 7: "ok_call flt s6 = (ok7, s7)" by (meson surj_pair)
    have "same_but X s1 s2" using write_file_effect [OF 2] by (auto simp: X_def intro: same_but_mono)
    then have c2: "same_but X s s2" using c1 same_but_trans by blast
    have c3: "same_but X s s3" using ok_call_same [OF 3, of X] c2 same_but_trans by blast
    have c4: "same_but X s s4" using ok_call_same [OF 4, of X] c3 same_but_trans by blast
    have c5: "same_but X s s5" using ok_call_same [OF 5, of X] c4 same_but_trans by blast
    have c6: "same_but X s s6" using rename_file_effect [OF 6 assms(3)] c5 same_but_trans unfolding X_def by blast
    have c7: "same_but X s s7" using ok_call_same [OF 7, of X] c6 same_but_trans by blast
    have put: "map_of (sp_dir s7) a = Some c" if "ok2" "ok6"
      using that write_file_effect [OF 2] ok_call_same [OF 3] ok_call_same [OF 4] ok_call_same [OF 5]
        rename_file_effect [OF 6 assms(3)] ok_call_same [OF 7] by auto
    have X: "t \<in> X" "a \<in> X" by (auto simp: X_def)
    show ?thesis
    proof (cases "ok1 \<and> ok2 \<and> ok3 \<and> ok4 \<and> ok5 \<and> ok6 \<and> ok7")
      case True
      then have "(r, s') = (Inr (length c), s7)"
        using assms(2) Some 1 2 3 4 5 6 7 by (simp add: writeActive_def)
      with True put c7 Some show ?thesis by simp
    next
      case False
      then consider "\<not> ok1" | "ok1" "\<not> ok2" | "ok1" "ok2" "\<not> ok3" | "ok1" "ok2" "ok3" "\<not> ok4"
        | "ok1" "ok2" "ok3" "ok4" "\<not> ok5" | "ok1" "ok2" "ok3" "ok4" "ok5" "\<not> ok6"
        | "ok1" "ok2" "ok3" "ok4" "ok5" "ok6" "\<not> ok7" by blast
      then show ?thesis
      proof cases
        case 1 with assms(2) \<open>write_file flt t [] s = (ok1, s1)\<close> c1 show ?thesis by (auto simp: writeActive_def)
      qed (use assms(2) Some 1 2 3 4 5 6 7 ab [OF c2 X(1)] ab [OF c3 X(1)] ab [OF c4 X(1)] ab [OF c5 X(1)]
          ab [OF c6 X(1)] ab [OF c7 X(2)] in \<open>fastforce simp: writeActive_def\<close>)+
    qed
  qed
qed

lemma Begin_effect:
  assumes "Begin flt gobEncode sha b s = (r, s')"
  shows "(b = [] \<and> r = Inr [] \<and> s' = s) \<or> (b \<noteq> [] \<and> r = Inl ErrFull \<and> s' = s) \<or>
    (let nm = batch_name (sp_seq s + 1) in
     b \<noteq> [] \<and> same_but {nm @ tmpExt, nm @ activeExt} (s\<lparr>sp_seq := sp_seq s + 1\<rparr>) s' \<and>
     (\<forall>n. r = Inr n \<longrightarrow> n = nm \<and> (\<exists>c. encodeBatch gobEncode sha b = Some c \<and> map_of (sp_dir s') (nm @ activeExt) = Some c)))"
proof (cases "b = [] \<or> (sp_maxBytes s > 0 \<and> sp_bytes s \<ge> sp_maxBytes s)")
  case True
  with assms show ?thesis by (cases "b = []") (simp_all add: Begin_def)
next
  case False
  let ?nm = "batch_name (sp_seq s + 1)" and ?s0 = "s\<lparr>sp_seq := sp_seq s + 1\<rparr>"
  obtain r1 s1 where w: "writeActive flt gobEncode sha b (?nm @ tmpExt) (?nm @ activeExt) ?s0 = (r1, s1)"
    by (meson surj_pair)
  have "?nm @ tmpExt \<noteq> ?nm @ activeExt" by (simp add: spool_exts)
  note eff = writeActive_effect [OF w this]
  have upd: "same_but X ?s0 (s1\<lparr>sp_bytes := x, sp_files := y, sp_full := z\<rparr>) = same_but X ?s0 s1" for X x y z
    by (simp add: same_but_def)
  from assms False w
  have "(r, s') = (case r1 of Inl e \<Rightarrow> (Inl e, s1)
      | Inr n \<Rightarrow> (Inr ?nm, s1\<lparr>sp_bytes := sp_bytes s1 + int n, sp_files := sp_files s1 + 1, sp_full := False\<rparr>))"
    by (auto simp: Begin_def split: sum.splits)
  with eff upd False show ?thesis by (auto simp: Let_def split: sum.splits)
qed

text \<open>
  The invariant: no batch is stored both active and ready, and the names of the next \<open>k\<close>
  sequence numbers, and of all later ones, are unused.
\<close>

definition spool_inv :: "nat \<Rightarrow> spool \<Rightarrow> bool" where
  "spool_inv k s \<longleftrightarrow> unat (sp_seq s) + k < 2 ^ 64
     \<and> (\<forall>q c. sp_seq s < q \<longrightarrow> \<not> held s (batch_name q) c)
     \<and> (\<forall>n. HasSuffix n fileExt \<longrightarrow> map_of (sp_dir s) n = None \<or> map_of (sp_dir s) (n @ activeExt) = None)"

lemma HasSuffix_append [simp]: "HasSuffix (a @ suf) suf"
  by (simp add: HasSuffix_def)

lemma HasSuffix_iff: "HasSuffix s suf \<longleftrightarrow> (\<exists>a. s = a @ suf)"
  by (auto simp: HasSuffix_def) (metis append_take_drop_id)

lemma batch_name_suffix [simp]: "HasSuffix (batch_name q) fileExt" "batch_name q \<noteq> []"
  by (simp_all add: batch_name_def spool_exts)

lemma spool_suffix_last: "HasSuffix n fileExt \<Longrightarrow> last n = CHR ''l''"
  by (auto simp: HasSuffix_iff spool_exts)

lemma ext_neq [simp]:
  assumes "HasSuffix n fileExt"
  shows "n \<noteq> m @ tmpExt" "n \<noteq> m @ activeExt" "n @ activeExt \<noteq> m @ tmpExt"
proof -
  show "n \<noteq> m @ tmpExt" "n \<noteq> m @ activeExt"
    using spool_suffix_last [OF assms] by (auto simp: spool_exts)
  have "last (n @ activeExt) = CHR ''e''" "last (m @ tmpExt) = CHR ''p''" by (simp_all add: spool_exts)
  then show "n @ activeExt \<noteq> m @ tmpExt" by auto
qed

lemma ext_suffix [simp]: "\<not> HasSuffix (n @ activeExt) fileExt" "\<not> HasSuffix (n @ tmpExt) fileExt"
  using ext_neq by blast+

lemma held_same_but:
  assumes "same_but X s s'" and "n \<notin> X" and "n @ activeExt \<notin> X"
  shows "held s' n c = held s n c"
  using assms by (auto simp: held_def same_but_def)

lemma same_but_inv:
  assumes "same_but {} s s'" and "spool_inv k s"
  shows "spool_inv k s'"
  using assms held_same_but [OF assms(1)] by (auto simp: spool_inv_def same_but_def)

lemma seq_next:
  assumes "unat (q :: u64) + Suc k < 2 ^ 64"
  shows "q < q + 1" "unat (q + 1) = Suc (unat q)"
proof -
  show "unat (q + 1) = Suc (unat q)"
    using assms by (simp add: unat_word_ariths)
  then show "q < q + 1" by (simp add: word_less_nat_alt)
qed

lemma Begin_held:
  assumes "spool_inv (Suc k) s" and "Begin flt gobEncode sha b s = (r, s')" and "held s n c"
  shows "held s' n c"
proof -
  let ?nm = "batch_name (sp_seq s + 1)"
  have "?nm \<noteq> n" using assms(1,3) seq_next(1) [of "sp_seq s" k] by (auto simp: spool_inv_def)
  moreover have "HasSuffix n fileExt" using assms(3) by (simp add: held_def)
  ultimately have X: "n \<notin> {?nm @ tmpExt, ?nm @ activeExt}" "n @ activeExt \<notin> {?nm @ tmpExt, ?nm @ activeExt}" by auto
  have h0: "held (s\<lparr>sp_seq := x\<rparr>) n c = held s n c" for x by (simp add: held_def)
  from Begin_effect [OF assms(2)] assms(3) held_same_but [OF _ X, of "s\<lparr>sp_seq := sp_seq s + 1\<rparr>" s' c] h0
  show ?thesis by (auto simp: Let_def)
qed

lemma Begin_inv:
  assumes "spool_inv (Suc k) s" and "Begin flt gobEncode sha b s = (r, s')"
  shows "spool_inv k s'"
proof -
  let ?nm = "batch_name (sp_seq s + 1)" and ?s0 = "s\<lparr>sp_seq := sp_seq s + 1\<rparr>"
  note nxt = seq_next [of "sp_seq s" k]
  from Begin_effect [OF assms(2)] consider "s' = s"
    | "same_but {?nm @ tmpExt, ?nm @ activeExt} ?s0 s'" by (auto simp: Let_def)
  then show ?thesis
  proof cases
    case 1
    with assms(1) show ?thesis by (auto simp: spool_inv_def)
  next
    case 2
    have seq: "sp_seq s' = sp_seq s + 1" using 2 by (simp add: same_but_def)
    have "\<not> held s' (batch_name q) c" if "sp_seq s + 1 < q" for q c
    proof -
      have "batch_name q \<noteq> ?nm" using that batch_name_inj by auto
      then have "held s' (batch_name q) c = held ?s0 (batch_name q) c" by (intro held_same_but [OF 2]) auto
      moreover have "sp_seq s < q" using that nxt(1) assms(1) by (auto simp: spool_inv_def)
      ultimately show ?thesis using assms(1) by (auto simp: spool_inv_def held_def)
    qed
    moreover have "map_of (sp_dir s') n = None \<or> map_of (sp_dir s') (n @ activeExt) = None" if n: "HasSuffix n fileExt" for n
    proof (cases "n = ?nm")
      case True
      have "\<not> held s ?nm c" for c using assms(1) nxt(1) by (auto simp: spool_inv_def)
      then have "map_of (sp_dir s) ?nm = None" by (auto simp: held_def) (metis not_None_eq)
      moreover have "map_of (sp_dir s') ?nm = map_of (sp_dir s) ?nm"
        using 2 by (simp add: same_but_def spool_exts)
      ultimately show ?thesis using True by simp
    next
      case False
      then have "map_of (sp_dir s') n = map_of (sp_dir s) n" "map_of (sp_dir s') (n @ activeExt) = map_of (sp_dir s) (n @ activeExt)"
        using 2 n by (auto simp: same_but_def)
      then show ?thesis using assms(1) n by (auto simp: spool_inv_def)
    qed
    ultimately show ?thesis using seq nxt assms(1) by (auto simp: spool_inv_def)
  qed
qed

lemma Begin_new:
  assumes "Begin flt gobEncode sha b s = (Inr n, s')" and "n \<noteq> []"
  shows "\<exists>c. encodeBatch gobEncode sha b = Some c \<and> held s' n c" and "n = batch_name (sp_seq s + 1)"
  using Begin_effect [OF assms(1)] assms(2) by (auto simp: Let_def held_def)

text \<open>Renaming an active file to its ready name, when that name is free.\<close>

definition no_twin :: "spool \<Rightarrow> string \<Rightarrow> bool" where
  "no_twin s n \<longleftrightarrow> map_of (sp_dir s) n = None \<or> map_of (sp_dir s) (n @ activeExt) = None"

lemma rename_held:
  assumes "rename_file flt (name @ activeExt) name s = (ok, s')" and "no_twin s name" and "HasSuffix name fileExt"
  shows "held s' n c = held s n c" "HasSuffix m fileExt \<Longrightarrow> no_twin s m \<Longrightarrow> no_twin s' m"
proof -
  have ne: "name @ activeExt \<noteq> name" by (simp add: spool_exts)
  note eff = rename_file_effect [OF assms(1) ne]
  have other: "map_of (sp_dir s') m = map_of (sp_dir s) m" if "m \<noteq> name" "m \<noteq> name @ activeExt" for m
    using eff that by (auto simp: same_but_def)
  have quar: "sp_quar s' = sp_quar s" using eff by (auto simp: same_but_def)
  show "held s' n c = held s n c"
  proof (cases "HasSuffix n fileExt")
    case n: True
    have "n \<noteq> name @ activeExt" using n by simp
    show ?thesis
    proof (cases "n = name")
      case True
      then show ?thesis using eff quar assms(2) by (cases ok) (auto simp: held_def no_twin_def)
    next
      case False
      then have "n @ activeExt \<noteq> name" "n @ activeExt \<noteq> name @ activeExt" using assms(3) by auto
      with False \<open>n \<noteq> name @ activeExt\<close> other quar show ?thesis by (simp add: held_def)
    qed
  qed (simp add: held_def)
  show "no_twin s' m" if m: "HasSuffix m fileExt" "no_twin s m"
  proof (cases "m = name")
    case True
    then show ?thesis using eff m(2) by (cases ok) (auto simp: no_twin_def)
  next
    case False
    then have "m @ activeExt \<noteq> name" "m \<noteq> name @ activeExt" using m assms(3) by auto
    with False other m(2) show ?thesis by (simp add: no_twin_def)
  qed
qed

lemma spool_inv_twin: "spool_inv k s \<Longrightarrow> HasSuffix n fileExt \<Longrightarrow> no_twin s n"
  by (auto simp: spool_inv_def no_twin_def)

lemma rename_ready:
  assumes "rename_file flt (name @ activeExt) name s = (ok, s')" and "spool_inv k s" and "HasSuffix name fileExt"
  shows "held s' n c = held s n c" "spool_inv k s'"
proof -
  note rn = rename_held [OF assms(1) spool_inv_twin [OF assms(2,3)] assms(3)]
  have "name @ activeExt \<noteq> name" by (simp add: spool_exts)
  from rename_file_effect [OF assms(1) this] have "sp_seq s' = sp_seq s" by (simp add: same_but_def)
  with rn spool_inv_twin [OF assms(2)] assms(2) show "spool_inv k s'"
    by (simp add: spool_inv_def no_twin_def)
qed (rule rename_held [OF assms(1) spool_inv_twin [OF assms(2,3)] assms(3)])

lemma Ready_keeps:
  assumes "Ready flt name s = (r, s')" and "spool_inv k s" and "name \<noteq> [] \<Longrightarrow> HasSuffix name fileExt"
  shows "held s' n c = held s n c" "spool_inv k s'"
proof -
  have "(\<forall>n c. held s' n c = held s n c) \<and> spool_inv k s'"
  proof (cases "name = []")
    case True
    with assms show ?thesis by (simp add: Ready_def)
  next
    case False
    obtain st s1 where st: "stat flt name s = (st, s1)" by (meson surj_pair)
    have same: "same_but {} s s1" using stat_same [OF st] by blast
    then have h1: "held s1 n c = held s n c" "spool_inv k s1" for n c
      using held_same_but [OF same] same_but_inv [OF same assms(2)] by auto
    obtain ok s2 where rn: "rename_file flt (name @ activeExt) name s1 = (ok, s2)" by (meson surj_pair)
    note h2 = rename_ready [OF rn h1(2) assms(3) [OF False]]
    obtain ok' s3 where oc: "ok_call flt s2 = (ok', s3)" by (meson surj_pair)
    have same3: "same_but {} s2 s3" using ok_call_same [OF oc] by blast
    have h3: "held s3 n c = held s2 n c" "spool_inv k s3" for n c
      using held_same_but [OF same3] same_but_inv [OF same3 h2(2)] by auto
    show ?thesis
      using assms(1) False st rn oc h1 h2 h3 by (cases st; cases ok; cases ok') (auto simp: Ready_def)
  qed
  then show "held s' n c = held s n c" "spool_inv k s'" by auto
qed

lemma Done_keeps:
  assumes "Done flt name s = (r, s')" and "spool_inv k s" and "HasSuffix name fileExt"
  shows "n \<noteq> name \<Longrightarrow> held s' n c = held s n c" "spool_inv k s'"
proof -
  obtain st s1 where st: "stat flt name s = (st, s1)" by (meson surj_pair)
  define p where "p = (if st = Absent then name @ activeExt else name)"
  obtain fi s2 where fi: "stat flt p s1 = (fi, s2)" by (meson surj_pair)
  obtain ok s3 where rm: "remove_file flt p s2 = (ok, s3)" by (meson surj_pair)
  define s4 where "s4 = (case fi of Present c \<Rightarrow> removeStats (int (length c)) s3 | _ \<Rightarrow> s3)"
  obtain ok' s5 where oc: "ok_call flt s4 = (ok', s5)" by (meson surj_pair)
  have s': "s' = (if ok then s5 else s3)"
    using assms(1) st fi rm oc by (cases fi; cases ok) (auto simp: Done_def p_def s4_def)
  have "same_but {p} s2 s3" using remove_file_effect [OF rm] by simp
  moreover have "same_but {p} s s2" using stat_same [OF st, of "{p}"] stat_same [OF fi, of "{p}"] same_but_trans by blast
  moreover have "same_but {p} s3 s4" by (cases fi) (simp_all add: s4_def removeStats_def same_but_def)
  moreover have "same_but {p} s4 s5" using ok_call_same [OF oc] by blast
  ultimately have same: "same_but {p} s s'" unfolding s' using same_but_trans by (metis (full_types))
  have del: "map_of (sp_dir s') m = None \<or> map_of (sp_dir s') m = map_of (sp_dir s) m" for m
  proof -
    have "map_of (sp_dir s3) m = None \<or> map_of (sp_dir s3) m = map_of (sp_dir s) m"
      using rm stat_same [OF st] stat_same [OF fi]
      by (auto simp: remove_file_def sys_def Let_def delete_conv' split: if_splits)
    moreover have "sp_dir s' = sp_dir s3"
      unfolding s' using ok_call_same [OF oc] by (cases fi) (auto simp: s4_def removeStats_def)
    ultimately show ?thesis by simp
  qed
  show h: "held s' n c = held s n c" if "n \<noteq> name" for n c
  proof (cases "HasSuffix n fileExt")
    case True
    then show ?thesis using that assms(3) by (intro held_same_but [OF same]) (auto simp: p_def)
  qed (simp add: held_def)
  have nh: "\<not> held s' n c" if "\<not> held s n c" for n c
    using that del [of n] del [of "n @ activeExt"] same by (auto simp: held_def same_but_def)
  show "spool_inv k s'"
    using assms(2) nh del same unfolding spool_inv_def same_but_def by metis
qed

lemma TrimSuffix_active:
  "HasSuffix name fileExt \<Longrightarrow> TrimSuffix (name @ activeExt) activeExt = name \<and> TrimSuffix name activeExt = name"
proof -
  assume n: "HasSuffix name fileExt"
  then have "\<not> HasSuffix name activeExt" using ext_neq(2) by (auto simp: HasSuffix_iff)
  then show ?thesis by (simp add: TrimSuffix_def)
qed

lemma Quarantine_effect:
  assumes "Quarantine flt name s = (r, s')" and "HasSuffix name fileExt"
  shows "same_but {} s s' \<or>
    (\<exists>src x. src \<in> {name, name @ activeExt} \<and> map_of (sp_dir s) src = Some x \<and> map_of (sp_quar s) name = None
       \<and> sp_dir s' = AList.delete src (sp_dir s) \<and> sp_quar s' = AList.update name x (sp_quar s) \<and> sp_seq s' = sp_seq s)"
proof -
  obtain st s1 where st: "stat flt name s = (st, s1)" by (meson surj_pair)
  define src where "src = (if st = Absent then name @ activeExt else name)"
  have dst: "TrimSuffix src activeExt = name" using TrimSuffix_active [OF assms(2)] by (simp add: src_def)
  obtain ok s2 where mk: "ok_call flt s1 = (ok, s2)" by (meson surj_pair)
  obtain bad s3 where sq: "sys flt s2 = (bad, s3)" by (meson surj_pair)
  obtain bad' s4 where rn: "sys flt s3 = (bad', s4)" by (meson surj_pair)
  have d: "sp_dir s1 = sp_dir s" "sp_dir s2 = sp_dir s" "sp_dir s3 = sp_dir s" "sp_dir s4 = sp_dir s"
    using stat_same [OF st] ok_call_same [OF mk] sys_same [OF sq] sys_same [OF rn] by auto
  have same: "same_but {} s s1" "same_but {} s s2" "same_but {} s s3" "same_but {} s s4"
    using stat_same [OF st, of "{}"] ok_call_same [OF mk, of "{}"] sys_same [OF sq, of "{}"] sys_same [OF rn, of "{}"]
      same_but_trans by blast+
  show ?thesis
  proof (cases "ok \<and> \<not> bad \<and> map_of (sp_quar s) name = None \<and> \<not> bad' \<and> map_of (sp_dir s) src \<noteq> None")
    case False
    then have "s' \<in> {s1, s2, s3, s4}"
      using assms(1) st mk sq rn d same
      by (auto simp: Quarantine_def Let_def src_def [symmetric] dst same_but_def split: if_splits option.splits)
    with same show ?thesis by blast
  next
    case True
    then obtain x where x: "map_of (sp_dir s) src = Some x" by auto
    have "sp_dir s' = AList.delete src (sp_dir s)" "sp_quar s' = AList.update name x (sp_quar s)" "sp_seq s' = sp_seq s"
      using assms(1) st mk sq rn d same True x
      by (auto simp: Quarantine_def Let_def src_def [symmetric] dst same_but_def quarantineStats_def ok_call_def sys_def
          split: if_splits option.splits)
    moreover have "src \<in> {name, name @ activeExt}" by (simp add: src_def)
    ultimately show ?thesis using True x by blast
  qed
qed

lemma Quarantine_keeps:
  assumes "Quarantine flt name s = (r, s')" and "spool_inv k s" and "HasSuffix name fileExt"
  shows "held s' n c = held s n c" "spool_inv k s'"
proof -
  have held: "held s' n c = held s n c" for n c
  proof (cases "HasSuffix n fileExt")
    case True
    then show ?thesis
      using Quarantine_effect [OF assms(1,3)] assms(2,3) held_same_but [of "{}" s s' n c]
      by (cases "n = name") (auto simp: held_def delete_conv' update_conv' spool_inv_def split: if_splits)
  qed (simp add: held_def)
  then show "held s' n c = held s n c" .
  have "map_of (sp_dir s') m = None \<or> map_of (sp_dir s') m = map_of (sp_dir s) m" for m
    using Quarantine_effect [OF assms(1,3)] by (auto simp: same_but_def delete_conv')
  moreover have "sp_seq s' = sp_seq s" using Quarantine_effect [OF assms(1,3)] by (auto simp: same_but_def)
  ultimately show "spool_inv k s'" using assms(2) held unfolding spool_inv_def by metis
qed

lemma Save_keeps:
  assumes "Save flt gobEncode sha b s = (r, s')" and "spool_inv (Suc k) s"
  shows "held s n c \<Longrightarrow> held s' n c" "spool_inv k s'"
    and "r = None \<Longrightarrow> b \<noteq> [] \<Longrightarrow> \<exists>n c. encodeBatch gobEncode sha b = Some c \<and> held s' n c"
proof -
  obtain r1 s1 where b: "Begin flt gobEncode sha b s = (r1, s1)" by (meson surj_pair)
  note i1 = Begin_inv [OF assms(2) b]
  show "held s n c \<Longrightarrow> held s' n c" "spool_inv k s'"
    "r = None \<Longrightarrow> b \<noteq> [] \<Longrightarrow> \<exists>n c. encodeBatch gobEncode sha b = Some c \<and> held s' n c"
  proof -
    have key: "(\<forall>n c. held s' n c = held s1 n c) \<and> spool_inv k s' \<and> (r = None \<longrightarrow> (\<exists>nm. r1 = Inr nm))"
    proof (cases r1)
      case (Inl e)
      with assms(1) b i1 show ?thesis by (auto simp: Save_def)
    next
      case (Inr nm)
      have "HasSuffix nm fileExt" if "nm \<noteq> []" using Begin_new(2) [OF b [unfolded Inr] that] by simp
      with assms(1) b i1 Inr Ready_keeps [of flt nm s1 r s' k] show ?thesis
        by (cases "nm = []") (auto simp: Save_def)
    qed
    then show "held s n c \<Longrightarrow> held s' n c" "spool_inv k s'" using Begin_held [OF assms(2) b] by auto
    show "\<exists>n c. encodeBatch gobEncode sha b = Some c \<and> held s' n c" if "r = None" "b \<noteq> []"
    proof -
      obtain nm where nm: "r1 = Inr nm" using key \<open>r = None\<close> by auto
      have "nm \<noteq> []" using Begin_effect [OF b] nm that(2) by (auto simp: Let_def)
      with Begin_new(1) [OF b [unfolded nm]] key show ?thesis by blast
    qed
  qed
qed

section \<open>Restart\<close>

text \<open>Whatever fails during \<open>New\<close>, no stored batch is lost.\<close>

lemma HasSuffix_active: "HasSuffix n (fileExt @ activeExt) \<Longrightarrow> n = TrimSuffix n activeExt @ activeExt \<and> HasSuffix (TrimSuffix n activeExt) fileExt"
  by (auto simp: HasSuffix_iff [of n] TrimSuffix_def)

lemma held_dirs: "sp_dir s' = sp_dir s \<Longrightarrow> sp_quar s' = sp_quar s \<Longrightarrow> held s' n c = held s n c"
  by (simp add: held_def)

lemma count_file_held: "held (count_file flt m s) n c = held s n c"
  by (rule held_dirs) (auto simp: count_file_def stat_def sys_def Let_def split: option.splits)

lemma tmp_held:
  assumes "HasSuffix m tmpExt"
  shows "held (snd (remove_file flt m s)) n c = held s n c"
proof (cases "HasSuffix n fileExt")
  case True
  from assms have "n \<noteq> m" "n @ activeExt \<noteq> m" using True by (auto simp: HasSuffix_iff [of m])
  then show ?thesis
    using held_same_but [of "{m}"] remove_file_effect [of flt m s] by (cases "remove_file flt m s") auto
qed (simp add: held_def)

lemma adopt_entries_held:
  "adopt_entries flt ns adopted s = (r, s') \<Longrightarrow> held s' n c = held s n c"
proof (induction flt ns adopted s rule: adopt_entries.induct)
  case (2 flt m ns adopted s)
  let ?ready = "TrimSuffix m activeExt"
  obtain st s1 where st: "stat flt ?ready s = (st, s1)" by (meson surj_pair)
  obtain ok s2 where rn: "rename_file flt m ?ready s1 = (ok, s2)" by (meson surj_pair)
  have h1: "held s1 n c = held s n c" using stat_same [OF st] held_same_but [of "{}" s s1] by blast
  have h2: "held s2 n c = held s n c" if "HasSuffix m (fileExt @ activeExt)" "st = Absent"
  proof -
    note m = HasSuffix_active [OF that(1)]
    have "no_twin s1 ?ready" using stat_same [OF st] that(2) by (simp add: no_twin_def)
    with rename_held(1) [of flt ?ready s1 ok s2 n c] rn m h1 show ?thesis by simp
  qed
  from "2.prems" "2.IH" st rn h1 h2 show ?case
    by (auto simp: Let_def tmp_held count_file_held split: if_splits stat_result.splits)
qed simp

lemma count_quarantine_same:
  "count_quarantine flt es s = (r, s') \<Longrightarrow> sp_dir s' = sp_dir s \<and> sp_quar s' = sp_quar s \<and> sp_id s' = sp_id s
     \<and> sp_seq s \<le> sp_seq s' \<and> sp_calls s \<le> sp_calls s'
     \<and> (r = None \<longrightarrow> (\<forall>(n, c) \<in> set es. HasSuffix n fileExt \<longrightarrow> seqOf n \<le> sp_seq s'))"
proof (induction flt es s rule: count_quarantine.induct)
  case (2 flt n c es s)
  then show ?case
    by (fastforce simp: sys_def Let_def split: if_splits)
qed simp

lemma read_quarantine_same:
  assumes "read_quarantine flt s = (r, s')"
  shows "sp_dir s' = sp_dir s \<and> sp_quar s' = sp_quar s \<and> sp_id s' = sp_id s \<and> sp_seq s \<le> sp_seq s'
     \<and> (r = None \<longrightarrow> (\<forall>(n, c) \<in> set (sp_quar s). HasSuffix n fileExt \<longrightarrow> seqOf n \<le> sp_seq s'))"
proof -
  obtain ok s1 where oc: "ok_call flt s = (ok, s1)" by (meson surj_pair)
  have s1: "sp_dir s1 = sp_dir s" "sp_quar s1 = sp_quar s" "sp_id s1 = sp_id s" "sp_seq s1 = sp_seq s"
    using oc by (auto simp: ok_call_def sys_def)
  consider "sp_quar s = []" "s' = s" | e where "r = Some e" "s' = s1" | "count_quarantine flt (sp_quar s) s1 = (r, s')"
    using assms oc s1(2) by (cases ok) (auto simp: read_quarantine_def split: if_splits)
  then show ?thesis
    using s1 count_quarantine_same [of flt "sp_quar s" s1 r s'] by cases simp_all
qed

lemma read_quarantine_nofault:
  assumes "\<And>i. \<not> flt i"
  shows "\<exists>s'. read_quarantine flt s = (None, s')"
proof -
  have cq: "fst (count_quarantine flt es s) = None" for es s
    using assms by (induction es arbitrary: s) (auto simp: sys_def)
  obtain s1 where oc: "ok_call flt s = (True, s1)" using assms by (simp add: ok_call_def sys_def)
  have "fst (read_quarantine flt s) = None" using cq oc by (simp add: read_quarantine_def)
  then show ?thesis by (metis prod.collapse)
qed

lemma loadOrCreateID_same:
  assumes "loadOrCreateID flt raw s = (r, s')"
  shows "same_but {idFile, idFile @ tmpExt} s s'"
proof -
  let ?X = "{idFile, idFile @ tmpExt}" and ?t = "idFile @ tmpExt"
  obtain st s1 where st: "stat flt idFile s = (st, s1)" by (meson surj_pair)
  obtain ok2 s2 where 2: "ok_call flt s1 = (ok2, s2)" by (meson surj_pair)
  obtain ok3 s3 where 3: "write_file flt ?t [] s2 = (ok3, s3)" by (meson surj_pair)
  obtain ok4 s4 where 4: "write_file flt ?t (bytes_of_str (hex_bytes raw @ [char_of (10 :: nat)])) s3 = (ok4, s4)" by (meson surj_pair)
  obtain ok5 s5 where 5: "ok_call flt s4 = (ok5, s5)" by (meson surj_pair)
  obtain ok6 s6 where 6: "ok_call flt s5 = (ok6, s6)" by (meson surj_pair)
  obtain ok7 s7 where 7: "rename_file flt ?t idFile s6 = (ok7, s7)" by (meson surj_pair)
  obtain ok8 s8 where 8: "ok_call flt s7 = (ok8, s8)" by (meson surj_pair)
  have ne: "?t \<noteq> idFile" by (simp add: spool_exts)
  have c1: "same_but ?X s s1" using stat_same [OF st] by blast
  have c2: "same_but ?X s s2" using ok_call_same [OF 2, of ?X] c1 same_but_trans by blast
  have c3: "same_but ?X s s3"
    using write_file_effect [OF 3] c2 same_but_trans [of ?X s s2 s3] same_but_mono [of "{?t}" s2 s3 ?X] by auto
  have c4: "same_but ?X s s4"
    using write_file_effect [OF 4] c3 same_but_trans [of ?X s s3 s4] same_but_mono [of "{?t}" s3 s4 ?X] by auto
  have c5: "same_but ?X s s5" using ok_call_same [OF 5, of ?X] c4 same_but_trans by blast
  have c6: "same_but ?X s s6" using ok_call_same [OF 6, of ?X] c5 same_but_trans by blast
  have c7: "same_but ?X s s7"
    using rename_file_effect [OF 7 ne] c6 same_but_trans [of ?X s s6 s7] by (simp add: insert_commute)
  have c8: "same_but ?X s s8" using ok_call_same [OF 8, of ?X] c7 same_but_trans by blast
  have ab: "same_but ?X s s'" if "same_but ?X s u" "abort flt ?t m u = (r, s')" for m u
    using that abort_effect [OF that(2)] same_but_mono [of "{?t}" u s' ?X] same_but_trans [of ?X s u s'] by auto
  show ?thesis
    using assms st 2 3 4 5 6 7 8 c1 c2 c3 c4 c5 c6 c7 c8 ab
    by (auto simp: loadOrCreateID_def Let_def split: stat_result.splits if_splits)
qed

text \<open>A restart without faults on a directory where no batch is both active and ready.\<close>

definition entries_inv :: "string list \<Rightarrow> spool \<Rightarrow> bool" where
  "entries_inv ns s \<longleftrightarrow> distinct ns \<and> (\<forall>n \<in> set ns. map_of (sp_dir s) n \<noteq> None)
     \<and> (\<forall>m. HasSuffix m fileExt \<longrightarrow> no_twin s m
          \<and> (map_of (sp_dir s) (m @ activeExt) \<noteq> None \<longrightarrow> m @ activeExt \<in> set ns)
          \<and> (map_of (sp_dir s) m \<noteq> None \<longrightarrow> m \<in> set ns \<or> seqOf m \<le> sp_seq s))"

lemma count_file_nofault:
  assumes "\<And>i. \<not> flt i" and "map_of (sp_dir s) n = Some c"
  shows "sp_dir (count_file flt n s) = sp_dir s" "sp_quar (count_file flt n s) = sp_quar s"
    "sp_seq (count_file flt n s) = max (sp_seq s) (seqOf n)"
  using assms by (simp_all add: count_file_def stat_def sys_def)

lemma adopt_entries_nofault:
  assumes "\<And>i. \<not> flt i"
  shows "entries_inv ns s \<Longrightarrow>
    \<exists>adopted' s'. adopt_entries flt ns adopted s = (Inr adopted', s') \<and> entries_inv [] s' \<and> sp_seq s \<le> sp_seq s'
      \<and> sp_quar s' = sp_quar s \<and> sp_id s' = sp_id s"
proof (induction ns arbitrary: s adopted)
  case (Cons n ns)
  obtain c where c: "map_of (sp_dir s) n = Some c" using Cons.prems by (auto simp: entries_inv_def)
  consider "HasSuffix n tmpExt" | "\<not> HasSuffix n tmpExt" "HasSuffix n (fileExt @ activeExt)"
    | "\<not> HasSuffix n tmpExt" "\<not> HasSuffix n (fileExt @ activeExt)" "\<not> HasSuffix n fileExt"
    | "\<not> HasSuffix n tmpExt" "\<not> HasSuffix n (fileExt @ activeExt)" "HasSuffix n fileExt" by blast
  then show ?case
  proof cases
    case 1
    let ?s = "snd (remove_file flt n s)"
    have "m \<noteq> n \<and> m @ activeExt \<noteq> n" if "HasSuffix m fileExt" for m
      using 1 that by (auto simp: HasSuffix_iff [of n])
    moreover have "sp_dir ?s = AList.delete n (sp_dir s)" "sp_quar ?s = sp_quar s" "sp_seq ?s = sp_seq s" "sp_id ?s = sp_id s"
      using assms c by (simp_all add: remove_file_def sys_def)
    ultimately have "entries_inv ns ?s"
      using Cons.prems by (auto simp: entries_inv_def delete_conv' no_twin_def)
    from Cons.IH [OF this, of adopted] 1 \<open>sp_quar ?s = sp_quar s\<close> \<open>sp_seq ?s = sp_seq s\<close> \<open>sp_id ?s = sp_id s\<close>
    show ?thesis by simp
  next
    case 2
    let ?r = "TrimSuffix n activeExt"
    have n: "n = ?r @ activeExt" "HasSuffix ?r fileExt" using HasSuffix_active [OF 2(2)] by auto
    have "no_twin s ?r" using Cons.prems n(2) by (auto simp: entries_inv_def)
    then have free: "map_of (sp_dir s) ?r = None" using c n(1) by (simp add: no_twin_def)
    define s1 where "s1 = s\<lparr>sp_calls := Suc (sp_calls s)\<rparr>"
    define s2 where "s2 = s1\<lparr>sp_calls := Suc (sp_calls s1), sp_dir := AList.update ?r c (AList.delete n (sp_dir s))\<rparr>"
    have st: "stat flt ?r s = (Absent, s1)" using assms free by (simp add: stat_def sys_def s1_def)
    have rn: "rename_file flt n ?r s1 = (True, s2)"
      using assms c by (simp add: rename_file_def sys_def s1_def s2_def)
    have d2: "map_of (sp_dir s2) = (map_of (sp_dir s))(n := None, ?r \<mapsto> c)"
      by (simp add: s2_def update_conv' delete_conv')
    let ?s = "count_file flt ?r s2"
    have "map_of (sp_dir s2) ?r = Some c" by (simp add: d2)
    note cf = count_file_nofault [OF assms this]
    have s2: "sp_quar s2 = sp_quar s" "sp_seq s2 = sp_seq s" "sp_id s2 = sp_id s" by (simp_all add: s1_def s2_def)
    have id: "sp_id ?s = sp_id s" using s2(3) by (auto simp: count_file_def stat_def sys_def split: option.splits)
    have rns: "?r \<notin> set ns" using Cons.prems free by (auto simp: entries_inv_def)
    have rn_ne: "?r \<noteq> n" using n(1) by (metis append_Nil2 append_same_eq same_append_eq activeExt_def list.distinct(1))
    have "entries_inv ns ?s"
      unfolding entries_inv_def cf d2 no_twin_def s2
    proof (intro conjI ballI allI impI)
      show "distinct ns" using Cons.prems by (simp add: entries_inv_def)
      show "((map_of (sp_dir s))(n := None, ?r \<mapsto> c)) m \<noteq> None" if "m \<in> set ns" for m
        using that Cons.prems by (auto simp: entries_inv_def)
      fix m assume m: "HasSuffix m fileExt"
      have mn: "m \<noteq> n" using m n(1) by (metis ext_neq(2))
      have ma: "m @ activeExt \<noteq> ?r" using n(2) ext_suffix(1) by metis
      have inj: "m @ activeExt = n \<longleftrightarrow> m = ?r" using n(1) by (metis append_same_eq)
      note inv = Cons.prems [unfolded entries_inv_def no_twin_def] 
      show "((map_of (sp_dir s))(n := None, ?r \<mapsto> c)) m = None
          \<or> ((map_of (sp_dir s))(n := None, ?r \<mapsto> c)) (m @ activeExt) = None"
        using inv m mn ma inj by auto
      show "m @ activeExt \<in> set ns" if "((map_of (sp_dir s))(n := None, ?r \<mapsto> c)) (m @ activeExt) \<noteq> None"
        using that inv m ma inj by (auto split: if_splits)
      show "m \<in> set ns \<or> seqOf m \<le> max (sp_seq s) (seqOf ?r)" if "((map_of (sp_dir s))(n := None, ?r \<mapsto> c)) m \<noteq> None"
        using that inv m mn by (auto simp: le_max_iff_disj split: if_splits)
    qed
    from Cons.IH [OF this, of True] 2 st rn cf s2 id show ?thesis by auto
  next
    case 3
    have "m \<noteq> n \<and> m @ activeExt \<noteq> n" if "HasSuffix m fileExt" for m
      using 3 that by (auto simp: HasSuffix_iff)
    then have "entries_inv ns s" using Cons.prems by (auto simp: entries_inv_def)
    from Cons.IH [OF this] 3 show ?thesis by simp
  next
    case 4
    note cf = count_file_nofault [OF assms c]
    have id: "sp_id (count_file flt n s) = sp_id s" by (auto simp: count_file_def stat_def sys_def split: option.splits)
    have "entries_inv ns (count_file flt n s)"
      unfolding entries_inv_def no_twin_def cf
      using Cons.prems 4(2) by (auto simp: entries_inv_def no_twin_def le_max_iff_disj HasSuffix_iff)
    from Cons.IH [OF this, of adopted] 4 cf id show ?thesis by auto
  qed
qed simp

text \<open>A directory at rest.\<close>

definition at_rest :: "dir \<Rightarrow> dir \<Rightarrow> int \<Rightarrow> nat \<Rightarrow> spool" where
  "at_rest d q maxBytes calls =
     \<lparr>sp_dir = d, sp_quar = q, sp_maxBytes = maxBytes, sp_id = [], sp_seq = 0, sp_bytes = 0,
      sp_files = 0, sp_full = False, sp_calls = calls\<rparr>"

definition disk_ok :: "dir \<Rightarrow> bool" where
  "disk_ok d \<longleftrightarrow> distinct (map fst d)
     \<and> (\<forall>n. HasSuffix n fileExt \<longrightarrow> map_of d n = None \<or> map_of d (n @ activeExt) = None)
     \<and> (\<forall>b. map_of d idFile = Some b \<longrightarrow> valid_id (str_of_bytes (trim_space b)))"

lemma id_names: "HasSuffix n fileExt \<Longrightarrow>
  n \<notin> {idFile, idFile @ tmpExt} \<and> n @ activeExt \<notin> {idFile, idFile @ tmpExt}"
proof -
  assume n: "HasSuffix n fileExt"
  have "last idFile = CHR ''d''" "last (n @ activeExt) = CHR ''e''" by (simp_all add: spool_exts)
  moreover have "last n = CHR ''l''" by (rule spool_suffix_last [OF n])
  ultimately have "n \<noteq> idFile" "n @ activeExt \<noteq> idFile" by auto
  with n show ?thesis by auto
qed

lemma loadOrCreateID_nofault:
  assumes "\<And>i. \<not> flt i" and "disk_ok (sp_dir s)"
  shows "\<exists>i s'. loadOrCreateID flt raw s = (Inr i, s') \<and> distinct (map fst (sp_dir s'))"
  using assms
  by (auto simp: loadOrCreateID_def disk_ok_def stat_def sys_def ok_call_def write_file_def rename_file_def Let_def
      update_conv' distinct_update distinct_delete split: option.splits)

lemma New_spool_nofault:
  assumes "\<And>i. \<not> flt i" and "disk_ok d" and "trim_space (bytes_of_str dirName) \<noteq> []"
  shows "\<exists>s'. New_spool flt dirName maxBytes raw d q calls = (None, s')
    \<and> (\<forall>n c. held s' n c = held (at_rest d q maxBytes calls) n c)
    \<and> (\<forall>n. HasSuffix n fileExt \<longrightarrow> map_of (sp_dir s') (n @ activeExt) = None)
    \<and> (unat (sp_seq s') + k < 2 ^ 64 \<longrightarrow> spool_inv k s')"
proof -
  let ?s = "at_rest d q maxBytes calls"
  obtain s1 where 1: "ok_call flt ?s = (True, s1)" using assms(1) by (simp add: ok_call_def sys_def)
  have d1: "sp_dir s1 = d" "sp_quar s1 = q" "sp_seq s1 = 0"
    using ok_call_same [OF 1, of "{}"] by (auto simp: at_rest_def same_but_def)
  obtain i s2 where 2: "loadOrCreateID flt raw s1 = (Inr i, s2)" and dist2: "distinct (map fst (sp_dir s2))"
    using loadOrCreateID_nofault [of flt s1 raw] assms(1,2) d1 by auto
  note same2 = loadOrCreateID_same [OF 2]
  obtain s3 where 3: "ok_call flt (s2\<lparr>sp_id := i\<rparr>) = (True, s3)" using assms(1) by (simp add: ok_call_def sys_def)
  have d3: "sp_dir s3 = sp_dir s2" "sp_quar s3 = q" "sp_seq s3 = 0"
    using ok_call_same [OF 3, of "{}"] same2 d1 by (auto simp: same_but_def)
  have ev: "map_of (sp_dir s3) n = map_of d n \<and> map_of (sp_dir s3) (n @ activeExt) = map_of d (n @ activeExt)"
    if "HasSuffix n fileExt" for n
    using id_names [OF that] same2 d1 d3 by (auto simp: same_but_def)
  have "entries_inv (map fst (sp_dir s3)) s3"
    using ev dist2 d3 assms(2)
    by (auto simp: entries_inv_def no_twin_def disk_ok_def image_iff dest!: map_of_SomeD) (force simp: map_of_eq_None_iff)+
  from adopt_entries_nofault [where flt = flt, OF assms(1) this, where adopted = False]
  obtain ad s4 where 4: "adopt_entries flt (map fst (sp_dir s3)) False s3 = (Inr ad, s4)" "entries_inv [] s4"
    "sp_seq s3 \<le> sp_seq s4" "sp_quar s4 = sp_quar s3" "sp_id s4 = sp_id s3" by blast
  obtain s5 where 5: "read_quarantine flt s4 = (None, s5)" using read_quarantine_nofault [where flt = flt, OF assms(1)] by blast
  note q5 = read_quarantine_same [OF 5]
  obtain s6 where 6: "ok_call flt s5 = (True, s6)" using assms(1) by (simp add: ok_call_def sys_def)
  define s' where "s' = (if ad then s6 else s5)"
  have new: "New_spool flt dirName maxBytes raw d q calls = (None, s')"
    using 1 2 3 4 5 6 assms(3) by (simp add: New_spool_def at_rest_def s'_def)
  have d6: "sp_dir s' = sp_dir s4" "sp_quar s' = sp_quar s4" "sp_seq s' = sp_seq s5"
    using ok_call_same [OF 6, of "{}"] q5 by (auto simp: s'_def same_but_def)
  have held3: "held s3 n c = held ?s n c" for n c
    using ev d3 by (auto simp: held_def at_rest_def)
  have held: "held s' n c = held ?s n c" for n c
    using adopt_entries_held [OF 4(1)] held3 held_dirs [OF d6(1,2)] by simp
  have act: "map_of (sp_dir s') (n @ activeExt) = None" if "HasSuffix n fileExt" for n
    using 4(2) that d6 by (simp add: entries_inv_def)
  have "\<not> held s' (batch_name qq) c" if "sp_seq s' < qq" for qq c
  proof
    assume h: "held s' (batch_name qq) c"
    have "sp_seq s4 < qq" using that d6 q5 by auto
    then have "map_of (sp_dir s4) (batch_name qq) = None"
      using 4(2) seqOf_batch_name [of qq] by (force simp: entries_inv_def)
    with h act d6 have "map_of (sp_quar s4) (batch_name qq) = Some c" by (auto simp: held_def)
    then have "(batch_name qq, c) \<in> set (sp_quar s4)" by (auto dest: map_of_SomeD)
    with q5 have "seqOf (batch_name qq) \<le> sp_seq s5" by auto
    with that d6 show False by simp
  qed
  with act new held show ?thesis by (auto simp: spool_inv_def)
qed

section \<open>The contract towards the writer\<close>

text \<open>
  A log of batches under operations that may fail at any point: an operation uses up at most
  one unit of the room \<open>k\<close>, keeps the invariant, and keeps every stored batch it does not
  discard.
\<close>

locale batch_log =
  fixes run :: "'op \<Rightarrow> 's \<Rightarrow> 's"
    and holds :: "'s \<Rightarrow> string \<Rightarrow> bytes \<Rightarrow> bool"
    and linv :: "nat \<Rightarrow> 's \<Rightarrow> bool"
    and allowed :: "'op \<Rightarrow> bool"
    and discards :: "'op \<Rightarrow> string \<Rightarrow> bool"
  assumes run_inv: "linv (Suc k) s \<Longrightarrow> allowed op \<Longrightarrow> linv k (run op s)"
    and run_keeps: "linv (Suc k) s \<Longrightarrow> allowed op \<Longrightarrow> \<not> discards op n \<Longrightarrow> holds s n c \<Longrightarrow> holds (run op s) n c"
begin

lemma history_inv: "linv (length ops + k) s \<Longrightarrow> list_all allowed ops \<Longrightarrow> linv k (fold run ops s)"
  by (induction ops arbitrary: s) (auto dest: run_inv)

lemma history_keeps:
  "linv (length ops + k) s \<Longrightarrow> list_all (\<lambda>op. allowed op \<and> \<not> discards op n) ops \<Longrightarrow> holds s n c \<Longrightarrow>
   holds (fold run ops s) n c"
  by (induction ops arbitrary: s) (auto dest: run_inv run_keeps)

end

datatype wal_op = OpBegin batch | OpSave batch | OpReady string | OpDone string | OpQuarantine string

fun run_op :: "(nat \<Rightarrow> bool) \<Rightarrow> (batch \<Rightarrow> bytes option) \<Rightarrow> (bytes \<Rightarrow> bytes) \<Rightarrow> wal_op \<Rightarrow> spool \<Rightarrow> spool" where
  "run_op flt gobEncode sha (OpBegin b) s = snd (Begin flt gobEncode sha b s)"
| "run_op flt gobEncode sha (OpSave b) s = snd (Save flt gobEncode sha b s)"
| "run_op flt gobEncode sha (OpReady n) s = snd (Ready flt n s)"
| "run_op flt gobEncode sha (OpDone n) s = snd (Done flt n s)"
| "run_op flt gobEncode sha (OpQuarantine n) s = snd (Quarantine flt n s)"

text \<open>Handles are names of batches.\<close>

fun op_allowed :: "wal_op \<Rightarrow> bool" where
  "op_allowed (OpReady n) = HasSuffix n fileExt"
| "op_allowed (OpDone n) = HasSuffix n fileExt"
| "op_allowed (OpQuarantine n) = HasSuffix n fileExt"
| "op_allowed _ = True"

lemma spool_inv_weaken: "spool_inv (Suc k) s \<Longrightarrow> spool_inv k s"
  by (simp add: spool_inv_def)

interpretation wal: batch_log "run_op flt gobEncode sha" held spool_inv op_allowed "\<lambda>op n. op = OpDone n"
  for flt gobEncode sha
proof
  fix k s op
  assume inv: "spool_inv (Suc k) s" and ok: "op_allowed op"
  note w = spool_inv_weaken [OF inv]
  show "spool_inv k (run_op flt gobEncode sha op s)"
    using inv w ok
    by (cases op)
      (auto intro: Begin_inv [OF _ prod.collapse [symmetric]] Save_keeps(2) [OF prod.collapse [symmetric]]
        Ready_keeps(2) [OF prod.collapse [symmetric]] Done_keeps(2) [OF prod.collapse [symmetric]]
        Quarantine_keeps(2) [OF prod.collapse [symmetric]])
  fix n c
  assume "op \<noteq> OpDone n" "held s n c"
  then show "held (run_op flt gobEncode sha op s) n c"
    using inv w ok
    by (cases op)
      (auto intro: Begin_held [OF _ prod.collapse [symmetric]] Save_keeps(1) [OF prod.collapse [symmetric]]
        simp: Ready_keeps(1) [OF prod.collapse [symmetric]] Done_keeps(1) [OF prod.collapse [symmetric]]
        Quarantine_keeps(1) [OF prod.collapse [symmetric]])
qed

section \<open>The oldest batch\<close>

lemma string_le_refl [simp]: "string_le x x"
  by (induction x) auto

lemma string_le_digits:
  "length a = length b \<Longrightarrow> list_all is_digit a \<Longrightarrow> list_all is_digit b \<Longrightarrow>
   string_le (a @ x) (b @ x) \<longleftrightarrow> dec_value a \<le> dec_value b"
proof (induction a arbitrary: b)
  case (Cons d a)
  then obtain e b' where b: "b = e # b'" by (cases b) auto
  have val: "dec_value (c # s) = digit_value c * 10 ^ length s + dec_value s" for c s
  proof -
    have "foldl (\<lambda>v c. v * 10 + digit_value c) k s = k * 10 ^ length s + dec_value s" for k
    proof (induction s arbitrary: k)
      case (Cons c s)
      from Cons.IH [of "k * 10 + digit_value c"] Cons.IH [of "digit_value c"]
      show ?case by (simp only: dec_value_def foldl_Cons list.size) (simp add: algebra_simps)
    qed (simp add: dec_value_def)
    from this [of "digit_value c"] show ?thesis by (simp add: dec_value_def)
  qed
  have less: "dec_value s < 10 ^ length s" if "list_all is_digit s" for s
    using that
  proof (induction s)
    case (Cons c s)
    then have "digit_value c \<le> 9" unfolding digit_value_def is_digit_def list.pred_inject by linarith
    then have "digit_value c * 10 ^ length s \<le> 9 * 10 ^ length s" by (rule mult_le_mono1)
    moreover have "dec_value s < 10 ^ length s" using Cons by simp
    ultimately have "digit_value c * 10 ^ length s + dec_value s < 10 * 10 ^ length s" by linarith
    then show ?case by (simp add: val)
  qed (simp add: dec_value_def)
  have dig: "is_digit d" "is_digit e" "list_all is_digit a" "list_all is_digit b'" "length b' = length a"
    using Cons.prems b by auto
  show ?case
  proof (cases "d = e")
    case True
    with Cons.IH [of b'] dig b show ?thesis by (simp add: val)
  next
    case False
    have inj: "digit_value d \<noteq> digit_value e"
    proof -
      have "(of_char d :: nat) \<noteq> of_char e" using False by simp
      with dig(1,2) show ?thesis unfolding digit_value_def is_digit_def by linarith
    qed
    have "char_le d e \<longleftrightarrow> digit_value d < digit_value e"
      using inj dig(1,2) by (auto simp: char_le_def digit_value_def is_digit_def)
    moreover have "dec_value (d # a) \<le> dec_value (e # b') \<longleftrightarrow> digit_value d < digit_value e"
    proof (cases "digit_value d < digit_value e")
      case True
      then have "(digit_value d + 1) * 10 ^ length a \<le> digit_value e * 10 ^ length a" by (intro mult_le_mono1) simp
      with True less [OF dig(3)] show ?thesis by (simp add: val dig(5))
    next
      case ge: False
      then have "(digit_value e + 1) * 10 ^ length a \<le> digit_value d * 10 ^ length a"
        using inj by (intro mult_le_mono1) simp
      with ge less [OF dig(4)] show ?thesis by (simp add: val dig(5))
    qed
    ultimately show ?thesis using False by (simp add: b)
  qed
qed (simp add: dec_value_def string_le_refl)

lemma batch_name_le: "string_le (batch_name p) (batch_name q) \<longleftrightarrow> p \<le> q"
proof -
  have "string_le (batch_name p) (batch_name q) \<longleftrightarrow> dec_value (pad20 (unat p)) \<le> dec_value (pad20 (unat q))"
    unfolding batch_name_def
    by (intro string_le_digits) (simp_all only: pad20_length [OF u64_digits] pad20_digits)
  then show ?thesis by (simp add: pad20_def word_le_nat_alt)
qed

lemma least_name_spec:
  "least_name ns = Some n \<Longrightarrow> n \<in> set ns \<and> (\<forall>m \<in> set ns. \<forall>p q. n = batch_name p \<and> m = batch_name q \<longrightarrow>
     (\<forall>x \<in> set ns. \<exists>r. x = batch_name r) \<longrightarrow> p \<le> q)"
proof (induction ns arbitrary: n)
  case (Cons a ns)
  show ?case
  proof (cases "least_name ns")
    case None
    then have "ns = []" by (cases ns) (auto split: option.splits if_splits)
    with Cons.prems show ?thesis using batch_name_inj by auto
  next
    case (Some m)
    note IH = Cons.IH [OF Some]
    show ?thesis
    proof (cases "\<forall>x \<in> set (a # ns). \<exists>r. x = batch_name r")
      case False
      with Cons.prems Some IH show ?thesis by (auto split: if_splits)
    next
      case True
      then obtain pa pm where a: "a = batch_name pa" and m: "m = batch_name pm" using IH by auto
      have le: "pm \<le> q" if "batch_name q \<in> set ns" for q using IH that m True by auto
      have n: "n = (if pa \<le> pm then a else m)" using Cons.prems Some a m by (simp add: batch_name_le split: if_splits)
      have "p \<le> q" if "n = batch_name p" "batch_name q \<in> set (a # ns)" for p q
      proof -
        have "p = (if pa \<le> pm then pa else pm)"
          using n that(1) a m by (auto split: if_splits)
        then show ?thesis
          using that(2) le a by (auto split: if_splits dest: order.trans)
      qed
      moreover have "n \<in> set (a # ns)" using n IH by simp
      ultimately show ?thesis by blast
    qed
  qed
qed simp

lemma least_name_None: "least_name ns = None \<longleftrightarrow> ns = []"
  by (cases ns) (auto split: option.splits)

section \<open>Properties\<close>



text \<open>
  C8.  No failure loses a stored batch.  Let a batch be stored under the name \<open>n\<close> with the
  contents \<open>c\<close>.  Then after any sequence of \<open>Begin\<close>, \<open>Save\<close>, \<open>Ready\<close>, \<open>Quarantine\<close> and \<open>Done\<close>
  operations other than \<open>Done n\<close>, with system calls failing at any points, it is still stored
  under that name with those contents (ready, active or quarantined).
\<close>

theorem spool_history_keeps:
  assumes "spool_inv (length ops) s" and "list_all (\<lambda>op. op_allowed op \<and> op \<noteq> OpDone n) ops" and "held s n c"
  shows "held (fold (run_op flt gobEncode sha256) ops s) n c"
  using wal.history_keeps [of ops 0 s n c flt gobEncode sha256] assms by simp

definition example_spool :: spool where
  "example_spool = at_rest [(batch_name 0, [9])] [] 1000 0"

lemma example_spool_inv: "spool_inv 5 example_spool"
proof -
  have ne: "batch_name q @ activeExt \<noteq> batch_name 0" for q
    by (metis ext_suffix(1) batch_name_suffix(1))
  have "\<not> held example_spool (batch_name q) c" if "0 < q" for q c
    using that ne by (auto simp: held_def example_spool_def at_rest_def)
  then show ?thesis
    by (auto simp: spool_inv_def example_spool_def at_rest_def spool_exts)
qed

theorem spool_history_keeps_witness:
  "held (fold (run_op (\<lambda>i. i = 3) (\<lambda>_. Some [1]) (\<lambda>_. [])) [OpBegin [], OpReady (batch_name 0), OpQuarantine (batch_name 0),
      OpDone (batch_name 7), OpSave []] example_spool) (batch_name 0) [9]"
proof (rule spool_history_keeps)
  show "spool_inv (length [OpBegin [], OpReady (batch_name 0), OpQuarantine (batch_name 0), OpDone (batch_name 7), OpSave []])
      example_spool" using example_spool_inv by (simp add: eval_nat_numeral)
qed (simp_all add: held_def example_spool_def at_rest_def)

text \<open>
   A restart adopts every stored batch.  \<open>New\<close>, when no system call fails, the directory
  has a valid or no identity, and no batch is both active and ready, succeeds; every batch is
  stored as before; none is active any more, so all that are not quarantined are visible to
  replay; and the sequence counter lies above all stored names.
\<close>

theorem spool_restart_adopts:
  assumes "\<And>i. \<not> flt i" and "disk_ok d" and "trim_space (bytes_of_str dirName) \<noteq> []"
  shows "\<exists>s'. New_spool flt dirName maxBytes raw d q calls = (None, s')
    \<and> (\<forall>n c. held s' n c = held (at_rest d q maxBytes calls) n c)
    \<and> (\<forall>n. HasSuffix n fileExt \<longrightarrow> map_of (sp_dir s') (n @ activeExt) = None)
    \<and> (unat (sp_seq s') + k < 2 ^ 64 \<longrightarrow> spool_inv k s')"
  by (rule New_spool_nofault [OF assms])

theorem spool_restart_adopts_witness:
  "\<exists>s'. New_spool (\<lambda>_. False) ''/var/spool'' 1000 (replicate 16 1) [(batch_name 4 @ activeExt, [9])] [] 0 = (None, s')
    \<and> (\<forall>n c. held s' n c = held (at_rest [(batch_name 4 @ activeExt, [9])] [] 1000 0) n c)
    \<and> (\<forall>n. HasSuffix n fileExt \<longrightarrow> map_of (sp_dir s') (n @ activeExt) = None)
    \<and> (unat (sp_seq s') + 3 < 2 ^ 64 \<longrightarrow> spool_inv 3 s')"
proof (rule spool_restart_adopts)
  have "idFile \<noteq> batch_name 4 @ activeExt" using id_names [OF batch_name_suffix(1), of 4] by auto
  then show "disk_ok [(batch_name 4 @ activeExt, [9])]" by (auto simp: disk_ok_def)
  show "trim_space (bytes_of_str ''/var/spool'') \<noteq> []" by code_simp
qed simp

text \<open>
   Replay is first in, first out.  When all replayable files carry names made by the spool,
  the batch that \<open>Oldest\<close> picks is one of them and has the least sequence number, although it is
  chosen by comparing strings.
\<close>

theorem oldest_first:
  assumes "oldestName flt s = (Inr (Some n), s')"
    and "\<And>m. m \<in> fst ` set (sp_dir s) \<Longrightarrow> HasSuffix m fileExt \<Longrightarrow> \<exists>q. m = batch_name q"
  shows "\<exists>p. n = batch_name p \<and> n \<in> fst ` set (sp_dir s)
    \<and> (\<forall>q. batch_name q \<in> fst ` set (sp_dir s) \<longrightarrow> p \<le> q)"
proof -
  let ?ns = "filter (\<lambda>n. HasSuffix n fileExt) (map fst (sp_dir s))"
  have l: "least_name ?ns = Some n"
    using assms(1) by (auto simp: oldestName_def sys_def Let_def split: if_splits)
  note spec = least_name_spec [OF l]
  have all: "\<forall>x \<in> set ?ns. \<exists>r. x = batch_name r" using assms(2) by auto
  then obtain p where p: "n = batch_name p" using spec by blast
  have "p \<le> q" if "batch_name q \<in> fst ` set (sp_dir s)" for q
  proof -
    have "batch_name q \<in> set ?ns" using that by simp
    with spec all p show ?thesis by blast
  qed
  with p spec show ?thesis by auto
qed

theorem oldest_first_witness:
  "\<exists>p. batch_name 2 = batch_name p \<and> batch_name 2 \<in> fst ` set (sp_dir (at_rest [(batch_name 10, []), (batch_name 2, [])] [] 0 0))
    \<and> (\<forall>q. batch_name q \<in> fst ` set (sp_dir (at_rest [(batch_name 10, []), (batch_name 2, [])] [] 0 0)) \<longrightarrow> p \<le> q)"
proof (rule oldest_first)
  have "\<not> (10 :: u64) \<le> 2" by (simp add: word_le_nat_alt)
  then show "oldestName (\<lambda>_. False) (at_rest [(batch_name 10, []), (batch_name 2, [])] [] 0 0)
      = (Inr (Some (batch_name 2)), at_rest [(batch_name 10, []), (batch_name 2, [])] [] 0 1)"
    by (simp add: oldestName_def sys_def at_rest_def batch_name_le)
qed (auto simp: at_rest_def)

section \<open>Tokens across restarts\<close>

lemma calls_nofault:
  assumes "\<And>i. \<not> flt i"
  shows "write_file flt n c s = (True, s\<lparr>sp_calls := Suc (sp_calls s), sp_dir := AList.update n c (sp_dir s)\<rparr>)"
    "ok_call flt s = (True, s\<lparr>sp_calls := Suc (sp_calls s)\<rparr>)"
    "map_of (sp_dir s) a = Some c \<Longrightarrow> rename_file flt a n s
       = (True, s\<lparr>sp_calls := Suc (sp_calls s), sp_dir := AList.update n c (AList.delete a (sp_dir s))\<rparr>)"
  using assms by (simp_all add: write_file_def ok_call_def rename_file_def sys_def)

lemma Begin_nofault:
  assumes "\<And>i. \<not> flt i" and "b \<noteq> []" and "encodeBatch gobEncode sha b = Some c"
    and "\<not> (sp_maxBytes s > 0 \<and> sp_bytes s \<ge> sp_maxBytes s)"
    and "\<And>e. batch_name (sp_seq s + 1) @ e \<notin> fst ` set (sp_dir s)"
  shows "\<exists>s'. Begin flt gobEncode sha b s = (Inr (batch_name (sp_seq s + 1)), s')
    \<and> sp_dir s' = sp_dir s @ [(batch_name (sp_seq s + 1) @ activeExt, c)] \<and> sp_quar s' = sp_quar s
    \<and> sp_id s' = sp_id s \<and> sp_maxBytes s' = sp_maxBytes s"
proof -
  have upd: "AList.update n v (d @ [(n, w)]) = d @ [(n, v)]" if "n \<notin> fst ` set d" for n v w and d :: dir
    using that by (induction d) auto
  have new: "AList.update n v d = d @ [(n, v)]" if "n \<notin> fst ` set d" for n v and d :: dir
    using that by (induction d) auto
  have del: "AList.delete n (d @ [(n, v)]) = d" if "n \<notin> fst ` set d" for n v and d :: dir
    using that by (force simp: AList.delete_eq filter_id_conv)
  have look: "map_of (d @ [(n, v)]) n = Some v" if "n \<notin> fst ` set d" for n v and d :: dir
    using that by (induction d) auto
  define nm where "nm = batch_name (sp_seq s + 1)"
  define s0 where "s0 = s\<lparr>sp_seq := sp_seq s + 1\<rparr>"
  have fresh: "nm @ tmpExt \<notin> fst ` set (sp_dir s)" "nm @ activeExt \<notin> fst ` set (sp_dir s)"
    using assms(5) by (auto simp: nm_def)
  have d0: "sp_dir s0 = sp_dir s" by (simp add: s0_def)
  obtain s1 where "writeActive flt gobEncode sha b (nm @ tmpExt) (nm @ activeExt) s0 = (Inr (length c), s1)"
    "sp_dir s1 = sp_dir s @ [(nm @ activeExt, c)]" "sp_quar s1 = sp_quar s" "sp_id s1 = sp_id s" "sp_maxBytes s1 = sp_maxBytes s"
    using assms(3) fresh
    by (simp add: writeActive_def calls_nofault [of flt, OF assms(1)] d0 upd new del look del: map_of_append)
      (simp add: s0_def)
  then show ?thesis
    using assms(2,4) by (auto simp: Begin_def nm_def s0_def)
qed

lemma Done_nofault:
  assumes "\<And>i. \<not> flt i" and "sp_dir s = d @ [(n @ activeExt, c)]" and "n \<notin> fst ` set d" and "n @ activeExt \<notin> fst ` set d"
  shows "\<exists>s'. Done flt n s = (None, s') \<and> sp_dir s' = d \<and> sp_quar s' = sp_quar s"
proof -
  have none: "map_of d n = None" "map_of d (n @ activeExt) = None" using assms(3,4) by (simp_all add: map_of_eq_None_iff)
  have del: "AList.delete (n @ activeExt) (d @ [(n @ activeExt, c)]) = d"
    using assms(4) by (force simp: AList.delete_eq filter_id_conv)
  have "activeExt \<noteq> []" by (simp add: spool_exts)
  with none del assms(1,2) show ?thesis
    by (simp add: Done_def stat_def sys_def remove_file_def removeStats_def ok_call_def map_add_def Let_def)
qed

lemma New_spool_empty:
  assumes "\<And>i. \<not> flt i" and "valid_id (str_of_bytes (trim_space idc))" and "trim_space (bytes_of_str dirName) \<noteq> []"
  shows "\<exists>s'. New_spool flt dirName maxBytes raw [(idFile, idc)] [] calls = (None, s')
    \<and> sp_dir s' = [(idFile, idc)] \<and> sp_quar s' = [] \<and> sp_seq s' = 0 \<and> sp_bytes s' = 0 \<and> sp_maxBytes s' = maxBytes
    \<and> sp_id s' = str_of_bytes (trim_space idc)"
proof -
  have "\<not> HasSuffix idFile tmpExt" "\<not> HasSuffix idFile (fileExt @ activeExt)" "\<not> HasSuffix idFile fileExt" by code_simp+
  with assms show ?thesis
    by (simp add: New_spool_def read_quarantine_def ok_call_def sys_def loadOrCreateID_def stat_def Let_def)
qed

text \<open>
  C9.  Deduplication tokens are reused.  Start on a directory that holds only its identity,
  write a batch, have it inserted and removed, and restart: the sequence starts again at
  one, so the first batch of the new run gets the handle, and with the persistent identity also
  the deduplication token, that another batch was inserted under before.
\<close>

theorem dedup_token_reused:
  assumes "\<And>i. \<not> flt i" and "valid_id (str_of_bytes (trim_space idc))" and "trim_space (bytes_of_str dirName) \<noteq> []"
    and "0 < maxBytes" and "b1 \<noteq> []" and "b2 \<noteq> []"
    and "encodeBatch gobEncode sha b1 = Some c1" and "encodeBatch gobEncode sha b2 = Some c2"
  shows "\<exists>s s1 s2 s3 s4 n1 n2.
    New_spool flt dirName maxBytes raw [(idFile, idc)] [] calls = (None, s)
    \<and> Begin flt gobEncode sha b1 s = (Inr n1, s1) \<and> Done flt n1 s1 = (None, s2)
    \<and> New_spool flt dirName maxBytes raw (sp_dir s2) (sp_quar s2) (sp_calls s2) = (None, s3)
    \<and> Begin flt gobEncode sha b2 s3 = (Inr n2, s4)
    \<and> DedupToken n2 s4 = DedupToken n1 s1 \<and> DedupToken n1 s1 \<noteq> []"
proof -
  note new = New_spool_empty [of flt idc dirName maxBytes raw, OF assms(1-3)]
  obtain s where s: "New_spool flt dirName maxBytes raw [(idFile, idc)] [] calls = (None, s)"
    "sp_dir s = [(idFile, idc)]" "sp_quar s = []" "sp_seq s = 0" "sp_bytes s = 0" "sp_maxBytes s = maxBytes"
    "sp_id s = str_of_bytes (trim_space idc)" using new by blast
  have fresh: "batch_name 1 @ e \<noteq> idFile" for e by code_simp
  have fresh': "batch_name 1 \<noteq> idFile" using fresh [of "[]"] by simp
  obtain s1 where s1: "Begin flt gobEncode sha b1 s = (Inr (batch_name 1), s1)"
    "sp_dir s1 = sp_dir s @ [(batch_name 1 @ activeExt, c1)]" "sp_quar s1 = []" "sp_id s1 = sp_id s"
    using Begin_nofault [of flt b1 gobEncode sha c1 s] assms s fresh by auto
  obtain s2 where s2: "Done flt (batch_name 1) s1 = (None, s2)" "sp_dir s2 = sp_dir s" "sp_quar s2 = []"
    using Done_nofault [of flt s1 "sp_dir s" "batch_name 1" c1] assms(1) s1 s fresh fresh' by auto
  obtain s3 where s3: "New_spool flt dirName maxBytes raw (sp_dir s2) (sp_quar s2) (sp_calls s2) = (None, s3)"
    "sp_dir s3 = [(idFile, idc)]" "sp_seq s3 = 0" "sp_bytes s3 = 0" "sp_maxBytes s3 = maxBytes"
    "sp_id s3 = str_of_bytes (trim_space idc)" using new s s2 by auto
  obtain s4 where s4: "Begin flt gobEncode sha b2 s3 = (Inr (batch_name 1), s4)" "sp_id s4 = sp_id s3"
    using Begin_nofault [of flt b2 gobEncode sha c2 s3] assms s3 fresh by auto
  have "DedupToken (batch_name 1) s4 = DedupToken (batch_name 1) s1" "DedupToken (batch_name 1) s1 \<noteq> []"
    using s s1 s3 s4 by (simp_all add: DedupToken_def)
  with s(1) s1(1) s2(1) s3(1) s4(1) show ?thesis by blast
qed

definition example_id :: bytes where
  "example_id = bytes_of_str ''00112233445566778899aabbccddeeff''"

theorem dedup_token_reused_witness:
  fixes b1 b2
  defines "b1 \<equiv> [Normalize zero_time zero_flow ''ipfix'' 1 2]" and "b2 \<equiv> [Normalize zero_time zero_flow ''ipfix'' 3 4]"
  shows "\<exists>s s1 s2 s3 s4 n1 n2.
    New_spool (\<lambda>_. False) ''spool'' 100 [] [(idFile, example_id)] [] 0 = (None, s)
    \<and> Begin (\<lambda>_. False) (\<lambda>_. Some [1]) (\<lambda>_. []) b1 s = (Inr n1, s1) \<and> Done (\<lambda>_. False) n1 s1 = (None, s2)
    \<and> New_spool (\<lambda>_. False) ''spool'' 100 [] (sp_dir s2) (sp_quar s2) (sp_calls s2) = (None, s3)
    \<and> Begin (\<lambda>_. False) (\<lambda>_. Some [1]) (\<lambda>_. []) b2 s3 = (Inr n2, s4)
    \<and> DedupToken n2 s4 = DedupToken n1 s1 \<and> DedupToken n1 s1 \<noteq> []"
proof (rule dedup_token_reused)
  show "valid_id (str_of_bytes (trim_space example_id))" by code_simp
  show "trim_space (bytes_of_str ''spool'') \<noteq> []" by code_simp
qed (simp_all add: b1_def b2_def encodeBatch_def)

end
