(* ===== verification/Metrics.thy ===== *)
theory Metrics
  imports Main
begin

text \<open>
  Package \<open>metrics\<close> (\<open>internal/metrics/metrics.go\<close>): the counters of the collector that the
  pipeline and the writer advance.  Gauges, histograms and the HTTP endpoint are not modelled;
  the per-worker counter vector \<open>WriterQueueDropped\<close> is the total over its labels.
\<close>

record metrics =
  m_PacketsDropped :: nat
  m_PacketsUnsupported :: nat
  m_FlowsDecoded :: nat
  m_FlowsSkipped :: nat
  m_SpoolSaved :: nat
  m_SpoolReplayed :: nat
  m_SpoolLost :: nat
  m_FlowsInserted :: nat
  m_FlowsDropped :: nat
  m_FlowsRejected :: nat
  m_InsertErrors :: nat
  m_NetFlow5Packets :: nat
  m_WriterBatches :: nat
  m_WriterBatchRows :: nat
  m_WriterRetries :: nat
  m_WriterQueueDropped :: nat
  m_DeviceMatchedPackets :: nat
  m_DeviceRejectedPackets :: nat
  m_UnknownExporterPackets :: nat
  m_UnknownExporterFlows :: nat
  m_DeviceRuleSkipped :: nat

text \<open>\<open>Counter.Inc\<close> on each of them.\<close>

definition inc_PacketsDropped :: "metrics \<Rightarrow> metrics" where
  "inc_PacketsDropped m = m\<lparr>m_PacketsDropped := Suc (m_PacketsDropped m)\<rparr>"
definition inc_PacketsUnsupported :: "metrics \<Rightarrow> metrics" where
  "inc_PacketsUnsupported m = m\<lparr>m_PacketsUnsupported := Suc (m_PacketsUnsupported m)\<rparr>"
definition inc_FlowsDecoded :: "metrics \<Rightarrow> metrics" where
  "inc_FlowsDecoded m = m\<lparr>m_FlowsDecoded := Suc (m_FlowsDecoded m)\<rparr>"
definition inc_FlowsSkipped :: "metrics \<Rightarrow> metrics" where
  "inc_FlowsSkipped m = m\<lparr>m_FlowsSkipped := Suc (m_FlowsSkipped m)\<rparr>"
definition inc_FlowsDropped :: "metrics \<Rightarrow> metrics" where
  "inc_FlowsDropped m = m\<lparr>m_FlowsDropped := Suc (m_FlowsDropped m)\<rparr>"
definition inc_NetFlow5Packets :: "metrics \<Rightarrow> metrics" where
  "inc_NetFlow5Packets m = m\<lparr>m_NetFlow5Packets := Suc (m_NetFlow5Packets m)\<rparr>"
definition inc_DeviceMatchedPackets :: "metrics \<Rightarrow> metrics" where
  "inc_DeviceMatchedPackets m = m\<lparr>m_DeviceMatchedPackets := Suc (m_DeviceMatchedPackets m)\<rparr>"
definition inc_DeviceRejectedPackets :: "metrics \<Rightarrow> metrics" where
  "inc_DeviceRejectedPackets m = m\<lparr>m_DeviceRejectedPackets := Suc (m_DeviceRejectedPackets m)\<rparr>"
definition inc_UnknownExporterPackets :: "metrics \<Rightarrow> metrics" where
  "inc_UnknownExporterPackets m = m\<lparr>m_UnknownExporterPackets := Suc (m_UnknownExporterPackets m)\<rparr>"
definition inc_UnknownExporterFlows :: "metrics \<Rightarrow> metrics" where
  "inc_UnknownExporterFlows m = m\<lparr>m_UnknownExporterFlows := Suc (m_UnknownExporterFlows m)\<rparr>"
definition inc_DeviceRuleSkipped :: "metrics \<Rightarrow> metrics" where
  "inc_DeviceRuleSkipped m = m\<lparr>m_DeviceRuleSkipped := Suc (m_DeviceRuleSkipped m)\<rparr>"

lemmas metric_defs =
  inc_PacketsDropped_def inc_PacketsUnsupported_def inc_FlowsDecoded_def inc_FlowsSkipped_def inc_FlowsDropped_def
  inc_NetFlow5Packets_def inc_DeviceMatchedPackets_def inc_DeviceRejectedPackets_def inc_UnknownExporterPackets_def
  inc_UnknownExporterFlows_def inc_DeviceRuleSkipped_def

end
