(* ===== verification/Writer.thy ===== *)
theory Writer
  imports Writer_Rows Spool Metrics
begin

text \<open>
  The insert path of package \<open>clickhouse\<close> (\<open>internal/writer/clickhouse/clickhouse.go\<close>): the
  connection, one insert, the flush of a batch with its write-ahead entry, retries, salvage and
  fallback, and the replay of spooled batches.

  ClickHouse is a parameter: the record \<open>env\<close> says for send number \<open>i\<close> whether connecting, each
  schema statement, preparing, appending a row and sending succeed, and whether the rows of an
  insert whose \<open>Send\<close> reported an error were stored all the same.  The table is the list of
  the stored inserts, each with its settings.  The settings in force (\<open>live.Load\<close>), the clock,
  the failures of the file system, gob and SHA-256 are parameters too.  A flush and a round of
  replay run alone here; what interleaved operations do to the log is the subject of the
  histories of theory \<open>Spool\<close>.

  The lemmas show that a flush never loses a batch silently: it ends up in the table, in the
  log, or in the counters; and that replay removes a batch from the log only with its rows in
  the table.
\<close>

section \<open>The connection and one insert\<close>

record env =
  e_live :: "nat \<Rightarrow> live"
  e_now :: "nat \<Rightarrow> gotime"
  e_connect :: "nat \<Rightarrow> bool"
  e_ddl :: "nat \<Rightarrow> string \<Rightarrow> bool"
  e_prepare :: "nat \<Rightarrow> bool"
  e_append :: "nat \<Rightarrow> row \<Rightarrow> bool"
  e_send :: "nat \<Rightarrow> bool"
  e_landed :: "nat \<Rightarrow> bool"
  e_flt :: "nat \<Rightarrow> bool"
  e_gobEncode :: "batch \<Rightarrow> bytes option"
  e_gobDecode :: "bytes \<Rightarrow> spool_error + batch"
  e_sha :: "bytes \<Rightarrow> bytes"

datatype send_error =
    ConnectError
  | PrepareError
  | appendError nat
  | SendError

type_synonym stored_insert = "row list \<times> (string \<times> setting) list option"

record manager =
  mg_conn :: bool
  mg_table :: "stored_insert list"
  mg_spool :: "spool option"
  mg_metrics :: metrics
  mg_lastErr :: "(send_error \<times> gotime) option"
  mg_sends :: nat
  mg_slept :: int

text \<open>The schema statements, with the name of the database left out; the quote is \<open>CHR 0x27\<close>.\<close>

definition add_column :: "string \<Rightarrow> string" where
  "add_column c = ''ALTER TABLE flow_logs ADD COLUMN IF NOT EXISTS '' @ c"

definition quoted :: "string \<Rightarrow> string" where
  "quoted s = CHR 0x27 # s @ [CHR 0x27]"

definition schemaDDL :: "string list" where
  "schemaDDL = map add_column
     [''nat_event UInt8 DEFAULT 0'',
      ''username String DEFAULT '' @ quoted [],
      ''nat_dest_ip IPv4 DEFAULT toIPv4('' @ quoted ''0.0.0.0'' @ '')'',
      ''nat_dest_port UInt16 DEFAULT 0'',
      ''exporter_flow_start Nullable(DateTime64(3))'',
      ''exporter_flow_end Nullable(DateTime64(3))'',
      ''collector_received DateTime64(3) DEFAULT now64(3)'',
      ''src_ip_v6 IPv6 DEFAULT toIPv6('' @ quoted ''::'' @ '')'',
      ''dst_ip_v6 IPv6 DEFAULT toIPv6('' @ quoted ''::'' @ '')'',
      ''nat_public_ip_v6 IPv6 DEFAULT toIPv6('' @ quoted ''::'' @ '')'',
      ''nat_dest_ip_v6 IPv6 DEFAULT toIPv6('' @ quoted ''::'' @ '')'',
      ''exporter_ip_v6 IPv6 DEFAULT toIPv6('' @ quoted ''::'' @ '')'']"

text \<open>\<open>connection\<close>: the cached connection, or a new one with the schema statements run on it.\<close>

definition connection :: "env \<Rightarrow> nat \<Rightarrow> manager \<Rightarrow> bool \<times> manager" where
  "connection E i m =
     (if mg_conn m then (True, m)
      else if \<not> e_connect E i then (False, m)
      else if \<not> list_all (e_ddl E i) schemaDDL then (False, m)
      else (True, m\<lparr>mg_conn := True\<rparr>))"

fun first_bad :: "(row \<Rightarrow> bool) \<Rightarrow> batch \<Rightarrow> nat \<Rightarrow> nat option" where
  "first_bad ok [] i = None"
| "first_bad ok (r # rs) i = (if ok (row_of r) then first_bad ok rs (Suc i) else Some i)"

definition store_rows :: "batch \<Rightarrow> (string \<times> setting) list option \<Rightarrow> manager \<Rightarrow> manager" where
  "store_rows b stg m = m\<lparr>mg_table := mg_table m @ [(map row_of b, stg)]\<rparr>"

definition send :: "env \<Rightarrow> batch \<Rightarrow> string \<Rightarrow> manager \<Rightarrow> send_error option \<times> manager" where
  "send E b dedupToken m =
     (let i = mg_sends m;
          m = m\<lparr>mg_sends := Suc i\<rparr>;
          stg = insertSettings (e_live E i) dedupToken;
          (ok, m) = connection E i m
      in if \<not> ok then (Some ConnectError, m)
         else if \<not> e_prepare E i then (Some PrepareError, m)
         else case first_bad (e_append E i) b 0 of
           Some k \<Rightarrow> (Some (appendError k), m)
         | None \<Rightarrow>
             if e_send E i then (None, store_rows b stg m)
             else (Some SendError, if e_landed E i then store_rows b stg m else m))"

section \<open>Salvage\<close>

record salvageResult =
  sr_kept :: nat
  sr_rejected :: nat
  sr_dropped :: nat

text \<open>The loop of \<open>salvage\<close>; \<open>i\<close> is the index of the next row.\<close>

fun salvage_rows :: "env \<Rightarrow> string \<Rightarrow> nat \<Rightarrow> batch \<Rightarrow> salvageResult \<Rightarrow> manager \<Rightarrow> salvageResult \<times> manager" where
  "salvage_rows E tokenBase i [] res m = (res, m)"
| "salvage_rows E tokenBase i (r # rs) res m =
     (let token = (if tokenBase \<noteq> [] then tokenBase @ CHR '':'' # dec_string i else []);
          (err, m) = send E [r] token m
      in case err of
           None \<Rightarrow> salvage_rows E tokenBase (Suc i) rs (res\<lparr>sr_kept := Suc (sr_kept res)\<rparr>) m
         | Some (appendError k) \<Rightarrow> salvage_rows E tokenBase (Suc i) rs (res\<lparr>sr_rejected := Suc (sr_rejected res)\<rparr>) m
         | Some _ \<Rightarrow> salvage_rows E tokenBase (Suc i) rs (res\<lparr>sr_dropped := Suc (sr_dropped res)\<rparr>) m)"

definition salvage :: "env \<Rightarrow> batch \<Rightarrow> string \<Rightarrow> manager \<Rightarrow> salvageResult \<times> manager" where
  "salvage E b tokenBase m =
     (let (res, m) = salvage_rows E tokenBase 0 b \<lparr>sr_kept = 0, sr_rejected = 0, sr_dropped = 0\<rparr> m;
          x = mg_metrics m;
          x = x\<lparr>m_FlowsInserted := m_FlowsInserted x + sr_kept res, m_WriterBatchRows := m_WriterBatchRows x + sr_kept res\<rparr>;
          x = x\<lparr>m_FlowsRejected := m_FlowsRejected x + sr_rejected res\<rparr>
      in (res, m\<lparr>mg_metrics := x\<rparr>))"

text \<open>Running an operation of the spool when there is one; its error is only logged.\<close>

definition on_spool :: "(spool \<Rightarrow> 'a \<times> spool) \<Rightarrow> manager \<Rightarrow> manager" where
  "on_spool f m = (case mg_spool m of None \<Rightarrow> m | Some sp \<Rightarrow> m\<lparr>mg_spool := Some (snd (f sp))\<rparr>)"

definition finishSalvageWAL :: "env \<Rightarrow> string \<Rightarrow> salvageResult \<Rightarrow> manager \<Rightarrow> manager" where
  "finishSalvageWAL E name res m =
     (if sr_dropped res > 0 then on_spool (Ready (e_flt E) name) m
      else if sr_rejected res > 0 then on_spool (Quarantine (e_flt E) name) m
      else on_spool (Done (e_flt E) name) m)"

section \<open>Flush\<close>

text \<open>The write-ahead entry: its name and deduplication token, both empty without one.\<close>

definition flush_begin :: "env \<Rightarrow> batch \<Rightarrow> manager \<Rightarrow> string \<times> string \<times> manager" where
  "flush_begin E b m =
     (case mg_spool m of
        None \<Rightarrow> ([], [], m)
      | Some sp \<Rightarrow>
          (case Begin (e_flt E) (e_gobEncode E) (e_sha E) b sp of
             (Inr name, sp) \<Rightarrow>
               (name, DedupToken name sp,
                m\<lparr>mg_spool := Some sp,
                  mg_metrics := (mg_metrics m)\<lparr>m_SpoolSaved := m_SpoolSaved (mg_metrics m) + length b\<rparr>\<rparr>)
           | (Inl e, sp) \<Rightarrow>
               ([], [], m\<lparr>mg_spool := Some (if e = ErrFull then snd (MarkFull sp) else sp)\<rparr>)))"

definition note_inserted :: "batch \<Rightarrow> manager \<Rightarrow> manager" where
  "note_inserted b m =
     (let x = mg_metrics m
      in m\<lparr>mg_metrics := x\<lparr>m_WriterBatches := Suc (m_WriterBatches x),
             m_WriterBatchRows := m_WriterBatchRows x + length b,
             m_FlowsInserted := m_FlowsInserted x + length b\<rparr>\<rparr>)"

text \<open>
  The loop over the attempts, \<open>n\<close> of them left, \<open>a\<close> the number of the next one.  The result
  tells whether \<open>flush\<close> returns within the loop.
\<close>

fun flush_attempts ::
  "env \<Rightarrow> live \<Rightarrow> batch \<Rightarrow> string \<Rightarrow> string \<Rightarrow> nat \<Rightarrow> nat \<Rightarrow> manager \<Rightarrow> bool \<times> manager" where
  "flush_attempts E l b walName walToken a 0 m = (False, m)"
| "flush_attempts E l b walName walToken a (Suc n) m =
     (case send E b walToken m of
        (None, m) \<Rightarrow>
          let m = note_inserted b m
          in (True, if walName \<noteq> [] then on_spool (Done (e_flt E) walName) m else m)
      | (Some (appendError k), m) \<Rightarrow>
          let (res, m) = salvage E b walToken m
          in (True,
              if walName \<noteq> [] then finishSalvageWAL E walName res m
              else m\<lparr>mg_metrics := (mg_metrics m)\<lparr>m_FlowsDropped := m_FlowsDropped (mg_metrics m) + sr_dropped res\<rparr>\<rparr>)
      | (Some e, m) \<Rightarrow>
          let x = mg_metrics m;
              m = m\<lparr>mg_metrics := x\<lparr>m_WriterRetries := Suc (m_WriterRetries x)\<rparr>,
                    mg_lastErr := Some (e, e_now E (mg_sends m))\<rparr>;
              m = (if n > 0 then m\<lparr>mg_slept := mg_slept m + max 0 (backoff (int a) (l_RetryBackoff l))\<rparr> else m)
          in flush_attempts E l b walName walToken (Suc a) n m)"

definition note_lost :: "batch \<Rightarrow> manager \<Rightarrow> manager" where
  "note_lost b m =
     (let x = mg_metrics m
      in m\<lparr>mg_metrics := x\<lparr>m_SpoolLost := m_SpoolLost x + length b, m_FlowsDropped := m_FlowsDropped x + length b\<rparr>\<rparr>)"

text \<open>What follows the loop: release of the write-ahead entry, the fallback \<open>Save\<close>, or the loss.\<close>

definition flush_exhausted :: "env \<Rightarrow> batch \<Rightarrow> string \<Rightarrow> manager \<Rightarrow> manager" where
  "flush_exhausted E b walName m =
     (let x = mg_metrics m;
          m = m\<lparr>mg_metrics := x\<lparr>m_InsertErrors := Suc (m_InsertErrors x)\<rparr>\<rparr>
      in case mg_spool m of
           None \<Rightarrow> note_lost b m
         | Some sp \<Rightarrow>
             if walName \<noteq> [] then on_spool (Ready (e_flt E) walName) m
             else (case Save (e_flt E) (e_gobEncode E) (e_sha E) b sp of
                     (None, sp) \<Rightarrow>
                       m\<lparr>mg_spool := Some sp,
                         mg_metrics := (mg_metrics m)\<lparr>m_SpoolSaved := m_SpoolSaved (mg_metrics m) + length b\<rparr>\<rparr>
                   | (Some e, sp) \<Rightarrow>
                       note_lost b (m\<lparr>mg_spool := Some (if e = ErrFull then snd (MarkFull sp) else sp)\<rparr>)))"

definition flush :: "env \<Rightarrow> batch \<Rightarrow> manager \<Rightarrow> manager" where
  "flush E b m =
     (let l = e_live E (mg_sends m);
          attempts = (if l_RetryMaxAttempts l < 1 then 1 else l_RetryMaxAttempts l);
          (walName, walToken, m) = flush_begin E b m;
          (returned, m) = flush_attempts E l b walName walToken 1 (nat attempts) m
      in if returned then m else flush_exhausted E b walName m)"

section \<open>Replay\<close>

definition replayMaxAttempts :: nat where "replayMaxAttempts = 10"

definition insertBatch :: "env \<Rightarrow> batch \<Rightarrow> string \<Rightarrow> manager \<Rightarrow> send_error option \<times> manager" where
  "insertBatch E b token m = (if b = [] then (None, m) else send E b token m)"

text \<open>
  The inner loop of \<open>replay\<close>.  The map \<open>fails\<close> counts the failures of a batch; the result of a
  round says whether the loop goes on.  The gauges are left out, and so is the check for the end
  of the collector after a round.  First the round of a batch that was inserted, of one that was
  salvaged, and of one that was refused.
\<close>

type_synonym replay_state = "(string \<Rightarrow> nat) \<times> manager"

definition replay_inserted :: "env \<Rightarrow> string \<Rightarrow> batch \<Rightarrow> spool \<Rightarrow> replay_state \<Rightarrow> bool \<times> replay_state" where
  "replay_inserted E name b sp = (\<lambda>(fails, m).
     let x = mg_metrics m;
         m = m\<lparr>mg_metrics := x\<lparr>m_SpoolReplayed := m_SpoolReplayed x + length b,
                               m_FlowsInserted := m_FlowsInserted x + length b\<rparr>\<rparr>;
         (derr, sp) = Done (e_flt E) name sp
     in (derr = None, fails(name := 0), m\<lparr>mg_spool := Some sp\<rparr>))"

definition replay_salvaged :: "env \<Rightarrow> string \<Rightarrow> salvageResult \<Rightarrow> spool \<Rightarrow> replay_state \<Rightarrow> bool \<times> replay_state" where
  "replay_salvaged E name res sp = (\<lambda>(fails, m).
     let x = mg_metrics m;
         m = m\<lparr>mg_metrics := x\<lparr>m_SpoolReplayed := m_SpoolReplayed x + sr_kept res\<rparr>\<rparr>;
         (err, sp) = (if sr_rejected res > 0 then Quarantine (e_flt E) name sp else Done (e_flt E) name sp)
     in (err = None, fails(name := 0), m\<lparr>mg_spool := Some sp\<rparr>))"

definition replay_refused :: "env \<Rightarrow> string \<Rightarrow> spool \<Rightarrow> replay_state \<Rightarrow> bool \<times> replay_state" where
  "replay_refused E name sp = (\<lambda>(fails, m).
     let fails = fails(name := Suc (fails name)) in
     if fails name \<ge> replayMaxAttempts then
       let (qerr, sp) = Quarantine (e_flt E) name sp;
           m = m\<lparr>mg_spool := Some sp\<rparr>
       in if qerr \<noteq> None then (False, fails, m) else (True, fails(name := 0), m)
     else (False, fails, m))"

definition replay_step :: "env \<Rightarrow> replay_state \<Rightarrow> bool \<times> replay_state" where
  "replay_step E = (\<lambda>(fails, m).
     case mg_spool m of None \<Rightarrow> (False, fails, m) | Some sp0 \<Rightarrow>
     if fst (Stats sp0) = 0 then (False, fails, m)
     else case Oldest (e_flt E) (e_gobDecode E) (e_sha E) sp0 of ((name, b, ok, err), sp) \<Rightarrow>
     let m = m\<lparr>mg_spool := Some sp\<rparr> in
     if err \<noteq> None then (False, fails, if name \<noteq> [] then on_spool (Quarantine (e_flt E) name) m else m)
     else if \<not> ok then (False, fails, m)
     else
       let token = DedupToken name sp in
       case insertBatch E b token m of
         (None, m) \<Rightarrow> replay_inserted E name b sp (fails, m)
       | (Some (appendError k), m) \<Rightarrow>
           let (res, m) = salvage E b token m
           in if sr_dropped res = 0 then replay_salvaged E name res sp (fails, m)
              else replay_refused E name sp (fails, m)
       | (Some e, m) \<Rightarrow> replay_refused E name sp (fails, m))"

text \<open>The rounds of one tick; \<open>None\<close> when the fuel does not reach the end of the loop.\<close>

fun replay_tick :: "nat \<Rightarrow> env \<Rightarrow> replay_state \<Rightarrow> replay_state option" where
  "replay_tick 0 E st = None"
| "replay_tick (Suc n) E st =
     (case replay_step E st of (True, st) \<Rightarrow> replay_tick n E st | (False, st) \<Rightarrow> Some st)"

section \<open>Inserts\<close>

text \<open>The rows in the table, in the order of their arrival.\<close>

definition stored :: "manager \<Rightarrow> row list" where
  "stored m = concat (map fst (mg_table m))"

text \<open>Everything but the table, the connection and the number of sends is as before.\<close>

definition same_side :: "manager \<Rightarrow> manager \<Rightarrow> bool" where
  "same_side m m' \<longleftrightarrow> mg_spool m' = mg_spool m \<and> mg_metrics m' = mg_metrics m"

lemma stored_simps [simp]:
  "stored (m\<lparr>mg_spool := x\<rparr>) = stored m" "stored (m\<lparr>mg_metrics := y\<rparr>) = stored m"
  "stored (m\<lparr>mg_lastErr := z\<rparr>) = stored m" "stored (m\<lparr>mg_slept := w\<rparr>) = stored m"
  "stored (m\<lparr>mg_conn := c\<rparr>) = stored m" "stored (m\<lparr>mg_sends := n\<rparr>) = stored m"
  "stored (store_rows b stg m) = stored m @ map row_of b" "stored (on_spool f m) = stored m"
  by (simp_all add: stored_def store_rows_def on_spool_def split: option.splits)

lemma connection_effect: "connection E i m = (ok, m') \<Longrightarrow> same_side m m' \<and> stored m' = stored m"
  by (auto simp: connection_def same_side_def split: if_splits)

lemma send_effect:
  assumes "send E b t m = (r, m')"
  shows "same_side m m' \<and> (\<exists>xs. stored m' = stored m @ xs \<and> xs \<in> {[], map row_of b} \<and> (r = None \<longrightarrow> xs = map row_of b))"
proof -
  obtain ok m1 where c: "connection E (mg_sends m) (m\<lparr>mg_sends := Suc (mg_sends m)\<rparr>) = (ok, m1)" by (meson surj_pair)
  then have "same_side m m1" "stored m1 = stored m"
    using connection_effect [OF c] by (simp_all add: same_side_def)
  then show ?thesis using assms c
    by (auto simp: send_def Let_def same_side_def store_rows_def [of _ _ m1]
        stored_simps(7) [unfolded store_rows_def] split: if_splits option.splits)
qed

lemma salvage_rows_effect:
  assumes "salvage_rows E t i rs res m = (res', m')"
  shows "same_side m m' \<and> sr_kept res \<le> sr_kept res' \<and> sr_rejected res \<le> sr_rejected res' \<and> sr_dropped res \<le> sr_dropped res'
    \<and> sr_kept res' + sr_rejected res' + sr_dropped res' = sr_kept res + sr_rejected res + sr_dropped res + length rs
    \<and> (\<exists>xs. stored m' = stored m @ xs \<and> set xs \<subseteq> row_of ` set rs \<and> sr_kept res' \<le> sr_kept res + length xs
         \<and> (sr_rejected res' = sr_rejected res \<and> sr_dropped res' = sr_dropped res \<longrightarrow> set xs = row_of ` set rs))"
  using assms
proof (induction rs arbitrary: i res m)
  case (Cons r rs)
  define t' where "t' = (if t \<noteq> [] then t @ CHR '':'' # dec_string i else [])"
  obtain err m1 where s: "send E [r] t' m = (err, m1)" by (meson surj_pair)
  obtain xs where xs: "same_side m m1" "stored m1 = stored m @ xs" "xs \<in> {[], [row_of r]}" "err = None \<longrightarrow> xs = [row_of r]"
    using send_effect [OF s] by auto
  define res1 where "res1 = (case err of None \<Rightarrow> res\<lparr>sr_kept := Suc (sr_kept res)\<rparr>
    | Some (appendError k) \<Rightarrow> res\<lparr>sr_rejected := Suc (sr_rejected res)\<rparr>
    | Some _ \<Rightarrow> res\<lparr>sr_dropped := Suc (sr_dropped res)\<rparr>)"
  have eq: "salvage_rows E t (Suc i) rs res1 m1 = (res', m')"
    using Cons.prems s by (auto simp: res1_def t'_def split: option.splits send_error.splits)
  note IH = Cons.IH [OF eq]
  then obtain ys where ys: "stored m' = stored m1 @ ys" "set ys \<subseteq> row_of ` set rs" "sr_kept res' \<le> sr_kept res1 + length ys"
    "sr_rejected res' = sr_rejected res1 \<and> sr_dropped res' = sr_dropped res1 \<longrightarrow> set ys = row_of ` set rs" by blast
  have res1: "sr_kept res1 = sr_kept res + (if err = None then 1 else 0)"
    "sr_kept res1 + sr_rejected res1 + sr_dropped res1 = Suc (sr_kept res + sr_rejected res + sr_dropped res)"
    "sr_rejected res \<le> sr_rejected res1" "sr_dropped res \<le> sr_dropped res1"
    "err \<noteq> None \<Longrightarrow> sr_rejected res < sr_rejected res1 \<or> sr_dropped res < sr_dropped res1"
    by (auto simp: res1_def split: option.splits send_error.splits)
  have "\<exists>zs. stored m' = stored m @ zs \<and> set zs \<subseteq> row_of ` set (r # rs) \<and> sr_kept res' \<le> sr_kept res + length zs
    \<and> (sr_rejected res' = sr_rejected res \<and> sr_dropped res' = sr_dropped res \<longrightarrow> set zs = row_of ` set (r # rs))"
  proof (intro exI conjI impI)
    show "stored m' = stored m @ (xs @ ys)" using xs(2) ys(1) by simp
    show "set (xs @ ys) \<subseteq> row_of ` set (r # rs)" using xs(3) ys(2) by auto
    show "sr_kept res' \<le> sr_kept res + length (xs @ ys)" using ys(3) res1(1) xs(4) by (auto split: if_splits)
    assume a: "sr_rejected res' = sr_rejected res \<and> sr_dropped res' = sr_dropped res"
    then have "err = None" "sr_rejected res' = sr_rejected res1 \<and> sr_dropped res' = sr_dropped res1"
      using IH res1(3-5) by (fastforce, linarith)
    then show "set (xs @ ys) = row_of ` set (r # rs)" using xs(4) ys(4) by auto
  qed
  moreover have "same_side m m'" using IH xs(1) by (simp add: same_side_def)
  ultimately show ?case using IH res1(1-4) by auto
qed (simp add: same_side_def)

text \<open>The counters of inserted, rejected and dropped rows, as a triple.\<close>

definition counts :: "manager \<Rightarrow> nat \<times> nat \<times> nat" where
  "counts m = (m_FlowsInserted (mg_metrics m), m_FlowsRejected (mg_metrics m), m_FlowsDropped (mg_metrics m))"

lemma salvage_effect:
  assumes "salvage E b t m = (res, m')" and "counts m = (i, j, d)"
  shows "mg_spool m' = mg_spool m \<and> counts m' = (i + sr_kept res, j + sr_rejected res, d)
    \<and> sr_kept res + sr_rejected res + sr_dropped res = length b
    \<and> (\<exists>xs. stored m' = stored m @ xs \<and> sr_kept res \<le> length xs
         \<and> (sr_rejected res = 0 \<and> sr_dropped res = 0 \<longrightarrow> row_of ` set b \<subseteq> set xs))"
proof -
  obtain m1 where s: "salvage_rows E t 0 b \<lparr>sr_kept = 0, sr_rejected = 0, sr_dropped = 0\<rparr> m = (res, m1)"
    using assms(1) by (auto simp: salvage_def Let_def split: prod.splits)
  show ?thesis using assms s salvage_rows_effect [OF s]
    by (auto simp: salvage_def Let_def counts_def same_side_def)
qed

section \<open>The flush of a batch\<close>

text \<open>What a returning attempt does to the write-ahead entry: \<open>x\<close> rows unsent, \<open>r\<close> rejected.\<close>

definition settle :: "env \<Rightarrow> string \<Rightarrow> nat \<Rightarrow> nat \<Rightarrow> spool \<Rightarrow> spool" where
  "settle E w r x sp =
     snd (if x > 0 then Ready (e_flt E) w sp else if r > 0 then Quarantine (e_flt E) w sp else Done (e_flt E) w sp)"

text \<open>\<open>k\<close> rows inserted, \<open>r\<close> rejected and \<open>x\<close> unsent, and the rows \<open>xs\<close> added to the table.\<close>

definition returned ::
  "env \<Rightarrow> batch \<Rightarrow> string \<Rightarrow> manager \<Rightarrow> row list \<Rightarrow> nat \<Rightarrow> nat \<Rightarrow> nat \<Rightarrow> manager \<Rightarrow> bool" where
  "returned E b w m xs k r x m' \<longleftrightarrow>
     (case counts m of (i, j, d) \<Rightarrow>
        k + r + x = length b \<and> counts m' = (i + k, j + r, if w = [] then d + x else d)
        \<and> k \<le> length xs \<and> (r = 0 \<and> x = 0 \<longrightarrow> row_of ` set b \<subseteq> set xs)
        \<and> mg_spool m' = (if w = [] then mg_spool m else map_option (settle E w r x) (mg_spool m)))"

lemma counts_simps [simp]:
  "counts (m\<lparr>mg_spool := x\<rparr>) = counts m" "counts (m\<lparr>mg_lastErr := z\<rparr>) = counts m"
  "counts (m\<lparr>mg_slept := w\<rparr>) = counts m" "counts (on_spool f m) = counts m"
  by (simp_all add: counts_def on_spool_def split: option.splits)

lemma same_side_counts: "same_side m m' \<Longrightarrow> counts m' = counts m"
  by (simp add: same_side_def counts_def)

lemma mg_spool_on_spool [simp]: "mg_spool (on_spool f m) = map_option (\<lambda>sp. snd (f sp)) (mg_spool m)"
  by (simp add: on_spool_def split: option.splits)

lemma finishSalvageWAL_effect:
  "stored (finishSalvageWAL E w res m) = stored m" "counts (finishSalvageWAL E w res m) = counts m"
  "mg_spool (finishSalvageWAL E w res m) = map_option (settle E w (sr_rejected res) (sr_dropped res)) (mg_spool m)"
  by (simp add: finishSalvageWAL_def, simp add: finishSalvageWAL_def)
    (cases "mg_spool m"; simp add: finishSalvageWAL_def settle_def)

lemma note_inserted_effect [simp]:
  "stored (note_inserted b m) = stored m" "mg_spool (note_inserted b m) = mg_spool m"
  "counts m = (i, j, d) \<Longrightarrow> counts (note_inserted b m) = (i + length b, j, d)"
  by (simp_all add: note_inserted_def Let_def counts_def)

lemma flush_attempts_effect:
  assumes "flush_attempts E l b w t a n m = (ret, m')"
  shows "\<exists>xs. stored m' = stored m @ xs \<and>
    (if ret then \<exists>k r x. returned E b w m xs k r x m' else mg_spool m' = mg_spool m \<and> counts m' = counts m)"
  using assms
proof (induction n arbitrary: a m)
  case (Suc n)
  obtain i j d where cnt: "counts m = (i, j, d)" by (metis surj_pair)
  obtain err m1 where s: "send E b t m = (err, m1)" by (meson surj_pair)
  obtain xs where xs: "same_side m m1" "stored m1 = stored m @ xs" "err = None \<longrightarrow> xs = map row_of b"
    using send_effect [OF s] by auto
  have sp: "mg_spool m1 = mg_spool m" "counts m1 = (i, j, d)"
    using xs(1) same_side_counts [OF xs(1)] cnt by (simp_all add: same_side_def)
  consider "err = None" | k where "err = Some (appendError k)" | e where "err = Some e" "\<forall>k. e \<noteq> appendError k"
  proof (cases err)
    case (Some e)
    then show ?thesis using that by (cases "\<exists>k. e = appendError k") blast+
  qed
  then show ?case
  proof cases
    case 1
    then have m': "ret" "m' = (if w \<noteq> [] then on_spool (Done (e_flt E) w) (note_inserted b m1) else note_inserted b m1)"
      using Suc.prems s by (auto simp: Let_def)
    have "returned E b w m xs (length b) 0 0 m'"
      using xs(3) 1 cnt sp note_inserted_effect(3) [OF sp(2), of b] by (auto simp: m' returned_def settle_def cong: map_option_cong)
    then have "\<exists>k r x. returned E b w m xs k r x m'" by blast
    moreover have "stored m' = stored m @ xs" using m' xs(2) by simp
    ultimately show ?thesis using m'(1) by simp
  next
    case 2
    obtain res m2 where sv: "salvage E b t m1 = (res, m2)" by (meson surj_pair)
    obtain ys where ys: "stored m2 = stored m1 @ ys" "mg_spool m2 = mg_spool m1"
      "counts m2 = (i + sr_kept res, j + sr_rejected res, d)" "sr_kept res + sr_rejected res + sr_dropped res = length b"
      "sr_kept res \<le> length ys" "sr_rejected res = 0 \<and> sr_dropped res = 0 \<longrightarrow> row_of ` set b \<subseteq> set ys"
      using salvage_effect [OF sv sp(2)] by blast
    have m': "ret" "m' = (if w \<noteq> [] then finishSalvageWAL E w res m2
        else m2\<lparr>mg_metrics := (mg_metrics m2)\<lparr>m_FlowsDropped := m_FlowsDropped (mg_metrics m2) + sr_dropped res\<rparr>\<rparr>)"
      using Suc.prems s 2 sv by (auto simp: Let_def)
    have "returned E b w m (xs @ ys) (sr_kept res) (sr_rejected res) (sr_dropped res) m'"
    proof (cases "w = []")
      case True
      then show ?thesis using ys cnt sp by (auto simp: m' returned_def counts_def)
    next
      case False
      then show ?thesis using ys cnt sp by (auto simp: m' returned_def finishSalvageWAL_effect)
    qed
    then have "\<exists>k r x. returned E b w m (xs @ ys) k r x m'" by blast
    moreover have "stored m' = stored m @ (xs @ ys)" using xs(2) ys(1) m' by (simp add: finishSalvageWAL_effect)
    ultimately show ?thesis using m'(1) by (intro exI [of _ "xs @ ys"]) simp
  next
    case 3
    define m2 where "m2 = m1\<lparr>mg_metrics := (mg_metrics m1)\<lparr>m_WriterRetries := Suc (m_WriterRetries (mg_metrics m1))\<rparr>,
      mg_lastErr := Some (e, e_now E (mg_sends m1))\<rparr>"
    define m3 where "m3 = (if n > 0 then m2\<lparr>mg_slept := mg_slept m2 + max 0 (backoff (int a) (l_RetryBackoff l))\<rparr> else m2)"
    have "flush_attempts E l b w t (Suc a) n m3 = (ret, m')"
      using Suc.prems s 3 by (auto simp: Let_def m2_def m3_def split: send_error.splits)
    from Suc.IH [OF this] obtain ys where ys: "stored m' = stored m3 @ ys"
      "if ret then \<exists>k r x. returned E b w m3 ys k r x m' else mg_spool m' = mg_spool m3 \<and> counts m' = counts m3" by blast
    have m3: "stored m3 = stored m @ xs" "mg_spool m3 = mg_spool m" "counts m3 = (i, j, d)"
      using sp xs(2) by (simp_all add: m3_def m2_def) (simp_all add: counts_def)
    have grow: "returned E b w m3 ys k r x m' \<Longrightarrow> returned E b w m (xs @ ys) k r x m'" for k r x
      using cnt m3 by (auto simp: returned_def)
    have "if ret then \<exists>k r x. returned E b w m (xs @ ys) k r x m' else mg_spool m' = mg_spool m \<and> counts m' = counts m"
      using ys(2) grow m3(2,3) cnt by (cases ret) (simp, blast, simp)
    then show ?thesis using ys(1) m3(1) by (intro exI [of _ "xs @ ys"]) simp
  qed
qed auto

lemma held_full [simp]: "held (snd (MarkFull sp)) n c = held sp n c" "spool_inv k (snd (MarkFull sp)) = spool_inv k sp"
  by (simp_all add: MarkFull_def held_def spool_inv_def)

text \<open>The log after the start of a flush, with the entry \<open>w\<close> of the batch when \<open>w\<close> is not empty.\<close>

definition entry_of :: "env \<Rightarrow> batch \<Rightarrow> string \<Rightarrow> spool \<Rightarrow> bool" where
  "entry_of E b w sp \<longleftrightarrow> HasSuffix w fileExt \<and> (\<exists>c. encodeBatch (e_gobEncode E) (e_sha E) b = Some c \<and> held sp w c)"

lemma flush_begin_effect:
  assumes "flush_begin E b m = (w, t, m1)" and "mg_spool m = Some sp" and "spool_inv (Suc k) sp" and "b \<noteq> []"
  shows "stored m1 = stored m \<and> counts m1 = counts m \<and> (\<exists>sp1. mg_spool m1 = Some sp1 \<and> spool_inv k sp1
    \<and> (\<forall>n c. held sp n c \<longrightarrow> held sp1 n c \<and> n \<noteq> w) \<and> (w \<noteq> [] \<longrightarrow> entry_of E b w sp1))"
proof -
  obtain r sp1 where b: "Begin (e_flt E) (e_gobEncode E) (e_sha E) b sp = (r, sp1)" by (meson surj_pair)
  note inv = Begin_inv [OF assms(3) b] and held = Begin_held [OF assms(3) b]
  show ?thesis
  proof (cases r)
    case (Inl e)
    have "held sp n c \<Longrightarrow> n \<noteq> []" for n c by (auto simp: held_def HasSuffix_iff fileExt_def)
    with Inl assms(1,2) b inv held show ?thesis by (auto simp: flush_begin_def counts_def)
  next
    case (Inr name)
    have ne: "name \<noteq> []" using Begin_effect [OF b] Inr assms(4) by (auto simp: Let_def)
    have new: "\<exists>c. encodeBatch (e_gobEncode E) (e_sha E) b = Some c \<and> held sp1 name c" "name = batch_name (sp_seq sp + 1)"
      using Begin_new [OF b [unfolded Inr] ne] by auto
    have "\<not> held sp name c" for c
      using new(2) assms(3) seq_next(1) [of "sp_seq sp" k] by (auto simp: spool_inv_def)
    then have "held sp n c \<Longrightarrow> n \<noteq> name" for n c by auto
    moreover have "entry_of E b name sp1" using new by (simp add: entry_of_def)
    ultimately show ?thesis using Inr assms(1,2) b inv held by (auto simp: flush_begin_def counts_def)
  qed
qed

lemma settle_keeps:
  assumes "spool_inv k sp" and "HasSuffix w fileExt"
  shows "spool_inv k (settle E w r x sp)" and "n \<noteq> w \<or> r + x > 0 \<Longrightarrow> held (settle E w r x sp) n c = held sp n c"
proof -
  obtain a1 s1 where 1: "Ready (e_flt E) w sp = (a1, s1)" by (meson surj_pair)
  obtain a2 s2 where 2: "Quarantine (e_flt E) w sp = (a2, s2)" by (meson surj_pair)
  obtain a3 s3 where 3: "Done (e_flt E) w sp = (a3, s3)" by (meson surj_pair)
  note k = Ready_keeps [OF 1 assms(1)] Quarantine_keeps [OF 2 assms] Done_keeps [OF 3 assms]
  show "spool_inv k (settle E w r x sp)" using k assms(2) 1 2 3 by (simp add: settle_def)
  show "held (settle E w r x sp) n c = held sp n c" if "n \<noteq> w \<or> r + x > 0"
    using that k assms(2) 1 2 3 by (auto simp: settle_def)
qed

text \<open>A stored copy of the batch in the log.\<close>

definition spooled :: "env \<Rightarrow> batch \<Rightarrow> manager \<Rightarrow> bool" where
  "spooled E b m \<longleftrightarrow> (\<exists>sp n c. mg_spool m = Some sp \<and> encodeBatch (e_gobEncode E) (e_sha E) b = Some c \<and> held sp n c)"

text \<open>Every row of the batch is counted: inserted, rejected or dropped; all inserted ones are in the table.\<close>

definition accounted :: "batch \<Rightarrow> manager \<Rightarrow> manager \<Rightarrow> bool" where
  "accounted b m m' \<longleftrightarrow>
     (case (counts m, counts m') of ((i, j, d), (i', j', d')) \<Rightarrow>
        i' + j' + d' = i + j + d + length b \<and> (j' = j \<and> d' = d \<longrightarrow> row_of ` set b \<subseteq> set (stored m')))"

lemma flush_exhausted_effect:
  assumes "m' = flush_exhausted E b w m" and "b \<noteq> []"
    and "\<forall>sp. mg_spool m = Some sp \<longrightarrow> spool_inv (Suc k) sp \<and> (w \<noteq> [] \<longrightarrow> entry_of E b w sp)"
    and "mg_spool m = None \<longrightarrow> w = []"
  shows "stored m' = stored m"
    and "mg_spool m = Some sp \<Longrightarrow> \<exists>sp'. mg_spool m' = Some sp' \<and> spool_inv k sp' \<and> (\<forall>n c. held sp n c \<longrightarrow> held sp' n c)"
    and "spooled E b m' \<and> counts m' = counts m \<or> w = [] \<and> accounted b m m'"
    and "fst (counts m') = fst (counts m)"
proof -
  define m0 where "m0 = m\<lparr>mg_metrics := (mg_metrics m)\<lparr>m_InsertErrors := Suc (m_InsertErrors (mg_metrics m))\<rparr>\<rparr>"
  have m0: "mg_spool m0 = mg_spool m" "stored m0 = stored m" "counts m0 = counts m" by (simp_all add: m0_def counts_def)
  have lost: "stored (note_lost b x) = stored x" "mg_spool (note_lost b x) = mg_spool x"
    "counts (note_lost b x) = (case counts x of (i, j, d) \<Rightarrow> (i, j, d + length b))" for x
    by (simp_all add: note_lost_def Let_def counts_def)
  have lost_acc: "accounted b m (note_lost b x)" if "counts x = counts m" for x
    using that assms(2) by (auto simp: accounted_def lost split: prod.splits)
  obtain r sp1 where sv: "Save (e_flt E) (e_gobEncode E) (e_sha E) b sp = (r, sp1)" by (meson surj_pair)
  obtain a sp2 where rd: "Ready (e_flt E) w sp = (a, sp2)" by (meson surj_pair)
  have unfold_ex: "m' = (case mg_spool m of None \<Rightarrow> note_lost b m0 | Some sp \<Rightarrow>
      if w \<noteq> [] then on_spool (Ready (e_flt E) w) m0
      else (case Save (e_flt E) (e_gobEncode E) (e_sha E) b sp of
        (None, sp) \<Rightarrow> m0\<lparr>mg_spool := Some sp, mg_metrics := (mg_metrics m0)\<lparr>m_SpoolSaved := m_SpoolSaved (mg_metrics m0) + length b\<rparr>\<rparr>
      | (Some e, sp) \<Rightarrow> note_lost b (m0\<lparr>mg_spool := Some (if e = ErrFull then snd (MarkFull sp) else sp)\<rparr>)))"
    by (simp only: assms(1) flush_exhausted_def Let_def m0_def [symmetric] m0(1))
  consider (none) "mg_spool m = None" | (wal) "mg_spool m \<noteq> None" "w \<noteq> []"
    | (saved) "mg_spool m \<noteq> None" "w = []" by auto
  note cs = this
  show "stored m' = stored m"
    using cs by cases (auto simp: unfold_ex lost m0 split: prod.splits option.splits)
  have saved_counts: "counts (m0\<lparr>mg_spool := x, mg_metrics := (mg_metrics m0)\<lparr>m_SpoolSaved := y\<rparr>\<rparr>) = counts m" for x y
    using m0(3) by (simp add: counts_def)
  show "fst (counts m') = fst (counts m)"
    using cs by cases (auto simp: unfold_ex lost m0 saved_counts split: prod.splits option.splits)
  show "\<exists>sp'. mg_spool m' = Some sp' \<and> spool_inv k sp' \<and> (\<forall>n c. held sp n c \<longrightarrow> held sp' n c)" if sp: "mg_spool m = Some sp"
  proof (cases "w = []")
    case True
    note keep = Save_keeps(1,2) [OF sv conjunct1 [OF assms(3) [rule_format, OF sp]]]
    show ?thesis using sp True sv keep by (auto simp: unfold_ex lost split: option.splits)
  next
    case False
    have "spool_inv k sp" "HasSuffix w fileExt" using assms(3) [rule_format, OF sp] False spool_inv_weaken by (auto simp: entry_of_def)
    then show ?thesis using Ready_keeps [OF rd, of k] sp False rd by (simp add: unfold_ex m0)
  qed
  show "spooled E b m' \<and> counts m' = counts m \<or> w = [] \<and> accounted b m m'"
    using cs
  proof cases
    case none
    then show ?thesis using assms(4) lost_acc [OF m0(3)] by (simp add: unfold_ex)
  next
    case wal
    then obtain sp where sp: "mg_spool m = Some sp" by auto
    obtain a sp2 where rd: "Ready (e_flt E) w sp = (a, sp2)" by (meson surj_pair)
    from assms(3) [rule_format, OF sp] wal(2) have "spool_inv (Suc k) sp" and en: "entry_of E b w sp" by auto
    then have "entry_of E b w sp2" using Ready_keeps(1) [OF rd, of "Suc k"] by (auto simp: entry_of_def)
    moreover have "mg_spool m' = Some sp2" "counts m' = counts m" using sp wal(2) rd by (simp_all add: unfold_ex m0)
    ultimately show ?thesis by (auto simp: entry_of_def spooled_def)
  next
    case saved
    then obtain sp where sp: "mg_spool m = Some sp" by auto
    obtain r sp1 where sv: "Save (e_flt E) (e_gobEncode E) (e_sha E) b sp = (r, sp1)" by (meson surj_pair)
    show ?thesis
    proof (cases r)
      case None
      with sp saved(2) sv have "mg_spool m' = Some sp1" "counts m' = counts m"
        by (simp add: unfold_ex, simp add: unfold_ex saved_counts)
      moreover have "\<exists>n c. encodeBatch (e_gobEncode E) (e_sha E) b = Some c \<and> held sp1 n c"
        using Save_keeps(3) [OF sv conjunct1 [OF assms(3) [rule_format, OF sp]] None assms(2)] .
      ultimately show ?thesis by (auto simp: spooled_def)
    next
      case (Some e)
      with sp saved(2) sv show ?thesis by (simp add: unfold_ex lost_acc m0)
    qed
  qed
qed

text \<open>A flush with a log, and one without.\<close>

lemma flush_logged:
  assumes "b \<noteq> []" and "mg_spool m = Some sp" and "spool_inv 2 sp" and "m' = flush E b m"
  shows "\<exists>sp'. mg_spool m' = Some sp' \<and> spool_inv 0 sp' \<and> (\<forall>n c. held sp n c \<longrightarrow> held sp' n c)"
    and "spooled E b m' \<or> accounted b m m'"
    and "fst (flush_begin E b m) \<noteq> [] \<Longrightarrow> snd (snd (counts m')) = snd (snd (counts m)) \<and> (spooled E b m' \<or> row_of ` set b \<subseteq> set (stored m'))"
    and "\<exists>xs. stored m' = stored m @ xs \<and> fst (counts m') \<le> fst (counts m) + length xs"
proof -
  define l where "l = e_live E (mg_sends m)"
  define n where "n = nat (if l_RetryMaxAttempts l < 1 then 1 else l_RetryMaxAttempts l)"
  obtain w t m1 where fb: "flush_begin E b m = (w, t, m1)" by (metis surj_pair)
  have inv: "spool_inv (Suc 1) sp" using assms(3) by (simp add: numeral_2_eq_2)
  obtain sp1 where m1: "stored m1 = stored m" "counts m1 = counts m" "mg_spool m1 = Some sp1" "spool_inv 1 sp1"
    and kept: "\<And>n c. held sp n c \<Longrightarrow> held sp1 n c \<and> n \<noteq> w" and entry: "w \<noteq> [] \<Longrightarrow> entry_of E b w sp1"
    using flush_begin_effect [OF fb assms(2) inv assms(1)] by auto
  obtain ret m2 where fa: "flush_attempts E l b w t 1 n m1 = (ret, m2)" by (meson surj_pair)
  have m': "m' = (if ret then m2 else flush_exhausted E b w m2)"
    by (simp only: assms(4) flush_def Let_def fb fa prod.case l_def [symmetric] n_def [symmetric])
  obtain xs where xs: "stored m2 = stored m1 @ xs"
    "if ret then \<exists>k r x. returned E b w m1 xs k r x m2 else mg_spool m2 = mg_spool m1 \<and> counts m2 = counts m1"
    using flush_attempts_effect [OF fa] by auto
  obtain i j d where cnt: "counts m = (i, j, d)" by (metis surj_pair)
  have goal: "(\<exists>sp'. mg_spool m' = Some sp' \<and> spool_inv 0 sp' \<and> (\<forall>n c. held sp n c \<longrightarrow> held sp' n c))
    \<and> (spooled E b m' \<or> accounted b m m')
    \<and> (w \<noteq> [] \<longrightarrow> snd (snd (counts m')) = snd (snd (counts m)) \<and> (spooled E b m' \<or> row_of ` set b \<subseteq> set (stored m')))
    \<and> (stored m' = stored m @ xs \<and> fst (counts m') \<le> fst (counts m) + length xs)"
  proof (cases ret)
    case True
    then have eq: "m' = m2" using m' by simp
    obtain k r x where ret: "returned E b w m1 xs k r x m2" using xs(2) True by auto
    show ?thesis
    proof (cases "w = []")
      case True
      then show ?thesis
        using ret m1 cnt kept xs(1) spool_inv_weaken [of 0 sp1] unfolding eq by (auto simp: returned_def accounted_def)
    next
      case False
      have sp': "mg_spool m' = Some (settle E w r x sp1)" and c': "counts m' = (i + k, j + r, d)" "k \<le> length xs"
        and sum: "k + r + x = length b" and all: "r = 0 \<and> x = 0 \<longrightarrow> row_of ` set b \<subseteq> set (stored m')"
        using ret False m1 cnt xs(1) unfolding eq by (auto simp: returned_def)
      have suf: "HasSuffix w fileExt" using entry [OF False] by (simp add: entry_of_def)
      note keep = settle_keeps [OF m1(4) suf, where E = E and r = r and x = x]
      have sp2: "spool_inv 0 (settle E w r x sp1)" "\<And>n c. held sp n c \<Longrightarrow> held (settle E w r x sp1) n c"
        using keep kept spool_inv_weaken by auto
      have "spooled E b m'" if "r + x > 0"
        using entry [OF False] keep(2) that sp' by (auto simp: entry_of_def spooled_def)
      moreover have "accounted b m m'" if "r = 0 \<and> x = 0"
        using that all sum cnt c' by (auto simp: accounted_def)
      moreover have "r + x > 0 \<or> r = 0 \<and> x = 0" by auto
      ultimately have "spooled E b m' \<or> accounted b m m' \<and> row_of ` set b \<subseteq> set (stored m')" using all by blast
      then show ?thesis using sp' sp2 c' cnt m1(1) xs(1) eq by auto
    qed
  next
    case False
    then have eq: "m' = flush_exhausted E b w m2" and m2: "mg_spool m2 = Some sp1" "counts m2 = counts m" "stored m2 = stored m @ xs"
      using m' xs m1 by auto
    have 1: "\<forall>sp. mg_spool m2 = Some sp \<longrightarrow> spool_inv (Suc 0) sp \<and> (w \<noteq> [] \<longrightarrow> entry_of E b w sp)"
      using m2(1) m1(4) entry by auto
    have 2: "mg_spool m2 = None \<longrightarrow> w = []" using m2(1) by simp
    note ex = flush_exhausted_effect [OF eq assms(1) 1 2]
    have "spooled E b m' \<and> counts m' = counts m \<or> w = [] \<and> accounted b m m'"
      using ex(3) m2(2) by (simp add: accounted_def)
    then show ?thesis using ex(1,4) ex(2) [OF m2(1)] kept m2 by auto
  qed
  then show "\<exists>sp'. mg_spool m' = Some sp' \<and> spool_inv 0 sp' \<and> (\<forall>n c. held sp n c \<longrightarrow> held sp' n c)"
    and "spooled E b m' \<or> accounted b m m'" by blast+
  show "\<exists>xs. stored m' = stored m @ xs \<and> fst (counts m') \<le> fst (counts m) + length xs" using goal by blast
  show "snd (snd (counts m')) = snd (snd (counts m)) \<and> (spooled E b m' \<or> row_of ` set b \<subseteq> set (stored m'))"
    if "fst (flush_begin E b m) \<noteq> []"
  proof -
    have "w \<noteq> []" using that fb by simp
    then show ?thesis using goal by blast
  qed
qed

lemma flush_unlogged:
  assumes "b \<noteq> []" and "mg_spool m = None" and "m' = flush E b m"
  shows "mg_spool m' = None" and "accounted b m m'"
    and "\<exists>xs. stored m' = stored m @ xs \<and> fst (counts m') \<le> fst (counts m) + length xs"
proof -
  define l where "l = e_live E (mg_sends m)"
  define n where "n = nat (if l_RetryMaxAttempts l < 1 then 1 else l_RetryMaxAttempts l)"
  have fb: "flush_begin E b m = ([], [], m)" using assms(2) by (simp add: flush_begin_def)
  obtain ret m2 where fa: "flush_attempts E l b [] [] 1 n m = (ret, m2)" by (meson surj_pair)
  have m': "m' = (if ret then m2 else flush_exhausted E b [] m2)"
    by (simp only: assms(2,3) flush_def Let_def fb fa prod.case l_def [symmetric] n_def [symmetric])
  obtain xs where xs: "stored m2 = stored m @ xs"
    "if ret then \<exists>k r x. returned E b [] m xs k r x m2 else mg_spool m2 = mg_spool m \<and> counts m2 = counts m"
    using flush_attempts_effect [OF fa] by auto
  have "mg_spool m' = None \<and> accounted b m m' \<and> stored m' = stored m @ xs \<and> fst (counts m') \<le> fst (counts m) + length xs"
  proof (cases ret)
    case True
    then show ?thesis using m' xs assms(2) by (auto simp: returned_def accounted_def)
  next
    case False
    then have m2: "mg_spool m2 = None" "counts m2 = counts m" using xs assms(2) by auto
    have x: "counts (m2\<lparr>mg_metrics := (mg_metrics m2)\<lparr>m_InsertErrors := y, m_SpoolLost := z, m_FlowsDropped := u\<rparr>\<rparr>)
      = (fst (counts m), fst (snd (counts m)), u)" for y z u
      using m2(2) by (simp add: counts_def)
    show ?thesis
      using False m' m2 xs(1) x assms(1)
      by (simp add: flush_exhausted_def note_lost_def accounted_def counts_def Let_def)
  qed
  then show "mg_spool m' = None" "accounted b m m'"
    "\<exists>xs. stored m' = stored m @ xs \<and> fst (counts m') \<le> fst (counts m) + length xs" by auto
qed

section \<open>Replay of the log\<close>

lemma delete_shorter: "map_of d n \<noteq> None \<Longrightarrow> length (AList.delete n d) < length d"
  by (induction d) (auto simp: AList.delete_eq less_Suc_eq_le)

lemma Done_shorter:
  assumes "Done flt n s = (None, s')"
  shows "length (sp_dir s') < length (sp_dir s)"
proof -
  obtain st s1 where st: "stat flt n s = (st, s1)" by (meson surj_pair)
  define p where "p = (if st = Absent then n @ activeExt else n)"
  obtain fi s2 where fi: "stat flt p s1 = (fi, s2)" by (meson surj_pair)
  obtain ok s3 where rm: "remove_file flt p s2 = (ok, s3)" by (meson surj_pair)
  have d: "sp_dir s2 = sp_dir s" using stat_same [OF st] stat_same [OF fi] by simp
  have "ok" using assms st fi rm by (cases fi; cases ok) (simp_all add: Done_def p_def)
  then have "length (sp_dir s3) < length (sp_dir s2)"
    using rm delete_shorter [of "sp_dir s2" p] by (auto simp: remove_file_def sys_def Let_def split: if_splits)
  moreover have "sp_dir s' = sp_dir s3"
    using assms st fi rm \<open>ok\<close> by (cases fi) (auto simp: Done_def p_def Let_def ok_call_def sys_def removeStats_def split: prod.splits)
  ultimately show ?thesis using d by simp
qed

lemma Quarantine_shorter:
  assumes "Quarantine flt n s = (None, s')"
  shows "length (sp_dir s') < length (sp_dir s)"
proof -
  obtain st s1 where st: "stat flt n s = (st, s1)" by (meson surj_pair)
  have d: "sp_dir s1 = sp_dir s" using stat_same [OF st] by simp
  define p where "p = (if st = Absent then n @ activeExt else n)"
  show ?thesis
    using assms st d delete_shorter [of "sp_dir s" p]
    by (auto simp: Quarantine_def Let_def ok_call_def sys_def quarantineStats_def p_def split: if_splits option.splits)
qed

lemma Oldest_effect:
  assumes "Oldest flt dec sha s = ((name, b, ok, err), s')"
  shows "same_but {} s s' \<and> sp_dir s' = sp_dir s \<and> (name \<noteq> [] \<longrightarrow> HasSuffix name fileExt)"
    and "err = None \<Longrightarrow> ok \<Longrightarrow> HasSuffix name fileExt \<and> (\<exists>f. map_of (sp_dir s) name = Some f \<and>
      (decodeBatch dec sha f = Inr b \<or> decodeBatch dec sha f = Inl ErrEOF \<and> b = []))"
proof -
  obtain r s1 where o: "oldestName flt s = (r, s1)" by (meson surj_pair)
  have s1: "same_but {} s s1" "sp_dir s1 = sp_dir s"
    using o by (auto simp: oldestName_def sys_def same_but_def Let_def split: if_splits)
  have suf: "HasSuffix n fileExt" if "r = Inr (Some n)" for n
  proof -
    have "least_name (filter (\<lambda>n. HasSuffix n fileExt) (map fst (sp_dir s))) = Some n"
      using o that by (auto simp: oldestName_def sys_def Let_def split: if_splits)
    then show ?thesis using least_name_spec by fastforce
  qed
  have s2: "same_but {} s (snd (sys flt s1))" "sp_dir (snd (sys flt s1)) = sp_dir s"
    using s1 by (simp_all add: sys_def same_but_def)
  consider "name = []" "ok = False" "s' = s1" | n where "r = Inr (Some n)" by (cases r; cases "projr r") (use assms o in \<open>auto simp: Oldest_def\<close>)
  note cs = this
  show "same_but {} s s' \<and> sp_dir s' = sp_dir s \<and> (name \<noteq> [] \<longrightarrow> HasSuffix name fileExt)"
    using cs
  proof cases
    case (2 n)
    then have "s' = snd (sys flt s1)" "name = n"
      using assms o by (auto simp: Oldest_def Let_def split: prod.splits sum.splits option.splits if_splits)
    then show ?thesis using s2 suf [OF 2] by simp
  qed (use s1 in simp)
  show "HasSuffix name fileExt \<and> (\<exists>f. map_of (sp_dir s) name = Some f \<and>
      (decodeBatch dec sha f = Inr b \<or> decodeBatch dec sha f = Inl ErrEOF \<and> b = []))" if "err = None" "ok"
    using cs
  proof cases
    case (2 n)
    then show ?thesis
      using assms that o s1(2) suf [OF 2]
      by (cases "map_of (sp_dir s) n"; cases "decodeBatch dec sha (the (map_of (sp_dir s) n))")
        (auto simp: Oldest_def sys_def Let_def split: if_splits)
  qed (use that in simp)
qed

lemma Done_quar:
  assumes "Done flt n s = (r, s')"
  shows "sp_quar s' = sp_quar s"
proof -
  obtain st s1 where st: "stat flt n s = (st, s1)" by (meson surj_pair)
  define p where "p = (if st = Absent then n @ activeExt else n)"
  obtain fi s2 where fi: "stat flt p s1 = (fi, s2)" by (meson surj_pair)
  obtain ok s3 where rm: "remove_file flt p s2 = (ok, s3)" by (meson surj_pair)
  have "sp_quar s3 = sp_quar s"
    using stat_same [OF st, of "{}"] stat_same [OF fi, of "{}"] remove_file_effect [OF rm] by (simp add: same_but_def)
  then show ?thesis
    using assms st fi rm by (cases fi; cases ok) (auto simp: Done_def p_def Let_def ok_call_def sys_def removeStats_def)
qed

lemma insertBatch_effect:
  assumes "insertBatch E b t m = (r, m')"
  shows "same_side m m' \<and> (\<exists>xs. stored m' = stored m @ xs \<and> (r = None \<longrightarrow> row_of ` set b \<subseteq> set xs))"
proof (cases "b = []")
  case True
  then show ?thesis using assms by (simp add: insertBatch_def same_side_def)
next
  case False
  then show ?thesis using assms send_effect [of E b t m r m'] by (auto simp: insertBatch_def)
qed

text \<open>
  The fate of a stored batch in a round of replay: still stored, empty by the end-of-file rule of
  \<open>Oldest\<close>, or with all its rows in the table.
\<close>

definition replay_fate :: "env \<Rightarrow> row list \<Rightarrow> spool \<Rightarrow> spool \<Rightarrow> bool" where
  "replay_fate E rows sp sp' \<longleftrightarrow> (\<forall>n c. held sp n c \<longrightarrow> held sp' n c
     \<or> decodeBatch (e_gobDecode E) (e_sha E) c = Inl ErrEOF
     \<or> (\<exists>b. decodeBatch (e_gobDecode E) (e_sha E) c = Inr b \<and> row_of ` set b \<subseteq> set rows))"

lemma replay_fate_Done:
  assumes "Done flt name sp1 = (r, sp')" and "spool_inv k sp1" and "HasSuffix name fileExt"
    and "map_of (sp_dir sp1) name = Some f"
    and "decodeBatch (e_gobDecode E) (e_sha E) f = Inr b \<and> row_of ` set b \<subseteq> set rows
      \<or> decodeBatch (e_gobDecode E) (e_sha E) f = Inl ErrEOF"
  shows "replay_fate E rows sp1 sp'"
  unfolding replay_fate_def
proof (intro allI impI)
  fix n c assume h: "held sp1 n c"
  show "held sp' n c \<or> decodeBatch (e_gobDecode E) (e_sha E) c = Inl ErrEOF
      \<or> (\<exists>b. decodeBatch (e_gobDecode E) (e_sha E) c = Inr b \<and> row_of ` set b \<subseteq> set rows)"
  proof (cases "n = name")
    case True
    have "map_of (sp_dir sp1) (name @ activeExt) = None" using assms(2-4) by (auto simp: spool_inv_def)
    with h True assms(4) have "c = f \<or> map_of (sp_quar sp') n = Some c" using Done_quar [OF assms(1)] by (auto simp: held_def)
    then show ?thesis using assms(5) h by (auto simp: held_def)
  next
    case False
    then show ?thesis using Done_keeps(1) [OF assms(1-3)] h by blast
  qed
qed

lemma replay_fate_Quarantine:
  assumes "Quarantine flt name sp1 = (r, sp')" and "spool_inv k sp1" and "HasSuffix name fileExt"
  shows "replay_fate E rows sp1 sp'"
  using Quarantine_keeps(1) [OF assms] by (auto simp: replay_fate_def)

text \<open>How a round ends: what is left of the log and of the table.\<close>

definition round_ok :: "env \<Rightarrow> nat \<Rightarrow> spool \<Rightarrow> manager \<Rightarrow> bool \<Rightarrow> manager \<Rightarrow> bool" where
  "round_ok E k sp m go m' \<longleftrightarrow> (\<exists>sp' xs. mg_spool m' = Some sp' \<and> stored m' = stored m @ xs \<and> spool_inv k sp'
     \<and> (go \<longrightarrow> length (sp_dir sp') < length (sp_dir sp)) \<and> replay_fate E (stored m') sp sp')"

lemma round_Quarantine:
  assumes "Quarantine flt name sp1 = (r, sp')" and "spool_inv k sp1" and "HasSuffix name fileExt"
    and "mg_spool m' = Some sp'" and "stored m' = stored m @ xs" and "go \<longrightarrow> r = None"
  shows "round_ok E k sp1 m go m'"
  using assms(4-6) Quarantine_keeps(2) [OF assms(1-3)] replay_fate_Quarantine [OF assms(1-3)]
    Quarantine_shorter [of flt name sp1 sp'] assms(1) by (auto simp: round_ok_def)

lemma round_Done:
  assumes "Done flt name sp1 = (r, sp')" and "spool_inv k sp1" and "HasSuffix name fileExt"
    and "mg_spool m' = Some sp'" and "stored m' = stored m @ xs" and "go \<longrightarrow> r = None"
    and "map_of (sp_dir sp1) name = Some f"
    and "decodeBatch (e_gobDecode E) (e_sha E) f = Inr b \<and> row_of ` set b \<subseteq> set xs
      \<or> decodeBatch (e_gobDecode E) (e_sha E) f = Inl ErrEOF"
  shows "round_ok E k sp1 m go m'"
proof -
  have "replay_fate E (stored m') sp1 sp'"
    by (rule replay_fate_Done [OF assms(1-3,7)]) (use assms(5,8) in auto)
  then show ?thesis using assms(1,4-6) Done_keeps(2) [OF assms(1-3)] Done_shorter [of flt name sp1 sp'] by (auto simp: round_ok_def)
qed

lemma round_same:
  assumes "spool_inv k sp1" and "mg_spool m' = Some sp1" and "stored m' = stored m @ xs"
  shows "round_ok E k sp1 m False m'"
  using assms by (auto simp: round_ok_def replay_fate_def)

lemma round_refused:
  assumes "replay_refused E name sp1 (f, m1) = (go, f', m')" and "spool_inv k sp1" and "HasSuffix name fileExt"
    and "mg_spool m1 = Some sp1" and "stored m1 = stored m @ xs"
  shows "round_ok E k sp1 m go m'"
proof (cases "Suc (f name) \<ge> replayMaxAttempts")
  case True
  obtain q sp2 where q: "Quarantine (e_flt E) name sp1 = (q, sp2)" by (meson surj_pair)
  have "m' = m1\<lparr>mg_spool := Some sp2\<rparr>" "go \<longrightarrow> q = None"
    using assms(1) True q by (auto simp: replay_refused_def Let_def split: if_splits)
  then show ?thesis using assms(5) by (intro round_Quarantine [OF q assms(2,3)]) auto
next
  case False
  then have "go = False" "m' = m1" using assms(1) by (auto simp: replay_refused_def Let_def)
  then show ?thesis using round_same [OF assms(2), of m' m xs] assms(4,5) by simp
qed

lemma replay_step_effect:
  assumes "replay_step E (f, m) = (go, f', m')" and "mg_spool m = Some sp" and "spool_inv k sp"
  shows "round_ok E k sp m go m'"
proof (cases "fst (Stats sp) = 0")
  case True
  then show ?thesis using assms round_same [OF assms(3,2), of m "[]"] by (auto simp: replay_step_def)
next
  case False
  obtain name b ok err sp1 where o: "Oldest (e_flt E) (e_gobDecode E) (e_sha E) sp = ((name, b, ok, err), sp1)" by (metis surj_pair)
  note oe = Oldest_effect [OF o]
  have inv1: "spool_inv k sp1" using oe(1) same_but_inv assms(3) by blast
  have eqv: "round_ok E k sp1 m go m'' \<Longrightarrow> round_ok E k sp m go m''" for m''
    using oe(1) held_same_but [of "{}" sp sp1] by (auto simp: round_ok_def replay_fate_def)
  define m1 where "m1 = m\<lparr>mg_spool := Some sp1\<rparr>"
  have m1: "mg_spool m1 = Some sp1" "stored m1 = stored m @ []" by (simp_all add: m1_def)
  show ?thesis
  proof (cases "err = None \<and> ok")
    case bad: False
    obtain q sp2 where q: "Quarantine (e_flt E) name sp1 = (q, sp2)" by (meson surj_pair)
    from bad assms(1,2) o False consider "go = False" "m' = m1" | "go = False" "name \<noteq> []" "m' = m1\<lparr>mg_spool := Some sp2\<rparr>"
      using q by (auto simp: replay_step_def m1_def on_spool_def Let_def split: if_splits)
    then show ?thesis
    proof cases
      case 1
      then show ?thesis using eqv round_same [OF inv1 m1] by simp
    next
      case 2
      then have "HasSuffix name fileExt" using oe(1) by simp
      then show ?thesis using 2 m1 by (intro eqv round_Quarantine [OF q inv1]) auto
    qed
  next
    case True
    then have suf: "HasSuffix name fileExt" and "\<exists>f. map_of (sp_dir sp) name = Some f \<and>
      (decodeBatch (e_gobDecode E) (e_sha E) f = Inr b \<or> decodeBatch (e_gobDecode E) (e_sha E) f = Inl ErrEOF \<and> b = [])"
      using oe(2) by auto
    then obtain c where c: "map_of (sp_dir sp1) name = Some c"
      "decodeBatch (e_gobDecode E) (e_sha E) c = Inr b \<or> decodeBatch (e_gobDecode E) (e_sha E) c = Inl ErrEOF" using oe(1) by auto
    obtain r m2 where ib: "insertBatch E b (DedupToken name sp1) m1 = (r, m2)" by (meson surj_pair)
    obtain xs where m2: "mg_spool m2 = Some sp1" "stored m2 = stored m @ xs" "r = None \<longrightarrow> row_of ` set b \<subseteq> set xs"
      using insertBatch_effect [OF ib] m1 by (auto simp: same_side_def)
    have stp: "(go, f', m') = (case r of None \<Rightarrow> replay_inserted E name b sp1 (f, m2)
       | Some (appendError k) \<Rightarrow> (case salvage E b (DedupToken name sp1) m2 of (res, m) \<Rightarrow>
            if sr_dropped res = 0 then replay_salvaged E name res sp1 (f, m) else replay_refused E name sp1 (f, m))
       | Some e \<Rightarrow> replay_refused E name sp1 (f, m2))"
      using assms(1,2) o False True ib by (simp add: replay_step_def m1_def Let_def split: option.splits send_error.splits)
    consider "r = None" | j where "r = Some (appendError j)" | "(go, f', m') = replay_refused E name sp1 (f, m2)"
      using stp by (cases r) (auto split: send_error.splits)
    then show ?thesis
    proof cases
      case 1
      obtain d sp2 where d: "Done (e_flt E) name sp1 = (d, sp2)" by (meson surj_pair)
      have "mg_spool m' = Some sp2" "stored m' = stored m @ xs" "go \<longrightarrow> d = None"
        using stp 1 d m2 by (auto simp: replay_inserted_def Let_def)
      then show ?thesis using c m2(3) 1 by (intro eqv round_Done [OF d inv1 suf, of m' m xs]) auto
    next
      case 2
      obtain res m3 where sv: "salvage E b (DedupToken name sp1) m2 = (res, m3)" by (meson surj_pair)
      obtain ys where m3: "mg_spool m3 = Some sp1" "stored m3 = stored m @ xs @ ys"
        "sr_rejected res = 0 \<and> sr_dropped res = 0 \<longrightarrow> row_of ` set b \<subseteq> set ys"
        using salvage_effect [OF sv, of "fst (counts m2)" "fst (snd (counts m2))" "snd (snd (counts m2))"] m2(1,2) by auto
      show ?thesis
      proof (cases "sr_dropped res = 0")
        case True
        show ?thesis
        proof (cases "sr_rejected res > 0")
          case rej: True
          obtain q sp2 where q: "Quarantine (e_flt E) name sp1 = (q, sp2)" by (meson surj_pair)
          have "mg_spool m' = Some sp2" "stored m' = stored m @ (xs @ ys)" "go \<longrightarrow> q = None"
            using stp 2 sv True rej q m3 by (auto simp: replay_salvaged_def Let_def)
          then show ?thesis by (intro eqv round_Quarantine [OF q inv1 suf])
        next
          case rej: False
          obtain d sp2 where d: "Done (e_flt E) name sp1 = (d, sp2)" by (meson surj_pair)
          have "mg_spool m' = Some sp2" "stored m' = stored m @ (xs @ ys)" "go \<longrightarrow> d = None"
            using stp 2 sv True rej d m3 by (auto simp: replay_salvaged_def Let_def)
          then show ?thesis using c m3(3) True rej by (intro eqv round_Done [OF d inv1 suf, of m' m "xs @ ys"]) auto
        qed
      next
        case False
        then have "replay_refused E name sp1 (f, m3) = (go, f', m')" using stp 2 sv by simp
        then show ?thesis using eqv round_refused [OF _ inv1 suf m3(1), where f = f and go = go and f' = f' and m' = m' and m = m and xs = "xs @ ys"] m3(2) by simp
      qed
    next
      case 3
      then show ?thesis using eqv round_refused [OF _ inv1 suf m2(1,2)] by metis
    qed
  qed
qed

lemma replay_fate_trans:
  assumes "replay_fate E rows sp sp'" and "replay_fate E rows' sp' sp''" and "set rows \<subseteq> set rows'"
  shows "replay_fate E rows' sp sp''"
  unfolding replay_fate_def
proof (intro allI impI)
  fix n c assume "held sp n c"
  then show "held sp'' n c \<or> decodeBatch (e_gobDecode E) (e_sha E) c = Inl ErrEOF
     \<or> (\<exists>b. decodeBatch (e_gobDecode E) (e_sha E) c = Inr b \<and> row_of ` set b \<subseteq> set rows')"
    using assms unfolding replay_fate_def by (metis subset_trans)
qed

lemma replay_tick_effect:
  assumes "mg_spool m = Some sp" and "spool_inv k sp" and "length (sp_dir sp) < n"
  shows "\<exists>f' m'. replay_tick n E (f, m) = Some (f', m') \<and> (\<exists>sp' xs. mg_spool m' = Some sp' \<and> stored m' = stored m @ xs
    \<and> spool_inv k sp' \<and> replay_fate E (stored m') sp sp')"
  using assms
proof (induction n arbitrary: f m sp)
  case (Suc n)
  obtain go f1 m1 where st: "replay_step E (f, m) = (go, f1, m1)" by (metis surj_pair)
  obtain sp1 xs where r: "mg_spool m1 = Some sp1" "stored m1 = stored m @ xs" "spool_inv k sp1"
    "go \<longrightarrow> length (sp_dir sp1) < length (sp_dir sp)" "replay_fate E (stored m1) sp sp1"
    using replay_step_effect [OF st Suc.prems(1,2)] by (auto simp: round_ok_def)
  show ?case
  proof (cases go)
    case True
    then obtain f' m' sp' ys where t: "replay_tick n E (f1, m1) = Some (f', m')" "mg_spool m' = Some sp'"
      "stored m' = stored m1 @ ys" "spool_inv k sp'" "replay_fate E (stored m') sp1 sp'"
      using Suc.IH [OF r(1,3), of f1] r(4) Suc.prems(3) by auto
    have "replay_fate E (stored m') sp sp'" by (rule replay_fate_trans [OF r(5) t(5)]) (simp add: t(3))
    then show ?thesis using True st t r(2) by auto
  next
    case False
    then show ?thesis using st r by auto
  qed
qed simp

section \<open>Properties\<close>

definition example_env :: env where
  "example_env =
     \<lparr>e_live = \<lambda>_. Live zero_config, e_now = \<lambda>_. zero_time, e_connect = \<lambda>i. 0 < i, e_ddl = \<lambda>_ _. True,
      e_prepare = \<lambda>_. True, e_append = \<lambda>_ _. True, e_send = \<lambda>_. True, e_landed = \<lambda>_. False, e_flt = \<lambda>_. False,
      e_gobEncode = \<lambda>b. Some [1], e_gobDecode = \<lambda>_. Inr [example_record], e_sha = \<lambda>_. []\<rparr>"

definition zero_metrics :: metrics where
  "zero_metrics = \<lparr>m_PacketsDropped = 0, m_PacketsUnsupported = 0, m_FlowsDecoded = 0, m_FlowsSkipped = 0, m_SpoolSaved = 0,
     m_SpoolReplayed = 0, m_SpoolLost = 0, m_FlowsInserted = 0, m_FlowsDropped = 0, m_FlowsRejected = 0, m_InsertErrors = 0,
     m_NetFlow5Packets = 0, m_WriterBatches = 0, m_WriterBatchRows = 0, m_WriterRetries = 0, m_WriterQueueDropped = 0,
     m_DeviceMatchedPackets = 0, m_DeviceRejectedPackets = 0, m_UnknownExporterPackets = 0, m_UnknownExporterFlows = 0,
     m_DeviceRuleSkipped = 0\<rparr>"

definition example_manager :: manager where
  "example_manager = \<lparr>mg_conn = False, mg_table = [], mg_spool = Some example_spool, mg_metrics = zero_metrics,
     mg_lastErr = None, mg_sends = 0, mg_slept = 0\<rparr>"

lemma example_manager_spool:
  "mg_spool example_manager = Some example_spool" "spool_inv 2 example_spool"
  using example_spool_inv by (simp_all add: example_manager_def spool_inv_def)

text \<open>
   A flush loses nothing silently.  With a write-ahead log, and whatever the database and the
  file system do, every batch that was stored stays stored, and the batch at hand ends up
  stored in the log, or each of its rows is counted as inserted, rejected or dropped, with all
  of them in the table when none is counted as rejected or dropped.
\<close>

theorem flush_no_silent_loss:
  assumes "b \<noteq> []" and "mg_spool m = Some sp" and "spool_inv 2 sp"
  shows "(\<exists>sp'. mg_spool (flush E b m) = Some sp' \<and> spool_inv 0 sp' \<and> (\<forall>n c. held sp n c \<longrightarrow> held sp' n c))
    \<and> (spooled E b (flush E b m) \<or> accounted b m (flush E b m))"
  using flush_logged(1,2) [OF assms refl] by blast

theorem flush_no_silent_loss_witness:
  "(\<exists>sp'. mg_spool (flush example_env [example_record] example_manager) = Some sp' \<and> spool_inv 0 sp'
      \<and> (\<forall>n c. held example_spool n c \<longrightarrow> held sp' n c))
   \<and> (spooled example_env [example_record] (flush example_env [example_record] example_manager)
      \<or> accounted [example_record] example_manager (flush example_env [example_record] example_manager))"
  by (rule flush_no_silent_loss) (simp_all add: example_manager_spool)

text \<open>
  C10.  The write-ahead entry protects the batch.  Once \<open>Begin\<close> has stored the batch, the flush drops
  no row of it: the counter of dropped rows stays, and at the end the batch is still stored or
  all its rows are in the table.
\<close>

theorem flush_wal_protected:
  assumes "b \<noteq> []" and "mg_spool m = Some sp" and "spool_inv 2 sp"
    and "fst (Begin (e_flt E) (e_gobEncode E) (e_sha E) b sp) = Inr name"
  shows "m_FlowsDropped (mg_metrics (flush E b m)) = m_FlowsDropped (mg_metrics m)
    \<and> (spooled E b (flush E b m) \<or> row_of ` set b \<subseteq> set (stored (flush E b m)))"
proof -
  obtain sp1 where b: "Begin (e_flt E) (e_gobEncode E) (e_sha E) b sp = (Inr name, sp1)"
    using assms(4) by (metis fst_conv surj_pair)
  have "name \<noteq> []" using Begin_effect [OF b] assms(1) by (auto simp: Let_def)
  then have "fst (flush_begin E b m) \<noteq> []" using assms(2) b by (simp add: flush_begin_def)
  then show ?thesis using flush_logged(3) [OF assms(1-3) refl, of E] by (simp add: counts_def)
qed

theorem flush_wal_protected_witness:
  "m_FlowsDropped (mg_metrics (flush example_env [example_record] example_manager)) = m_FlowsDropped (mg_metrics example_manager)
   \<and> (spooled example_env [example_record] (flush example_env [example_record] example_manager)
      \<or> row_of ` set [example_record] \<subseteq> set (stored (flush example_env [example_record] example_manager)))"
proof (rule flush_wal_protected)
  have enc: "encodeBatch (\<lambda>b. Some [1]) (\<lambda>_. []) [example_record] = Some (walHeader @ [1])" by (simp add: encodeBatch_def)
  have "length (batch_name q) = 26" for q by (simp add: batch_name_def pad20_length [OF u64_digits] fileExt_def)
  then have new: "batch_name 1 @ e \<noteq> batch_name 0" for e by (cases e) (simp, metis length_append list.size(4) add_Suc_right less_add_Suc1 nat_neq_iff)
  have "\<exists>s'. Begin (\<lambda>_. False) (\<lambda>b. Some [1]) (\<lambda>_. []) [example_record] example_spool
      = (Inr (batch_name (sp_seq example_spool + 1)), s')"
    using Begin_nofault [OF _ _ enc, of "\<lambda>_. False" example_spool] new by (auto simp: example_spool_def at_rest_def)
  then show "fst (Begin (e_flt example_env) (e_gobEncode example_env) (e_sha example_env) [example_record] example_spool)
      = Inr (batch_name 1)"
    by (auto simp: example_env_def example_spool_def at_rest_def)
qed (simp_all add: example_manager_spool)

text \<open>
   Without a log every row is counted.  When no log is configured, a flush counts each row of
  the batch as inserted, rejected or dropped; with none rejected or dropped all rows are in the
  table; and it never counts more rows as inserted than it added to the table.
\<close>

theorem flush_unlogged_accounts:
  assumes "b \<noteq> []" and "mg_spool m = None"
  shows "accounted b m (flush E b m) \<and> (\<exists>xs. stored (flush E b m) = stored m @ xs
    \<and> m_FlowsInserted (mg_metrics (flush E b m)) \<le> m_FlowsInserted (mg_metrics m) + length xs)"
  using flush_unlogged(2,3) [OF assms refl, of E] by (simp add: counts_def)

theorem flush_unlogged_accounts_witness:
  "accounted [example_record] (example_manager\<lparr>mg_spool := None\<rparr>) (flush example_env [example_record] (example_manager\<lparr>mg_spool := None\<rparr>))
   \<and> (\<exists>xs. stored (flush example_env [example_record] (example_manager\<lparr>mg_spool := None\<rparr>))
        = stored (example_manager\<lparr>mg_spool := None\<rparr>) @ xs
      \<and> m_FlowsInserted (mg_metrics (flush example_env [example_record] (example_manager\<lparr>mg_spool := None\<rparr>)))
        \<le> m_FlowsInserted (mg_metrics (example_manager\<lparr>mg_spool := None\<rparr>)) + length xs)"
  by (rule flush_unlogged_accounts) simp_all



end
