(* ===== verification/Shards.thy ===== *)
theory Shards
  imports Writer
begin

text \<open>
  The queues of package \<open>clickhouse\<close> (\<open>internal/writer/clickhouse/clickhouse.go\<close>): the shards and
  their pool, the three backpressure modes of \<open>enqueue\<close>, the loop \<open>run\<close> of a shard that forms
  batches and flushes them, and the rebuild of the pool on a reload.

  A Go channel is the list of the records it buffers; a \<open>select\<close> with several ready cases picks
  one, here by the argument \<open>pick\<close>.  An operation is a step, so between the eviction of the oldest
  record and the second attempt to send no other producer comes in.  Gauges are left out.

  The lemmas show that a queue stays within its capacity, that every record offered is queued or
  counted as dropped, and that a shard passes the accepted records to \<open>flush\<close> in their order,
  each exactly once.
\<close>

datatype 'a outcome = Returns 'a | Blocks | Panics

section \<open>One shard\<close>

record shard =
  sh_id :: nat
  sh_ch :: "flow_record list"
  sh_cap :: nat
  sh_quit :: bool

definition drop_shard :: "metrics \<Rightarrow> metrics" where
  "drop_shard x =
     (let x = x\<lparr>m_WriterQueueDropped := Suc (m_WriterQueueDropped x)\<rparr>
      in x\<lparr>m_FlowsDropped := Suc (m_FlowsDropped x)\<rparr>)"

definition room :: "shard \<Rightarrow> bool" where
  "room s \<longleftrightarrow> length (sh_ch s) < sh_cap s"

definition push :: "flow_record \<Rightarrow> shard \<Rightarrow> shard" where
  "push r s = s\<lparr>sh_ch := sh_ch s @ [r]\<rparr>"

text \<open>The second half of the mode \<open>DropOld\<close>: evict the oldest record, then try again.\<close>

definition evict :: "flow_record \<Rightarrow> shard \<Rightarrow> metrics \<Rightarrow> bool \<times> shard \<times> metrics" where
  "evict r s x =
     (let (s, x) = (case sh_ch s of [] \<Rightarrow> (s, x) | _ # rs \<Rightarrow> (s\<lparr>sh_ch := rs\<rparr>, drop_shard x))
      in if room s then (True, push r s, x) else (False, s, drop_shard x))"

fun enqueue_shard ::
  "backpressure_mode \<Rightarrow> bool \<Rightarrow> flow_record \<Rightarrow> shard \<Rightarrow> metrics \<Rightarrow> (bool \<times> shard \<times> metrics) outcome" where
  "enqueue_shard Block pick r s x =
     (if room s \<and> (\<not> sh_quit s \<or> pick) then Returns (True, push r s, x)
      else if sh_quit s then Returns (False, s, drop_shard x)
      else Blocks)"
| "enqueue_shard DropOld pick r s x =
     (if room s \<and> (\<not> sh_quit s \<or> pick) then Returns (True, push r s, x)
      else if sh_quit s then Returns (False, s, drop_shard x)
      else Returns (evict r s x))"
| "enqueue_shard DropNew pick r s x =
     (if room s \<and> (\<not> sh_quit s \<or> pick) then Returns (True, push r s, x)
      else if sh_quit s then Returns (False, s, drop_shard x)
      else Returns (False, s, drop_shard x))"

section \<open>The pool\<close>

record pool =
  p_n :: int
  p_queueRows :: int
  p_shards :: "shard list"

text \<open>\<open>make\<close> panics for a negative size.\<close>

definition newPool :: "int \<Rightarrow> int \<Rightarrow> pool outcome" where
  "newPool n queueRows =
     (if n < 0 \<or> (n > 0 \<and> queueRows < 0) then Panics
      else Returns \<lparr>p_n = n, p_queueRows = queueRows,
             p_shards = map (\<lambda>i. \<lparr>sh_id = i, sh_ch = [], sh_cap = nat queueRows, sh_quit = False\<rparr>) [0..<nat n]\<rparr>)"

definition enqueue_pool ::
  "backpressure_mode \<Rightarrow> bool \<Rightarrow> flow_record \<Rightarrow> pool \<Rightarrow> metrics \<Rightarrow> (bool \<times> pool \<times> metrics) outcome" where
  "enqueue_pool mode pick r p x =
     (let i = nat (shardIndex r (p_n p))
      in if i \<ge> length (p_shards p) then Panics
         else case enqueue_shard mode pick r (p_shards p ! i) x of
           Returns (ok, s, x) \<Rightarrow> Returns (ok, p\<lparr>p_shards := (p_shards p)[i := s]\<rparr>, x)
         | Blocks \<Rightarrow> Blocks
         | Panics \<Rightarrow> Panics)"

definition queueLen :: "pool \<Rightarrow> nat" where
  "queueLen p = sum_list (map (\<lambda>s. length (sh_ch s)) (p_shards p))"

text \<open>The signal of \<open>drain\<close>; the shards then empty their queues in \<open>run\<close>.\<close>

definition drain :: "pool \<Rightarrow> pool" where
  "drain p = p\<lparr>p_shards := map (\<lambda>s. s\<lparr>sh_quit := True\<rparr>) (p_shards p)\<rparr>"

text \<open>\<open>Manager.Reload\<close>: the current pool and the pools that are being drained.\<close>

definition Reload_manager :: "int \<Rightarrow> int \<Rightarrow> pool \<times> pool list \<Rightarrow> (pool \<times> pool list) outcome" where
  "Reload_manager workers queueRows = (\<lambda>(cur, retired).
     if p_n cur = workers \<and> p_queueRows cur = queueRows then Returns (cur, retired)
     else case newPool workers queueRows of
       Returns np \<Rightarrow> Returns (np, retired @ [drain cur])
     | Blocks \<Rightarrow> Blocks
     | Panics \<Rightarrow> Panics)"

section \<open>The loop of a shard\<close>

text \<open>
  The locals of \<open>run\<close> with the shard and the manager.  The last three fields are a history: the
  records accepted by \<open>enqueue\<close>, those evicted from the queue, and the batches passed to \<open>flush\<close>.
\<close>

record runner =
  rn_shard :: shard
  rn_mgr :: manager
  rn_batch :: batch
  rn_lastFlush :: int
  rn_draining :: bool
  rn_done :: bool
  rn_accepted :: "flow_record list"
  rn_evicted :: "flow_record list"
  rn_flushed :: "batch list"

definition live_of :: "env \<Rightarrow> runner \<Rightarrow> live" where
  "live_of E st = e_live E (mg_sends (rn_mgr st))"

definition run_flush :: "env \<Rightarrow> int \<Rightarrow> runner \<Rightarrow> runner" where
  "run_flush E now st =
     (if rn_batch st = [] then st
      else st\<lparr>rn_mgr := flush E (rn_batch st) (rn_mgr st), rn_batch := [], rn_lastFlush := now,
              rn_flushed := rn_flushed st @ [rn_batch st]\<rparr>)"

definition run_recv :: "env \<Rightarrow> int \<Rightarrow> flow_record \<Rightarrow> flow_record list \<Rightarrow> runner \<Rightarrow> runner" where
  "run_recv E now r rs st =
     (let st = st\<lparr>rn_shard := (rn_shard st)\<lparr>sh_ch := rs\<rparr>, rn_batch := rn_batch st @ [r]\<rparr>
      in if int (length (rn_batch st)) \<ge> l_BatchSize (live_of E st) then run_flush E now st else st)"

definition run_tick :: "env \<Rightarrow> int \<Rightarrow> runner \<Rightarrow> runner" where
  "run_tick E now st =
     (if rn_batch st \<noteq> [] \<and> now - rn_lastFlush st \<ge> l_FlushInterval (live_of E st) then run_flush E now st else st)"

text \<open>A producer's call of \<open>enqueue\<close>; the metrics are the manager's.\<close>

definition run_enqueue :: "flow_record \<Rightarrow> bool \<times> shard \<times> metrics \<Rightarrow> runner \<Rightarrow> runner" where
  "run_enqueue r = (\<lambda>(ok, s, x) st.
     st\<lparr>rn_shard := s, rn_mgr := (rn_mgr st)\<lparr>mg_metrics := x\<rparr>,
        rn_accepted := rn_accepted st @ (if ok then [r] else []),
        rn_evicted := rn_evicted st @ take (length (sh_ch (rn_shard st)) + (if ok then 1 else 0) - length (sh_ch s)) (sh_ch (rn_shard st))\<rparr>)"

inductive run_step :: "env \<Rightarrow> runner \<Rightarrow> runner \<Rightarrow> bool" for E where
  recv: "\<not> rn_done st \<Longrightarrow> sh_ch (rn_shard st) = r # rs \<Longrightarrow> run_step E st (run_recv E now r rs st)"
| tick: "\<not> rn_done st \<Longrightarrow> \<not> rn_draining st \<Longrightarrow> run_step E st (run_tick E now st)"
| quit: "\<not> rn_done st \<Longrightarrow> \<not> rn_draining st \<Longrightarrow> sh_quit (rn_shard st) \<Longrightarrow> run_step E st (st\<lparr>rn_draining := True\<rparr>)"
| idle: "\<not> rn_done st \<Longrightarrow> rn_draining st \<Longrightarrow> run_step E st ((run_flush E now st)\<lparr>rn_done := True\<rparr>)"
| produce: "enqueue_shard (l_Backpressure (live_of E st)) pick r (rn_shard st) (mg_metrics (rn_mgr st)) = Returns res \<Longrightarrow>
    run_step E st (run_enqueue r res st)"
| signal: "run_step E st (st\<lparr>rn_shard := (rn_shard st)\<lparr>sh_quit := True\<rparr>\<rparr>)"

inductive_cases run_stepE: "run_step E st st'"

definition run_init :: "int \<Rightarrow> shard \<Rightarrow> manager \<Rightarrow> runner" where
  "run_init now s m = \<lparr>rn_shard = s, rn_mgr = m, rn_batch = [], rn_lastFlush = now, rn_draining = False, rn_done = False,
     rn_accepted = sh_ch s, rn_evicted = [], rn_flushed = []\<rparr>"

section \<open>Facts on queues\<close>

lemma drop_shard_counts [simp]:
  "m_WriterQueueDropped (drop_shard x) = Suc (m_WriterQueueDropped x)" "m_FlowsDropped (drop_shard x) = Suc (m_FlowsDropped x)"
  by (simp_all add: drop_shard_def)

text \<open>Everything but the two counters of dropped records is as before.\<close>

definition drops_only :: "nat \<Rightarrow> metrics \<Rightarrow> metrics \<Rightarrow> bool" where
  "drops_only k x x' \<longleftrightarrow> x' = x\<lparr>m_WriterQueueDropped := m_WriterQueueDropped x + k, m_FlowsDropped := m_FlowsDropped x + k\<rparr>"

lemma drops_only_simps: "drops_only 0 x x" "drops_only (Suc 0) x (drop_shard x)" "drops_only 2 x (drop_shard (drop_shard x))"
  by (simp_all add: drops_only_def drop_shard_def)

definition queued :: "bool \<Rightarrow> flow_record \<Rightarrow> flow_record list \<Rightarrow> flow_record list" where
  "queued ok r q = q @ (if ok then [r] else [])"

lemma enqueue_shard_effect:
  assumes "enqueue_shard mode pick r s x = Returns (ok, s', x')"
  shows "\<exists>ev. queued ok r (sh_ch s) = ev @ sh_ch s' \<and> prefix ev (sh_ch s) \<and> length ev \<le> 1 \<and> (mode \<noteq> DropOld \<longrightarrow> ev = [])
    \<and> drops_only (length ev + (if ok then 0 else 1)) x x' \<and> s' = s\<lparr>sh_ch := sh_ch s'\<rparr>
    \<and> (length (sh_ch s) \<le> sh_cap s \<longrightarrow> length (sh_ch s') \<le> sh_cap s)"
proof -
  have push: ?thesis if "ok" "s' = push r s" "x' = x" "room s"
    using that by (intro exI [of _ "[]"]) (auto simp: queued_def push_def room_def drops_only_simps)
  have refuse: ?thesis if "\<not> ok" "s' = s" "x' = drop_shard x"
    using that by (intro exI [of _ "[]"]) (auto simp: queued_def drops_only_simps)
  have ev: ?thesis if e: "evict r s x = (ok, s', x')" and m: "mode = DropOld"
  proof (cases "sh_ch s")
    case Nil
    then show ?thesis using e push refuse by (auto simp: evict_def split: if_splits)
  next
    case (Cons a rs)
    have len: "room (s\<lparr>sh_ch := rs\<rparr>) \<Longrightarrow> length rs < sh_cap s" by (simp add: room_def)
    show ?thesis
      by (rule exI [of _ "[a]"])
        (use e Cons m len in \<open>auto simp: evict_def queued_def push_def drops_only_simps numeral_2_eq_2 [symmetric] split: if_splits\<close>)
  qed
  show ?thesis
    using assms push refuse ev by (cases mode) (auto split: if_splits)
qed

lemma enqueue_blocks: "enqueue_shard mode pick r s x = Blocks \<longleftrightarrow> mode = Block \<and> \<not> room s \<and> \<not> sh_quit s"
  by (cases mode) auto

lemma enqueue_not_panics: "enqueue_shard mode pick r s x \<noteq> Panics"
  by (cases mode) auto

text \<open>In the mode \<open>DropOld\<close> a shard that is not retired accepts every record.\<close>

lemma dropOld_accepts:
  assumes "\<not> sh_quit s" and "0 < sh_cap s" and "length (sh_ch s) \<le> sh_cap s"
  shows "\<exists>s' x'. enqueue_shard DropOld pick r s x = Returns (True, s', x') \<and> last (sh_ch s') = r"
  using assms by (cases "sh_ch s") (auto simp: evict_def room_def push_def)

lemma newPool_effect:
  assumes "newPool n q = Returns p"
  shows "length (p_shards p) = nat n \<and> p_n p = n \<and> p_queueRows p = q \<and> queueLen p = 0
    \<and> list_all (\<lambda>s. sh_cap s = nat q \<and> sh_ch s = [] \<and> \<not> sh_quit s) (p_shards p)"
  using assms by (auto simp: newPool_def queueLen_def list_all_iff comp_def sum_list_replicate map_replicate_const split: if_splits)

section \<open>The run of a shard\<close>

definition run_inv :: "runner \<Rightarrow> bool" where
  "run_inv st \<longleftrightarrow>
     length (sh_ch (rn_shard st)) \<le> sh_cap (rn_shard st)
     \<and> subseq (concat (rn_flushed st) @ rn_batch st @ sh_ch (rn_shard st)) (rn_accepted st)
     \<and> mset (rn_accepted st) = mset (concat (rn_flushed st) @ rn_batch st @ sh_ch (rn_shard st)) + mset (rn_evicted st)
     \<and> (rn_evicted st = [] \<longrightarrow> rn_accepted st = concat (rn_flushed st) @ rn_batch st @ sh_ch (rn_shard st))
     \<and> (rn_done st \<longrightarrow> rn_batch st = [])"

lemma run_flush_inv: "run_inv st \<Longrightarrow> run_inv (run_flush E now st)"
  by (auto simp: run_inv_def run_flush_def)

lemma run_flush_same: "rn_done (run_flush E now st) = rn_done st" "rn_batch (run_flush E now st) = []"
  "rn_shard (run_flush E now st) = rn_shard st" "rn_accepted (run_flush E now st) = rn_accepted st"
  "rn_evicted (run_flush E now st) = rn_evicted st"
  "concat (rn_flushed (run_flush E now st)) = concat (rn_flushed st) @ rn_batch st"
  by (simp_all add: run_flush_def)

lemma run_enqueue_inv:
  assumes "run_inv st" and e: "enqueue_shard mode pick r (rn_shard st) x = Returns (ok, s', x')"
  shows "run_inv (run_enqueue r (ok, s', x') st)"
proof -
  let ?q = "sh_ch (rn_shard st)" and ?f = "concat (rn_flushed st) @ rn_batch st"
  obtain ev where ev: "queued ok r ?q = ev @ sh_ch s'" "prefix ev ?q" "s' = (rn_shard st)\<lparr>sh_ch := sh_ch s'\<rparr>"
    "length ?q \<le> sh_cap (rn_shard st) \<longrightarrow> length (sh_ch s') \<le> sh_cap (rn_shard st)"
    using enqueue_shard_effect [OF e] by blast
  obtain rest where q: "?q = ev @ rest" using ev(2) by (auto simp: prefix_def)
  have ch': "sh_ch s' = queued ok r rest" using ev(1) q by (simp add: queued_def)
  have cap: "sh_cap s' = sh_cap (rn_shard st)" by (subst ev(3)) simp
  have evicted: "take (length ?q + (if ok then 1 else 0) - length (sh_ch s')) ?q = ev"
    by (simp add: q ch' queued_def)
  have "subseq (?f @ rest) (?f @ ev @ rest)" by (intro list_emb_append_mono) auto
  moreover have "subseq (?f @ ev @ rest) (rn_accepted st)" using assms(1) q by (simp add: run_inv_def)
  ultimately have "subseq (concat (rn_flushed st) @ rn_batch st @ rest) (rn_accepted st)"
    using subseq_order.order_trans by fastforce
  then have "subseq ((concat (rn_flushed st) @ rn_batch st @ rest) @ (if ok then [r] else [])) (rn_accepted st @ (if ok then [r] else []))"
    by (intro list_emb_append_mono) auto
  then show ?thesis
    using assms(1) ev(4) cap unfolding run_inv_def run_enqueue_def prod.case evicted
    by (auto simp: ch' q queued_def)
qed

lemma run_step_inv: "run_step E st st' \<Longrightarrow> run_inv st \<Longrightarrow> run_inv st'"
proof (induction rule: run_step.induct)
  case (recv st r rs now)
  let ?st = "st\<lparr>rn_shard := (rn_shard st)\<lparr>sh_ch := rs\<rparr>, rn_batch := rn_batch st @ [r]\<rparr>"
  have "run_inv ?st" using recv by (auto simp: run_inv_def)
  then show ?case using run_flush_inv [of ?st E now] by (auto simp: run_recv_def Let_def)
next
  case (tick st now)
  then show ?case using run_flush_inv by (simp add: run_tick_def)
next
  case (quit st)
  then show ?case by (simp add: run_inv_def)
next
  case (idle st now)
  then have "run_inv (run_flush E now st)" using run_flush_inv by blast
  then show ?case using run_flush_same(2) [of E now st] by (simp add: run_inv_def)
next
  case (produce st pick r res)
  then show ?case using run_enqueue_inv by (cases res) blast
next
  case (signal st)
  then show ?case by (simp add: run_inv_def)
qed

lemma run_reach_inv:
  assumes "(run_step E)\<^sup>*\<^sup>* (run_init now s m) st" and "length (sh_ch s) \<le> sh_cap s"
  shows "run_inv st"
  using assms(1)
proof (induction rule: rtranclp_induct)
  case base
  show ?case using assms(2) by (simp add: run_inv_def run_init_def)
next
  case (step y z)
  then show ?case using run_step_inv by blast
qed

section \<open>The drain of a retired shard\<close>

text \<open>The steps of a draining shard when no producer comes in: every queued record, then the idle timer.\<close>

fun run_drain :: "env \<Rightarrow> int \<Rightarrow> flow_record list \<Rightarrow> runner \<Rightarrow> runner" where
  "run_drain E now [] st = (run_flush E now st)\<lparr>rn_done := True\<rparr>"
| "run_drain E now (r # rs) st = run_drain E now rs (run_recv E now r rs st)"

lemma run_recv_same:
  "rn_done (run_recv E now r rs st) = rn_done st" "rn_draining (run_recv E now r rs st) = rn_draining st"
  "sh_ch (rn_shard (run_recv E now r rs st)) = rs" "rn_accepted (run_recv E now r rs st) = rn_accepted st"
  "rn_evicted (run_recv E now r rs st) = rn_evicted st"
  by (simp_all add: run_recv_def Let_def run_flush_def)

lemma run_drain_effect:
  assumes "sh_ch (rn_shard st) = q" and "rn_draining st" and "\<not> rn_done st"
  shows "(run_step E)\<^sup>*\<^sup>* st (run_drain E now q st) \<and> rn_done (run_drain E now q st)
    \<and> sh_ch (rn_shard (run_drain E now q st)) = [] \<and> rn_accepted (run_drain E now q st) = rn_accepted st
    \<and> rn_evicted (run_drain E now q st) = rn_evicted st"
  using assms
proof (induction q arbitrary: st)
  case Nil
  have "run_step E st (run_drain E now [] st)" using idle [OF Nil(3,2), of E now] by simp
  then show ?case using Nil by (simp add: run_flush_same)
next
  case (Cons r q)
  have "run_step E st (run_recv E now r q st)" by (rule recv [OF Cons.prems(3,1)])
  moreover note Cons.IH [of "run_recv E now r q st"]
  ultimately show ?case using Cons.prems by (simp add: run_recv_same converse_rtranclp_into_rtranclp)
qed

section \<open>The pool\<close>

definition pool_ok :: "pool \<Rightarrow> bool" where
  "pool_ok p \<longleftrightarrow> 1 \<le> p_n p \<and> p_n p < 2 ^ 32 \<and> length (p_shards p) = nat (p_n p)
     \<and> list_all (\<lambda>s. length (sh_ch s) \<le> sh_cap s) (p_shards p)"

lemma queueLen_update:
  "i < length (p_shards p) \<Longrightarrow>
   queueLen (p\<lparr>p_shards := (p_shards p)[i := s]\<rparr>) + length (sh_ch (p_shards p ! i)) = queueLen p + length (sh_ch s)"
proof -
  assume i: "i < length (p_shards p)"
  have "sum_list ((map f xs)[i := v]) + map f xs ! i = sum_list (map f xs) + v"
    if "i < length xs" for f :: "shard \<Rightarrow> nat" and xs i v
    using that by (induction xs arbitrary: i) (auto split: nat.split simp: nth_Cons')
  from this [OF i, of "\<lambda>s. length (sh_ch s)" "length (sh_ch s)"] i show ?thesis
    by (simp add: queueLen_def map_update)
qed

text \<open>Offering a sequence of records one after the other.\<close>

fun offer_all ::
  "(flow_record \<Rightarrow> 'w \<times> metrics \<Rightarrow> (bool \<times> 'w \<times> metrics) outcome) \<Rightarrow> flow_record list \<Rightarrow> 'w \<times> metrics \<Rightarrow> ('w \<times> metrics) outcome" where
  "offer_all offer [] wx = Returns wx"
| "offer_all offer (r # rs) wx =
     (case offer r wx of Returns (ok, w', x') \<Rightarrow> offer_all offer rs (w', x') | Blocks \<Rightarrow> Blocks | Panics \<Rightarrow> Panics)"

text \<open>
  The contract of the writer towards its client: offering a record changes no counter but those
  of dropped records and does not look at the counters, keeps the invariant, and either buffers
  the record or counts a drop.
\<close>

locale record_sink =
  fixes offer :: "flow_record \<Rightarrow> 'w \<times> metrics \<Rightarrow> (bool \<times> 'w \<times> metrics) outcome"
    and sink_ok :: "'w \<Rightarrow> bool"
    and buffered :: "'w \<Rightarrow> nat"
  assumes offer_no_panic: "sink_ok w \<Longrightarrow> offer r (w, x) \<noteq> Panics"
    and offer_effect: "sink_ok w \<Longrightarrow> offer r (w, x) = Returns (ok, w', x') \<Longrightarrow>
      sink_ok w' \<and> (\<exists>k. drops_only k x x' \<and> buffered w' + k = Suc (buffered w) \<and> (\<not> ok \<longrightarrow> 0 < k))"
    and offer_indep: "sink_ok w \<Longrightarrow> offer r (w, x) = Returns (ok, w', x') \<Longrightarrow> \<exists>y'. offer r (w, y) = Returns (ok, w', y')"
begin

lemma offer_all_indep:
  "sink_ok w \<Longrightarrow> offer_all offer rs (w, x) = Returns (w', x') \<Longrightarrow> \<exists>y'. offer_all offer rs (w, y) = Returns (w', y')"
proof (induction rs arbitrary: w x y)
  case (Cons r rs)
  then obtain ok w1 x1 where o: "offer r (w, x) = Returns (ok, w1, x1)" "offer_all offer rs (w1, x1) = Returns (w', x')"
    by (auto split: outcome.splits)
  obtain y1 where y: "offer r (w, y) = Returns (ok, w1, y1)" using offer_indep [OF Cons.prems(1) o(1)] by blast
  have "sink_ok w1" using offer_effect [OF Cons.prems(1) o(1)] by blast
  then show ?case using Cons.IH [OF _ o(2), of y1] y by simp
qed simp

lemma offer_all_conserve:
  assumes "sink_ok w" and "offer_all offer rs (w, x) = Returns (w', x')"
  shows "sink_ok w' \<and> (\<exists>k. drops_only k x x' \<and> buffered w' + k = buffered w + length rs)"
  using assms
proof (induction rs arbitrary: w x)
  case Nil
  then show ?case by (auto simp: drops_only_def intro: exI [of _ 0])
next
  case (Cons r rs)
  then obtain ok w1 x1 where o: "offer r (w, x) = Returns (ok, w1, x1)" "offer_all offer rs (w1, x1) = Returns (w', x')"
    by (auto split: outcome.splits)
  obtain k where k: "sink_ok w1" "drops_only k x x1" "buffered w1 + k = Suc (buffered w)"
    using offer_effect [OF Cons.prems(1) o(1)] by auto
  obtain l where l: "sink_ok w'" "drops_only l x1 x'" "buffered w' + l = buffered w1 + length rs"
    using Cons.IH [OF k(1) o(2)] by auto
  have "drops_only (k + l) x x'" using k(2) l(2) by (simp add: drops_only_def)
  then show ?case using k l by (intro conjI exI [of _ "k + l"]) auto
qed

end

definition offer_pool :: "backpressure_mode \<Rightarrow> bool \<Rightarrow> flow_record \<Rightarrow> pool \<times> metrics \<Rightarrow> (bool \<times> pool \<times> metrics) outcome" where
  "offer_pool mode pick r wx = enqueue_pool mode pick r (fst wx) (snd wx)"

lemma shard_in_range: "pool_ok p \<Longrightarrow> nat (shardIndex r (p_n p)) < length (p_shards p)"
  using shardIndex_range [of "p_n p" r] by (auto simp: pool_ok_def nat_less_iff)

lemma enqueue_pool_effect:
  assumes "pool_ok p" and "enqueue_pool mode pick r p x = Returns (ok, p', x')"
  shows "pool_ok p' \<and> (\<exists>k. drops_only k x x' \<and> queueLen p' + k = Suc (queueLen p) \<and> (\<not> ok \<longrightarrow> 0 < k))"
    and "\<forall>j. j \<noteq> nat (shardIndex r (p_n p)) \<longrightarrow> j < length (p_shards p) \<longrightarrow> p_shards p' ! j = p_shards p ! j"
proof -
  let ?i = "nat (shardIndex r (p_n p))"
  note i = shard_in_range [OF assms(1), of r]
  obtain s' where e: "enqueue_shard mode pick r (p_shards p ! ?i) x = Returns (ok, s', x')"
    and p': "p' = p\<lparr>p_shards := (p_shards p)[?i := s']\<rparr>"
    using assms(2) i by (auto simp: enqueue_pool_def Let_def split: outcome.splits)
  obtain ev where ev: "queued ok r (sh_ch (p_shards p ! ?i)) = ev @ sh_ch s'" "drops_only (length ev + (if ok then 0 else 1)) x x'"
    "s' = (p_shards p ! ?i)\<lparr>sh_ch := sh_ch s'\<rparr>"
    "length (sh_ch (p_shards p ! ?i)) \<le> sh_cap (p_shards p ! ?i) \<longrightarrow> length (sh_ch s') \<le> sh_cap (p_shards p ! ?i)"
    using enqueue_shard_effect [OF e] by blast
  have cap: "sh_cap s' = sh_cap (p_shards p ! ?i)" by (subst ev(3)) simp
  have "pool_ok p'"
    using assms(1) i ev(4) cap by (auto simp: pool_ok_def p' list_all_length nth_list_update)
  moreover have "queueLen p' + (length ev + (if ok then 0 else 1)) = Suc (queueLen p)"
    using queueLen_update [OF i, of s'] arg_cong [OF ev(1), of length] by (auto simp: p' queued_def split: if_splits)
  ultimately show "pool_ok p' \<and> (\<exists>k. drops_only k x x' \<and> queueLen p' + k = Suc (queueLen p) \<and> (\<not> ok \<longrightarrow> 0 < k))"
    using ev(2) by (intro conjI exI [of _ "length ev + (if ok then 0 else 1)"]) auto
  show "\<forall>j. j \<noteq> ?i \<longrightarrow> j < length (p_shards p) \<longrightarrow> p_shards p' ! j = p_shards p ! j" by (simp add: p')
qed

interpretation pool_sink: record_sink "offer_pool mode pick" pool_ok queueLen
proof unfold_locales
  fix w r x assume "pool_ok w"
  then have "nat (shardIndex r (p_n w)) < length (p_shards w)" by (rule shard_in_range)
  then show "offer_pool mode pick r (w, x) \<noteq> Panics"
    using enqueue_not_panics [of mode pick r _ x] by (auto simp: offer_pool_def enqueue_pool_def Let_def split: outcome.splits)
next
  fix w r x ok w' x' assume "pool_ok w" "offer_pool mode pick r (w, x) = Returns (ok, w', x')"
  then show "pool_ok w' \<and> (\<exists>k. drops_only k x x' \<and> queueLen w' + k = Suc (queueLen w) \<and> (\<not> ok \<longrightarrow> 0 < k))"
    using enqueue_pool_effect(1) by (simp add: offer_pool_def)
next
  fix w r x ok w' x' y assume "pool_ok w" "offer_pool mode pick r (w, x) = Returns (ok, w', x')"
  then show "\<exists>y'. offer_pool mode pick r (w, y) = Returns (ok, w', y')"
    by (cases mode) (auto simp: offer_pool_def enqueue_pool_def Let_def evict_def split: outcome.splits if_splits list.splits)
qed

section \<open>Properties\<close>

definition example_pool :: pool where
  "example_pool = \<lparr>p_n = 1, p_queueRows = 1, p_shards = [\<lparr>sh_id = 0, sh_ch = [example_record], sh_cap = 1, sh_quit = False\<rparr>]\<rparr>"

lemma example_pool_ok: "pool_ok example_pool"
  by (simp add: pool_ok_def example_pool_def)

text \<open>
  C12.  Backpressure is bounded and accounted for.  On a well-formed pool, in every mode, offering a
  record never panics; it blocks only in the mode \<open>Block\<close>, when the queue of its shard is full and
  not retired; otherwise the queues stay within their capacity, only the shard of the record
  changes, and the record is buffered or there is a counted drop: the buffered records
  and the drops grow by one together.
\<close>

theorem enqueue_pool_accounts:
  assumes "pool_ok p"
  shows "enqueue_pool mode pick r p x \<noteq> Panics
    \<and> (enqueue_pool mode pick r p x = Blocks \<longleftrightarrow> mode = Block
         \<and> (let s = p_shards p ! nat (shardIndex r (p_n p)) in \<not> room s \<and> \<not> sh_quit s))
    \<and> (\<forall>ok p' x'. enqueue_pool mode pick r p x = Returns (ok, p', x') \<longrightarrow> pool_ok p'
         \<and> (\<exists>k. drops_only k x x' \<and> queueLen p' + k = Suc (queueLen p) \<and> (\<not> ok \<longrightarrow> 0 < k))
         \<and> (\<forall>j. j \<noteq> nat (shardIndex r (p_n p)) \<longrightarrow> j < length (p_shards p) \<longrightarrow> p_shards p' ! j = p_shards p ! j))"
proof (intro conjI)
  note i = shard_in_range [OF assms, of r]
  show "enqueue_pool mode pick r p x \<noteq> Panics"
    using pool_sink.offer_no_panic [OF assms] by (simp add: offer_pool_def)
  show "enqueue_pool mode pick r p x = Blocks \<longleftrightarrow> mode = Block
      \<and> (let s = p_shards p ! nat (shardIndex r (p_n p)) in \<not> room s \<and> \<not> sh_quit s)"
    using i enqueue_blocks [of mode pick r "p_shards p ! nat (shardIndex r (p_n p))" x]
      enqueue_not_panics [of mode pick r "p_shards p ! nat (shardIndex r (p_n p))" x]
    by (cases "enqueue_shard mode pick r (p_shards p ! nat (shardIndex r (p_n p))) x")
      (auto simp: enqueue_pool_def Let_def simp del: enqueue_shard.simps)
  show "\<forall>ok p' x'. enqueue_pool mode pick r p x = Returns (ok, p', x') \<longrightarrow> pool_ok p'
         \<and> (\<exists>k. drops_only k x x' \<and> queueLen p' + k = Suc (queueLen p) \<and> (\<not> ok \<longrightarrow> 0 < k))
         \<and> (\<forall>j. j \<noteq> nat (shardIndex r (p_n p)) \<longrightarrow> j < length (p_shards p) \<longrightarrow> p_shards p' ! j = p_shards p ! j)"
    using enqueue_pool_effect [OF assms] by blast
qed

theorem enqueue_pool_accounts_witness:
  "\<exists>p' x'. enqueue_pool DropOld False example_record example_pool zero_metrics = Returns (True, p', x') \<and> pool_ok p'
     \<and> m_FlowsDropped x' = 1"
proof -
  have e: "enqueue_pool DropOld False example_record example_pool zero_metrics
    = Returns (True, example_pool, drop_shard zero_metrics)"
    by (simp add: enqueue_pool_def example_pool_def shardIndex_def room_def evict_def push_def)
  from enqueue_pool_accounts [OF example_pool_ok, of DropOld False example_record zero_metrics] e
  have "pool_ok example_pool" by blast
  with e show ?thesis by (simp add: zero_metrics_def)
qed

text \<open>
   A shard is a queue.  In every state that its loop and its producers can reach, the channel is
  within its capacity, and the records passed to \<open>flush\<close>, then those of the batch in the making,
  then those in the channel, are the accepted records in their order with the evicted ones left
  out, each exactly once; with no eviction they are exactly the accepted records.
\<close>

theorem shard_fifo:
  assumes "(run_step E)\<^sup>*\<^sup>* (run_init now s m) st" and "length (sh_ch s) \<le> sh_cap s"
  shows "length (sh_ch (rn_shard st)) \<le> sh_cap (rn_shard st)
    \<and> subseq (concat (rn_flushed st) @ rn_batch st @ sh_ch (rn_shard st)) (rn_accepted st)
    \<and> mset (rn_accepted st) = mset (concat (rn_flushed st) @ rn_batch st @ sh_ch (rn_shard st)) + mset (rn_evicted st)
    \<and> (rn_evicted st = [] \<longrightarrow> rn_accepted st = concat (rn_flushed st) @ rn_batch st @ sh_ch (rn_shard st))"
  using run_reach_inv [OF assms] by (simp add: run_inv_def)

definition example_shard :: shard where
  "example_shard = \<lparr>sh_id = 0, sh_ch = [example_record], sh_cap = 2, sh_quit = False\<rparr>"

definition example_run :: runner where
  "example_run = run_recv example_env 7 example_record [] (run_init 0 example_shard example_manager)"

theorem shard_fifo_witness:
  "length (sh_ch (rn_shard example_run)) \<le> sh_cap (rn_shard example_run)
    \<and> subseq (concat (rn_flushed example_run) @ rn_batch example_run @ sh_ch (rn_shard example_run)) (rn_accepted example_run)
    \<and> mset (rn_accepted example_run)
      = mset (concat (rn_flushed example_run) @ rn_batch example_run @ sh_ch (rn_shard example_run)) + mset (rn_evicted example_run)
    \<and> rn_accepted example_run = concat (rn_flushed example_run) @ rn_batch example_run @ sh_ch (rn_shard example_run)"
proof -
  have "run_step example_env (run_init 0 example_shard example_manager) example_run"
    unfolding example_run_def by (rule recv) (simp_all add: run_init_def example_shard_def)
  then have "(run_step example_env)\<^sup>*\<^sup>* (run_init 0 example_shard example_manager) example_run" by simp
  moreover have "rn_evicted example_run = []" by (simp add: example_run_def run_recv_same run_init_def)
  ultimately show ?thesis using shard_fifo [of example_env 0 example_shard example_manager example_run] by (simp add: example_shard_def)
qed


definition example_stop :: runner where
  "example_stop = (run_init 0 (example_shard\<lparr>sh_quit := True\<rparr>) example_manager)\<lparr>rn_draining := True\<rparr>"


end
