(* ===== verification/Pipeline.thy ===== *)
theory Pipeline
  imports NetFlow9 Ipfix Shards
begin

text \<open>
  Package \<open>pipeline\<close> (\<open>internal/pipeline/pipeline.go\<close>, \<open>signals.go\<close>): admission of a datagram by the
  device registry, decoding, enrichment, normalization, the skip rules and the hand-over to the
  writer, with the evidence kept for devices whose flows carry no translation.

  The decoder and the writer are the parameters \<open>pe_decode\<close> and \<open>pe_offer\<close> with the contracts
  \<open>flow_decoder\<close> and \<open>record_sink\<close>, which the three decoders and the writer pool satisfy.  The
  counters are shared with the writer.  The pool of scratch buffers only saves allocations: a
  packet always starts with an empty buffer.

  The lemmas show which datagrams reach the decoder, that exactly the flows the rules keep are
  handed to the writer, in order and under the identity of the device, and that every decoded flow is
  accounted for.
\<close>

section \<open>Evidence of dropped flows\<close>

record devSig =
  noNAT :: u64
  lastFlow :: gotime

type_synonym device_signals = "(u32 \<times> devSig) list"

definition NewDeviceSignals :: device_signals where
  "NewDeviceSignals = []"

text \<open>\<open>None\<close> is a nil tracker.\<close>

definition noteNoNAT :: "u32 \<Rightarrow> gotime \<Rightarrow> device_signals option \<Rightarrow> device_signals option" where
  "noteNoNAT deviceID t d =
     (case d of None \<Rightarrow> None
      | Some m \<Rightarrow>
          if deviceID = 0 then Some m
          else let s = (case map_of m deviceID of None \<Rightarrow> \<lparr>noNAT = 0, lastFlow = zero_time\<rparr> | Some s \<Rightarrow> s)
               in Some (AList.update deviceID \<lparr>noNAT = noNAT s + 1, lastFlow = t\<rparr> m))"

definition Snapshot :: "device_signals option \<Rightarrow> u32 \<rightharpoonup> u64 \<times> gotime" where
  "Snapshot d = (case d of None \<Rightarrow> Map.empty | Some m \<Rightarrow> (\<lambda>i. map_option (\<lambda>s. (noNAT s, lastFlow s)) (map_of m i)))"

section \<open>The pipeline\<close>

record ('s, 'w) pipeline =
  pe_decode :: "'s \<Rightarrow> flow list \<Rightarrow> bytes \<Rightarrow> ip \<Rightarrow> 's decode_result"
  pe_kind :: string
  pe_live :: live
  pe_devices :: "registry option"
  pe_defISPID :: u32
  pe_defDevice :: u32
  pe_subscriber :: "(ip \<Rightarrow> string) option"
  pe_offer :: "flow_record \<Rightarrow> 'w \<times> metrics \<Rightarrow> (bool \<times> 'w \<times> metrics) outcome"
  pe_now :: "nat \<Rightarrow> gotime"

text \<open>What a packet can change; \<open>ps_ticks\<close> counts the readings of the clock.\<close>

record ('s, 'w) pstate =
  ps_dec :: 's
  ps_writer :: 'w
  ps_metrics :: metrics
  ps_signals :: "device_signals option"
  ps_ticks :: nat

text \<open>Identity, rules and admission: \<open>None\<close> when the packet is rejected before decoding.\<close>

record identity =
  i_ISPID :: u32
  i_DeviceID :: u32
  i_Rules :: rule_set
  i_Matched :: bool

definition resolve :: "('s, 'w) pipeline \<Rightarrow> ip \<Rightarrow> metrics \<Rightarrow> identity option \<times> metrics" where
  "resolve P exporter x =
     (case Lookup_device (pe_devices P) exporter of
        Some dev \<Rightarrow>
          if \<not> d_Enabled dev then (None, inc_DeviceRejectedPackets x)
          else (Some \<lparr>i_ISPID = d_ISPID dev, i_DeviceID = d_DeviceID dev, i_Rules = d_Rules dev, i_Matched = True\<rparr>,
                inc_DeviceMatchedPackets x)
      | None \<Rightarrow>
          (case l_UnknownMode (pe_live P) of
             ModeReject \<Rightarrow> (None, inc_DeviceRejectedPackets (inc_UnknownExporterPackets x))
           | ModeObserve \<Rightarrow>
               (Some \<lparr>i_ISPID = 0, i_DeviceID = 0, i_Rules = l_Rules (pe_live P), i_Matched = False\<rparr>,
                inc_UnknownExporterPackets x)
           | ModeAllow \<Rightarrow>
               (Some \<lparr>i_ISPID = pe_defISPID P, i_DeviceID = pe_defDevice P, i_Rules = l_Rules (pe_live P), i_Matched = False\<rparr>,
                inc_UnknownExporterPackets x)))"

definition enrich :: "('s, 'w) pipeline \<Rightarrow> flow \<Rightarrow> flow" where
  "enrich P f =
     (case pe_subscriber P of
        Some sub \<Rightarrow> if f_Username f = [] then f\<lparr>f_Username := sub (f_SrcIP f)\<rparr> else f
      | None \<Rightarrow> f)"

text \<open>One flow of the loop.\<close>

definition handle_flow :: "('s, 'w) pipeline \<Rightarrow> identity \<Rightarrow> flow \<Rightarrow> ('s, 'w) pstate \<Rightarrow> ('s, 'w) pstate outcome" where
  "handle_flow P i f st =
     (let rec = Normalize (pe_now P (ps_ticks st)) (enrich P f) (pe_kind P) (i_ISPID i) (i_DeviceID i);
          x = inc_FlowsDecoded (ps_metrics st);
          x = (if \<not> i_Matched i then inc_UnknownExporterFlows x else x);
          st = st\<lparr>ps_metrics := x, ps_ticks := Suc (ps_ticks st)\<rparr>;
          (skip, why) = ShouldSkip (i_Rules i) rec
      in if skip then
           let st = st\<lparr>ps_metrics := inc_FlowsSkipped (ps_metrics st)\<rparr>
           in Returns (
                if i_Matched i then
                  let st = st\<lparr>ps_metrics := inc_DeviceRuleSkipped (ps_metrics st)\<rparr>
                  in if why = ReasonNoNAT
                     then st\<lparr>ps_signals := noteNoNAT (i_DeviceID i) (pe_now P (ps_ticks st)) (ps_signals st),
                             ps_ticks := Suc (ps_ticks st)\<rparr>
                     else st
                else st)
         else case pe_offer P rec (ps_writer st, ps_metrics st) of
           Returns (ok, w, x) \<Rightarrow>
             Returns (st\<lparr>ps_writer := w, ps_metrics := (if ok then x else inc_FlowsDropped x)\<rparr>)
         | Blocks \<Rightarrow> Blocks
         | Panics \<Rightarrow> Panics)"

fun handle_flows :: "('s, 'w) pipeline \<Rightarrow> identity \<Rightarrow> flow list \<Rightarrow> ('s, 'w) pstate \<Rightarrow> ('s, 'w) pstate outcome" where
  "handle_flows P i [] st = Returns st"
| "handle_flows P i (f # fs) st =
     (case handle_flow P i f st of Returns st' \<Rightarrow> handle_flows P i fs st' | Blocks \<Rightarrow> Blocks | Panics \<Rightarrow> Panics)"

definition HandlePacket :: "('s, 'w) pipeline \<Rightarrow> bytes \<Rightarrow> ip \<Rightarrow> ('s, 'w) pstate \<Rightarrow> ('s, 'w) pstate outcome" where
  "HandlePacket P payload exporter st =
     (let x = ps_metrics st;
          x = (if pe_kind P = ''netflow5'' then inc_NetFlow5Packets x else x);
          (adm, x) = resolve P exporter x;
          st = st\<lparr>ps_metrics := x\<rparr>
      in case adm of
           None \<Rightarrow> Returns st
         | Some i \<Rightarrow>
             (case pe_decode P (ps_dec st) [] payload exporter of
                None \<Rightarrow> Panics
              | Some (flows, err, dec) \<Rightarrow>
                  let st = st\<lparr>ps_dec := dec\<rparr> in
                  (case err of
                     Some e \<Rightarrow>
                       Returns (st\<lparr>ps_metrics := (if e = ErrUnsupported then inc_PacketsUnsupported (ps_metrics st)
                                                 else inc_PacketsDropped (ps_metrics st))\<rparr>)
                   | None \<Rightarrow> handle_flows P i flows st)))"

section \<open>Flows and records\<close>

text \<open>The record of a flow, up to the time of its arrival, and whether the rules keep it.\<close>

definition record_of :: "('s, 'w) pipeline \<Rightarrow> identity \<Rightarrow> gotime \<Rightarrow> flow \<Rightarrow> flow_record" where
  "record_of P i t f = Normalize t (enrich P f) (pe_kind P) (i_ISPID i) (i_DeviceID i)"

definition kept :: "('s, 'w) pipeline \<Rightarrow> identity \<Rightarrow> flow \<Rightarrow> bool" where
  "kept P i f \<longleftrightarrow> \<not> fst (ShouldSkip (i_Rules i) (record_of P i zero_time f))"

lemma ShouldSkip_timeless: "ShouldSkip r (Normalize t f k a b) = ShouldSkip r (Normalize t' f k a b)"
  by (simp only: ShouldSkip_def Normalize_def isTranslation_def flow_record.simps)

lemma kept_at: "kept P i f \<longleftrightarrow> \<not> fst (ShouldSkip (i_Rules i) (record_of P i t f))"
  unfolding kept_def record_of_def by (subst ShouldSkip_timeless [where t' = t]) simp

text \<open>The counters of decoded and skipped flows, and those of records dropped at the queue and in total.\<close>

definition flow_counts :: "metrics \<Rightarrow> nat \<times> nat \<times> nat \<times> nat" where
  "flow_counts x = (m_FlowsDecoded x, m_FlowsSkipped x, m_WriterQueueDropped x, m_FlowsDropped x)"

lemma handle_flow_skipped:
  assumes "\<not> kept P i f" and "flow_counts (ps_metrics st) = (a, b, c, d)"
  shows "\<exists>st'. handle_flow P i f st = Returns st' \<and> ps_dec st' = ps_dec st \<and> ps_writer st' = ps_writer st
    \<and> flow_counts (ps_metrics st') = (Suc a, Suc b, c, d)"
proof -
  obtain why where s: "ShouldSkip (i_Rules i) (record_of P i (pe_now P (ps_ticks st)) f) = (True, why)"
    using assms(1) kept_at [of P i f "pe_now P (ps_ticks st)"] by (metis prod.collapse)
  show ?thesis
    using s assms(2) by (auto simp: handle_flow_def record_of_def Let_def flow_counts_def metric_defs)
qed

lemma handle_flow_kept:
  assumes "kept P i f"
  shows "\<exists>x t. flow_counts x = (case flow_counts (ps_metrics st) of (a, b, c, d) \<Rightarrow> (Suc a, b, c, d))
    \<and> handle_flow P i f st = (case pe_offer P (record_of P i t f) (ps_writer st, x) of
        Returns (ok, w, y) \<Rightarrow> Returns (st\<lparr>ps_metrics := (if ok then y else inc_FlowsDropped y), ps_ticks := Suc (ps_ticks st), ps_writer := w\<rparr>)
      | Blocks \<Rightarrow> Blocks | Panics \<Rightarrow> Panics)"
proof -
  define t where "t = pe_now P (ps_ticks st)"
  define x where "x = (if \<not> i_Matched i then inc_UnknownExporterFlows (inc_FlowsDecoded (ps_metrics st)) else inc_FlowsDecoded (ps_metrics st))"
  obtain why where s: "ShouldSkip (i_Rules i) (record_of P i t f) = (False, why)"
    using assms kept_at [of P i f t] by (metis prod.collapse)
  have "flow_counts x = (case flow_counts (ps_metrics st) of (a, b, c, d) \<Rightarrow> (Suc a, b, c, d))"
    by (simp add: x_def flow_counts_def metric_defs)
  moreover have "handle_flow P i f st = (case pe_offer P (record_of P i t f) (ps_writer st, x) of
        Returns (ok, w, y) \<Rightarrow> Returns (st\<lparr>ps_metrics := (if ok then y else inc_FlowsDropped y), ps_ticks := Suc (ps_ticks st), ps_writer := w\<rparr>)
      | Blocks \<Rightarrow> Blocks | Panics \<Rightarrow> Panics)"
    using s by (simp add: handle_flow_def record_of_def t_def x_def Let_def split: outcome.splits)
  ultimately show ?thesis by blast
qed

text \<open>The records \<open>rs\<close> are those of the flows \<open>fs\<close>, each with some time of arrival.\<close>

definition records_for :: "('s, 'w) pipeline \<Rightarrow> identity \<Rightarrow> flow list \<Rightarrow> flow_record list \<Rightarrow> bool" where
  "records_for P i fs rs \<longleftrightarrow> list_all2 (\<lambda>f r. \<exists>t. r = record_of P i t f) fs rs"

context record_sink
begin

text \<open>
  The loop over the flows of a packet: the kept flows are offered in order, and the counters
  grow by the flows, by the skipped ones, and with what the buffers take by the kept ones.
\<close>

lemma handle_flows_returns:
  assumes "pe_offer P = offer" and "sink_ok (ps_writer st)" and "handle_flows P i fs st = Returns st'"
    and "flow_counts (ps_metrics st) = (a, b, c, d)"
  shows "ps_dec st' = ps_dec st \<and> sink_ok (ps_writer st')
    \<and> (\<exists>rs x'. records_for P i (filter (kept P i) fs) rs \<and> offer_all offer rs (ps_writer st, ps_metrics st) = Returns (ps_writer st', x'))
    \<and> (\<exists>k j. flow_counts (ps_metrics st') = (a + length fs, b + length (filter (\<lambda>f. \<not> kept P i f) fs), c + k, d + k + j)
        \<and> j \<le> k \<and> buffered (ps_writer st') + k = buffered (ps_writer st) + length (filter (kept P i) fs))"
  using assms
proof (induction fs arbitrary: st a b c d)
  case Nil
  then show ?case by (auto simp: records_for_def intro: exI [of _ "[]"])
next
  case (Cons f fs)
  show ?case
  proof (cases "kept P i f")
    case False
    obtain st1 where s1: "handle_flow P i f st = Returns st1" "ps_dec st1 = ps_dec st" "ps_writer st1 = ps_writer st"
      "flow_counts (ps_metrics st1) = (Suc a, Suc b, c, d)" using handle_flow_skipped [OF False Cons.prems(4)] by blast
    have "handle_flows P i fs st1 = Returns st'" using Cons.prems(3) s1(1) by simp
    note IH = Cons.IH [OF Cons.prems(1) _ this s1(4)]
    obtain rs x' where rs: "records_for P i (filter (kept P i) fs) rs"
      "offer_all offer rs (ps_writer st, ps_metrics st1) = Returns (ps_writer st', x')" using IH Cons.prems(2) s1(3) by auto
    obtain y' where "offer_all offer rs (ps_writer st, ps_metrics st) = Returns (ps_writer st', y')"
      using offer_all_indep [OF Cons.prems(2) rs(2)] by blast
    then show ?thesis using IH Cons.prems(2) s1 False rs(1) by auto
  next
    case True
    obtain x t where x: "flow_counts x = (Suc a, b, c, d)"
      "handle_flow P i f st = (case offer (record_of P i t f) (ps_writer st, x) of
        Returns (ok, w, y) \<Rightarrow> Returns (st\<lparr>ps_metrics := (if ok then y else inc_FlowsDropped y), ps_ticks := Suc (ps_ticks st), ps_writer := w\<rparr>)
      | Blocks \<Rightarrow> Blocks | Panics \<Rightarrow> Panics)"
      using handle_flow_kept [OF True, of st] Cons.prems(1,4) by auto
    obtain ok w y where o: "offer (record_of P i t f) (ps_writer st, x) = Returns (ok, w, y)"
      using Cons.prems(3) x(2) by (auto split: outcome.splits)
    define st1 where "st1 = st\<lparr>ps_metrics := (if ok then y else inc_FlowsDropped y), ps_ticks := Suc (ps_ticks st), ps_writer := w\<rparr>"
    obtain k where k: "sink_ok w" "drops_only k x y" "buffered w + k = Suc (buffered (ps_writer st))" "\<not> ok \<longrightarrow> 0 < k"
      using offer_effect [OF Cons.prems(2) o] by auto
    have c1: "flow_counts (ps_metrics st1) = (Suc a, b, c + k, d + k + (if ok then 0 else 1))"
      using x(1) k(2) by (auto simp: st1_def flow_counts_def drops_only_def metric_defs)
    have h: "handle_flows P i fs st1 = Returns st'" using Cons.prems(3) x(2) o by (simp add: st1_def)
    have w1: "sink_ok (ps_writer st1)" "ps_dec st1 = ps_dec st" "ps_writer st1 = w" using k(1) by (simp_all add: st1_def)
    note IH = Cons.IH [OF Cons.prems(1) w1(1) h c1]
    obtain rs x' where rs: "records_for P i (filter (kept P i) fs) rs"
      "offer_all offer rs (w, ps_metrics st1) = Returns (ps_writer st', x')" using IH w1 by auto
    obtain y1 where y1: "offer (record_of P i t f) (ps_writer st, ps_metrics st) = Returns (ok, w, y1)"
      using offer_indep [OF Cons.prems(2) o] by blast
    obtain y' where "offer_all offer rs (w, y1) = Returns (ps_writer st', y')"
      using offer_all_indep [OF k(1) rs(2)] by blast
    then have "offer_all offer (record_of P i t f # rs) (ps_writer st, ps_metrics st) = Returns (ps_writer st', y')"
      using y1 by simp
    moreover have "records_for P i (filter (kept P i) (f # fs)) (record_of P i t f # rs)"
      using rs(1) True by (auto simp: records_for_def)
    moreover obtain k' j where "flow_counts (ps_metrics st')
        = (Suc a + length fs, b + length (filter (\<lambda>f. \<not> kept P i f) fs), c + k + k', d + k + (if ok then 0 else 1) + k' + j)"
      "j \<le> k'" "buffered (ps_writer st') + k' = buffered w + length (filter (kept P i) fs)" using IH w1 by auto
    moreover from this have "\<exists>k j. flow_counts (ps_metrics st') = (a + length (f # fs), b + length (filter (\<lambda>f. \<not> kept P i f) (f # fs)), c + k, d + k + j)
        \<and> j \<le> k \<and> buffered (ps_writer st') + k = buffered (ps_writer st) + length (filter (kept P i) (f # fs))"
      using True k(3,4) by (intro exI [of _ "k + k'"] exI [of _ "(if ok then 0 else 1) + j"]) auto
    moreover have "ps_dec st' = ps_dec st" "sink_ok (ps_writer st')" using IH w1(2) by auto
    ultimately show ?thesis by blast
  qed
qed

lemma handle_flows_no_panic:
  assumes "pe_offer P = offer" and "sink_ok (ps_writer st)"
  shows "handle_flows P i fs st \<noteq> Panics"
  using assms(2)
proof (induction fs arbitrary: st)
  case (Cons f fs)
  show ?case
  proof (cases "handle_flow P i f st")
    case (Returns st1)
    then have "handle_flows P i [f] st = Returns st1" by simp
    then have "sink_ok (ps_writer st1)"
      using handle_flows_returns [OF assms(1) Cons.prems] by (metis prod_cases4)
    then show ?thesis using Cons.IH Returns by simp
  next
    case Panics
    then show ?thesis
    proof (cases "kept P i f")
      case True
      obtain x t where h: "handle_flow P i f st = (case offer (record_of P i t f) (ps_writer st, x) of
        Returns (ok, w, y) \<Rightarrow> Returns (st\<lparr>ps_metrics := (if ok then y else inc_FlowsDropped y), ps_ticks := Suc (ps_ticks st), ps_writer := w\<rparr>)
        | Blocks \<Rightarrow> Blocks | Panics \<Rightarrow> Panics)"
        using handle_flow_kept [OF True, of st] assms(1) by auto
      then show ?thesis
        using offer_no_panic [OF Cons.prems, of "record_of P i t f" x] Panics
        by (cases "offer (record_of P i t f) (ps_writer st, x)") auto
    next
      case False
      then show ?thesis using handle_flow_skipped [OF False, of st] Panics by (metis outcome.distinct(3) prod_cases4)
    qed
  qed simp
qed simp

end

section \<open>Packets\<close>

text \<open>The metrics of a packet after admission.\<close>

definition admit :: "('s, 'w) pipeline \<Rightarrow> ip \<Rightarrow> metrics \<Rightarrow> identity option \<times> metrics" where
  "admit P exporter x = resolve P exporter (if pe_kind P = ''netflow5'' then inc_NetFlow5Packets x else x)"

lemma HandlePacket_eq:
  "HandlePacket P payload exporter st =
     (case admit P exporter (ps_metrics st) of
        (None, x) \<Rightarrow> Returns (st\<lparr>ps_metrics := x\<rparr>)
      | (Some i, x) \<Rightarrow>
          (case pe_decode P (ps_dec st) [] payload exporter of
             None \<Rightarrow> Panics
           | Some (flows, Some e, dec) \<Rightarrow>
               Returns (st\<lparr>ps_metrics := (if e = ErrUnsupported then inc_PacketsUnsupported x else inc_PacketsDropped x), ps_dec := dec\<rparr>)
           | Some (flows, None, dec) \<Rightarrow> handle_flows P i flows (st\<lparr>ps_metrics := x, ps_dec := dec\<rparr>)))"
  by (auto simp: HandlePacket_def admit_def Let_def split: prod.splits option.splits)

lemma admit_counts: "admit P exporter x = (adm, x') \<Longrightarrow> flow_counts x' = flow_counts x"
  by (auto simp: admit_def resolve_def flow_counts_def metric_defs split: option.splits unknown_mode.splits if_splits)

lemma resolve_None:
  "fst (resolve P exporter x) = None \<longleftrightarrow>
     (case Lookup_device (pe_devices P) exporter of Some dev \<Rightarrow> \<not> d_Enabled dev | None \<Rightarrow> l_UnknownMode (pe_live P) = ModeReject)"
  by (auto simp: resolve_def split: option.splits unknown_mode.splits)

text \<open>
   Admission comes first.  The packet of a registered but disabled device, and that of an
  unregistered exporter in the mode \<open>reject\<close>, changes neither the decoder (so it cannot plant a
  template), nor the writer, nor the evidence of devices, nor the counters of flows.
\<close>

theorem rejected_untouched:
  assumes "case Lookup_device (pe_devices P) exporter of
      Some dev \<Rightarrow> \<not> d_Enabled dev | None \<Rightarrow> l_UnknownMode (pe_live P) = ModeReject"
  shows "\<exists>x'. HandlePacket P payload exporter st = Returns (st\<lparr>ps_metrics := x'\<rparr>)
    \<and> flow_counts x' = flow_counts (ps_metrics st)
    \<and> m_DeviceRejectedPackets x' = Suc (m_DeviceRejectedPackets (ps_metrics st))"
proof -
  obtain x' where a: "admit P exporter (ps_metrics st) = (None, x')"
    using resolve_None [THEN iffD2, OF assms] by (metis admit_def prod.collapse)
  then have "m_DeviceRejectedPackets x' = Suc (m_DeviceRejectedPackets (ps_metrics st))"
    by (auto simp: admit_def resolve_def metric_defs split: option.splits unknown_mode.splits if_splits)
  then show ?thesis using a admit_counts [OF a] by (intro exI [of _ x']) (simp add: HandlePacket_eq)
qed

definition example_pipeline :: "unknown_mode \<Rightarrow> (v9_decoder, pool) pipeline" where
  "example_pipeline mode = \<lparr>pe_decode = Decode_v9 (\<lambda>_. 1), pe_kind = Kind_v9, pe_live = (Live zero_config)\<lparr>l_UnknownMode := mode\<rparr>,
     pe_devices = None, pe_defISPID = 1, pe_defDevice = 2, pe_subscriber = None, pe_offer = offer_pool DropNew False,
     pe_now = \<lambda>_. zero_time\<rparr>"

definition example_state :: "(v9_decoder, pool) pstate" where
  "example_state = \<lparr>ps_dec = New_v9 None None, ps_writer = example_pool, ps_metrics = zero_metrics, ps_signals = None, ps_ticks = 0\<rparr>"

theorem rejected_untouched_witness:
  "\<exists>x'. HandlePacket (example_pipeline ModeReject) [0, 9] [10, 0, 0, 1] example_state = Returns (example_state\<lparr>ps_metrics := x'\<rparr>)
    \<and> flow_counts x' = flow_counts (ps_metrics example_state)
    \<and> m_DeviceRejectedPackets x' = Suc (m_DeviceRejectedPackets (ps_metrics example_state))"
  by (rule rejected_untouched) (simp add: example_pipeline_def Lookup_device_def)

text \<open>
  The effect of the flows \<open>fs\<close> under the identity \<open>i\<close>: the writer gets the records of the kept
  flows in order; each flow is counted as decoded and each other one as skipped; of the records
  offered, what the writer does not buffer is counted as dropped at the queue.
\<close>

definition packet_effect ::
  "('s, 'w) pipeline \<Rightarrow> ('w \<Rightarrow> nat) \<Rightarrow> identity \<Rightarrow> flow list \<Rightarrow> ('s, 'w) pstate \<Rightarrow> ('s, 'w) pstate \<Rightarrow> bool" where
  "packet_effect P buffered i fs st st' \<longleftrightarrow>
     (\<exists>rs x'. records_for P i (filter (kept P i) fs) rs
        \<and> offer_all (pe_offer P) rs (ps_writer st, ps_metrics st) = Returns (ps_writer st', x'))
     \<and> (\<exists>k j. flow_counts (ps_metrics st') =
            (case flow_counts (ps_metrics st) of (a, b, c, d) \<Rightarrow>
               (a + length fs, b + length (filter (\<lambda>f. \<not> kept P i f) fs), c + k, d + k + j))
          \<and> j \<le> k \<and> buffered (ps_writer st') + k = buffered (ps_writer st) + length (filter (kept P i) fs))"

lemma packet_effect_none:
  "ps_writer st' = ps_writer st \<Longrightarrow> flow_counts (ps_metrics st') = flow_counts (ps_metrics st) \<Longrightarrow> packet_effect P buffered i [] st st'"
  by (auto simp: packet_effect_def records_for_def intro!: exI [of _ "[]"] split: prod.splits)

lemma packet_effect_flows:
  assumes "record_sink (pe_offer P) sink_ok buffered" and "sink_ok (ps_writer st)"
    and "handle_flows P i fs (st\<lparr>ps_metrics := x, ps_dec := d\<rparr>) = Returns st'" and "flow_counts x = flow_counts (ps_metrics st)"
  shows "ps_dec st' = d \<and> sink_ok (ps_writer st') \<and> packet_effect P buffered i fs st st'"
proof -
  obtain a b c e where cnt: "flow_counts x = (a, b, c, e)" by (metis prod_cases4)
  have "sink_ok (ps_writer (st\<lparr>ps_metrics := x, ps_dec := d\<rparr>))" using assms(2) by simp
  note h = record_sink.handle_flows_returns [OF assms(1) refl this assms(3), of a b c e]
  obtain rs x' where rs: "records_for P i (filter (kept P i) fs) rs"
    "offer_all (pe_offer P) rs (ps_writer st, x) = Returns (ps_writer st', x')" using h cnt by auto
  obtain y' where "offer_all (pe_offer P) rs (ps_writer st, ps_metrics st) = Returns (ps_writer st', y')"
    using record_sink.offer_all_indep [OF assms(1,2) rs(2)] by blast
  then show ?thesis using h cnt rs(1) assms(4) by (auto simp: packet_effect_def)
qed



text \<open>
   A device without translations leaves a trace.  While the rules drop what a registered device
  sends, the tracker counts each flow dropped for want of a translation under the device, and
  under no other device.
\<close>

definition noNAT_count :: "u32 \<Rightarrow> device_signals option \<Rightarrow> u64" where
  "noNAT_count i d = (case Snapshot d i of None \<Rightarrow> 0 | Some (n, t) \<Rightarrow> n)"

definition no_translation :: "('s, 'w) pipeline \<Rightarrow> identity \<Rightarrow> flow \<Rightarrow> bool" where
  "no_translation P i f \<longleftrightarrow> ShouldSkip (i_Rules i) (record_of P i zero_time f) = (True, ReasonNoNAT)"

lemma noteNoNAT_count:
  assumes "d \<noteq> 0"
  shows "noNAT_count j (noteNoNAT d t (Some m)) = noNAT_count j (Some m) + (if j = d then 1 else 0)"
  using assms by (auto simp: noNAT_count_def noteNoNAT_def Snapshot_def update_conv' Let_def split: option.splits)

lemma handle_flow_signals:
  assumes "handle_flow P i f st = Returns st'" and "ps_signals st = Some m" and "i_Matched i" and "i_DeviceID i \<noteq> 0"
  shows "\<exists>m'. ps_signals st' = Some m' \<and> (\<forall>j. noNAT_count j (Some m') =
    noNAT_count j (Some m) + (if j = i_DeviceID i \<and> no_translation P i f then 1 else 0))"
proof -
  let ?t = "pe_now P (ps_ticks st)"
  obtain skip why where s: "ShouldSkip (i_Rules i) (record_of P i ?t f) = (skip, why)" by (meson surj_pair)
  have s0: "ShouldSkip (i_Rules i) (record_of P i zero_time f) = (skip, why)"
    using s ShouldSkip_timeless unfolding record_of_def by metis
  show ?thesis
  proof (cases "skip \<and> why = ReasonNoNAT")
    case True
    then have "\<exists>t. ps_signals st' = noteNoNAT (i_DeviceID i) t (Some m)"
      using assms s by (auto simp: handle_flow_def record_of_def Let_def)
    then obtain t where t: "ps_signals st' = noteNoNAT (i_DeviceID i) t (Some m)" by blast
    obtain m' where m': "noteNoNAT (i_DeviceID i) t (Some m) = Some m'" using assms(4) by (auto simp: noteNoNAT_def Let_def)
    then show ?thesis using t noteNoNAT_count [OF assms(4), of _ t m] True s0 by (auto simp: no_translation_def)
  next
    case False
    then have "ps_signals st' = Some m"
      using assms s by (auto simp: handle_flow_def record_of_def Let_def split: if_splits outcome.splits)
    then show ?thesis using False s0 by (auto simp: no_translation_def)
  qed
qed

theorem no_nat_evidence:
  assumes "handle_flows P i fs st = Returns st'" and "ps_signals st = Some m" and "i_Matched i" and "i_DeviceID i \<noteq> 0"
  shows "\<exists>m'. ps_signals st' = Some m' \<and> noNAT_count j (Some m') =
    noNAT_count j (Some m) + (if j = i_DeviceID i then of_nat (length (filter (no_translation P i) fs)) else 0)"
  using assms(1,2)
proof (induction fs arbitrary: st m)
  case Nil
  then show ?case by auto
next
  case (Cons f fs)
  obtain st1 where s1: "handle_flow P i f st = Returns st1" "handle_flows P i fs st1 = Returns st'"
    using Cons.prems(1) by (auto split: outcome.splits)
  obtain m1 where m1: "ps_signals st1 = Some m1" "\<forall>j. noNAT_count j (Some m1) =
      noNAT_count j (Some m) + (if j = i_DeviceID i \<and> no_translation P i f then 1 else 0)"
    using handle_flow_signals [OF s1(1) Cons.prems(2) assms(3,4)] by blast
  show ?case using Cons.IH [OF s1(2) m1(1)] m1(2) by auto
qed

definition example_identity :: identity where
  "example_identity = \<lparr>i_ISPID = 1, i_DeviceID = 7, i_Rules = New_rules True True True, i_Matched = True\<rparr>"

theorem no_nat_evidence_witness:
  "\<exists>st' m'. handle_flows (example_pipeline ModeAllow) example_identity [zero_flow, zero_flow]
      (example_state\<lparr>ps_signals := Some NewDeviceSignals\<rparr>) = Returns st'
    \<and> ps_signals st' = Some m' \<and> noNAT_count 7 (Some m') = 2"
proof -
  have nt: "no_translation (example_pipeline ModeAllow) example_identity zero_flow"
    by (simp add: no_translation_def ShouldSkip_def record_of_def Normalize_def enrich_def example_pipeline_def zero_flow_def)
  then have "\<not> kept (example_pipeline ModeAllow) example_identity zero_flow" by (simp add: no_translation_def kept_def)
  then obtain st1 where "handle_flow (example_pipeline ModeAllow) example_identity zero_flow
      (example_state\<lparr>ps_signals := Some NewDeviceSignals\<rparr>) = Returns st1"
    using handle_flow_skipped by (metis prod_cases4)
  moreover obtain st2 where "handle_flow (example_pipeline ModeAllow) example_identity zero_flow st1 = Returns st2"
    using handle_flow_skipped \<open>\<not> kept _ _ zero_flow\<close> by (metis prod_cases4)
  ultimately have h: "handle_flows (example_pipeline ModeAllow) example_identity [zero_flow, zero_flow]
      (example_state\<lparr>ps_signals := Some NewDeviceSignals\<rparr>) = Returns st2" by simp
  have "noNAT_count 7 (Some NewDeviceSignals) = 0" by (simp add: noNAT_count_def Snapshot_def NewDeviceSignals_def)
  then show ?thesis
    using no_nat_evidence [OF h, of NewDeviceSignals 7] nt h by (auto simp: example_identity_def)
qed

text \<open>
  C15.  A refused record is counted as dropped twice.  When the writer refuses a record because its
  queue is full, the queue counts one drop but the total of dropped flows grows by two: once in the
  shard and once more in the pipeline.
\<close>

theorem refused_counted_twice:
  assumes "kept P i f" and "pe_offer P = offer_pool DropNew pick" and "pool_ok (ps_writer st)"
    and "\<And>t. \<not> room (p_shards (ps_writer st) ! nat (shardIndex (record_of P i t f) (p_n (ps_writer st))))"
  shows "\<exists>st'. handle_flow P i f st = Returns st' \<and> ps_writer st' = ps_writer st
    \<and> m_WriterQueueDropped (ps_metrics st') = m_WriterQueueDropped (ps_metrics st) + 1
    \<and> m_FlowsDropped (ps_metrics st') = m_FlowsDropped (ps_metrics st) + 2"
proof -
  obtain x t where x: "flow_counts x = (case flow_counts (ps_metrics st) of (a, b, c, d) \<Rightarrow> (Suc a, b, c, d))"
    "handle_flow P i f st = (case offer_pool DropNew pick (record_of P i t f) (ps_writer st, x) of
      Returns (ok, w, y) \<Rightarrow> Returns (st\<lparr>ps_metrics := (if ok then y else inc_FlowsDropped y), ps_ticks := Suc (ps_ticks st), ps_writer := w\<rparr>)
    | Blocks \<Rightarrow> Blocks | Panics \<Rightarrow> Panics)"
    using handle_flow_kept [OF assms(1), of st] assms(2) by auto
  have "offer_pool DropNew pick (record_of P i t f) (ps_writer st, x) = Returns (False, ps_writer st, drop_shard x)"
    using assms(4) [of t] shard_in_range [OF assms(3), of "record_of P i t f"]
    by (simp add: offer_pool_def enqueue_pool_def Let_def)
  then show ?thesis using x by (simp add: flow_counts_def metric_defs)
qed

theorem refused_counted_twice_witness:
  "\<exists>st'. handle_flow (example_pipeline ModeAllow) example_identity
      (zero_flow\<lparr>f_NatPublicIP := [203, 0, 113, 5], f_NatPublicPort := 4000\<rparr>) example_state = Returns st'
    \<and> ps_writer st' = ps_writer example_state
    \<and> m_WriterQueueDropped (ps_metrics st') = m_WriterQueueDropped (ps_metrics example_state) + 1
    \<and> m_FlowsDropped (ps_metrics st') = m_FlowsDropped (ps_metrics example_state) + 2"
proof (rule refused_counted_twice)
  let ?f = "zero_flow\<lparr>f_NatPublicIP := [203, 0, 113, 5], f_NatPublicPort := 4000\<rparr>"
  have r: "record_of (example_pipeline ModeAllow) example_identity zero_time ?f = Normalize zero_time ?f Kind_v9 1 7"
    by (simp add: record_of_def enrich_def example_pipeline_def example_identity_def)
  have "isTranslation (Normalize zero_time ?f Kind_v9 1 7)" by code_simp
  then show "kept (example_pipeline ModeAllow) example_identity ?f" using r ShouldSkip_translation by (simp add: kept_def)
  show "pe_offer (example_pipeline ModeAllow) = offer_pool DropNew False" by (simp add: example_pipeline_def)
qed (use example_pool_ok in \<open>simp_all add: example_state_def example_pool_def room_def shardIndex_def\<close>)

end
