(* ===== verification/Radius.thy ===== *)
theory Radius
  imports Go_Net
begin

text \<open>
  Package \<open>radiusacct\<close> (\<open>internal/radiusacct/radius.go\<close>): the authenticated intake of RADIUS
  Accounting-Requests and the cache from addresses to subscriber sessions.  MD5 is a parameter
  \<open>mdf\<close>; times are nanoseconds; the socket and its goroutines are not modelled.

  The lemmas show that a packet without a valid authenticator leaves the cache alone, what a
  well-formed request of a network access server does, and what the cache answers after it.
\<close>

section \<open>The session cache\<close>

record session =
  ss_Username :: string
  ss_SessionID :: string
  ss_NASIP :: string
  ss_UpdatedAt :: int

record session_cache =
  sc_byIP :: "(string \<times> session) list"
  sc_ttl :: int

definition NewCache_radius :: "int \<Rightarrow> session_cache" where
  "NewCache_radius ttl = \<lparr>sc_byIP = [], sc_ttl = (if ttl \<le> 0 then 48 * 3600 * 1000000000 else ttl)\<rparr>"

text \<open>\<open>now\<close> is the time of the call.  An expired session is removed.\<close>

definition Lookup_radius :: "int \<Rightarrow> ip \<Rightarrow> session_cache \<Rightarrow> string \<times> session_cache" where
  "Lookup_radius now a c =
     (if a = nil_ip then ([], c)
      else case map_of (sc_byIP c) (ip_String a) of
        None \<Rightarrow> ([], c)
      | Some s \<Rightarrow>
          if now - ss_UpdatedAt s > sc_ttl c then ([], c\<lparr>sc_byIP := AList.delete (ip_String a) (sc_byIP c)\<rparr>)
          else (ss_Username s, c))"

definition apply_session :: "int \<Rightarrow> ip \<Rightarrow> session \<Rightarrow> u32 \<Rightarrow> session_cache \<Rightarrow> session_cache" where
  "apply_session now a s status c =
     (if a = nil_ip then c
      else
        let k = ip_String a in
        if status = 2 then
          (case map_of (sc_byIP c) k of
             Some old \<Rightarrow> if ss_SessionID s = [] \<or> ss_SessionID old = ss_SessionID s
                         then c\<lparr>sc_byIP := AList.delete k (sc_byIP c)\<rparr> else c
           | None \<Rightarrow> c\<lparr>sc_byIP := AList.delete k (sc_byIP c)\<rparr>)
        else if status = 1 \<or> status = 3 then c\<lparr>sc_byIP := AList.update k (s\<lparr>ss_UpdatedAt := now\<rparr>) (sc_byIP c)\<rparr>
        else c)"

section \<open>The request\<close>

record acct =
  ac_user :: string
  ac_sid :: string
  ac_ip :: ip
  ac_status :: u32

definition zero_acct :: acct where
  "zero_acct = \<lparr>ac_user = [], ac_sid = [], ac_ip = nil_ip, ac_status = 0\<rparr>"

definition apply_attr :: "byte \<Rightarrow> bytes \<Rightarrow> acct \<Rightarrow> acct" where
  "apply_attr t v a =
     (if t = 1 then a\<lparr>ac_user := str_of_bytes v\<rparr>
      else if t = 8 then (if length v = 4 then a\<lparr>ac_ip := ipv4_16 (v ! 0) (v ! 1) (v ! 2) (v ! 3)\<rparr> else a)
      else if t = 40 then (case be32 v of Some n \<Rightarrow> if length v = 4 then a\<lparr>ac_status := n\<rparr> else a | None \<Rightarrow> a)
      else if t = 44 then a\<lparr>ac_sid := str_of_bytes v\<rparr>
      else a)"

text \<open>The loop over the attributes; \<open>None\<close> is the error \<open>invalid attribute\<close>.\<close>

function (sequential) parse_attrs :: "bytes \<Rightarrow> acct \<Rightarrow> acct option" where
  "parse_attrs (t # l # rest) a =
     (let n = unat l in
      if n < 2 \<or> n - 2 > length rest then None
      else parse_attrs (drop (n - 2) rest) (apply_attr t (take (n - 2) rest) a))"
| "parse_attrs b a = Some a"
  by pat_completeness auto
termination by (relation "measure (\<lambda>(b, a). length b)") auto

datatype acct_error = NotAccounting | BadLength | BadAuthenticator | BadAttribute | MissingAttributes

text \<open>The bytes the authenticator of a request covers: the packet with the authenticator cleared, and the secret.\<close>

definition auth_input :: "bytes \<Rightarrow> bytes \<Rightarrow> bytes" where
  "auth_input secret p = take 4 p @ replicate 16 0 @ drop 20 p @ secret"

definition acct_response :: "(bytes \<Rightarrow> bytes) \<Rightarrow> bytes \<Rightarrow> bytes \<Rightarrow> bytes" where
  "acct_response mdf secret p =
     (let h = [5, p ! 1, 0, 20] in h @ take 16 (mdf (h @ take 16 (drop 4 p) @ secret)))"

definition handle_acct ::
  "(bytes \<Rightarrow> bytes) \<Rightarrow> bytes \<Rightarrow> int \<Rightarrow> bytes \<Rightarrow> ip \<Rightarrow> session_cache \<Rightarrow> (acct_error + bytes) \<times> session_cache" where
  "handle_acct mdf secret now p nas c =
     (if length p < 20 \<or> p ! 0 \<noteq> 4 then (Inl NotAccounting, c)
      else
        let n = nat_at p 2 2 in
        if n < 20 \<or> n > length p then (Inl BadLength, c)
        else
          let p = take n p in
          if mdf (auth_input secret p) \<noteq> take 16 (drop 4 p) then (Inl BadAuthenticator, c)
          else case parse_attrs (drop 20 p) zero_acct of
            None \<Rightarrow> (Inl BadAttribute, c)
          | Some a \<Rightarrow>
              if ac_user a = [] \<or> ac_ip a = nil_ip \<or> ac_status a = 0 then (Inl MissingAttributes, c)
              else (Inr (acct_response mdf secret p),
                    apply_session now (ac_ip a)
                      \<lparr>ss_Username = ac_user a, ss_SessionID = ac_sid a, ss_NASIP = ip_String nas, ss_UpdatedAt = 0\<rparr>
                      (ac_status a) c))"

section \<open>The packets of a network access server\<close>

definition enc_attr :: "byte \<times> bytes \<Rightarrow> bytes" where
  "enc_attr = (\<lambda>(t, v). t # of_nat (length v + 2) # v)"

definition acct_packet :: "(bytes \<Rightarrow> bytes) \<Rightarrow> bytes \<Rightarrow> byte \<Rightarrow> (byte \<times> bytes) list \<Rightarrow> bytes" where
  "acct_packet mdf secret i attrs =
     (let body = concat (map enc_attr attrs);
          h = [4, i] @ put16 (of_nat (20 + length body))
      in h @ mdf (h @ replicate 16 0 @ body @ secret) @ body)"

definition attrs_ok :: "(byte \<times> bytes) list \<Rightarrow> bool" where
  "attrs_ok attrs \<longleftrightarrow> list_all (\<lambda>(t, v). length v \<le> 253) attrs \<and> 20 + length (concat (map enc_attr attrs)) < 65536"

lemma parse_attrs_enc:
  "list_all (\<lambda>(t, v). length v \<le> 253) attrs \<Longrightarrow>
   parse_attrs (concat (map enc_attr attrs)) a = Some (fold (\<lambda>(t, v). apply_attr t v) attrs a)"
proof (induction attrs arbitrary: a)
  case (Cons x attrs)
  obtain t v where x: "x = (t, v)" by (cases x)
  have "unat (of_nat (length v + 2) :: byte) = length v + 2"
    using Cons.prems x by (intro unat_of_nat_u8) simp
  then show ?case using Cons x by (simp add: enc_attr_def del: of_nat_add)
qed simp

lemma handle_acct_packet:
  assumes "\<And>x. length (mdf x) = 16" and "attrs_ok attrs" and "a = fold (\<lambda>(t, v). apply_attr t v) attrs zero_acct"
    and "ac_user a \<noteq> []" and "ac_ip a \<noteq> nil_ip" and "ac_status a \<noteq> 0"
  shows "handle_acct mdf secret now (acct_packet mdf secret i attrs) nas c =
    (Inr (acct_response mdf secret (acct_packet mdf secret i attrs)),
     apply_session now (ac_ip a) \<lparr>ss_Username = ac_user a, ss_SessionID = ac_sid a, ss_NASIP = ip_String nas, ss_UpdatedAt = 0\<rparr>
       (ac_status a) c)"
proof -
  let ?b = "concat (map enc_attr attrs)" and ?p = "acct_packet mdf secret i attrs"
  define h where "h = [4, i] @ put16 (of_nat (20 + length ?b))"
  define m where "m = mdf (h @ replicate 16 0 @ ?b @ secret)"
  have p: "?p = h @ m @ ?b" by (simp add: acct_packet_def h_def m_def Let_def)
  have lens: "length h = 4" "length m = 16" using assms(1) by (simp_all add: h_def m_def)
  have len: "length ?p = 20 + length ?b" by (simp add: p lens)
  have n: "nat_at ?p 2 2 = 20 + length ?b"
  proof -
    have "?p = [4, i] @ put16 (of_nat (20 + length ?b)) @ m @ ?b" by (simp add: p h_def del: of_nat_add)
    then have "nat_at ?p 2 2 = unat (of_nat (20 + length ?b) :: u16)"
      using nat_at_append2 [of "[4, i]" 2 _ 2] nat_at_put16 by simp
    also have "\<dots> = 20 + length ?b" using assms(2) by (intro unat_of_nat_u16) (simp add: attrs_ok_def)
    finally show ?thesis .
  qed
  have "?p ! 0 = 4" by (simp add: p h_def)
  moreover have "auth_input secret ?p = h @ replicate 16 0 @ ?b @ secret" by (simp add: auth_input_def p lens)
  moreover have "take 16 (drop 4 ?p) = m" by (simp add: p lens)
  moreover have "drop 20 ?p = ?b" by (simp add: p lens)
  moreover have "parse_attrs ?b zero_acct = Some a" using parse_attrs_enc assms(2,3) by (simp add: attrs_ok_def)
  ultimately show ?thesis using assms(4-6) len n by (simp add: handle_acct_def m_def)
qed

section \<open>Sessions\<close>

text \<open>The attributes a network access server sends for a session, with others the code ignores.\<close>

definition acct_attrs :: "string \<Rightarrow> string \<Rightarrow> bytes \<Rightarrow> u32 \<Rightarrow> (byte \<times> bytes) list \<Rightarrow> (byte \<times> bytes) list" where
  "acct_attrs user sid a status others =
     [(40, put32 status), (1, bytes_of_str user), (44, bytes_of_str sid), (8, a)] @ others"

definition ignored_attrs :: "(byte \<times> bytes) list \<Rightarrow> bool" where
  "ignored_attrs = list_all (\<lambda>(t, v). t \<notin> {1, 8, 40, 44})"

lemma fold_ignored: "ignored_attrs attrs \<Longrightarrow> fold (\<lambda>(t, v). apply_attr t v) attrs a = a"
  by (induction attrs arbitrary: a) (auto simp: ignored_attrs_def apply_attr_def)

lemma be32_put32_end: "be32 (put32 x) = Some x"
  using be32_put32 [of x "[]"] by simp

lemma fold_acct_attrs:
  assumes "length a = 4" and "ignored_attrs others"
  shows "fold (\<lambda>(t, v). apply_attr t v) (acct_attrs user sid a status others) zero_acct =
    \<lparr>ac_user = user, ac_sid = sid, ac_ip = v4InV6Prefix @ a, ac_status = status\<rparr>"
proof -
  have "ipv4_16 (a ! 0) (a ! 1) (a ! 2) (a ! 3) = v4InV6Prefix @ a"
    using assms(1) by (auto simp: ipv4_16_def numeral_eq_Suc length_Suc_conv)
  then show ?thesis using assms
    by (simp add: acct_attrs_def fold_ignored) (simp add: apply_attr_def zero_acct_def be32_put32_end)
qed

lemma v4_form_nonempty [simp]: "v4InV6Prefix @ a \<noteq> nil_ip"
  by (simp add: v4InV6Prefix_def)

lemma ip_String_v4_forms: "length a = 4 \<Longrightarrow> ip_String (v4InV6Prefix @ a) = ip_String a"
  by (auto simp: ip_String_def ip_to4_def v4InV6Prefix_def)

lemma handle_session_packet:
  assumes "\<And>x. length (mdf x) = 16" and "length a = 4" and "ignored_attrs others" and "user \<noteq> []" and "status \<noteq> 0"
    and "attrs_ok (acct_attrs user sid a status others)"
  shows "handle_acct mdf secret now (acct_packet mdf secret i (acct_attrs user sid a status others)) nas c =
    (Inr (acct_response mdf secret (acct_packet mdf secret i (acct_attrs user sid a status others))),
     apply_session now (v4InV6Prefix @ a) \<lparr>ss_Username = user, ss_SessionID = sid, ss_NASIP = ip_String nas, ss_UpdatedAt = 0\<rparr>
       status c)"
  using handle_acct_packet [where mdf = mdf and secret = secret and now = now and i = i and nas = nas and c = c, OF assms(1,6) refl]
    assms(2-5) by (simp add: fold_acct_attrs v4InV6Prefix_def)

text \<open>
  C21. An accounting packet changes the cache only if its authenticator is the MD5 of the packet
  with a cleared authenticator and the shared secret; whenever the server refuses a packet the
  cache is as before; and it answers only such packets, echoing the identifier.
\<close>

theorem radius_authentic:
  assumes "handle_acct mdf secret now p nas c = (r, c')" and "c' \<noteq> c \<or> (\<exists>resp. r = Inr resp)"
  shows "p ! 0 = 4 \<and> nat_at p 2 2 \<le> length p \<and>
    mdf (auth_input secret (take (nat_at p 2 2) p)) = take 16 (drop 4 p) \<and>
    r = Inr ([5, p ! 1, 0, 20] @ take 16 (mdf ([5, p ! 1, 0, 20] @ take 16 (drop 4 p) @ secret))) \<and>
    (\<exists>a. parse_attrs (drop 20 (take (nat_at p 2 2) p)) zero_acct = Some a \<and>
      (\<forall>k. k \<noteq> ip_String (ac_ip a) \<longrightarrow> map_of (sc_byIP c') k = map_of (sc_byIP c) k))"
proof -
  let ?n = "nat_at p 2 2"
  have n: "\<not> (length p < 20 \<or> p ! 0 \<noteq> 4)" "\<not> (?n < 20 \<or> ?n > length p)"
    using assms by (auto simp: handle_acct_def Let_def split: if_splits)
  have cut: "take 16 (drop 4 (take ?n p)) = take 16 (drop 4 p)" using n by (simp add: drop_take min_def) linarith
  have auth: "mdf (auth_input secret (take ?n p)) = take 16 (drop 4 p)"
    using assms n by (auto simp: handle_acct_def Let_def cut split: if_splits)
  obtain a where a: "parse_attrs (drop 20 (take ?n p)) zero_acct = Some a"
    using assms n auth by (auto simp: handle_acct_def Let_def cut split: if_splits option.splits)
  have r: "r = Inr (acct_response mdf secret (take ?n p))" and
    c': "c' = apply_session now (ac_ip a)
      \<lparr>ss_Username = ac_user a, ss_SessionID = ac_sid a, ss_NASIP = ip_String nas, ss_UpdatedAt = 0\<rparr> (ac_status a) c"
    using assms n auth a by (auto simp: handle_acct_def Let_def cut split: if_splits)
  have "map_of (sc_byIP c') k = map_of (sc_byIP c) k" if "k \<noteq> ip_String (ac_ip a)" for k
    using that by (simp add: c' apply_session_def Let_def delete_conv' update_conv' split: option.splits)
  then show ?thesis using n auth a r cut by (auto simp: acct_response_def)
qed

text \<open>A checksum of sixteen bytes, for examples.\<close>

definition sum16 :: "bytes \<Rightarrow> bytes" where
  "sum16 x = replicate 15 0 @ [sum_list x]"

theorem radius_authentic_witness:
  fixes p
  defines "p \<equiv> acct_packet sum16 [1, 2] 7 (acct_attrs ''bob'' ''s1'' [10, 0, 0, 9] 1 [])"
  shows "p ! 0 = 4 \<and> sum16 (auth_input [1, 2] (take (nat_at p 2 2) p)) = take 16 (drop 4 p)"
proof -
  have ok: "attrs_ok (acct_attrs ''bob'' ''s1'' [10, 0, 0, 9] 1 [])"
    by (simp add: attrs_ok_def acct_attrs_def enc_attr_def bytes_of_str_def)
  have "\<exists>resp. fst (handle_acct sum16 [1, 2] 0 p [10, 0, 0, 1] (NewCache_radius 0)) = Inr resp"
    unfolding p_def by (subst handle_session_packet) (use ok in \<open>simp_all add: sum16_def ignored_attrs_def\<close>)
  then show ?thesis
    using radius_authentic [OF surjective_pairing, of sum16 "[1, 2]" 0 p "[10, 0, 0, 1]" "NewCache_radius 0"] by auto
qed

text \<open>
  A start or interim request that a network access server sends with the shared secret is
  accepted, and until the time to live has passed a lookup of the framed address, in either form
  of \<open>net.IP\<close>, answers its user; after it the lookup answers nothing.  The stop request of the
  same session ends it at once, and that of another session does not.
\<close>

theorem radius_session:
  assumes mdf: "\<And>x. length (mdf x) = 16"
    and a: "length a = 4" "b \<in> {a, v4InV6Prefix @ a}"
    and others: "ignored_attrs others" and user: "user \<noteq> []" and status: "status \<in> {1, 3}"
    and ok: "attrs_ok (acct_attrs user sid a status others)" "attrs_ok (acct_attrs user sid' a 2 others)"
    and c': "snd (handle_acct mdf secret now (acct_packet mdf secret i (acct_attrs user sid a status others)) nas c) = c'"
    and c'': "snd (handle_acct mdf secret now' (acct_packet mdf secret i' (acct_attrs user sid' a 2 others)) nas c') = c''"
  shows "fst (Lookup_radius t b c') = (if t - now \<le> sc_ttl c then user else []) \<and>
    (if sid' \<in> {sid, []} then fst (Lookup_radius t b c'') = [] else c'' = c')"
proof -
  have k: "ip_String b = ip_String a" and b: "b \<noteq> nil_ip" using a by (auto simp: ip_String_v4_forms)
  have "status \<noteq> 0" using status by auto
  note eqs = handle_session_packet [OF mdf a(1) others user]
  have 1: "c' = c\<lparr>sc_byIP := AList.update (ip_String a) \<lparr>ss_Username = user, ss_SessionID = sid, ss_NASIP = ip_String nas, ss_UpdatedAt = now\<rparr> (sc_byIP c)\<rparr>"
    using c' status eqs [OF \<open>status \<noteq> 0\<close> ok(1)] a(1) by (auto simp: apply_session_def Let_def ip_String_v4_forms)
  have 2: "c'' = (if sid' \<in> {sid, []} then c'\<lparr>sc_byIP := AList.delete (ip_String a) (sc_byIP c')\<rparr> else c')"
    using c'' eqs [OF _ ok(2)] a(1) by (auto simp: 1 apply_session_def Let_def ip_String_v4_forms update_conv')
  show ?thesis by (simp add: 1 2 Lookup_radius_def k b update_conv' delete_conv')
qed

theorem radius_session_witness:
  fixes p q c' c''
  defines "p \<equiv> acct_packet sum16 [1, 2] 7 (acct_attrs ''bob'' ''s1'' [10, 0, 0, 9] 1 [])"
    and "q \<equiv> acct_packet sum16 [1, 2] 8 (acct_attrs ''bob'' ''s1'' [10, 0, 0, 9] 2 [])"
    and "c' \<equiv> snd (handle_acct sum16 [1, 2] 5 p [10, 0, 0, 1] (NewCache_radius 100))"
    and "c'' \<equiv> snd (handle_acct sum16 [1, 2] 6 q [10, 0, 0, 1] c')"
  shows "fst (Lookup_radius 20 [10, 0, 0, 9] c') = ''bob'' \<and> fst (Lookup_radius 20 [10, 0, 0, 9] c'') = []"
proof -
  have ok: "attrs_ok (acct_attrs ''bob'' ''s1'' [10, 0, 0, 9] st [])" for st
    by (simp add: attrs_ok_def acct_attrs_def enc_attr_def bytes_of_str_def)
  show ?thesis
    using radius_session [of sum16 "[10, 0, 0, 9]" "[10, 0, 0, 9]" "[]" "''bob''" 1 "''s1''" "''s1''" "[1, 2]" 5 7 "[10, 0, 0, 1]"
        "NewCache_radius 100" c' 6 8 c'' 20] ok
    by (simp add: sum16_def p_def q_def c'_def c''_def ignored_attrs_def NewCache_radius_def)
qed

end
