(* ===== verification/Go_Date.thy ===== *)
theory Go_Date
  imports Go_Strings
begin

text \<open>
  Calendar dates in the layout \<open>2006-01-02\<close>, as \<open>time.Parse\<close> and \<open>Time.Format\<close> read and write
  them, and the numbers with leading zeros \<open>fmt\<close> writes for \<open>%0nd\<close>.
\<close>

type_synonym date = "nat \<times> nat \<times> nat"

definition pad0 :: "nat \<Rightarrow> nat \<Rightarrow> string" where
  "pad0 w n = (let s = dec_string n in replicate (w - length s) CHR ''0'' @ s)"

definition isLeap :: "nat \<Rightarrow> bool" where
  "isLeap y \<longleftrightarrow> y mod 4 = 0 \<and> (y mod 100 \<noteq> 0 \<or> y mod 400 = 0)"

definition daysIn :: "nat \<Rightarrow> nat \<Rightarrow> nat" where
  "daysIn m y = (if m = 2 then (if isLeap y then 29 else 28) else if m \<in> {4, 6, 9, 11} then 30 else 31)"

definition parse_date :: "string \<Rightarrow> date option" where
  "parse_date s =
     (let y = take 4 s; m = take 2 (drop 5 s); d = take 2 (drop 8 s) in
      if length s = 10 \<and> list_all is_digit y \<and> s ! 4 = CHR ''-'' \<and> list_all is_digit m \<and> s ! 7 = CHR ''-''
         \<and> list_all is_digit d
         \<and> 1 \<le> dec_value m \<and> dec_value m \<le> 12 \<and> 1 \<le> dec_value d \<and> dec_value d \<le> daysIn (dec_value m) (dec_value y)
      then Some (dec_value y, dec_value m, dec_value d) else None)"

definition format_date :: "date \<Rightarrow> string" where
  "format_date = (\<lambda>(y, m, d). pad0 4 y @ ''-'' @ pad0 2 m @ ''-'' @ pad0 2 d)"

lemma digit_digit_value [simp]: "is_digit c \<Longrightarrow> digit (digit_value c) = c"
  by (simp add: is_digit_def digit_def digit_value_def)

lemma digit_value_less: "is_digit c \<Longrightarrow> digit_value c < 10"
  by (auto simp: is_digit_def digit_value_def)

lemma dec_value_snoc: "dec_value (s @ [c]) = dec_value s * 10 + digit_value c"
  by (simp add: dec_value_def)

lemma pad0_dec_value: "list_all is_digit s \<Longrightarrow> s \<noteq> [] \<Longrightarrow> pad0 (length s) (dec_value s) = s"
proof (induction s rule: rev_induct)
  case (snoc c s)
  let ?v = "dec_value s" and ?k = "digit_value c"
  have k: "?k < 10" "digit ?k = c" using snoc.prems by (simp_all add: digit_value_less)
  show ?case
  proof (cases "s = []")
    case True
    then show ?thesis using k by (simp add: pad0_def dec_value_def dec_string.simps)
  next
    case False
    then have IH: "pad0 (length s) ?v = s" using snoc by simp
    have "dec_string (?v * 10 + ?k) = (if ?v = 0 then [c] else dec_string ?v @ [c])"
      using k by (subst dec_string.simps) auto
    moreover have "dec_string 0 = [CHR ''0'']" by code_simp
    ultimately show ?thesis using IH False by (auto simp: pad0_def dec_value_snoc Let_def replicate_append_same
      simp flip: replicate_Suc append_Cons)
  qed
qed simp

lemma format_parse_date: "parse_date s = Some x \<Longrightarrow> format_date x = s"
proof -
  assume p: "parse_date s = Some x"
  then have len: "length s = 10" by (auto simp: parse_date_def Let_def split: if_splits)
  then obtain a b c d p e f q g h where s: "s = [a, b, c, d, p, e, f, q, g, h]"
    by (auto simp: numeral_eq_Suc length_Suc_conv)
  have pads: "pad0 4 (dec_value [a, b, c, d]) = [a, b, c, d]" "pad0 2 (dec_value [e, f]) = [e, f]"
    "pad0 2 (dec_value [g, h]) = [g, h]" if "list_all is_digit [a, b, c, d, e, f, g, h]"
    using that pad0_dec_value [of "[a, b, c, d]"] pad0_dec_value [of "[e, f]"] pad0_dec_value [of "[g, h]"]
    by (simp_all add: numeral_eq_Suc)
  show ?thesis using p pads by (auto simp: s parse_date_def format_date_def Let_def split: if_splits)
qed

lemma parse_date_inj: "parse_date s = Some x \<Longrightarrow> parse_date t = Some x \<Longrightarrow> s = t"
  using format_parse_date by blast

lemma dec_string_no_slash: "CHR ''/'' \<notin> set (dec_string n)"
  using dec_string_digits [of n] by (auto simp: list_all_iff is_digit_def)

lemma pad0_no_slash: "CHR ''/'' \<notin> set (pad0 w n)"
  by (auto simp: pad0_def Let_def dec_string_no_slash)

lemma dec_value_pad0 [simp]: "dec_value (pad0 w n) = n"
proof -
  have "dec_value (replicate k CHR ''0'' @ s) = dec_value s" for k s
    by (induction k) (simp_all add: dec_value_def digit_value_def)
  then show ?thesis by (simp add: pad0_def Let_def)
qed

lemma pad0_inj: "pad0 w m = pad0 w n \<Longrightarrow> m = n"
  by (metis dec_value_pad0)

end
