(* ===== verification/Archive.thy ===== *)
theory Archive
  imports Go_Date "HOL-Library.List_Lexorder" "HOL-Library.Char_ord"
begin

text \<open>
  Cold archival: \<open>internal/archive/archive.go\<close>, the object keys of \<open>internal/archive/s3/s3.go\<close>
  and the sweep and the manual export of \<open>internal/director/retention.go\<close>.

  The world is what the code reaches through its clients: the table \<open>flow_logs\<close> of the hot
  store, the objects of the bucket, the table \<open>archived_days\<close> and the registered ISPs.  Each
  statement sent to one of them is a numbered step: the environment says which statements fail,
  how much of a failing upload or query was done, and which rows the collectors insert into
  \<open>flow_logs\<close> before each statement.  A statement that selects, inserts or drops has the meaning
  SQL gives it; as ClickHouse documents, an upload to an existing object fails.

  The lemmas follow every row of the hot store through a sweep.
\<close>

section \<open>Keys\<close>

record s3_client =
  cl_prefix :: string

definition Key_s3 :: "s3_client \<Rightarrow> string \<Rightarrow> string" where
  "Key_s3 c rel =
     (let rel = dropWhile (\<lambda>x. x = CHR ''/'') rel in
      if cl_prefix c = [] then rel else cl_prefix c @ ''/'' @ rel)"

definition trim_prefix :: "string \<Rightarrow> string \<Rightarrow> string" where
  "trim_prefix p s = (if take (length p) s = p then drop (length p) s else s)"

definition ArchiveRel :: "u32 \<Rightarrow> date \<Rightarrow> string \<Rightarrow> string" where
  "ArchiveRel i = (\<lambda>(y, m, d) ext.
     ''isp_id='' @ dec_string (unat i) @ ''/year='' @ pad0 4 y @ ''/month='' @ pad0 2 m @ ''/day='' @ pad0 2 d
       @ ''/part-000.'' @ trim_prefix ''.'' ext)"

definition archive_ext :: "string \<Rightarrow> string" where
  "archive_ext format = (if format = ''csvgz'' \<or> format = ''csv'' then ''csv.gz'' else ''parquet'')"

section \<open>The world\<close>

record arow =
  ar_day :: string
  ar_isp :: u32
  ar_rest :: string

record archived_day =
  ad_Objects :: nat
  ad_Rows :: int
  ad_Bytes :: int

record archive_world =
  aw_hot :: "arow list"
  aw_s3 :: "(string \<times> arow list) list"
  aw_marks :: "(string \<times> archived_day) list"
  aw_isps :: "u32 list"
  aw_step :: nat

record archive_env =
  ae_fails :: "nat \<Rightarrow> bool"
  ae_partial :: "nat \<Rightarrow> nat"
  ae_arrive :: "nat \<Rightarrow> arow list"
  ae_older :: "int \<Rightarrow> string \<Rightarrow> bool"
  ae_size :: "arow list \<Rightarrow> int"

text \<open>One statement: whether it fails, and the world it finds.\<close>

definition statement :: "archive_env \<Rightarrow> archive_world \<Rightarrow> bool \<times> archive_world" where
  "statement e w =
     (ae_fails e (aw_step w), w\<lparr>aw_hot := aw_hot w @ ae_arrive e (aw_step w), aw_step := Suc (aw_step w)\<rparr>)"

definition tenant_rows :: "u32 \<Rightarrow> string \<Rightarrow> archive_world \<Rightarrow> arow list" where
  "tenant_rows i d w = filter (\<lambda>r. ar_day r = d \<and> ar_isp r = i) (aw_hot w)"

definition day_rows :: "string \<Rightarrow> archive_world \<Rightarrow> arow list" where
  "day_rows d w = filter (\<lambda>r. ar_day r = d) (aw_hot w)"

definition object :: "string \<Rightarrow> archive_world \<Rightarrow> arow list" where
  "object k w = (case map_of (aw_s3 w) k of Some rs \<Rightarrow> rs | None \<Rightarrow> [])"

text \<open>\<open>SELECT count()\<close>, \<open>Stat\<close>, \<open>INSERT INTO FUNCTION s3 \<dots> SELECT\<close> and the table of markers.\<close>

definition count_rows :: "archive_env \<Rightarrow> (archive_world \<Rightarrow> arow list) \<Rightarrow> archive_world \<Rightarrow> int option \<times> archive_world" where
  "count_rows e sel w = (let (bad, w) = statement e w in (if bad then None else Some (int (length (sel w))), w))"

definition Stat_s3 :: "archive_env \<Rightarrow> string \<Rightarrow> archive_world \<Rightarrow> int option \<times> archive_world" where
  "Stat_s3 e k w =
     (let (bad, w) = statement e w in
      (if bad then None else map_option (ae_size e) (map_of (aw_s3 w) k), w))"

definition insert_object :: "archive_env \<Rightarrow> string \<Rightarrow> (archive_world \<Rightarrow> arow list) \<Rightarrow> archive_world \<Rightarrow> bool \<times> archive_world" where
  "insert_object e k sel w =
     (let i = aw_step w; (bad, w) = statement e w in
      if map_of (aw_s3 w) k \<noteq> None then (False, w)
      else if bad then
        (False, if ae_partial e i = 0 then w else w\<lparr>aw_s3 := (k, take (ae_partial e i) (sel w)) # aw_s3 w\<rparr>)
      else (True, w\<lparr>aw_s3 := (k, sel w) # aw_s3 w\<rparr>))"

definition IsDayArchived :: "archive_env \<Rightarrow> string \<Rightarrow> archive_world \<Rightarrow> bool \<times> archive_world" where
  "IsDayArchived e d w = (let (bad, w) = statement e w in (\<not> bad \<and> d \<in> fst ` set (aw_marks w), w))"

definition MarkDayArchived :: "archive_env \<Rightarrow> string \<Rightarrow> archived_day \<Rightarrow> archive_world \<Rightarrow> bool \<times> archive_world" where
  "MarkDayArchived e d a w =
     (let (bad, w) = statement e w in
      if bad then (False, w) else (True, w\<lparr>aw_marks := AList.update d a (aw_marks w)\<rparr>))"

definition ListISPs_archive :: "archive_env \<Rightarrow> archive_world \<Rightarrow> u32 list option \<times> archive_world" where
  "ListISPs_archive e w = (let (bad, w) = statement e w in (if bad then None else Some (aw_isps w), w))"

section \<open>The export of one day\<close>

record export_result =
  ex_Rows :: int
  ex_Bytes :: int
  ex_Key :: string

definition zero_result :: export_result where
  "zero_result = \<lparr>ex_Rows = 0, ex_Bytes = 0, ex_Key = []\<rparr>"

definition exportDay ::
  "archive_env \<Rightarrow> s3_client \<Rightarrow> string \<Rightarrow> u32 \<Rightarrow> date \<Rightarrow> archive_world \<Rightarrow> (string + export_result) \<times> archive_world" where
  "exportDay e c format i day w =
     (let sel = tenant_rows i (format_date day);
          (cu, w) = count_rows e sel w
      in case cu of
        None \<Rightarrow> (Inl ''count'', w)
      | Some n \<Rightarrow>
        if n = 0 then (Inr zero_result, w)
        else
          let key = Key_s3 c (ArchiveRel i day (archive_ext format));
              (st, w) = Stat_s3 e key w
          in case st of
            Some sz \<Rightarrow>
              let (archived, w) = count_rows e (object key) w
              in case archived of
                None \<Rightarrow> (Inl ''verify existing s3 object'', w)
              | Some a \<Rightarrow>
                  if a \<noteq> n then (Inl ''existing s3 object row mismatch'', w)
                  else (Inr \<lparr>ex_Rows = n, ex_Bytes = sz, ex_Key = key\<rparr>, w)
          | None \<Rightarrow>
              let (ok, w) = insert_object e key sel w
              in if \<not> ok then (Inl ''export to s3'', w)
                 else let (st, w) = Stat_s3 e key w
                      in (Inr \<lparr>ex_Rows = n, ex_Bytes = (case st of Some z \<Rightarrow> z | None \<Rightarrow> 0), ex_Key = key\<rparr>, w))"

section \<open>The sweep\<close>

text \<open>\<open>daysOlderThan\<close>: the days of the hot store before the window, in order; if the query fails, those read so far.\<close>

definition daysOlderThan :: "archive_env \<Rightarrow> int \<Rightarrow> archive_world \<Rightarrow> string list \<times> archive_world" where
  "daysOlderThan e after w =
     (let after = max 0 after; i = aw_step w; (bad, w) = statement e w;
          days = sort (remdups (filter (ae_older e after) (map ar_day (aw_hot w))))
      in (if bad then take (ae_partial e i) days else days, w))"

definition rowsOnDay :: "archive_env \<Rightarrow> string \<Rightarrow> archive_world \<Rightarrow> int option \<times> archive_world" where
  "rowsOnDay e d w = (if parse_date d = None then (None, w) else count_rows e (day_rows d) w)"

definition DropDay :: "archive_env \<Rightarrow> string \<Rightarrow> archive_world \<Rightarrow> bool \<times> archive_world" where
  "DropDay e d w =
     (if parse_date d = None then (False, w)
      else let (bad, w) = statement e w in
        if bad then (False, w) else (True, w\<lparr>aw_hot := filter (\<lambda>r. ar_day r \<noteq> d) (aw_hot w)\<rparr>))"

record day_totals =
  dt_rows :: int
  dt_bytes :: int
  dt_objs :: nat

text \<open>The loop over the ISPs; \<open>None\<close> when an export fails.\<close>

fun exportAll ::
  "archive_env \<Rightarrow> s3_client \<Rightarrow> string \<Rightarrow> date \<Rightarrow> u32 list \<Rightarrow> day_totals \<Rightarrow> archive_world \<Rightarrow> day_totals option \<times> archive_world" where
  "exportAll e c format day [] t w = (Some t, w)"
| "exportAll e c format day (i # is) t w =
     (case exportDay e c format i day w of
        (Inl _, w) \<Rightarrow> (None, w)
      | (Inr r, w) \<Rightarrow>
          exportAll e c format day is
            \<lparr>dt_rows = dt_rows t + ex_Rows r, dt_bytes = dt_bytes t + ex_Bytes r,
             dt_objs = (if ex_Key r = [] then dt_objs t else Suc (dt_objs t))\<rparr> w)"

record sweep_totals =
  sw_days :: nat
  sw_rows :: int
  sw_bytes :: int

definition sweep_day ::
  "archive_env \<Rightarrow> s3_client \<Rightarrow> string \<Rightarrow> u32 list \<Rightarrow> string \<Rightarrow> sweep_totals \<times> archive_world \<Rightarrow> sweep_totals \<times> archive_world" where
  "sweep_day e c format isps day = (\<lambda>(tot, w).
     let (was_done, w) = IsDayArchived e day w in
     if was_done then (tot, snd (DropDay e day w))
     else case parse_date day of
       None \<Rightarrow> (tot, w)
     | Some pd \<Rightarrow>
         let (t, w) = exportAll e c format pd isps \<lparr>dt_rows = 0, dt_bytes = 0, dt_objs = 0\<rparr> w
         in case t of
           None \<Rightarrow> (tot, w)
         | Some t \<Rightarrow>
             if dt_rows t = 0 then (tot, w)
             else
               let (hot, w) = rowsOnDay e day w in
               if hot \<noteq> Some (dt_rows t) then (tot, w)
               else
                 let (ok, w) = MarkDayArchived e day \<lparr>ad_Objects = dt_objs t, ad_Rows = dt_rows t, ad_Bytes = dt_bytes t\<rparr> w in
                 if \<not> ok then (tot, w)
                 else
                   let (ok, w) = DropDay e day w in
                   if \<not> ok then (tot, w)
                   else (\<lparr>sw_days = Suc (sw_days tot), sw_rows = sw_rows tot + dt_rows t, sw_bytes = sw_bytes tot + dt_bytes t\<rparr>, w))"

text \<open>\<open>arch\<close> is the exporter, if archiving and the flow store are configured; \<open>None\<close> is an error of \<open>ListISPs\<close>.\<close>

definition ArchiveSweep ::
  "archive_env \<Rightarrow> s3_client option \<Rightarrow> string \<Rightarrow> bool \<Rightarrow> int \<Rightarrow> archive_world \<Rightarrow> sweep_totals option \<times> archive_world" where
  "ArchiveSweep e arch format auto afterDays w =
     (let zero = \<lparr>sw_days = 0, sw_rows = 0, sw_bytes = 0\<rparr> in
      case arch of
        None \<Rightarrow> (Some zero, w)
      | Some c \<Rightarrow>
        if \<not> auto then (Some zero, w)
        else
          let after = (if afterDays < 1 then 7 else afterDays);
              (isps, w) = ListISPs_archive e w
          in case isps of
            None \<Rightarrow> (None, w)
          | Some isps \<Rightarrow>
              let (days, w) = daysOlderThan e after w;
                  (tot, w) = fold (sweep_day e c format isps) days (zero, w)
              in (Some tot, w))"

section \<open>The manual export\<close>

record manual_totals =
  mt_rows :: int
  mt_bytes :: int
  mt_keys :: "string list"
  mt_failed :: nat

fun exportEach ::
  "archive_env \<Rightarrow> s3_client \<Rightarrow> string \<Rightarrow> date \<Rightarrow> u32 list \<Rightarrow> manual_totals \<Rightarrow> archive_world \<Rightarrow> manual_totals \<times> archive_world" where
  "exportEach e c format day [] t w = (t, w)"
| "exportEach e c format day (i # is) t w =
     (case exportDay e c format i day w of
        (Inl _, w) \<Rightarrow> exportEach e c format day is (t\<lparr>mt_failed := Suc (mt_failed t)\<rparr>) w
      | (Inr r, w) \<Rightarrow>
          exportEach e c format day is
            (t\<lparr>mt_rows := mt_rows t + ex_Rows r, mt_bytes := mt_bytes t + ex_Bytes r,
               mt_keys := (if ex_Key r = [] then mt_keys t else mt_keys t @ [ex_Key r])\<rparr>) w)"

text \<open>The part of \<open>handleArchive\<close> after authentication, with the HTTP status it answers.\<close>

definition handleArchive ::
  "archive_env \<Rightarrow> s3_client option \<Rightarrow> string \<Rightarrow> string \<Rightarrow> archive_world \<Rightarrow> nat \<times> manual_totals option \<times> archive_world" where
  "handleArchive e arch format date w =
     (case arch of
        None \<Rightarrow> (400, None, w)
      | Some c \<Rightarrow>
        case parse_date date of
          None \<Rightarrow> (400, None, w)
        | Some day \<Rightarrow>
            let (isps, w) = ListISPs_archive e w
            in case isps of
              None \<Rightarrow> (500, None, w)
            | Some isps \<Rightarrow>
                let (t, w) = exportEach e c format day isps \<lparr>mt_rows = 0, mt_bytes = 0, mt_keys = [], mt_failed = 0\<rparr> w;
                    (ok, w) = (if mt_failed t = 0 \<and> mt_rows t > 0
                               then MarkDayArchived e (format_date day)
                                 \<lparr>ad_Objects = length (mt_keys t), ad_Rows = mt_rows t, ad_Bytes = mt_bytes t\<rparr> w
                               else (True, w))
                in (if \<not> ok \<or> (mt_failed t > 0 \<and> mt_keys t = []) then 500 else 200, Some t, w))"

section \<open>Keys name a tenant and a day\<close>

abbreviation archive_exts :: "string set" where
  "archive_exts \<equiv> {''parquet'', ''csv.gz''}"

definition archive_key :: "s3_client \<Rightarrow> u32 \<Rightarrow> date \<Rightarrow> string \<Rightarrow> string" where
  "archive_key c i day ext = Key_s3 c (ArchiveRel i day ext)"

lemma archive_ext_in: "archive_ext format \<in> archive_exts"
  by (simp add: archive_ext_def)

lemma ArchiveRel_inj:
  assumes "ArchiveRel i day ext = ArchiveRel i' day' ext'"
  shows "i = i' \<and> day = day'"
proof -
  obtain y m d y' m' d' where days: "day = (y, m, d)" "day' = (y', m', d')" by (metis prod_cases3)
  have 1: "dec_string (unat i) @ CHR ''/'' # ''year='' @ pad0 4 y @ ''/month='' @ pad0 2 m @ ''/day='' @ pad0 2 d
        @ ''/part-000.'' @ trim_prefix ''.'' ext
      = dec_string (unat i') @ CHR ''/'' # ''year='' @ pad0 4 y' @ ''/month='' @ pad0 2 m' @ ''/day='' @ pad0 2 d'
        @ ''/part-000.'' @ trim_prefix ''.'' ext'"
    using assms by (simp add: ArchiveRel_def days)
  note split = sep_append_inj [OF _ dec_string_no_slash dec_string_no_slash] sep_append_inj [OF _ pad0_no_slash pad0_no_slash]
  have i: "dec_string (unat i) = dec_string (unat i')" and
    2: "pad0 4 y @ CHR ''/'' # ''month='' @ pad0 2 m @ ''/day='' @ pad0 2 d @ ''/part-000.'' @ trim_prefix ''.'' ext
      = pad0 4 y' @ CHR ''/'' # ''month='' @ pad0 2 m' @ ''/day='' @ pad0 2 d' @ ''/part-000.'' @ trim_prefix ''.'' ext'"
    using split(1) [OF 1] by simp_all
  have y: "pad0 4 y = pad0 4 y'" and
    3: "pad0 2 m @ CHR ''/'' # ''day='' @ pad0 2 d @ ''/part-000.'' @ trim_prefix ''.'' ext
      = pad0 2 m' @ CHR ''/'' # ''day='' @ pad0 2 d' @ ''/part-000.'' @ trim_prefix ''.'' ext'"
    using split(2) [OF 2] by simp_all
  have m: "pad0 2 m = pad0 2 m'" and
    4: "pad0 2 d @ CHR ''/'' # ''part-000.'' @ trim_prefix ''.'' ext = pad0 2 d' @ CHR ''/'' # ''part-000.'' @ trim_prefix ''.'' ext'"
    using split(2) [OF 3] by simp_all
  have "pad0 2 d = pad0 2 d'" using split(2) [OF 4] by simp
  then show ?thesis
    using i y m by (auto simp: days dest: pad0_inj dec_string_inj intro: unsigned_word_eqI)
qed

lemma archive_key_inj: "archive_key c i day ext = archive_key c i' day' ext' \<Longrightarrow> i = i' \<and> day = day'"
proof -
  have d: "dropWhile (\<lambda>x. x = CHR ''/'') (ArchiveRel i day ext) = ArchiveRel i day ext" for i day ext
    by (cases day) (simp add: ArchiveRel_def)
  assume "archive_key c i day ext = archive_key c i' day' ext'"
  then have "ArchiveRel i day ext = ArchiveRel i' day' ext'"
    by (simp add: archive_key_def Key_s3_def d Let_def split: if_splits)
  then show ?thesis by (rule ArchiveRel_inj)
qed

section \<open>Statements\<close>

text \<open>No row of a day in \<open>D\<close> arrives.\<close>

definition settled :: "archive_env \<Rightarrow> string set \<Rightarrow> bool" where
  "settled e D \<longleftrightarrow> (\<forall>i. \<forall>r \<in> set (ae_arrive e i). ar_day r \<notin> D)"

text \<open>What a sequence of statements other than \<open>DropDay\<close> and \<open>MarkDayArchived\<close> keeps.\<close>

definition steady :: "string set \<Rightarrow> archive_world \<Rightarrow> archive_world \<Rightarrow> bool" where
  "steady D w w' \<longleftrightarrow>
     (\<exists>rs. aw_hot w' = aw_hot w @ rs \<and> (\<forall>r \<in> set rs. ar_day r \<notin> D)) \<and>
     aw_marks w' = aw_marks w \<and> aw_isps w' = aw_isps w \<and>
     (\<forall>k. map_of (aw_s3 w) k \<noteq> None \<longrightarrow> map_of (aw_s3 w') k = map_of (aw_s3 w) k)"

lemma steady_refl [simp]: "steady D w w"
  by (simp add: steady_def)

lemma steady_trans:
  assumes "steady D u v" and "steady D v w"
  shows "steady D u w"
proof -
  obtain rs rs' where "aw_hot v = aw_hot u @ rs" "\<forall>r \<in> set rs. ar_day r \<notin> D"
    "aw_hot w = aw_hot v @ rs'" "\<forall>r \<in> set rs'. ar_day r \<notin> D"
    using assms unfolding steady_def by blast
  then have "aw_hot w = aw_hot u @ (rs @ rs') \<and> (\<forall>r \<in> set (rs @ rs'). ar_day r \<notin> D)" by auto
  then show ?thesis using assms unfolding steady_def by metis
qed

lemma steady_rows: "steady D w w' \<Longrightarrow> d \<in> D \<Longrightarrow> tenant_rows i d w' = tenant_rows i d w \<and> day_rows d w' = day_rows d w"
  by (force simp: steady_def tenant_rows_def day_rows_def filter_empty_conv)

lemma steady_grows: "steady D w w' \<Longrightarrow> mset (tenant_rows i d w) \<subseteq># mset (tenant_rows i d w')"
  by (auto simp: steady_def tenant_rows_def)

lemma steady_world:
  "steady D w w' \<Longrightarrow> aw_marks w' = aw_marks w" "steady D w w' \<Longrightarrow> aw_isps w' = aw_isps w"
  by (simp_all add: steady_def)

lemma steady_object: "steady D w w' \<Longrightarrow> map_of (aw_s3 w) k \<noteq> None \<Longrightarrow> map_of (aw_s3 w') k = map_of (aw_s3 w) k"
  by (simp add: steady_def)

lemma statement_steady:
  "settled e D \<Longrightarrow> statement e w = (b, w') \<Longrightarrow> steady D w w' \<and> aw_s3 w' = aw_s3 w"
  by (auto simp: statement_def steady_def settled_def)

lemma count_rows_steady:
  assumes "settled e D" and "count_rows e sel w = (n, w')"
  shows "steady D w w' \<and> aw_s3 w' = aw_s3 w \<and> (\<forall>m. n = Some m \<longrightarrow> m = int (length (sel w')))"
  using assms statement_steady [of e D w] by (auto simp: count_rows_def split: prod.splits if_splits)

lemma Stat_s3_steady:
  assumes "settled e D" and "Stat_s3 e k w = (n, w')"
  shows "steady D w w' \<and> aw_s3 w' = aw_s3 w \<and> (n \<noteq> None \<longrightarrow> map_of (aw_s3 w) k \<noteq> None)"
  using assms statement_steady [of e D w] by (auto simp: Stat_s3_def split: prod.splits if_splits)

text \<open>An upload leaves the objects as they are, or adds the one it names with rows it selected.\<close>

lemma insert_object_steady:
  assumes "settled e D" and "insert_object e k sel w = (ok, w')"
  shows "steady D w w' \<and>
    (\<exists>u n. steady D w u \<and> (aw_s3 w' = aw_s3 w \<and> \<not> ok \<or>
      map_of (aw_s3 w) k = None \<and> aw_s3 w' = (k, take n (sel u)) # aw_s3 w \<and> (ok \<longrightarrow> n = length (sel u))))"
proof -
  obtain b u where u: "statement e w = (b, u)" by (meson surj_pair)
  then have s: "steady D w u" "aw_s3 u = aw_s3 w" using statement_steady [OF assms(1) u] by auto
  show ?thesis
  proof (cases "map_of (aw_s3 w) k = None \<and> \<not> (b \<and> ae_partial e (aw_step w) = 0)")
    case True
    define n where "n = (if b then ae_partial e (aw_step w) else length (sel u))"
    have w': "w' = u\<lparr>aw_s3 := (k, take n (sel u)) # aw_s3 u\<rparr>" "ok = (\<not> b)"
      using assms(2) u s True by (auto simp: insert_object_def Let_def n_def split: if_splits)
    then have "steady D w w'" using s True by (auto simp: steady_def)
    then show ?thesis using w' s True by (intro conjI exI [of _ u] exI [of _ n]) (auto simp: n_def)
  next
    case False
    then have "w' = u" "\<not> ok" using assms(2) u s by (auto simp: insert_object_def Let_def split: if_splits)
    then show ?thesis using s by auto
  qed
qed

section \<open>The export of a tenant's day\<close>

lemma exportDay_steady:
  assumes e: "settled e D" and d: "format_date day = d" "d \<in> D" and k: "k = archive_key c i day (archive_ext format)"
    and ex: "exportDay e c format i day w = (r, w')"
  shows "steady D w w' \<and>
    (aw_s3 w' = aw_s3 w \<or> map_of (aw_s3 w) k = None \<and> (\<exists>n. aw_s3 w' = (k, take n (tenant_rows i d w)) # aw_s3 w)) \<and>
    (\<forall>x. r = Inr x \<longrightarrow> ex_Rows x = int (length (tenant_rows i d w)) \<and>
       (tenant_rows i d w = [] \<or> map_of (aw_s3 w') k \<noteq> None \<and> length (object k w') = length (tenant_rows i d w)))"
proof -
  let ?sel = "tenant_rows i d"
  obtain cu w1 where c1: "count_rows e ?sel w = (cu, w1)" by (meson surj_pair)
  note s1 = count_rows_steady [OF e c1]
  then have r1: "?sel w1 = ?sel w" using steady_rows d(2) by blast
  obtain st w2 where c2: "Stat_s3 e k w1 = (st, w2)" by (meson surj_pair)
  note s2 = Stat_s3_steady [OF e c2]
  have s12: "steady D w w2" using s1 s2 steady_trans by blast
  obtain ar w3 where c3: "count_rows e (object k) w2 = (ar, w3)" by (meson surj_pair)
  note s3 = count_rows_steady [OF e c3]
  obtain ok w4 where c4: "insert_object e k ?sel w2 = (ok, w4)" by (meson surj_pair)
  obtain u n where s4: "steady D w2 w4" "steady D w2 u" "aw_s3 w4 = aw_s3 w2 \<and> \<not> ok \<or>
      map_of (aw_s3 w2) k = None \<and> aw_s3 w4 = (k, take n (?sel u)) # aw_s3 w2 \<and> (ok \<longrightarrow> n = length (?sel u))"
    using insert_object_steady [OF e c4] by blast
  have ru: "?sel u = ?sel w" using steady_rows [OF s4(2) d(2)] steady_rows [OF s12 d(2)] by simp
  obtain sz w5 where c5: "Stat_s3 e k w4 = (sz, w5)" by (meson surj_pair)
  note s5 = Stat_s3_steady [OF e c5]
  have eq: "exportDay e c format i day w =
     (case cu of None \<Rightarrow> (Inl ''count'', w1)
      | Some n \<Rightarrow> if n = 0 then (Inr zero_result, w1)
        else case st of
          Some z \<Rightarrow> (case ar of None \<Rightarrow> (Inl ''verify existing s3 object'', w3)
            | Some a \<Rightarrow> if a \<noteq> n then (Inl ''existing s3 object row mismatch'', w3)
                else (Inr \<lparr>ex_Rows = n, ex_Bytes = z, ex_Key = k\<rparr>, w3))
        | None \<Rightarrow> if \<not> ok then (Inl ''export to s3'', w4)
            else (Inr \<lparr>ex_Rows = n, ex_Bytes = (case sz of Some z \<Rightarrow> z | None \<Rightarrow> 0), ex_Key = k\<rparr>, w5))"
    unfolding exportDay_def Let_def d(1) k [unfolded archive_key_def, symmetric] c1 c2 c3 c4 c5 prod.case ..
  consider (counted) "w' = w1" "\<forall>x. r = Inr x \<longrightarrow> x = zero_result \<and> ?sel w = []"
    | (existing) n z where "w' = w3" "cu = Some n" "st = Some z" "\<forall>x. r = Inr x \<longrightarrow> ar = Some n \<and> ex_Rows x = n"
    | (refused) "w' = w4" "\<forall>x. r \<noteq> Inr x"
    | (stored) n where "w' = w5" "cu = Some n" "ok" "\<forall>x. r = Inr x \<longrightarrow> ex_Rows x = n"
    using ex s1 r1 unfolding eq by (auto split: option.splits if_splits)
  then show ?thesis
  proof cases
    case counted
    then show ?thesis using s1 by (auto simp: zero_result_def)
  next
    case existing
    have "steady D w w3" using s12 s3 steady_trans by blast
    moreover have "map_of (aw_s3 w3) k \<noteq> None" using existing s2 s3 by auto
    ultimately show ?thesis using existing s1 s2 s3 r1 by auto
  next
    case refused
    then show ?thesis using s1 s2 s4 ru steady_trans [OF s12 s4(1)] by auto
  next
    case stored
    have "steady D w w5" using steady_trans [OF steady_trans [OF s12 s4(1)]] s5 by blast
    moreover have "aw_s3 w5 = (k, ?sel w) # aw_s3 w" "map_of (aw_s3 w) k = None"
      using stored s1 s2 s4 s5 ru by auto
    ultimately show ?thesis using stored s1 r1 by (auto simp: object_def intro: exI [of _ "length (?sel w)"])
  qed
qed

lemma ArchiveRel_nonempty: "archive_key c i day ext \<noteq> []"
  by (cases day) (simp add: archive_key_def Key_s3_def ArchiveRel_def Let_def)

section \<open>The invariant\<close>

text \<open>
  The objects of a day that is not marked hold rows of that tenant and day, and every row of a
  marked day that is still in the hot store is in the object of its tenant.
\<close>

abbreviation marked :: "archive_world \<Rightarrow> string set" where
  "marked w \<equiv> fst ` set (aw_marks w)"

definition objects_ok :: "s3_client \<Rightarrow> archive_world \<Rightarrow> bool" where
  "objects_ok c w \<longleftrightarrow> (\<forall>i day d ext. parse_date d = Some day \<longrightarrow> d \<notin> marked w \<longrightarrow> ext \<in> archive_exts \<longrightarrow>
     mset (object (archive_key c i day ext) w) \<subseteq># mset (tenant_rows i d w))"

definition archived_in :: "s3_client \<Rightarrow> u32 \<Rightarrow> string \<Rightarrow> arow list \<Rightarrow> archive_world \<Rightarrow> bool" where
  "archived_in c i d rs w \<longleftrightarrow> (\<exists>day ext. parse_date d = Some day \<and> ext \<in> archive_exts \<and>
     mset rs \<subseteq># mset (object (archive_key c i day ext) w))"

definition marks_ok :: "s3_client \<Rightarrow> archive_world \<Rightarrow> bool" where
  "marks_ok c w \<longleftrightarrow> (\<forall>i. \<forall>d \<in> marked w. archived_in c i d (tenant_rows i d w) w)"

definition archive_inv :: "s3_client \<Rightarrow> archive_world \<Rightarrow> bool" where
  "archive_inv c w \<longleftrightarrow> objects_ok c w \<and> marks_ok c w \<and> distinct (aw_isps w)"

lemma object_grows: "steady D w w' \<Longrightarrow> mset (object k w) \<subseteq># mset (object k w')"
  by (cases "map_of (aw_s3 w) k") (auto simp: object_def steady_def)

lemma archived_in_grows:
  assumes "archived_in c i d rs w" and "\<And>k. mset (object k w) \<subseteq># mset (object k w')"
  shows "archived_in c i d rs w'"
  using assms unfolding archived_in_def by (meson subset_mset.order_trans)

lemma archived_in_nil: "parse_date d = Some day \<Longrightarrow> archived_in c i d [] w"
  unfolding archived_in_def by fastforce

lemma mset_take_subseteq: "mset (take n xs) \<subseteq># mset xs"
  by (metis append_take_drop_id mset_append mset_subset_eq_add_left)

lemma archive_inv_steady:
  assumes inv: "archive_inv c w" and s: "steady D w w'" and D: "marked w \<subseteq> D"
    and d: "parse_date d = Some day" and ext: "ext \<in> archive_exts"
    and s3: "aw_s3 w' = aw_s3 w \<or> map_of (aw_s3 w) k = None \<and> aw_s3 w' = (k, take n (tenant_rows i d w)) # aw_s3 w"
    and k: "k = archive_key c i day ext"
  shows "archive_inv c w'"
proof -
  have "mset (object (archive_key c i' day' ext') w') \<subseteq># mset (tenant_rows i' d' w')"
    if d': "parse_date d' = Some day'" "d' \<notin> marked w" and ext': "ext' \<in> archive_exts" for i' d' day' ext'
  proof -
    let ?k = "archive_key c i' day' ext'"
    have old: "mset (object ?k w) \<subseteq># mset (tenant_rows i' d' w)" using inv d' ext' unfolding archive_inv_def objects_ok_def by blast
    have "mset (object ?k w') \<subseteq># mset (tenant_rows i' d' w)"
    proof (cases "?k = k \<and> aw_s3 w' \<noteq> aw_s3 w")
      case True
      then have "i' = i" "d' = d" using k d d' archive_key_inj parse_date_inj by blast+
      then show ?thesis using True s3 mset_take_subseteq by (auto simp: object_def)
    next
      case False
      then have "object ?k w' = object ?k w" using s3 by (auto simp: object_def)
      then show ?thesis using old by simp
    qed
    then show ?thesis using steady_grows [OF s] subset_mset.order_trans by blast
  qed
  then have "objects_ok c w'" using steady_world(1) [OF s] by (simp add: objects_ok_def)
  moreover have "marks_ok c w'"
    unfolding marks_ok_def steady_world(1) [OF s]
  proof (intro allI ballI)
    fix i' d' assume d': "d' \<in> marked w"
    then have "archived_in c i' d' (tenant_rows i' d' w) w" using inv unfolding archive_inv_def marks_ok_def by blast
    moreover have "tenant_rows i' d' w' = tenant_rows i' d' w" using steady_rows [OF s] D d' by blast
    ultimately show "archived_in c i' d' (tenant_rows i' d' w') w'" using archived_in_grows object_grows [OF s] by metis
  qed
  ultimately show ?thesis using inv steady_world(2) [OF s] by (simp add: archive_inv_def)
qed

lemma exportDay_inv:
  assumes "settled e D" and "parse_date d = Some day" and "d \<in> D" and "marked w \<subseteq> D" and "archive_inv c w"
    and "exportDay e c format i day w = (r, w')"
  shows "archive_inv c w'"
proof -
  note ex = exportDay_steady [OF assms(1) format_parse_date [OF assms(2)] assms(3) refl assms(6)]
  then obtain n where "aw_s3 w' = aw_s3 w \<or> map_of (aw_s3 w) (archive_key c i day (archive_ext format)) = None \<and>
      aw_s3 w' = (archive_key c i day (archive_ext format), take n (tenant_rows i d w)) # aw_s3 w" by blast
  then show ?thesis using archive_inv_steady [OF assms(5) _ assms(4,2) archive_ext_in _ refl] ex by blast
qed

text \<open>The loop over the ISPs adds up the rows it found, and each tenant's object then has as many.\<close>

lemma exportAll_steady:
  assumes "settled e D" and "parse_date d = Some day" and "d \<in> D" and "marked w \<subseteq> D" and "archive_inv c w"
    and "exportAll e c format day is t w = (t', w')"
  shows "steady D w w' \<and> archive_inv c w' \<and>
    (\<forall>x. t' = Some x \<longrightarrow> dt_rows x = dt_rows t + (\<Sum>i\<leftarrow>is. int (length (tenant_rows i d w))) \<and>
      (\<forall>i \<in> set is. tenant_rows i d w = [] \<or> length (object (archive_key c i day (archive_ext format)) w') = length (tenant_rows i d w)))"
  using assms(4-6)
proof (induction "is" arbitrary: t w)
  case Nil
  then show ?case by auto
next
  case (Cons i "is")
  obtain r w1 where ex: "exportDay e c format i day w = (r, w1)" by (meson surj_pair)
  let ?k = "\<lambda>i. archive_key c i day (archive_ext format)"
  note s = exportDay_steady [OF assms(1) format_parse_date [OF assms(2)] assms(3) refl ex]
  have inv: "archive_inv c w1" using exportDay_inv [OF assms(1-3) Cons.prems(1,2) ex] .
  have m: "marked w1 \<subseteq> D" using Cons.prems(1) s steady_world(1) by metis
  have rows: "tenant_rows j d w1 = tenant_rows j d w" for j using steady_rows assms(3) s by blast
  show ?case
  proof (cases r)
    case (Inl msg)
    then show ?thesis using Cons.prems(3) ex s inv by auto
  next
    case (Inr x)
    define t1 where "t1 = \<lparr>dt_rows = dt_rows t + ex_Rows x, dt_bytes = dt_bytes t + ex_Bytes x,
      dt_objs = (if ex_Key x = [] then dt_objs t else Suc (dt_objs t))\<rparr>"
    have rest: "exportAll e c format day is t1 w1 = (t', w')" using Cons.prems(3) ex Inr by (simp add: t1_def)
    note IH = Cons.IH [OF m inv rest]
    have st: "steady D w w'" using s IH steady_trans by blast
    have "length (object (?k i) w') = length (tenant_rows i d w)" if "tenant_rows i d w \<noteq> []"
      using that s Inr steady_object [of D w1 w' "?k i"] IH by (auto simp: object_def)
    then have objs: "\<forall>j \<in> set (i # is). tenant_rows j d w = [] \<or> length (object (?k j) w') = length (tenant_rows j d w)"
      if "t' = Some y" for y
      using that IH rows by auto
    have "dt_rows y = dt_rows t + (\<Sum>j\<leftarrow>i # is. int (length (tenant_rows j d w)))" if "t' = Some y" for y
      using that IH rows s Inr by (simp add: t1_def)
    then show ?thesis using IH st objs by blast
  qed
qed

section \<open>What a sweep keeps\<close>

definition rows_safe :: "s3_client \<Rightarrow> archive_world \<Rightarrow> archive_world \<Rightarrow> bool" where
  "rows_safe c w w' \<longleftrightarrow> (\<forall>i d. mset (tenant_rows i d w) \<subseteq># mset (tenant_rows i d w') \<or>
     (d \<in> marked w' \<and> archived_in c i d (tenant_rows i d w) w'))"

definition advances :: "s3_client \<Rightarrow> archive_world \<Rightarrow> archive_world \<Rightarrow> bool" where
  "advances c w w' \<longleftrightarrow> rows_safe c w w' \<and> archive_inv c w' \<and> marked w \<subseteq> marked w' \<and>
     (\<forall>k. mset (object k w) \<subseteq># mset (object k w')) \<and> aw_isps w' = aw_isps w"

lemma archived_in_mono: "archived_in c i d rs w \<Longrightarrow> mset rs' \<subseteq># mset rs \<Longrightarrow> archived_in c i d rs' w"
  unfolding archived_in_def by (meson subset_mset.order_trans)

lemma advances_trans:
  assumes "advances c u v" and "advances c v w"
  shows "advances c u w"
proof -
  have "rows_safe c u w"
    unfolding rows_safe_def
  proof (intro allI)
    fix i d
    have 1: "mset (tenant_rows i d u) \<subseteq># mset (tenant_rows i d v) \<or> (d \<in> marked v \<and> archived_in c i d (tenant_rows i d u) v)"
      and 2: "mset (tenant_rows i d v) \<subseteq># mset (tenant_rows i d w) \<or> (d \<in> marked w \<and> archived_in c i d (tenant_rows i d v) w)"
      and 3: "marked v \<subseteq> marked w" "\<And>k. mset (object k v) \<subseteq># mset (object k w)"
      using assms unfolding advances_def rows_safe_def by simp_all
    show "mset (tenant_rows i d u) \<subseteq># mset (tenant_rows i d w) \<or> (d \<in> marked w \<and> archived_in c i d (tenant_rows i d u) w)"
      using 1
    proof
      assume a: "mset (tenant_rows i d u) \<subseteq># mset (tenant_rows i d v)"
      then show ?thesis using 2 archived_in_mono [OF _ a] subset_mset.order_trans [OF a] by blast
    next
      assume "d \<in> marked v \<and> archived_in c i d (tenant_rows i d u) v"
      then show ?thesis using 3(1) archived_in_grows [OF _ 3(2)] by blast
    qed
  qed
  moreover have "mset (object k u) \<subseteq># mset (object k w)" for k
    using assms unfolding advances_def by (meson subset_mset.order_trans)
  moreover have "marked u \<subseteq> marked w" using assms unfolding advances_def by (meson subset_trans)
  moreover have "archive_inv c w" "aw_isps w = aw_isps u" using assms unfolding advances_def by simp_all
  ultimately show ?thesis unfolding advances_def by simp
qed

lemma steady_advances: "steady D w w' \<Longrightarrow> archive_inv c w' \<Longrightarrow> advances c w w'"
  unfolding advances_def rows_safe_def
  using steady_grows [of D w w'] object_grows [of D w w'] steady_world [of D w w'] by simp

lemma statement_inv:
  assumes "settled e D" and "marked w \<subseteq> D" and "archive_inv c w" and "statement e w = (b, w')"
  shows "steady D w w' \<and> aw_s3 w' = aw_s3 w \<and> archive_inv c w'"
proof -
  have d: "parse_date ''2000-01-01'' = Some (2000, 1, 1)" by code_simp
  have s: "steady D w w'" "aw_s3 w' = aw_s3 w" using statement_steady [OF assms(1,4)] by auto
  then show ?thesis using archive_inv_steady [OF assms(3) s(1) assms(2) d _ _ refl, of "''parquet''"] by simp
qed

text \<open>Dropping a day whose rows are all archived.\<close>

lemma DropDay_advances:
  assumes e: "settled e D" "marked w \<subseteq> D" and inv: "archive_inv c w" and d: "d \<in> marked w"
    and drop: "DropDay e d w = (ok, w')"
  shows "advances c w w' \<and> marked w' = marked w"
proof (cases "parse_date d")
  case None
  then show ?thesis using drop inv steady_advances [OF steady_refl] by (simp add: DropDay_def)
next
  case (Some day)
  obtain b u where u: "statement e w = (b, u)" by (meson surj_pair)
  note s = statement_inv [OF e inv u]
  show ?thesis
  proof (cases b)
    case True
    then show ?thesis using drop u s steady_advances [of D w u c] steady_world(1) [of D w u] by (auto simp: DropDay_def Some)
  next
    case False
    then have w': "w' = u\<lparr>aw_hot := filter (\<lambda>r. ar_day r \<noteq> d) (aw_hot u)\<rparr>" using drop u Some by (simp add: DropDay_def)
    have marks: "marked u = marked w" using steady_world(1) s by metis
    have same: "object k w' = object k u" "aw_isps w' = aw_isps u" "aw_marks w' = aw_marks u" for k
      by (simp_all add: w' object_def)
    have rows: "tenant_rows i d' w' = (if d' = d then [] else tenant_rows i d' u)" for i d'
      by (auto simp: tenant_rows_def w' filter_empty_conv intro: filter_cong)
    have arch: "archived_in c i d' rs w' = archived_in c i d' rs u" for i d' rs by (simp add: archived_in_def same)
    have m: "archived_in c i d' (tenant_rows i d' u) u" if "d' \<in> marked u" for i d'
      using s that unfolding archive_inv_def marks_ok_def by blast
    have "objects_ok c w'"
      using s d marks unfolding archive_inv_def objects_ok_def same rows by simp
    moreover have "marks_ok c w'"
      using m archived_in_nil [OF Some] unfolding marks_ok_def same arch rows by simp
    ultimately have "archive_inv c w'" using s by (simp add: archive_inv_def same)
    moreover have "rows_safe c u w'"
      unfolding rows_safe_def rows arch same using m d marks by auto
    ultimately have "advances c u w'" by (simp add: advances_def same)
    then show ?thesis using advances_trans [OF steady_advances [of D w u c]] s marks same by simp
  qed
qed

text \<open>Marking a day whose rows are all archived.\<close>

lemma MarkDayArchived_advances:
  assumes e: "settled e D" "marked w \<subseteq> D" "d \<in> D" and inv: "archive_inv c w"
    and arch: "\<And>i. archived_in c i d (tenant_rows i d w) w"
    and mark: "MarkDayArchived e d a w = (ok, w')"
  shows "advances c w w' \<and> marked w' \<subseteq> insert d (marked w) \<and> (ok \<longrightarrow> d \<in> marked w')"
proof -
  obtain b u where u: "statement e w = (b, u)" by (meson surj_pair)
  note s = statement_inv [OF e(1,2) inv u]
  have marks: "marked u = marked w" using steady_world(1) s by metis
  show ?thesis
  proof (cases b)
    case True
    then show ?thesis using mark u s steady_advances [of D w u c] marks by (auto simp: MarkDayArchived_def)
  next
    case False
    then have w': "w' = u\<lparr>aw_marks := AList.update d a (aw_marks u)\<rparr>" "ok" using mark u by (auto simp: MarkDayArchived_def)
    have same: "object k w' = object k u" "aw_isps w' = aw_isps u" "tenant_rows i d' w' = tenant_rows i d' u" for k i d'
      by (simp_all add: w' object_def tenant_rows_def)
    have m: "marked w' = insert d (marked u)"
      using dom_update [of d a "aw_marks u"] by (simp add: w')
    have archu: "archived_in c i d' rs w' = archived_in c i d' rs u" for i d' rs by (simp add: archived_in_def same)
    have "archived_in c i d (tenant_rows i d u) u" for i
      using archived_in_grows [OF arch object_grows [of D w u]] s steady_rows [of D w u d i] e(3) by simp
    then have "marks_ok c w'"
      using s unfolding archive_inv_def marks_ok_def same archu m by blast
    moreover have "objects_ok c w'" using s unfolding archive_inv_def objects_ok_def same m by blast
    ultimately have "archive_inv c w'" using s by (simp add: archive_inv_def same)
    then have "advances c u w'" by (auto simp: advances_def rows_safe_def same m)
    then show ?thesis using advances_trans [OF steady_advances [of D w u c]] s m marks w' by auto
  qed
qed

section \<open>One day of a sweep\<close>

lemma sum_tenants:
  "distinct is \<Longrightarrow> (\<Sum>i\<leftarrow>is. int (length (tenant_rows i d w))) = int (length (filter (\<lambda>r. ar_isp r \<in> set is) (day_rows d w)))"
proof (induction "is")
  case (Cons i "is")
  have "length (filter (\<lambda>r. P r \<or> Q r) xs) = length (filter P xs) + length (filter Q xs)"
    if "\<And>x. \<not> (P x \<and> Q x)" for P Q and xs :: "arow list"
    using that by (induction xs) auto
  then have "length (filter (\<lambda>r. ar_isp r = i \<or> ar_isp r \<in> set is) (day_rows d w))
      = length (filter (\<lambda>r. ar_isp r = i) (day_rows d w)) + length (filter (\<lambda>r. ar_isp r \<in> set is) (day_rows d w))"
    using Cons.prems by auto
  moreover have "filter (\<lambda>r. ar_isp r = i) (day_rows d w) = tenant_rows i d w"
    by (simp add: day_rows_def tenant_rows_def conj_commute)
  ultimately show ?case using Cons by simp
qed simp

text \<open>If the exported rows are as many as the day has, no row of the day belongs to an unregistered tenant.\<close>

lemma all_exported:
  assumes "distinct is" and "(\<Sum>i\<leftarrow>is. int (length (tenant_rows i d w))) = int (length (day_rows d w))" and "i \<notin> set is"
  shows "tenant_rows i d w = []"
proof -
  have "length (filter (\<lambda>r. ar_isp r \<in> set is) (day_rows d w)) = length (day_rows d w)"
    using assms(2) sum_tenants [OF assms(1), of d w] by simp
  then have "\<forall>r \<in> set (day_rows d w). ar_isp r \<in> set is"
    by (metis filter_length_less less_irrefl)
  then show ?thesis using assms(3) by (auto simp: tenant_rows_def day_rows_def filter_empty_conv)
qed

lemma full_object:
  assumes "archive_inv c w" and "parse_date d = Some day" and "d \<notin> marked w" and "ext \<in> archive_exts"
    and "length (object (archive_key c i day ext) w) = length (tenant_rows i d w)"
  shows "archived_in c i d (tenant_rows i d w) w"
proof -
  have "mset (object (archive_key c i day ext) w) \<subseteq># mset (tenant_rows i d w)"
    using assms unfolding archive_inv_def objects_ok_def by blast
  then have "mset (object (archive_key c i day ext) w) = mset (tenant_rows i d w)"
    using assms(5) by (metis mset_subset_size size_mset subset_mset.le_imp_less_or_eq less_irrefl)
  then show ?thesis using assms(2,4) unfolding archived_in_def by (metis subset_mset.order_refl)
qed

text \<open>After a complete export whose row count matches the partition, every row of the day is archived.\<close>

lemma checked_archived:
  assumes inv: "archive_inv c w" and isps: "isps = aw_isps w" and pd: "parse_date d = Some pd"
    and eq: "(\<Sum>i\<leftarrow>isps. int (length (tenant_rows i d w))) = int (length (day_rows d w))"
    and objs: "\<forall>i \<in> set isps. tenant_rows i d w = [] \<or>
      length (object (archive_key c i pd (archive_ext format)) w) = length (tenant_rows i d w)"
  shows "archived_in c i d (tenant_rows i d w) w"
proof (cases "d \<in> marked w")
  case True
  then show ?thesis using inv unfolding archive_inv_def marks_ok_def by blast
next
  case False
  have "tenant_rows i d w = [] \<or> length (object (archive_key c i pd (archive_ext format)) w) = length (tenant_rows i d w)"
    using objs all_exported [OF _ eq] inv isps by (cases "i \<in> set isps") (simp_all add: archive_inv_def)
  then show ?thesis using full_object [OF inv pd False archive_ext_in] archived_in_nil [OF pd] by metis
qed

definition mark_and_drop :: "archive_env \<Rightarrow> string \<Rightarrow> archived_day \<Rightarrow> archive_world \<Rightarrow> archive_world" where
  "mark_and_drop e d a w = (let (ok, w) = MarkDayArchived e d a w in if ok then snd (DropDay e d w) else w)"

lemma mark_and_drop_advances:
  assumes e: "settled e D" "marked w \<subseteq> D" "d \<in> D" and inv: "archive_inv c w"
    and arch: "\<And>i. archived_in c i d (tenant_rows i d w) w"
  shows "advances c w (mark_and_drop e d a w) \<and> marked (mark_and_drop e d a w) \<subseteq> insert d (marked w)"
proof -
  obtain ok w1 where c1: "MarkDayArchived e d a w = (ok, w1)" by (meson surj_pair)
  have s1: "advances c w w1" "marked w1 \<subseteq> insert d (marked w)" "ok \<longrightarrow> d \<in> marked w1"
    using MarkDayArchived_advances [OF e inv arch c1] by auto
  show ?thesis
  proof (cases ok)
    case True
    obtain ok2 w2 where c2: "DropDay e d w1 = (ok2, w2)" by (meson surj_pair)
    have eq: "mark_and_drop e d a w = w2" using c1 c2 True by (simp add: mark_and_drop_def)
    have D1: "marked w1 \<subseteq> D" using subset_trans [OF s1(2)] e(2,3) by simp
    have inv1: "archive_inv c w1" using s1(1) by (simp add: advances_def)
    have "advances c w1 w2 \<and> marked w2 = marked w1"
      using DropDay_advances [OF e(1) D1 inv1 _ c2] s1(3) True by blast
    then show ?thesis using advances_trans [OF s1(1)] s1(2) unfolding eq by blast
  next
    case False
    then show ?thesis using s1 c1 by (simp add: mark_and_drop_def)
  qed
qed

text \<open>The worlds a day of a sweep can end in.\<close>

lemma sweep_day_cases:
  assumes "sweep_day e c format isps day (tot, w) = (tot', w')"
    and c1: "IsDayArchived e day w = (was, w1)"
  obtains (redrop) "was" "w' = snd (DropDay e day w1)"
    | (bad_date) "\<not> was" "parse_date day = None" "w' = w1"
    | (kept) pd t w2 where "\<not> was" "parse_date day = Some pd"
        "exportAll e c format pd isps \<lparr>dt_rows = 0, dt_bytes = 0, dt_objs = 0\<rparr> w1 = (t, w2)" "w' = w2"
    | (counted) pd t w2 hot w3 where "\<not> was" "parse_date day = Some pd"
        "exportAll e c format pd isps \<lparr>dt_rows = 0, dt_bytes = 0, dt_objs = 0\<rparr> w1 = (Some t, w2)"
        "rowsOnDay e day w2 = (hot, w3)"
        "w' = (if hot = Some (dt_rows t)
               then mark_and_drop e day \<lparr>ad_Objects = dt_objs t, ad_Rows = dt_rows t, ad_Bytes = dt_bytes t\<rparr> w3 else w3)"
proof -
  consider "was" | "\<not> was" "parse_date day = None" | pd where "\<not> was" "parse_date day = Some pd" by blast
  then show thesis
  proof cases
    case 1
    then show ?thesis using assms by (intro redrop) (simp_all add: sweep_day_def)
  next
    case 2
    then show ?thesis using assms by (intro bad_date) (simp_all add: sweep_day_def)
  next
    case 3
    obtain t w2 where c2: "exportAll e c format pd isps \<lparr>dt_rows = 0, dt_bytes = 0, dt_objs = 0\<rparr> w1 = (t, w2)" by (meson surj_pair)
    show ?thesis
    proof (cases "\<exists>x. t = Some x \<and> dt_rows x \<noteq> 0")
      case False
      then have "w' = w2" using assms 3 c2 by (auto simp: sweep_day_def split: option.splits)
      then show ?thesis using kept 3 c2 by blast
    next
      case True
      then obtain x where t: "t = Some x" "dt_rows x \<noteq> 0" by blast
      obtain hot w3 where c3: "rowsOnDay e day w2 = (hot, w3)" by (meson surj_pair)
      have "w' = (if hot = Some (dt_rows x)
          then mark_and_drop e day \<lparr>ad_Objects = dt_objs x, ad_Rows = dt_rows x, ad_Bytes = dt_bytes x\<rparr> w3 else w3)"
        using assms 3 c2 c3 t by (auto simp: sweep_day_def mark_and_drop_def split: prod.splits if_splits)
      then show ?thesis using counted 3 c2 c3 t by blast
    qed
  qed
qed

lemma sweep_day_advances:
  assumes e: "settled e D" "marked w \<subseteq> D" "day \<in> D" and inv: "archive_inv c w" and isps: "isps = aw_isps w"
    and sw: "sweep_day e c format isps day (tot, w) = (tot', w')"
  shows "advances c w w' \<and> marked w' \<subseteq> insert day (marked w)"
proof -
  obtain was w1 where c1: "IsDayArchived e day w = (was, w1)" by (meson surj_pair)
  obtain b where st: "statement e w = (b, w1)" and was: "was \<longrightarrow> day \<in> marked w1"
    using c1 by (auto simp: IsDayArchived_def split: prod.splits)
  note s1 = statement_inv [OF e(1,2) inv st]
  have m1: "marked w1 = marked w" "aw_isps w1 = aw_isps w" "archive_inv c w1" using s1 steady_world [of D w w1] by auto
  have a1: "advances c w w1" using s1 steady_advances by blast
  have D1: "marked w1 \<subseteq> D" using m1 e by simp
  from sw c1 show ?thesis
  proof (cases rule: sweep_day_cases)
    case redrop
    have "advances c w1 w' \<and> marked w' = marked w1"
      using DropDay_advances [OF e(1) D1 m1(3), of day] redrop was by (metis prod.collapse)
    then show ?thesis using advances_trans [OF a1] m1 by auto
  next
    case bad_date
    then show ?thesis using a1 m1 by auto
  next
    case (kept pd t w2)
    note s2 = exportAll_steady [OF e(1) kept(2) e(3) D1 m1(3) kept(3)]
    then show ?thesis
      using advances_trans [OF a1 steady_advances] steady_world [of D w1 w2] m1 kept by auto
  next
    case (counted pd t w2 hot w3)
    note s2 = exportAll_steady [OF e(1) counted(2) e(3) D1 m1(3) counted(3)]
    have m2: "marked w2 = marked w" "aw_isps w2 = aw_isps w" "archive_inv c w2" using s2 m1 steady_world [of D w1 w2] by auto
    have D2: "marked w2 \<subseteq> D" using m2 e by simp
    obtain b3 where st3: "statement e w2 = (b3, w3)" and hot: "\<forall>n. hot = Some n \<longrightarrow> n = int (length (day_rows day w3))"
      using counted(2,4) by (auto simp: rowsOnDay_def count_rows_def split: prod.splits)
    note s3 = statement_inv [OF e(1) D2 m2(3) st3]
    have m3: "marked w3 = marked w" "aw_isps w3 = aw_isps w" "archive_inv c w3" using s3 m2 steady_world [of D w2 w3] by auto
    have a3: "advances c w w3"
      using advances_trans [OF advances_trans [OF a1 steady_advances] steady_advances] s2 s3 by blast
    have rows: "tenant_rows i day w3 = tenant_rows i day w1" for i
      using steady_rows [of D w1 w2 day i] steady_rows [of D w2 w3 day i] s2 s3 e(3) by auto
    show ?thesis
    proof (cases "hot = Some (dt_rows t)")
      case True
      then have "archived_in c i day (tenant_rows i day w3) w3" for i
        using checked_archived [OF m3(3) _ counted(2), of isps format] hot s2 s3 isps m3(2) rows by (auto simp: object_def)
      then show ?thesis
        using mark_and_drop_advances [OF e(1) _ e(3) m3(3)] advances_trans [OF a3] counted(5) True m3 e(2) by simp
    next
      case False
      then show ?thesis using counted(5) a3 m3 by auto
    qed
  qed
qed

section \<open>The sweep\<close>

lemma sweep_days_advance:
  assumes "settled e D" and "set days \<subseteq> D" and "marked w \<subseteq> D" and "archive_inv c w" and "isps = aw_isps w"
  shows "advances c w (snd (fold (sweep_day e c format isps) days (tot, w)))"
  using assms
proof (induction days arbitrary: tot w)
  case Nil
  then show ?case using steady_advances [OF steady_refl] by simp
next
  case (Cons day days)
  obtain tot' w' where sw: "sweep_day e c format isps day (tot, w) = (tot', w')" by (meson surj_pair)
  have a: "advances c w w'" "marked w' \<subseteq> insert day (marked w)"
    using sweep_day_advances [OF Cons.prems(1,3) _ Cons.prems(4,5) sw] Cons.prems(2) by auto
  have "archive_inv c w'" "isps = aw_isps w'" using a(1) Cons.prems(5) by (simp_all add: advances_def)
  moreover have "marked w' \<subseteq> D" "set days \<subseteq> D" using a Cons.prems(2,3) by auto
  ultimately have "advances c w' (snd (fold (sweep_day e c format isps) days (tot', w')))"
    using Cons.IH Cons.prems(1) by blast
  then show ?case using advances_trans [OF a(1)] sw by simp
qed

lemma set_daysOlderThan: "daysOlderThan e after w = (days, w') \<Longrightarrow> d \<in> set days \<Longrightarrow> ae_older e (max 0 after) d"
  by (auto simp: daysOlderThan_def Let_def dest!: in_set_takeD split: prod.splits if_splits)

text \<open>The days a sweep with this window may touch, and those already marked.\<close>

definition sweep_days :: "archive_env \<Rightarrow> int \<Rightarrow> archive_world \<Rightarrow> string set" where
  "sweep_days e afterDays w = {d. ae_older e (if afterDays < 1 then 7 else afterDays) d} \<union> marked w"

text \<open>
  C16. A sweep loses no record.  If no rows arrive for days that are already archived or beyond
  the hot window, then whatever statements fail, every row that was in the hot store is still
  there afterwards, or its day is marked as archived and the row is in the object of its tenant
  and day.  The invariant that gives this, that the hot rows of every marked day are archived,
  holds again after the sweep.
\<close>

theorem ArchiveSweep_no_loss:
  assumes "archive_inv c w" and "settled e (sweep_days e afterDays w)"
    and "ArchiveSweep e (Some c) format auto afterDays w = (r, w')"
  shows "archive_inv c w' \<and>
    (\<forall>i d. mset (tenant_rows i d w) \<subseteq># mset (tenant_rows i d w') \<or>
      (d \<in> marked w' \<and> archived_in c i d (tenant_rows i d w) w'))"
proof -
  define after where "after = (if afterDays < 1 then 7 else afterDays)"
  let ?D = "sweep_days e afterDays w"
  obtain isps w1 where c1: "ListISPs_archive e w = (isps, w1)" by (meson surj_pair)
  then obtain b1 where st1: "statement e w = (b1, w1)" and isps: "\<forall>x. isps = Some x \<longrightarrow> x = aw_isps w1"
    by (auto simp: ListISPs_archive_def split: prod.splits)
  have D: "marked w \<subseteq> ?D" by (simp add: sweep_days_def)
  note s1 = statement_inv [OF assms(2) D assms(1) st1]
  have a1: "advances c w w1" and m1: "marked w1 = marked w" using s1 steady_advances steady_world [of ?D w w1] by auto
  obtain days w2 where c2: "daysOlderThan e after w1 = (days, w2)" by (meson surj_pair)
  then obtain b2 where st2: "statement e w1 = (b2, w2)" by (auto simp: daysOlderThan_def Let_def split: prod.splits)
  note s2 = statement_inv [OF assms(2) _ _ st2]
  have s2': "steady ?D w1 w2" "archive_inv c w2" using s2 [of c] s1 D m1 by auto
  have a2: "advances c w w2" and m2: "marked w2 = marked w" "aw_isps w2 = aw_isps w1"
    using advances_trans [OF a1 steady_advances] s2' m1 steady_world [of ?D w1 w2] by auto
  have "set days \<subseteq> ?D" using set_daysOlderThan [OF c2] by (auto simp: sweep_days_def after_def max_def split: if_splits)
  then have a3: "advances c w2 (snd (fold (sweep_day e c format (aw_isps w1)) days (tot, w2)))" for tot
    using sweep_days_advance [OF assms(2) _ _ s2'(2)] D m2 by auto
  have w: "advances c w w" using steady_advances [OF steady_refl assms(1)] .
  let ?zero = "\<lparr>sw_days = 0, sw_rows = 0, sw_bytes = 0\<rparr>"
  have "w' = w \<or> w' = w1 \<or> w' = snd (fold (sweep_day e c format (aw_isps w1)) days (?zero, w2))"
    using assms(3) c1 c2 isps by (auto simp: ArchiveSweep_def after_def Let_def split: if_splits option.splits prod.splits)
  then have "advances c w w'" using a1 w advances_trans [OF a2 a3] by blast
  then show ?thesis by (simp add: advances_def rows_safe_def)
qed

definition example_archive_env :: archive_env where
  "example_archive_env = \<lparr>ae_fails = (\<lambda>_. False), ae_partial = (\<lambda>_. 0), ae_arrive = (\<lambda>_. []),
     ae_older = (\<lambda>_ _. True), ae_size = (\<lambda>rs. int (length rs))\<rparr>"

definition example_archive_world :: archive_world where
  "example_archive_world = \<lparr>aw_hot = [\<lparr>ar_day = ''2026-01-05'', ar_isp = 1, ar_rest = ''a''\<rparr>, \<lparr>ar_day = ''2026-01-05'', ar_isp = 2, ar_rest = ''b''\<rparr>],
     aw_s3 = [], aw_marks = [], aw_isps = [1, 2], aw_step = 0\<rparr>"

lemma example_dates:
  "parse_date ''2026-01-05'' = Some (2026, 1, 5)" "format_date (2026, 1, 5) = ''2026-01-05''"
  "sort [''2026-01-05''] = [''2026-01-05'']"
  by code_simp+

lemma example_keys: "archive_key c 1 day ext \<noteq> archive_key c 2 day ext'" "archive_key c 2 day ext' \<noteq> archive_key c 1 day ext"
  using archive_key_inj by fastforce+

lemmas archive_eval = ArchiveSweep_def sweep_day_def IsDayArchived_def ListISPs_archive_def daysOlderThan_def rowsOnDay_def
  DropDay_def MarkDayArchived_def count_rows_def Stat_s3_def insert_object_def statement_def tenant_rows_def day_rows_def
  object_def exportDay_def archive_ext_def Let_def zero_result_def archive_key_def [symmetric]

lemma example_archive_inv: "archive_inv c example_archive_world"
  by (simp add: archive_inv_def objects_ok_def marks_ok_def example_archive_world_def object_def)

theorem ArchiveSweep_no_loss_witness:
  fixes w'
  defines "w' \<equiv> snd (ArchiveSweep example_archive_env (Some \<lparr>cl_prefix = []\<rparr>) ''parquet'' True 7 example_archive_world)"
  shows "archive_inv \<lparr>cl_prefix = []\<rparr> w' \<and> aw_hot w' = [] \<and> marked w' = {''2026-01-05''}"
proof -
  have "settled example_archive_env (sweep_days example_archive_env 7 example_archive_world)"
    by (simp add: settled_def example_archive_env_def)
  then have "archive_inv \<lparr>cl_prefix = []\<rparr> w'"
    using ArchiveSweep_no_loss [OF example_archive_inv _ surjective_pairing] by (simp add: w'_def)
  moreover have "aw_hot w' = [] \<and> map fst (aw_marks w') = [''2026-01-05'']"
    by (simp del: One_nat_def add: w'_def archive_eval example_archive_env_def example_archive_world_def example_dates example_keys)
  ultimately show ?thesis by (metis list.set list.set_map)
qed

section \<open>A manual export followed by a sweep\<close>

text \<open>No statement fails and no row arrives.\<close>

definition calm :: "archive_env \<Rightarrow> bool" where
  "calm e \<longleftrightarrow> (\<forall>i. \<not> ae_fails e i) \<and> (\<forall>i. ae_arrive e i = [])"

lemma calm_settled: "calm e \<Longrightarrow> settled e UNIV"
  by (simp add: calm_def settled_def)

lemma calm_statement: "calm e \<Longrightarrow> statement e w = (False, w\<lparr>aw_step := Suc (aw_step w)\<rparr>)"
  by (simp add: calm_def statement_def)

text \<open>The row is in no object of the bucket.\<close>

definition not_archived :: "arow \<Rightarrow> archive_world \<Rightarrow> bool" where
  "not_archived r w \<longleftrightarrow> (\<forall>k. r \<notin> set (object k w))"

lemma steady_UNIV: "steady UNIV w w' \<Longrightarrow> aw_hot w' = aw_hot w \<and> aw_marks w' = aw_marks w \<and> aw_isps w' = aw_isps w"
  by (auto simp: steady_def)

lemma exportDay_not_archived:
  assumes "calm e" and "exportDay e c format i day w = (x, w')" and "not_archived r w"
    and "r \<notin> set (tenant_rows i (format_date day) w)"
  shows "steady UNIV w w' \<and> not_archived r w'"
proof -
  note s = exportDay_steady [OF calm_settled [OF assms(1)] refl UNIV_I refl assms(2)]
  then have "aw_s3 w' = aw_s3 w \<or> (\<exists>k n. aw_s3 w' = (k, take n (tenant_rows i (format_date day) w)) # aw_s3 w)" by blast
  then have "set (object k w') \<subseteq> set (object k w) \<union> set (tenant_rows i (format_date day) w)" for k
    by (auto simp: object_def dest: in_set_takeD split: if_splits)
  then have "not_archived r w'" using assms(3,4) unfolding not_archived_def by blast
  then show ?thesis using s by blast
qed

lemma exportAll_not_archived:
  assumes "calm e" and "exportAll e c format day is t w = (t', w')" and "not_archived r w"
    and "\<And>i. i \<in> set is \<Longrightarrow> r \<notin> set (tenant_rows i (format_date day) w)"
  shows "steady UNIV w w' \<and> not_archived r w'"
  using assms(2-4)
proof (induction "is" arbitrary: t w)
  case (Cons i "is")
  obtain x w1 where ex: "exportDay e c format i day w = (x, w1)" by (meson surj_pair)
  have s: "steady UNIV w w1" "not_archived r w1" using exportDay_not_archived [OF assms(1) ex] Cons.prems by auto
  have rows: "tenant_rows j d w1 = tenant_rows j d w" for j d using steady_rows [OF s(1) UNIV_I] by blast
  show ?case
  proof (cases x)
    case (Inl a)
    then show ?thesis using Cons.prems(1) ex s by simp
  next
    case (Inr y)
    then show ?thesis
      using Cons.IH [of _ w1] Cons.prems(1,3) ex s rows steady_trans [OF s(1)] by simp
  qed
qed simp

lemma exportEach_not_archived:
  assumes "calm e" and "exportEach e c format day is t w = (t', w')" and "not_archived r w"
    and "\<And>i. i \<in> set is \<Longrightarrow> r \<notin> set (tenant_rows i (format_date day) w)"
  shows "steady UNIV w w' \<and> not_archived r w'"
  using assms(2-4)
proof (induction "is" arbitrary: t w)
  case (Cons i "is")
  obtain x w1 where ex: "exportDay e c format i day w = (x, w1)" by (meson surj_pair)
  have s: "steady UNIV w w1" "not_archived r w1" using exportDay_not_archived [OF assms(1) ex] Cons.prems by auto
  have rows: "tenant_rows j d w1 = tenant_rows j d w" for j d using steady_rows [OF s(1) UNIV_I] by blast
  obtain t1 where "exportEach e c format day is t1 w1 = (t', w')"
    using Cons.prems(1) ex by (cases x) auto
  then show ?case using Cons.IH [of t1 w1] Cons.prems(3) s rows steady_trans [OF s(1)] by simp
qed simp

lemma calm_Drop_Mark:
  assumes "calm e"
  shows "parse_date d = Some pd \<Longrightarrow> DropDay e d w =
      (True, w\<lparr>aw_step := Suc (aw_step w), aw_hot := filter (\<lambda>r. ar_day r \<noteq> d) (aw_hot w)\<rparr>)"
    and "MarkDayArchived e d a w = (True, w\<lparr>aw_step := Suc (aw_step w), aw_marks := AList.update d a (aw_marks w)\<rparr>)"
    and "IsDayArchived e d w = (d \<in> marked w, w\<lparr>aw_step := Suc (aw_step w)\<rparr>)"
    and "parse_date d = Some pd \<Longrightarrow> rowsOnDay e d w = (Some (int (length (day_rows d w))), w\<lparr>aw_step := Suc (aw_step w)\<rparr>)"
  by (simp_all add: DropDay_def MarkDayArchived_def IsDayArchived_def rowsOnDay_def count_rows_def day_rows_def calm_statement [OF assms])

lemma not_archived_frame [simp]:
  "not_archived r (w\<lparr>aw_step := n\<rparr>) = not_archived r w" "not_archived r (w\<lparr>aw_hot := hs\<rparr>) = not_archived r w"
  "not_archived r (w\<lparr>aw_marks := ms\<rparr>) = not_archived r w"
  by (simp_all add: not_archived_def object_def)

lemma mark_and_drop_calm:
  assumes "calm e" and "parse_date d = Some pd"
  shows "aw_hot (mark_and_drop e d a w) = filter (\<lambda>r. ar_day r \<noteq> d) (aw_hot w) \<and> marked (mark_and_drop e d a w) = insert d (marked w) \<and>
    not_archived r (mark_and_drop e d a w) = not_archived r w"
  using dom_update [of d a "aw_marks w"] by (simp add: mark_and_drop_def calm_Drop_Mark [OF assms(1)] assms(2))

lemma sweep_day_unarchived:
  assumes "calm e" and "d = ar_day r" and "d \<in> marked w" and "not_archived r w" and "parse_date d \<noteq> None"
    and "sweep_day e c format isps day (tot, w) = (tot', w')"
  shows "d \<in> marked w' \<and> not_archived r w' \<and> set (aw_hot w') \<subseteq> set (aw_hot w) \<and> (day = d \<longrightarrow> r \<notin> set (aw_hot w'))"
proof -
  let ?w1 = "w\<lparr>aw_step := Suc (aw_step w)\<rparr>"
  from assms(6) calm_Drop_Mark(3) [OF assms(1)] show ?thesis
  proof (cases rule: sweep_day_cases)
    case redrop
    then show ?thesis using assms(2-5) calm_Drop_Mark(1) [OF assms(1), of day _ ?w1]
      by (cases "parse_date day") (auto simp: DropDay_def)
  next
    case bad_date
    then show ?thesis using assms(2-5) by auto
  next
    case (kept pd t w2)
    have "day \<noteq> d" using kept(1) assms(3) by auto
    then have "steady UNIV ?w1 w2 \<and> not_archived r w2"
      using exportAll_not_archived [OF assms(1) kept(3)] format_parse_date [OF kept(2)] assms(2,4) by (simp add: tenant_rows_def)
    then show ?thesis using steady_UNIV [of ?w1 w2] kept(4) \<open>day \<noteq> d\<close> assms(3) by simp
  next
    case (counted pd t w2 hot w3)
    have "day \<noteq> d" using counted(1) assms(3) by auto
    then have s: "steady UNIV ?w1 w2 \<and> not_archived r w2"
      using exportAll_not_archived [OF assms(1) counted(3)] format_parse_date [OF counted(2)] assms(2,4) by (simp add: tenant_rows_def)
    have w3: "w3 = w2\<lparr>aw_step := Suc (aw_step w2)\<rparr>"
      using counted(4) calm_Drop_Mark(4) [OF assms(1) counted(2)] by simp
    show ?thesis
      using mark_and_drop_calm [OF assms(1) counted(2), of _ w3] steady_UNIV [of ?w1 w2] s counted(5) \<open>day \<noteq> d\<close> assms(3)
      by (auto simp: w3)
  qed
qed

lemma sweep_days_unarchived:
  assumes "calm e" and "d = ar_day r" and "parse_date d \<noteq> None" and "d \<in> marked w" and "not_archived r w"
    and "d \<in> set days \<or> r \<notin> set (aw_hot w)" and "fold (sweep_day e c format isps) days (tot, w) = (tot', w')"
  shows "not_archived r w' \<and> r \<notin> set (aw_hot w')"
  using assms(4-7)
proof (induction days arbitrary: tot w)
  case (Cons day days)
  obtain tot1 w1 where sw: "sweep_day e c format isps day (tot, w) = (tot1, w1)" by (meson surj_pair)
  note s = sweep_day_unarchived [OF assms(1,2) Cons.prems(1,2) assms(3) sw]
  show ?case using Cons.IH [of w1 tot1] s Cons.prems(3,4) sw by auto
qed simp

text \<open>
  C17. A day exported by hand can lose records.  \<open>handleArchive\<close> exports the rows of the
  registered ISPs and marks the day without comparing with what the partition holds; the next
  sweep takes the marker as proof and drops the partition.  A row of that day that belongs to no
  registered ISP is then neither in the hot store nor in the bucket, although no statement failed.
\<close>

theorem manual_archive_loses_rows:
  assumes "calm e" and "parse_date d = Some day" and "distinct (aw_isps w)"
    and "handleArchive e (Some c) format d w = (200, Some t, w1)" and "mt_failed t = 0" and "mt_rows t > 0"
    and "r \<in> set (aw_hot w)" and "ar_day r = d" and "ar_isp r \<notin> set (aw_isps w)" and "not_archived r w"
    and "ae_older e (if afterDays < 1 then 7 else afterDays) d"
    and "ArchiveSweep e (Some c) format True afterDays w1 = (Some tot, w2)"
  shows "r \<notin> set (aw_hot w2) \<and> (\<forall>k. r \<notin> set (object k w2))"
proof -
  let ?w0 = "w\<lparr>aw_step := Suc (aw_step w)\<rparr>"
  note fmt = format_parse_date [OF assms(2)]
  obtain t' wa where c1: "exportEach e c format day (aw_isps w) \<lparr>mt_rows = 0, mt_bytes = 0, mt_keys = [], mt_failed = 0\<rparr> ?w0 = (t', wa)"
    by (meson surj_pair)
  have s1: "steady UNIV ?w0 wa" "not_archived r wa"
    using exportEach_not_archived [OF assms(1) c1] fmt assms(8-10) by (auto simp: tenant_rows_def)
  have "t' = t" and w1: "w1 = wa\<lparr>aw_step := Suc (aw_step wa), aw_marks := AList.update d
      \<lparr>ad_Objects = length (mt_keys t), ad_Rows = mt_rows t, ad_Bytes = mt_bytes t\<rparr> (aw_marks wa)\<rparr>"
    using assms(4-6) c1 assms(2) fmt
    by (auto simp: handleArchive_def ListISPs_archive_def calm_statement [OF assms(1)] calm_Drop_Mark [OF assms(1)] split: if_splits)
  have w1': "d \<in> marked w1" "not_archived r w1" "aw_hot w1 = aw_hot w"
    using s1 steady_UNIV [OF s1(1)] by (simp_all add: w1 dom_update)
  obtain days wb where c2: "daysOlderThan e (if afterDays < 1 then 7 else afterDays) (w1\<lparr>aw_step := Suc (aw_step w1)\<rparr>) = (days, wb)"
    by (meson surj_pair)
  have days: "d \<in> set days" and wb: "d \<in> marked wb" "not_archived r wb"
    using c2 w1' assms(7,8,11) by (auto simp: daysOlderThan_def calm_statement [OF assms(1)] max_def Let_def)
  obtain tot' where f: "fold (sweep_day e c format (aw_isps w1)) days (\<lparr>sw_days = 0, sw_rows = 0, sw_bytes = 0\<rparr>, wb) = (tot', w2)"
    using assms(12) c2 by (auto simp: ArchiveSweep_def ListISPs_archive_def calm_statement [OF assms(1)] Let_def split: prod.splits)
  have "not_archived r w2 \<and> r \<notin> set (aw_hot w2)"
    using sweep_days_unarchived [OF assms(1) assms(8) [symmetric] _ wb _ f] days assms(2) by simp
  then show ?thesis by (simp add: not_archived_def)
qed

theorem manual_archive_loses_rows_witness:
  fixes w w1 w2 r
  defines "r \<equiv> \<lparr>ar_day = ''2026-01-05'', ar_isp = 0, ar_rest = ''x''\<rparr>"
    and "w \<equiv> example_archive_world\<lparr>aw_hot := aw_hot example_archive_world @ [r]\<rparr>"
    and "w1 \<equiv> snd (snd (handleArchive example_archive_env (Some \<lparr>cl_prefix = []\<rparr>) ''parquet'' ''2026-01-05'' w))"
    and "w2 \<equiv> snd (ArchiveSweep example_archive_env (Some \<lparr>cl_prefix = []\<rparr>) ''parquet'' True 7 w1)"
  shows "r \<in> set (aw_hot w) \<and> r \<notin> set (aw_hot w2) \<and> (\<forall>k. r \<notin> set (object k w2))"
proof -
  let ?e = example_archive_env and ?c = "\<lparr>cl_prefix = []\<rparr>"
  have calm: "calm ?e" by (simp add: calm_def example_archive_env_def)
  obtain t where h: "handleArchive ?e (Some ?c) ''parquet'' ''2026-01-05'' w = (200, Some t, w1)" "mt_failed t = 0" "mt_rows t = 2"
    by (simp del: One_nat_def add: w1_def handleArchive_def w_def r_def archive_eval example_archive_env_def example_archive_world_def
        example_dates example_keys)
  obtain tot where s: "ArchiveSweep ?e (Some ?c) ''parquet'' True 7 w1 = (Some tot, w2)"
    by (cases "ArchiveSweep ?e (Some ?c) ''parquet'' True 7 w1")
      (auto simp: w2_def ArchiveSweep_def ListISPs_archive_def calm_statement [OF calm] Let_def split: prod.splits)
  have "not_archived r w" by (simp add: not_archived_def object_def w_def example_archive_world_def)
  then show ?thesis
    using manual_archive_loses_rows [OF calm example_dates(1) _ h(1,2) _ _ _ _ _ _ s, of r] h(3)
    by (simp add: w_def r_def example_archive_world_def example_archive_env_def)
qed

end
