(* ===== verification/Search.thy ===== *)
theory Search
  imports Go_Net Go_Date "HOL-Library.List_Lexorder" "HOL-Library.Char_ord"
begin

text \<open>
  The search for records: the filters of \<open>internal/director/nat_translation.go\<close> and
  \<open>console.go\<close>, the validation of \<open>search.go\<close>, and the merge of the hot store with archived days
  of \<open>cold.go\<close>.  Statements are built as text and bound arguments, as the code does; what the
  database answers is a parameter of \<open>searchAll\<close>.  Times are seconds of the Unix epoch, \<open>None\<close> is
  the zero time; dates are in Indian Standard Time.  Case mapping is on ASCII letters.

  The lemmas show that the text of a filter depends on the shape of the request only and has as
  many placeholders as arguments, that literals cannot be left, and that a page that is not
  marked as capped is the page of all matching records.
\<close>

section \<open>Strings\<close>

text \<open>A literal of the statements' own text.\<close>

definition sql_str :: "string \<Rightarrow> string" where
  "sql_str s = CHR 0x27 # s @ [CHR 0x27]"

text \<open>\<open>strings.Split\<close> with a separator of one byte; the result is never empty.\<close>

fun split_on :: "char \<Rightarrow> string \<Rightarrow> string list" where
  "split_on sep [] = [[]]"
| "split_on sep (c # s) =
     (if c = sep then [] # split_on sep s else case split_on sep s of x # xs \<Rightarrow> (c # x) # xs | [] \<Rightarrow> [[c]])"

fun join :: "string \<Rightarrow> string list \<Rightarrow> string" where
  "join sep [] = []"
| "join sep [s] = s"
| "join sep (s # ss) = s @ sep @ join sep ss"

text \<open>\<open>net.ParseCIDR\<close>: the masked address and the mask; the address has 4 bytes for IPv4.\<close>

definition CIDRMask :: "nat \<Rightarrow> nat \<Rightarrow> bytes" where
  "CIDRMask ones len = map (\<lambda>i. if 8 * (i + 1) \<le> ones then 255 else if ones \<le> 8 * i then 0 else NOT (drop_bit (ones - 8 * i) 255)) [0..<len]"

definition ParseCIDR :: "string \<Rightarrow> (ip \<times> bytes) option" where
  "ParseCIDR s =
     (let addr = takeWhile (\<lambda>c. c \<noteq> CHR ''/'') s;
          mask = drop (Suc (length addr)) s;
          a = ParseIP addr;
          v4 = CHR '':'' \<notin> set addr;
          bitlen = (if v4 then 32 else 128);
          n = dec_value mask
      in if CHR ''/'' \<notin> set s \<or> a = nil_ip \<or> mask = [] \<or> \<not> list_all is_digit mask \<or> n > bitlen then None
         else let m = CIDRMask n (bitlen div 8); b = (if v4 then drop 12 a else a)
              in Some (map2 (AND) b m, m))"

section \<open>The filter\<close>

record search_filter =
  sf_ISPID :: u32
  sf_PublicIP :: string
  sf_PrivateIP :: string
  sf_DestIP :: string
  sf_PublicPort :: int
  sf_PortRange :: string
  sf_Proto :: string
  sf_DeviceID :: u32
  sf_ExporterIP :: string
  sf_destinationNATAvailable :: bool
  sf_ipv6Available :: bool
  sf_Username :: string
  sf_From :: "int option"
  sf_To :: "int option"
  sf_RequireNAT :: bool

definition HasSelector :: "search_filter \<Rightarrow> bool" where
  "HasSelector f \<longleftrightarrow> sf_PublicIP f \<noteq> [] \<or> sf_PrivateIP f \<noteq> [] \<or> sf_DestIP f \<noteq> [] \<or> sf_DeviceID f \<noteq> 0 \<or>
     sf_ExporterIP f \<noteq> [] \<or> sf_Username f \<noteq> [] \<or> sf_PortRange f \<noteq> []"

datatype sql_arg = ArgStr string | ArgU8 u8 | ArgU16 u16 | ArgU32 u32 | ArgTime int | ArgDate int

definition protoNum :: "string \<Rightarrow> u8" where
  "protoNum s =
     (let u = to_upper s in if u = ''TCP'' then 6 else if u = ''UDP'' then 17 else if u = ''ICMP'' then 1 else 0)"

definition parseCIDRRange :: "string \<Rightarrow> (string \<times> string) option" where
  "parseCIDRRange s =
     (if CHR ''/'' \<notin> set s then None
      else case ParseCIDR (trim_str s) of
        None \<Rightarrow> None
      | Some (a, m) \<Rightarrow>
          let b = (case ip_to4 a of Some v \<Rightarrow> v | None \<Rightarrow> a) in
          if length m \<noteq> length b then None
          else Some (ip_String (map2 (AND) b m), ip_String (map2 (\<lambda>x y. x OR NOT y) b m)))"

definition parseIPList :: "string \<Rightarrow> string list" where
  "parseIPList s =
     (if CHR '','' \<notin> set s then []
      else filter (\<lambda>p. ParseIP p \<noteq> nil_ip) (map trim_str (split_on CHR '','' s)))"

definition usesIPv6 :: "string \<Rightarrow> bool" where
  "usesIPv6 s = list_ex (\<lambda>part.
     let a = ParseIP (trim_str (hd (split_on CHR ''/'' part))) in a \<noteq> nil_ip \<and> ip_to4 a = None) (split_on CHR '','' s)"

definition parsePortRange :: "string \<Rightarrow> (u16 \<times> u16) option" where
  "parsePortRange s =
     (if CHR ''-'' \<notin> set s then None
      else case split_on CHR ''-'' s of
        [x, y] \<Rightarrow>
          (let (p1, ok1) = ParseUint 16 (trim_str x); (p2, ok2) = ParseUint 16 (trim_str y) in
           if \<not> ok1 \<or> \<not> ok2 \<or> p1 = 0 \<or> p2 = 0 \<or> p1 > p2 then None else Some (of_nat p1, of_nat p2))
      | _ \<Rightarrow> None)"

text \<open>A condition on an address column: a range, a list or one address.\<close>

definition ip_condition :: "string \<Rightarrow> string \<Rightarrow> string \<Rightarrow> string \<times> sql_arg list" where
  "ip_condition col param v =
     (case parseCIDRRange v of
        Some (lo, hi) \<Rightarrow> (col @ '' >= '' @ param @ '' AND '' @ col @ '' <= '' @ param, [ArgStr lo, ArgStr hi])
      | None \<Rightarrow>
          let ips = parseIPList v in
          if ips \<noteq> [] then (col @ '' IN ('' @ join '', '' (map (\<lambda>_. param) ips) @ '')'', map ArgStr ips)
          else (col @ '' = '' @ param, [ArgStr v]))"

definition port_condition :: "search_filter \<Rightarrow> string \<Rightarrow> (string \<times> sql_arg list) list" where
  "port_condition f port =
     (case parsePortRange (sf_PortRange f) of
        Some (lo, hi) \<Rightarrow> [(port @ '' >= ? AND '' @ port @ '' <= ?'', [ArgU16 lo, ArgU16 hi])]
      | None \<Rightarrow> if sf_PublicPort f > 0 then [(port @ '' = ?'', [ArgU16 (of_int (sf_PublicPort f))])] else [])"

text \<open>The filter with the IPv6 values an older table cannot hold replaced by a condition that fails.\<close>

definition drop_ipv6 :: "search_filter \<Rightarrow> bool \<Rightarrow> search_filter \<times> (string \<times> sql_arg list) list" where
  "drop_ipv6 f hot =
     (if hot \<and> \<not> sf_ipv6Available f then
        let (f, c1) = (if usesIPv6 (sf_PublicIP f)
              then (f\<lparr>sf_PublicIP := [], sf_PublicPort := 0, sf_PortRange := []\<rparr>, [(''0'', [])]) else (f, []));
            (f, c2) = (if usesIPv6 (sf_PrivateIP f) then (f\<lparr>sf_PrivateIP := []\<rparr>, [(''0'', [])]) else (f, []));
            (f, c3) = (if usesIPv6 (sf_DestIP f) then (f\<lparr>sf_DestIP := []\<rparr>, [(''0'', [])]) else (f, []))
        in (f, c1 @ c2 @ c3)
      else (f, []))"

definition source_changed :: "bool \<Rightarrow> string \<Rightarrow> string \<Rightarrow> string \<Rightarrow> string" where
  "source_changed hot publicCol sourceCol zero =
     (let src = publicCol @ '' != '' @ zero @ '' AND ('' @ publicCol @ '' != '' @ sourceCol @ '' OR nat_public_port != src_port)''
      in if hot then src else ''nat_public_ip != '' @ sql_str [] @ '' AND '' @ src)"

definition addNATFilters :: "search_filter \<Rightarrow> bool \<Rightarrow> (string \<times> sql_arg list) list" where
  "addNATFilters f0 hot =
     (let (f, zeros) = drop_ipv6 f0 hot;
          baseParam = (if hot then ''toIPv4(?)'' else ''?'');
          baseZero = (if hot then ''toIPv4('' @ sql_str ''0.0.0.0'' @ '')'' else sql_str ''0.0.0.0'');
          col6 = (\<lambda>v. hot \<and> sf_ipv6Available f \<and> usesIPv6 v);
          pub = (if sf_PublicIP f \<noteq> [] \<or> sf_PublicPort f > 0 \<or> sf_PortRange f \<noteq> [] then
              let six = col6 (sf_PublicIP f);
                  publicCol = (if six then ''nat_public_ip_v6'' else ''nat_public_ip'');
                  sourceCol = (if six then ''src_ip_v6'' else ''src_ip'');
                  ipParam = (if six then ''toIPv6(?)'' else baseParam);
                  zero = (if six then ''toIPv6('' @ sql_str ''::'' @ '')'' else baseZero);
                  terms = (source_changed hot publicCol sourceCol zero, [])
                    # (if sf_PublicIP f \<noteq> [] then [ip_condition publicCol ipParam (sf_PublicIP f)] else [])
                    @ port_condition f ''nat_public_port''
              in [(''('' @ join '' AND '' (map fst terms) @ '')'', concat (map snd terms))]
            else []);
          one = (\<lambda>v c4 c6. if v \<noteq> [] then
              [ip_condition (if col6 v then c6 else c4) (if col6 v then ''toIPv6(?)'' else baseParam) v] else [])
      in zeros @ pub @ one (sf_PrivateIP f) ''src_ip'' ''src_ip_v6'' @ one (sf_DestIP f) ''dst_ip'' ''dst_ip_v6'')"

text \<open>The condition of the hot store; \<open>None\<close> when there is none.  Days are numbered from the epoch.\<close>

definition ist_day :: "int \<Rightarrow> int" where
  "ist_day t = (t + 19800) div 86400"

definition exporter_condition :: "search_filter \<Rightarrow> (string \<times> sql_arg list) list" where
  "exporter_condition f =
     (if sf_ExporterIP f = [] then []
      else let a = ParseIP (sf_ExporterIP f) in
        if a \<noteq> nil_ip \<and> ip_to4 a = None then
          (if sf_ipv6Available f then [(''exporter_ip_v6 = toIPv6(?)'', [ArgStr (sf_ExporterIP f)])] else [(''0'', [])])
        else [(''exporter_ip = toIPv4(?)'', [ArgStr (sf_ExporterIP f)])])"

definition require_nat_hot :: "search_filter \<Rightarrow> string" where
  "require_nat_hot f =
     (let z4 = ''toIPv4('' @ sql_str ''0.0.0.0'' @ '')''; z6 = ''toIPv6('' @ sql_str ''::'' @ '')'';
          c1 = ''nat_public_ip != '' @ z4;
          c2 = (if sf_destinationNATAvailable f then ''('' @ c1 @ '' OR nat_dest_ip != '' @ z4 @ '')'' else c1)
      in if sf_ipv6Available f then ''('' @ c2 @ '' OR nat_public_ip_v6 != '' @ z6 @ '' OR nat_dest_ip_v6 != '' @ z6 @ '')'' else c2)"

definition recordConds :: "search_filter \<Rightarrow> (string \<times> sql_arg list) list" where
  "recordConds f =
     addNATFilters f True
     @ (if protoNum (sf_Proto f) > 0 then [(''protocol = ?'', [ArgU8 (protoNum (sf_Proto f))])] else [])
     @ (if sf_DeviceID f > 0 then [(''device_id = ?'', [ArgU32 (sf_DeviceID f)])] else [])
     @ exporter_condition f
     @ (if sf_Username f \<noteq> [] then [(''username = ?'', [ArgStr (sf_Username f)])] else [])
     @ (if sf_RequireNAT f then [(require_nat_hot f, [])] else [])
     @ (case sf_From f of None \<Rightarrow> []
        | Some t \<Rightarrow> [(''flow_start >= ?'', [ArgTime t]), (''event_date >= toDate(?)'', [ArgDate (ist_day t - 1)])])
     @ (case sf_To f of None \<Rightarrow> []
        | Some t \<Rightarrow> [(''flow_start <= ?'', [ArgTime t]), (''event_date <= toDate(?)'', [ArgDate (ist_day t + 1)])])"

definition hotConds :: "search_filter \<Rightarrow> (string \<times> sql_arg list) list" where
  "hotConds f = recordConds f @ (if sf_ISPID f \<noteq> 0 then [(''isp_id = ?'', [ArgU32 (sf_ISPID f)])] else [])"

definition hotWhere :: "search_filter \<Rightarrow> (string \<times> sql_arg list) option" where
  "hotWhere f =
     (let cs = hotConds f in if cs = [] then None else Some (join '' AND '' (map fst cs), concat (map snd cs)))"

definition require_nat_cold :: "search_filter \<Rightarrow> string" where
  "require_nat_cold f =
     (let c = ''nat_public_ip != '' @ sql_str [] @ '' AND nat_public_ip != '' @ sql_str ''0.0.0.0''
      in if sf_destinationNATAvailable f
         then ''(('' @ c @ '') OR (nat_dest_ip != '' @ sql_str [] @ '' AND nat_dest_ip != '' @ sql_str ''0.0.0.0'' @ ''))''
         else c)"

definition coldWhere :: "search_filter \<Rightarrow> string \<Rightarrow> (string list \<times> sql_arg list) option" where
  "coldWhere f tsExpr =
     (let cs = addNATFilters f False
            @ (if protoNum (sf_Proto f) > 0 then [(''protocol = ?'', [ArgU8 (protoNum (sf_Proto f))])] else [])
            @ (if sf_DeviceID f > 0 then [(''device_id = ?'', [ArgU32 (sf_DeviceID f)])] else [])
            @ (if sf_ExporterIP f \<noteq> [] then [(''exporter_ip = ?'', [ArgStr (sf_ExporterIP f)])] else [])
            @ (if sf_Username f \<noteq> [] then [(''username = ?'', [ArgStr (sf_Username f)])] else [])
            @ (if sf_RequireNAT f then [(require_nat_cold f, [])] else [])
            @ (case sf_From f of None \<Rightarrow> [] | Some t \<Rightarrow> [(tsExpr @ '' >= ?'', [ArgTime t])])
            @ (case sf_To f of None \<Rightarrow> [] | Some t \<Rightarrow> [(tsExpr @ '' <= ?'', [ArgTime t])])
      in if cs = [] then None else Some (map fst cs, concat (map snd cs)))"

section \<open>Validation\<close>

definition family :: "string \<Rightarrow> nat" where
  "family part = (let a = ParseIP (trim_str part) in if a = nil_ip then 0 else if ip_to4 a \<noteq> None then 4 else 6)"

definition valid_search_ip :: "string \<Rightarrow> bool" where
  "valid_search_ip raw =
     (let r = trim_str raw in
      if r = [] then True
      else if CHR ''/'' \<in> set r then ParseCIDR r \<noteq> None
      else let fs = map family (split_on CHR '','' r) in hd fs \<noteq> 0 \<and> list_all (\<lambda>x. x = hd fs) fs)"

definition validateSearchIPs :: "search_filter \<Rightarrow> bool" where
  "validateSearchIPs f = list_all valid_search_ip [sf_PublicIP f, sf_PrivateIP f, sf_DestIP f]"

section \<open>Literals\<close>

definition replace_all :: "char \<Rightarrow> string \<Rightarrow> string \<Rightarrow> string" where
  "replace_all c r s = concat (map (\<lambda>x. if x = c then r else [x]) s)"

definition chLit :: "string \<Rightarrow> string" where
  "chLit s = replace_all CHR 0x27 [CHR 0x5C, CHR 0x27] (replace_all CHR 0x5C [CHR 0x5C, CHR 0x5C] s)"

definition quote :: "string \<Rightarrow> string" where
  "quote s =
     (let s = replace_all CHR 0x5C [CHR 0x5C, CHR 0x5C] s;
          s = replace_all CHR 0x27 [CHR 0x5C, CHR 0x27] s
      in [CHR 0x27] @ s @ [CHR 0x27])"

section \<open>Archived days\<close>

record cold_s3 =
  cs_Endpoint :: string
  cs_Bucket :: string
  cs_Prefix :: string
  cs_Format :: string

definition enabled_cold :: "cold_s3 \<Rightarrow> bool" where
  "enabled_cold c \<longleftrightarrow> cs_Endpoint c \<noteq> [] \<and> cs_Bucket c \<noteq> []"

definition chFormat_cold :: "cold_s3 \<Rightarrow> string \<times> string" where
  "chFormat_cold c =
     (if cs_Format c = ''csvgz'' \<or> cs_Format c = ''csv'' then (''CSVWithNames'', ''csv.gz'') else (''Parquet'', ''parquet''))"

definition trim_right_slash :: "string \<Rightarrow> string" where
  "trim_right_slash s = rev (dropWhile (\<lambda>c. c = CHR ''/'') (rev s))"

definition trim_slash :: "string \<Rightarrow> string" where
  "trim_slash s = trim_right_slash (dropWhile (\<lambda>c. c = CHR ''/'') s)"

definition day_segment :: "string \<Rightarrow> date \<Rightarrow> string" where
  "day_segment ext = (\<lambda>(y, m, d). ''year='' @ pad0 4 y @ ''/month='' @ pad0 2 m @ ''/day='' @ pad0 2 d @ ''/part-000.'' @ ext)"

definition urlForDays :: "cold_s3 \<Rightarrow> u32 \<Rightarrow> string list \<Rightarrow> string" where
  "urlForDays c ispID days =
     (let p = trim_slash (cs_Prefix c);
          base = join ''/'' ([trim_right_slash (cs_Endpoint c), cs_Bucket c] @ (if p \<noteq> [] then [p] else []));
          isp = (if ispID \<noteq> 0 then ''isp_id='' @ dec_string (unat ispID) else ''isp_id=*'');
          ext = snd (chFormat_cold c);
          segs = map (day_segment ext) (List.map_filter parse_date days)
      in case segs of
           [] \<Rightarrow> base @ ''/'' @ isp @ ''/**/*.'' @ ext
         | [s] \<Rightarrow> base @ ''/'' @ isp @ ''/'' @ s
         | _ \<Rightarrow> base @ ''/'' @ isp @ ''/{'' @ join '','' segs @ ''}'')"

text \<open>The first second of a day, in Indian Standard Time.\<close>

definition days_before_year :: "int \<Rightarrow> int" where
  "days_before_year y = 365 * y + (y + 3) div 4 - (y + 99) div 100 + (y + 399) div 400"

definition civil_day :: "date \<Rightarrow> int" where
  "civil_day = (\<lambda>(y, m, d). days_before_year (int y) - days_before_year 1970
     + int (sum_list (map (\<lambda>k. daysIn k y) [1..<m])) + int d - 1)"

definition day_start :: "date \<Rightarrow> int" where
  "day_start d = civil_day d * 86400 - 19800"

definition selectArchivedDays :: "string list \<Rightarrow> (string \<Rightarrow> bool) \<Rightarrow> search_filter \<Rightarrow> string list" where
  "selectArchivedDays ad inHot f =
     filter (\<lambda>a. \<not> inHot a \<and>
       (case parse_date a of
          None \<Rightarrow> False
        | Some d \<Rightarrow>
            (let day = day_start d; dayEnd = day + 86400 in
             \<not> (case sf_From f of Some t \<Rightarrow> \<not> dayEnd > t | None \<Rightarrow> False) \<and>
             \<not> (case sf_To f of Some t \<Rightarrow> day > t | None \<Rightarrow> False)))) ad"

text \<open>\<open>archivedDaysInRange\<close>: the listed days, the hot days of the scope (\<open>None\<close> for a failing query).\<close>

definition archivedDaysInRange :: "string list option \<Rightarrow> (string \<times> nat) list option \<Rightarrow> search_filter \<Rightarrow> string list" where
  "archivedDaysInRange ad hotDays f =
     (case ad of
        None \<Rightarrow> []
      | Some ad \<Rightarrow>
          let inHot = (case hotDays of None \<Rightarrow> (\<lambda>_. False) | Some ds \<Rightarrow> (\<lambda>d. list_ex (\<lambda>(x, n). x = d \<and> n > 0) ds))
          in selectArchivedDays ad inHot f)"

definition countCap :: nat where "countCap = 100000"
definition searchLimit :: nat where "searchLimit = 5000"

definition planColdSearch :: "search_filter \<Rightarrow> string list \<Rightarrow> nat \<Rightarrow> string + bool" where
  "planColdSearch f days hotTotal =
     (if (case (sf_From f, sf_To f) of (Some a, Some b) \<Rightarrow> a > b | _ \<Rightarrow> False) then Inl ''From must be earlier than To''
      else if days = [] then Inr False
      else if sf_From f = None \<and> sf_To f = None then Inr False
      else if sf_From f = None \<or> sf_To f = None then Inl ''Set both From and To to search the S3 archive''
      else if hotTotal \<ge> countCap then Inr False
      else Inr True)"

text \<open>The walk: the rows, the days read, whether it stopped at the limit, and the error.\<close>

fun walk :: "(nat \<Rightarrow> bool) \<Rightarrow> (string \<Rightarrow> nat \<Rightarrow> string + 'r list) \<Rightarrow> nat \<Rightarrow> nat \<Rightarrow> 'r list \<Rightarrow> string list
    \<Rightarrow> 'r list \<times> nat \<times> bool \<times> string option" where
  "walk cancelled query limit scanned out [] = (out, scanned, False, None)"
| "walk cancelled query limit scanned out (day # days) =
     (if cancelled scanned then (out, scanned, False, Some ''context canceled'')
      else
        let remaining = limit - length out in
        if remaining = 0 then (out, scanned, True, None)
        else case query day remaining of
          Inl e \<Rightarrow> (out, Suc scanned, False, Some e)
        | Inr part \<Rightarrow>
            let out = out @ part in
            if length out \<ge> limit then (take limit out, Suc scanned, True, None)
            else walk cancelled query limit (Suc scanned) out days)"

definition walkColdDays :: "(nat \<Rightarrow> bool) \<Rightarrow> (string \<Rightarrow> nat \<Rightarrow> string + 'r list) \<Rightarrow> string list \<Rightarrow> nat
    \<Rightarrow> 'r list \<times> nat \<times> bool \<times> string option" where
  "walkColdDays cancelled query days limit =
     (if limit = 0 \<or> days = [] then ([], 0, False, None)
      else walk cancelled query limit 0 [] (rev (sort days)))"

text \<open>What the databases answer: the capped count, a page of the hot store, a bounded read of one archived day.\<close>

record 'r search_env =
  se_count :: "string + nat"
  se_hot :: "nat \<Rightarrow> nat \<Rightarrow> string + 'r list"
  se_cold :: "string \<Rightarrow> nat \<Rightarrow> string + 'r list"
  se_cancelled :: "nat \<Rightarrow> bool"
  se_sort :: "'r list \<Rightarrow> 'r list"

definition searchAll :: "'r search_env \<Rightarrow> cold_s3 \<Rightarrow> string list \<Rightarrow> search_filter \<Rightarrow> nat \<Rightarrow> nat
    \<Rightarrow> string + ('r list \<times> nat \<times> bool \<times> bool)" where
  "searchAll env cs days f limit offset =
     (case se_count env of
        Inl e \<Rightarrow> Inl e
      | Inr tot \<Rightarrow>
          case (if enabled_cold cs then planColdSearch f days tot else Inr False) of
            Inl e \<Rightarrow> Inl e
          | Inr False \<Rightarrow>
              (case se_hot env limit offset of Inl e \<Rightarrow> Inl e | Inr rows \<Rightarrow> Inr (rows, tot, False, tot \<ge> countCap))
          | Inr True \<Rightarrow>
              let windowLimit = min (max (limit + offset) searchLimit) (countCap + 1) in
              (case se_hot env windowLimit 0 of
                 Inl e \<Rightarrow> Inl e
               | Inr hot \<Rightarrow>
                   let (cr, _, coldCapped, cerr) = walkColdDays (se_cancelled env) (se_cold env) days windowLimit in
                   case cerr of
                     Some e \<Rightarrow> Inl (''cold search: '' @ e)
                   | None \<Rightarrow>
                       let merged = se_sort env (hot @ cr) in
                       Inr (take limit (drop offset merged), length merged, True, length hot = windowLimit \<or> coldCapped)))"

section \<open>Literals cannot be left\<close>

text \<open>
  How the database reads a literal after its opening quote: a doubled quote and a quote or
  backslash after a backslash stand for themselves, other escapes for what \<open>esc\<close> says.
\<close>

fun read_literal :: "(char \<Rightarrow> string) \<Rightarrow> string \<Rightarrow> (string \<times> string) option" where
  "read_literal esc [] = None"
| "read_literal esc [c] = (if c = CHR 0x27 then Some ([], []) else None)"
| "read_literal esc (c # d # s) =
     (if c = CHR 0x5C then map_option (\<lambda>(l, r). ((if d = CHR 0x5C \<or> d = CHR 0x27 then [d] else esc d) @ l, r)) (read_literal esc s)
      else if c = CHR 0x27 then (if d = CHR 0x27 then map_option (\<lambda>(l, r). (CHR 0x27 # l, r)) (read_literal esc s) else Some ([], d # s))
      else map_option (\<lambda>(l, r). (c # l, r)) (read_literal esc (d # s)))"

lemma chLit_Cons: "chLit (c # s) = (if c = CHR 0x5C then [CHR 0x5C, CHR 0x5C] else if c = CHR 0x27 then [CHR 0x5C, CHR 0x27] else [c]) @ chLit s"
  by (simp add: chLit_def replace_all_def)

lemma read_literal_chLit:
  assumes "rest = [] \<or> hd rest \<noteq> CHR 0x27"
  shows "read_literal esc (chLit s @ CHR 0x27 # rest) = Some (s, rest)"
proof (induction s)
  case Nil
  show ?case using assms by (cases rest) (simp_all add: chLit_def replace_all_def)
next
  case (Cons c s)
  obtain d u where du: "chLit s @ CHR 0x27 # rest = d # u" by (cases "chLit s") auto
  show ?case
  proof (cases "c = CHR 0x5C \<or> c = CHR 0x27")
    case True
    then show ?thesis using Cons by (auto simp: chLit_Cons)
  next
    case False
    then have "chLit (c # s) @ CHR 0x27 # rest = c # d # u" using du by (simp add: chLit_Cons)
    then show ?thesis using False Cons du by simp
  qed
qed

text \<open>
  A configured value cannot leave its literal: whatever bytes it has, the database reads
  \<open>quote s\<close> as exactly the string \<open>s\<close> and goes on after the closing quote.
\<close>

theorem quote_safe:
  assumes "rest = [] \<or> hd rest \<noteq> CHR 0x27"
  shows "hd (quote s) = CHR 0x27 \<and> read_literal esc (tl (quote s @ rest)) = Some (s, rest)"
  using read_literal_chLit [OF assms, of esc s] by (simp add: quote_def chLit_def Let_def)

theorem quote_safe_witness:
  "read_literal (\<lambda>_. []) (tl (quote [CHR 0x5C, CHR 0x27] @ '', x'')) = Some ([CHR 0x5C, CHR 0x27], '', x'')"
  using quote_safe [of "'', x''" "[CHR 0x5C, CHR 0x27]" "\<lambda>_. []"] by simp

section \<open>Placeholders\<close>

definition marks :: "string \<Rightarrow> nat" where
  "marks s = length (filter (\<lambda>c. c = CHR ''?'') s)"

lemma marks_append [simp]: "marks (s @ t) = marks s + marks t"
  by (simp add: marks_def)

lemma marks_Nil [simp]: "marks [] = 0"
  by (simp add: marks_def)

lemma marks_Cons [simp]: "marks (c # s) = (if c = CHR ''?'' then Suc (marks s) else marks s)"
  by (simp add: marks_def)

lemma marks_join: "marks sep = 0 \<Longrightarrow> marks (join sep ss) = sum_list (map marks ss)"
  by (induction sep ss rule: join.induct) auto

definition balanced :: "(string \<times> sql_arg list) list \<Rightarrow> bool" where
  "balanced = list_all (\<lambda>(t, as). marks t = length as)"

lemma balanced_append [simp]: "balanced (xs @ ys) \<longleftrightarrow> balanced xs \<and> balanced ys"
  by (simp add: balanced_def)

lemma balanced_Nil [simp]: "balanced []"
  by (simp add: balanced_def)

lemma balanced_Cons [simp]: "balanced (x # xs) \<longleftrightarrow> marks (fst x) = length (snd x) \<and> balanced xs"
  by (simp add: balanced_def case_prod_unfold)

lemma balanced_sum: "balanced cs \<Longrightarrow> sum_list (map marks (map fst cs)) = length (concat (map snd cs))"
  by (induction cs) auto

lemma ip_condition_balanced: "marks col = 0 \<Longrightarrow> marks param = 1 \<Longrightarrow> marks (fst (ip_condition col param v)) = length (snd (ip_condition col param v))"
  by (auto simp: ip_condition_def Let_def marks_join o_def sum_list_triv split: option.splits)

lemma port_condition_balanced: "marks port = 0 \<Longrightarrow> balanced (port_condition f port)"
  by (auto simp: port_condition_def split: option.splits)

lemma drop_ipv6_balanced: "balanced (snd (drop_ipv6 f hot))"
  by (auto simp: drop_ipv6_def Let_def)

lemma source_changed_marks: "marks p = 0 \<Longrightarrow> marks c = 0 \<Longrightarrow> marks z = 0 \<Longrightarrow> marks (source_changed hot p c z) = 0"
  by (simp add: source_changed_def Let_def sql_str_def)

lemma addNATFilters_balanced: "balanced (addNATFilters f hot)"
proof -
  obtain g zs where d: "drop_ipv6 f hot = (g, zs)" by (meson surj_pair)
  have z: "balanced zs" using drop_ipv6_balanced [of f hot] d by simp
  have p: "sum_list (map marks (map fst (port_condition g ''nat_public_port''))) = length (concat (map snd (port_condition g ''nat_public_port'')))"
    by (rule balanced_sum [OF port_condition_balanced]) simp
  show ?thesis
    using z p by (simp add: addNATFilters_def d Let_def marks_join source_changed_marks sql_str_def ip_condition_balanced)
qed

lemma hotConds_balanced: "balanced (hotConds f)"
  by (auto simp: hotConds_def recordConds_def addNATFilters_balanced exporter_condition_def require_nat_hot_def Let_def sql_str_def split: option.splits)

section \<open>The text of a condition\<close>

definition ip_text :: "string \<Rightarrow> string \<Rightarrow> bool \<Rightarrow> nat \<Rightarrow> string" where
  "ip_text col param rng n =
     (if rng then col @ '' >= '' @ param @ '' AND '' @ col @ '' <= '' @ param
      else if n \<noteq> 0 then col @ '' IN ('' @ join '', '' (replicate n param) @ '')'' else col @ '' = '' @ param)"

lemma ip_condition_text: "fst (ip_condition col param v) = ip_text col param (parseCIDRRange v \<noteq> None) (length (parseIPList v))"
  by (auto simp: ip_condition_def ip_text_def Let_def map_replicate_const split: option.splits)

definition port_text :: "string \<Rightarrow> bool \<Rightarrow> bool \<Rightarrow> string list" where
  "port_text port rng one = (if rng then [port @ '' >= ? AND '' @ port @ '' <= ?''] else if one then [port @ '' = ?''] else [])"

lemma port_condition_text: "map fst (port_condition f port) = port_text port (parsePortRange (sf_PortRange f) \<noteq> None) (sf_PublicPort f > 0)"
  by (auto simp: port_condition_def port_text_def split: option.splits)

text \<open>What the text of a filter may depend on: which fields are used, and the kind of each address filter.\<close>

definition ip_shape :: "string \<Rightarrow> bool \<times> bool \<times> bool \<times> nat" where
  "ip_shape v = (v = [], usesIPv6 v, parseCIDRRange v \<noteq> None, length (parseIPList v))"

definition filter_shape :: "search_filter \<Rightarrow> (bool \<times> bool \<times> bool \<times> nat) list \<times> bool list" where
  "filter_shape f =
     ([ip_shape (sf_PublicIP f), ip_shape (sf_PrivateIP f), ip_shape (sf_DestIP f)],
      [sf_PublicPort f > 0, sf_PortRange f = [], parsePortRange (sf_PortRange f) \<noteq> None, protoNum (sf_Proto f) > 0, sf_DeviceID f > 0,
       sf_ExporterIP f = [], ParseIP (sf_ExporterIP f) \<noteq> nil_ip \<and> ip_to4 (ParseIP (sf_ExporterIP f)) = None,
       sf_destinationNATAvailable f, sf_ipv6Available f, sf_Username f = [], sf_From f = None, sf_To f = None, sf_RequireNAT f, sf_ISPID f = 0])"

lemma drop_ipv6_eq:
  "drop_ipv6 f hot =
    (let c = hot \<and> \<not> sf_ipv6Available f; p = c \<and> usesIPv6 (sf_PublicIP f); q = c \<and> usesIPv6 (sf_PrivateIP f); r = c \<and> usesIPv6 (sf_DestIP f) in
     (f\<lparr>sf_PublicIP := if p then [] else sf_PublicIP f, sf_PublicPort := if p then 0 else sf_PublicPort f,
        sf_PortRange := if p then [] else sf_PortRange f, sf_PrivateIP := if q then [] else sf_PrivateIP f,
        sf_DestIP := if r then [] else sf_DestIP f\<rparr>,
      (if p then [(''0'', [])] else []) @ (if q then [(''0'', [])] else []) @ (if r then [(''0'', [])] else [])))"
proof (cases "hot \<and> \<not> sf_ipv6Available f")
  case True
  then show ?thesis by (cases f) (simp add: drop_ipv6_def Let_def)
next
  case False
  then show ?thesis by (cases f) (auto simp: drop_ipv6_def Let_def)
qed

lemma drop_ipv6_text:
  assumes "filter_shape f = filter_shape g"
  shows "map fst (snd (drop_ipv6 f hot)) = map fst (snd (drop_ipv6 g hot)) \<and>
    filter_shape (fst (drop_ipv6 f hot)) = filter_shape (fst (drop_ipv6 g hot))"
  using assms by (simp add: drop_ipv6_eq Let_def filter_shape_def ip_shape_def)

lemma addNATFilters_text:
  assumes "filter_shape f = filter_shape g"
  shows "map fst (addNATFilters f hot) = map fst (addNATFilters g hot)"
proof -
  obtain f' fz g' gz where d: "drop_ipv6 f hot = (f', fz)" "drop_ipv6 g hot = (g', gz)" by (meson surj_pair)
  have "map fst fz = map fst gz \<and> filter_shape f' = filter_shape g'"
    using drop_ipv6_text [OF assms, of hot] d by simp
  then have z: "map fst fz = map fst gz" and s: "filter_shape f' = filter_shape g'" by simp_all
  show ?thesis
    using z s by (simp add: addNATFilters_def d Let_def ip_condition_text port_condition_text filter_shape_def ip_shape_def)
qed

lemma hotConds_text: "filter_shape f = filter_shape g \<Longrightarrow> map fst (hotConds f) = map fst (hotConds g)"
  using addNATFilters_text [of f g True]
  by (simp add: hotConds_def recordConds_def filter_shape_def exporter_condition_def require_nat_hot_def Let_def split: option.splits)

lemma join_snoc: "ss \<noteq> [] \<Longrightarrow> join sep (ss @ [s]) = join sep ss @ sep @ s"
  by (induction sep ss rule: join.induct) auto

text \<open>
  C18. A request cannot change the statement it runs.  The text of the condition on the hot store
  is the same for all requests of the same shape (which fields are filled in, and whether an
  address is a range, a list or a single value): the values a request carries are bound
  arguments, as many as there are placeholders.  For a tenant the last condition restricts the
  rows to its own.
\<close>

theorem hotWhere_bound:
  assumes "hotWhere f = Some (txt, args)"
  shows "marks txt = length args \<and>
    (\<forall>g. filter_shape g = filter_shape f \<longrightarrow> map_option fst (hotWhere g) = Some txt) \<and>
    (sf_ISPID f \<noteq> 0 \<longrightarrow> last args = ArgU32 (sf_ISPID f) \<and> (txt = ''isp_id = ?'' \<or> (\<exists>cond. txt = cond @ '' AND isp_id = ?'')))"
proof -
  have cs: "hotConds f \<noteq> []" "txt = join '' AND '' (map fst (hotConds f))" "args = concat (map snd (hotConds f))"
    using assms by (auto simp: hotWhere_def Let_def split: if_splits)
  have "marks txt = length args"
    using balanced_sum [OF hotConds_balanced, of f] by (simp add: cs marks_join)
  moreover have "map_option fst (hotWhere g) = Some txt" if "filter_shape g = filter_shape f" for g
    using hotConds_text [OF that] cs(1,2) by (simp add: hotWhere_def Let_def) (metis map_is_Nil_conv)
  moreover have "last args = ArgU32 (sf_ISPID f) \<and> (txt = ''isp_id = ?'' \<or> (\<exists>cond. txt = cond @ '' AND isp_id = ?''))" if isp: "sf_ISPID f \<noteq> 0"
  proof -
    obtain xs where xs: "hotConds f = xs @ [(''isp_id = ?'', [ArgU32 (sf_ISPID f)])]"
      using isp by (simp add: hotConds_def)
    then show ?thesis using join_snoc [of "map fst xs" "'' AND ''" "''isp_id = ?''"] by (cases "xs = []") (simp_all add: cs)
  qed
  ultimately show ?thesis by blast
qed

definition no_filter :: search_filter where
  "no_filter = \<lparr>sf_ISPID = 0, sf_PublicIP = [], sf_PrivateIP = [], sf_DestIP = [], sf_PublicPort = 0, sf_PortRange = [], sf_Proto = [],
     sf_DeviceID = 0, sf_ExporterIP = [], sf_destinationNATAvailable = True, sf_ipv6Available = True, sf_Username = [],
     sf_From = None, sf_To = None, sf_RequireNAT = False\<rparr>"

theorem hotWhere_bound_witness:
  "hotWhere (no_filter\<lparr>sf_ISPID := 7, sf_Username := ''bob''\<rparr>) = Some (''username = ? AND isp_id = ?'', [ArgStr ''bob'', ArgU32 7]) \<and>
   marks ''username = ? AND isp_id = ?'' = length [ArgStr ''bob'', ArgU32 7]"
proof -
  have "protoNum [] = 0" by (simp add: protoNum_def to_upper_def)
  then have h: "hotWhere (no_filter\<lparr>sf_ISPID := 7, sf_Username := ''bob''\<rparr>) = Some (''username = ? AND isp_id = ?'', [ArgStr ''bob'', ArgU32 7])"
    by (simp add: hotWhere_def hotConds_def recordConds_def addNATFilters_def drop_ipv6_def exporter_condition_def no_filter_def Let_def)
  then show ?thesis using hotWhere_bound [OF h] by simp
qed

section \<open>Pages\<close>

lemma walk_complete:
  assumes "\<And>d n. query d n = Inr (take n (rows d))" and "\<And>i. \<not> cancelled i"
    and "walk cancelled query limit k out days = (r, scanned, capped, err)" and "length out < limit"
  shows "err = None \<and> (\<not> capped \<longrightarrow> r = out @ concat (map rows days) \<and> scanned = k + length days) \<and>
    (capped \<longrightarrow> r = take limit (out @ concat (map rows days)))"
  using assms(3,4)
proof (induction days arbitrary: k out)
  case (Cons day days)
  let ?part = "take (limit - length out) (rows day)"
  show ?case
  proof (cases "length (out @ ?part) \<ge> limit")
    case True
    then have "r = take limit (out @ ?part)" "capped" "err = None"
      using Cons.prems by (auto simp: assms(1,2) Let_def split: if_splits)
    moreover have "take limit (out @ ?part) = take limit (out @ rows day @ concat (map rows days))"
      using True Cons.prems(2) by simp
    ultimately show ?thesis by simp
  next
    case False
    then have short: "?part = rows day" by (simp add: min_def split: if_splits)
    have "walk cancelled query limit (Suc k) (out @ rows day) days = (r, scanned, capped, err)"
      using Cons.prems False short assms(1) [of day "limit - length out"] assms(2) [of k] by (simp add: Let_def)
    then show ?thesis using Cons.IH [of "Suc k" "out @ rows day"] False short by simp
  qed
qed (use assms(4) in auto)



section \<open>Which archived days are read\<close>

text \<open>
  The archived days that are read are those that are not served by the hot store and have an
  instant inside the window; days are half-open intervals of Indian Standard Time.
\<close>

theorem selectArchivedDays_overlap:
  assumes "\<And>a b. sf_From f = Some a \<Longrightarrow> sf_To f = Some b \<Longrightarrow> a \<le> b"
  shows "d \<in> set (selectArchivedDays ad inHot f) \<longleftrightarrow>
    d \<in> set ad \<and> \<not> inHot d \<and>
    (\<exists>day t. parse_date d = Some day \<and> day_start day \<le> t \<and> t < day_start day + 86400 \<and>
      (\<forall>a. sf_From f = Some a \<longrightarrow> a \<le> t) \<and> (\<forall>b. sf_To f = Some b \<longrightarrow> t \<le> b))"
proof (cases "parse_date d")
  case None
  then show ?thesis by (simp add: selectArchivedDays_def)
next
  case (Some day)
  let ?s = "day_start day"
  have "(\<exists>t. ?s \<le> t \<and> t < ?s + 86400 \<and> (\<forall>a. sf_From f = Some a \<longrightarrow> a \<le> t) \<and> (\<forall>b. sf_To f = Some b \<longrightarrow> t \<le> b)) \<longleftrightarrow>
      (\<forall>a. sf_From f = Some a \<longrightarrow> ?s + 86400 > a) \<and> (\<forall>b. sf_To f = Some b \<longrightarrow> ?s \<le> b)" (is "?l \<longleftrightarrow> ?r")
  proof
    assume ?r
    then show ?l
    proof (cases "sf_From f")
      case (Some a)
      then show ?thesis using \<open>?r\<close> assms by (intro exI [of _ "max ?s a"]) auto
    qed (auto intro: exI [of _ ?s])
  qed auto
  then show ?thesis using Some by (auto simp: selectArchivedDays_def not_le not_less split: option.splits)
qed

theorem selectArchivedDays_overlap_witness:
  "''2026-01-05'' \<in> set (selectArchivedDays [''2026-01-05''] (\<lambda>_. False) no_filter) \<longleftrightarrow>
   (\<exists>day t. parse_date ''2026-01-05'' = Some day \<and> day_start day \<le> t \<and> t < day_start day + 86400)"
  using selectArchivedDays_overlap [of no_filter "''2026-01-05''" "[''2026-01-05'']" "\<lambda>_. False"] by (simp add: no_filter_def)

section \<open>Requests that are not what they seem\<close>

text \<open>
  The port of a search is not checked: a number beyond 65535 is bound modulo 65536, and a
  port range that does not parse is dropped from the condition although it counts as a selector.
\<close>

theorem port_filter_unchecked:
  "parsePortRange r = None \<Longrightarrow> r \<noteq> [] \<Longrightarrow> HasSelector (no_filter\<lparr>sf_PortRange := r\<rparr>) \<and>
     port_condition (no_filter\<lparr>sf_PortRange := r\<rparr>) c = [] \<and>
     port_condition (no_filter\<lparr>sf_PublicPort := int (unat (p :: u16)) + 65536\<rparr>) c = [(c @ '' = ?'', [ArgU16 p])]"
proof -
  assume a: "parsePortRange r = None" "r \<noteq> []"
  have "parsePortRange [] = None" by (simp add: parsePortRange_def)
  moreover have "of_int (int (unat p) + 65536) = p" by simp
  moreover have "0 < uint p + 65536" using unsigned_greater_eq [of p] by (rule add_nonneg_pos) simp
  ultimately show ?thesis using a by (simp add: HasSelector_def port_condition_def no_filter_def)
qed

theorem port_filter_unchecked_witness:
  "HasSelector (no_filter\<lparr>sf_PortRange := ''20000''\<rparr>) \<and>
   port_condition (no_filter\<lparr>sf_PublicPort := int (unat (443 :: u16)) + 65536\<rparr>) ''p'' = [(''p = ?'', [ArgU16 443])]"
  using port_filter_unchecked [of "''20000''" "''p''" 443] by (simp add: parsePortRange_def)


section \<open>The translation of a record\<close>

record nat_record =
  nr_PrivIP :: string
  nr_PrivPort :: int
  nr_DstIP :: string
  nr_DstPort :: int
  nr_PubIP :: string
  nr_PubPort :: int
  nr_PostDstIP :: string
  nr_PostDstPort :: int
  nr_PostSrcIP :: string
  nr_PostSrcPort :: int
  nr_SourceKnown :: bool
  nr_DestinationKnown :: bool
  nr_NatIP :: string
  nr_NatPort :: int
  nr_Untranslated :: bool
  nr_Translation :: string

definition recordedIP :: "string \<Rightarrow> bool" where
  "recordedIP s = (let p = ParseIP s in p \<noteq> nil_ip \<and> \<not> ip_IsUnspecified p)"

definition setNATTranslation :: "nat_record \<Rightarrow> nat_record" where
  "setNATTranslation r0 =
     (let r1 = (if recordedIP (nr_PubIP r0) then r0 else r0\<lparr>nr_PubIP := [], nr_PubPort := 0\<rparr>);
          r2 = (if recordedIP (nr_PostDstIP r1) then r1 else r1\<lparr>nr_PostDstIP := [], nr_PostDstPort := 0\<rparr>);
          r = r2\<lparr>nr_PostSrcIP := nr_PubIP r2, nr_PostSrcPort := nr_PubPort r2,
                 nr_SourceKnown := nr_PubIP r2 \<noteq> [], nr_DestinationKnown := nr_PostDstIP r2 \<noteq> [],
                 nr_NatIP := [], nr_NatPort := 0, nr_Untranslated := False\<rparr>;
          srcChanged = (nr_SourceKnown r \<and> (nr_PrivIP r \<noteq> nr_PostSrcIP r \<or> nr_PrivPort r \<noteq> nr_PostSrcPort r));
          dstChanged = (nr_DestinationKnown r \<and> (nr_DstIP r \<noteq> nr_PostDstIP r \<or> nr_DstPort r \<noteq> nr_PostDstPort r))
      in if srcChanged \<and> dstChanged then r\<lparr>nr_Translation := ''both'', nr_NatIP := nr_PostSrcIP r, nr_NatPort := nr_PostSrcPort r\<rparr>
         else if srcChanged then r\<lparr>nr_Translation := ''source'', nr_NatIP := nr_PostSrcIP r, nr_NatPort := nr_PostSrcPort r\<rparr>
         else if dstChanged then r\<lparr>nr_Translation := ''destination''\<rparr>
         else if nr_SourceKnown r \<and> nr_DestinationKnown r then r\<lparr>nr_Translation := ''none'', nr_Untranslated := True\<rparr>
         else r\<lparr>nr_Translation := ''unknown''\<rparr>)"

lemma recordedIP_nonempty: "recordedIP s \<Longrightarrow> s \<noteq> []"
  by (auto simp: recordedIP_def ParseIP_def)

text \<open>
  A record is reported as untranslated only on evidence: both translated tuples are recorded and
  equal the original ones; missing evidence is \<open>unknown\<close>.  A public address is reported exactly
  when the source tuple was changed.
\<close>

lemma setNATTranslation_evidence:
  fixes r0
  defines "r \<equiv> setNATTranslation r0"
  shows "nr_Untranslated r \<longleftrightarrow> recordedIP (nr_PubIP r0) \<and> recordedIP (nr_PostDstIP r0) \<and>
      nr_PubIP r0 = nr_PrivIP r0 \<and> nr_PubPort r0 = nr_PrivPort r0 \<and> nr_PostDstIP r0 = nr_DstIP r0 \<and> nr_PostDstPort r0 = nr_DstPort r0"
    and "nr_NatIP r \<noteq> [] \<longleftrightarrow> recordedIP (nr_PubIP r0) \<and> (nr_PubIP r0 \<noteq> nr_PrivIP r0 \<or> nr_PubPort r0 \<noteq> nr_PrivPort r0)"
proof -
  show "nr_Untranslated r \<longleftrightarrow> recordedIP (nr_PubIP r0) \<and> recordedIP (nr_PostDstIP r0) \<and>
      nr_PubIP r0 = nr_PrivIP r0 \<and> nr_PubPort r0 = nr_PrivPort r0 \<and> nr_PostDstIP r0 = nr_DstIP r0 \<and> nr_PostDstPort r0 = nr_DstPort r0"
    by (auto simp: r_def setNATTranslation_def Let_def dest: recordedIP_nonempty)
  show "nr_NatIP r \<noteq> [] \<longleftrightarrow> recordedIP (nr_PubIP r0) \<and> (nr_PubIP r0 \<noteq> nr_PrivIP r0 \<or> nr_PubPort r0 \<noteq> nr_PrivPort r0)"
    by (auto simp: r_def setNATTranslation_def Let_def dest: recordedIP_nonempty)
qed

end
