(* ===== verification/Store_Mem.thy ===== *)
theory Store_Mem
  imports Go_Strings
begin

text \<open>
  The control-plane data of the director: the types of \<open>internal/director/store/store.go\<close> and the
  in-memory implementation of the \<open>Store\<close> interface (\<open>mem.go\<close> and the \<open>MemStore\<close> parts of
  \<open>isp_accounts.go\<close>, \<open>policies.go\<close> and \<open>user_edit.go\<close>).

  A map is an association list; where the code ranges over a map and takes the first match, the
  order of the list is one of the orders Go may choose.  Each method holds the mutex and is one
  step.  \<open>now\<close> is the time of a call in nanoseconds since 1970.  Case folding is on ASCII letters.
  \<open>sha\<close> stands for SHA-256 and \<open>ft\<close> for the RFC 3339 text of a time.

  The archived days of the store are in theory \<open>Archive\<close>, the laws of the store in \<open>Store_Laws\<close>.
\<close>

section \<open>Data\<close>

datatype store_error = ErrNotFound | ErrDuplicate | ErrConflict | ErrInUse | ErrPolicyInUse | ErrPrimaryUser

definition RoleDirector :: string where "RoleDirector = ''director''"
definition RoleISP :: string where "RoleISP = ''isp''"
definition RoleAnalyst :: string where "RoleAnalyst = ''analyst''"
definition RoleAuditor :: string where "RoleAuditor = ''auditor''"

record isp =
  is_ID :: u32
  is_Name :: string
  is_Enabled :: bool
  is_CreatedAt :: int
  is_Username :: string
  is_Email :: string
  is_Phone :: string
  is_AdminUserID :: int
  is_Version :: u64

record user =
  us_ID :: int
  us_ISPID :: u32
  us_Email :: string
  us_PasswordHash :: string
  us_Role :: string
  us_TOTPSecret :: string
  us_TOTPEnabled :: bool
  us_CreatedAt :: int

record sdevice =
  sd_ID :: int
  sd_ISPID :: u32
  sd_Name :: string
  sd_ExporterIP :: string
  sd_DeviceID :: u32
  sd_Protocol :: string
  sd_Profile :: string
  sd_CapturePolicy :: string
  sd_Enabled :: bool
  sd_SkipDNS :: bool
  sd_SkipPrivate :: bool
  sd_SkipZero :: bool
  sd_UpdatedAt :: int

record capture_policy =
  cp_ID :: int
  cp_ISPID :: u32
  cp_Name :: string
  cp_SkipDNS :: bool
  cp_SkipPrivate :: bool
  cp_SkipZero :: bool
  cp_CreatedAt :: int

record agent =
  ag_ID :: int
  ag_Name :: string
  ag_TokenHash :: string
  ag_LastSeen :: int
  ag_CreatedAt :: int

record query_audit =
  qa_ID :: int
  qa_UserEmail :: string
  qa_ISPID :: u32
  qa_QueryIP :: string
  qa_QueryPort :: int
  qa_QueryProto :: string
  qa_FromTS :: int
  qa_ToTS :: int
  qa_ResultCount :: int
  qa_CaseRef :: string
  qa_CreatedAt :: int
  qa_PrevHash :: string
  qa_RowHash :: string

record investigation =
  iv_ID :: int
  iv_ISPID :: u32
  iv_Reference :: string
  iv_Title :: string
  iv_Notes :: string
  iv_Status :: string
  iv_CreatedBy :: string
  iv_CreatedAt :: int
  iv_UpdatedAt :: int

record mem_store =
  ms_isps :: "(u32 \<times> isp) list"
  ms_users :: "(string \<times> user) list"
  ms_devices :: "(int \<times> sdevice) list"
  ms_agents :: "(string \<times> agent) list"
  ms_settings :: "(string \<times> string) list"
  ms_queries :: "query_audit list"
  ms_policies :: "(int \<times> capture_policy) list"
  ms_investigations :: "(int \<times> investigation) list"
  ms_nextISP :: u32
  ms_nextUser :: int
  ms_nextDev :: int
  ms_nextAgt :: int
  ms_nextQuery :: int
  ms_nextPol :: int
  ms_nextInvestigation :: int

definition NewMem :: mem_store where
  "NewMem = \<lparr>ms_isps = [], ms_users = [], ms_devices = [], ms_agents = [], ms_settings = [], ms_queries = [], ms_policies = [],
     ms_investigations = [], ms_nextISP = 0, ms_nextUser = 0, ms_nextDev = 0, ms_nextAgt = 0, ms_nextQuery = 0, ms_nextPol = 0,
     ms_nextInvestigation = 0\<rparr>"

type_synonym 'a stored = "(store_error + 'a) \<times> mem_store"

text \<open>The first value with a property, in the order of the map.\<close>

abbreviation find_val :: "('v \<Rightarrow> bool) \<Rightarrow> ('k \<times> 'v) list \<Rightarrow> ('k \<times> 'v) option" where
  "find_val P \<equiv> find (\<lambda>kv. P (snd kv))"

section \<open>Investigations\<close>

definition SaveInvestigation :: "int \<Rightarrow> investigation \<Rightarrow> mem_store \<Rightarrow> investigation stored" where
  "SaveInvestigation now c m =
     (if list_ex (\<lambda>(k, v). iv_ISPID v = iv_ISPID c \<and> iv_Reference v = iv_Reference c \<and> iv_ID v \<noteq> iv_ID c) (ms_investigations m)
      then (Inl ErrDuplicate, m)
      else if iv_ID c = 0 then
        let n = ms_nextInvestigation m + 1; c = c\<lparr>iv_ID := n, iv_CreatedAt := now, iv_UpdatedAt := now\<rparr>
        in (Inr c, m\<lparr>ms_nextInvestigation := n, ms_investigations := AList.update n c (ms_investigations m)\<rparr>)
      else if map_of (ms_investigations m) (iv_ID c) = None then (Inl ErrNotFound, m)
      else let c = c\<lparr>iv_UpdatedAt := now\<rparr>
           in (Inr c, m\<lparr>ms_investigations := AList.update (iv_ID c) c (ms_investigations m)\<rparr>))"

definition GetInvestigation :: "int \<Rightarrow> mem_store \<Rightarrow> store_error + investigation" where
  "GetInvestigation i m = (case map_of (ms_investigations m) i of None \<Rightarrow> Inl ErrNotFound | Some c \<Rightarrow> Inr c)"

definition ListInvestigations :: "u32 \<Rightarrow> mem_store \<Rightarrow> investigation list" where
  "ListInvestigations ispID m = filter (\<lambda>c. ispID = 0 \<or> iv_ISPID c = ispID) (map snd (ms_investigations m))"

section \<open>Users\<close>

definition CreateUser :: "int \<Rightarrow> user \<Rightarrow> mem_store \<Rightarrow> user stored" where
  "CreateUser now u m =
     (if map_of (ms_users m) (to_lower (us_Email u)) \<noteq> None then (Inl ErrDuplicate, m)
      else let n = ms_nextUser m + 1; u = u\<lparr>us_ID := n, us_CreatedAt := now\<rparr>
           in (Inr u, m\<lparr>ms_nextUser := n, ms_users := AList.update (to_lower (us_Email u)) u (ms_users m)\<rparr>))"

definition GetUserByEmail :: "string \<Rightarrow> mem_store \<Rightarrow> store_error + user" where
  "GetUserByEmail email m = (case map_of (ms_users m) (to_lower email) of None \<Rightarrow> Inl ErrNotFound | Some u \<Rightarrow> Inr u)"

definition CountUsers :: "mem_store \<Rightarrow> nat" where
  "CountUsers m = length (ms_users m)"

definition GetUser :: "int \<Rightarrow> mem_store \<Rightarrow> store_error + user" where
  "GetUser i m = (case find_val (\<lambda>u. us_ID u = i) (ms_users m) of None \<Rightarrow> Inl ErrNotFound | Some (k, u) \<Rightarrow> Inr u)"

definition ListUsers :: "u32 \<Rightarrow> mem_store \<Rightarrow> user list" where
  "ListUsers ispID m = filter (\<lambda>u. ispID = 0 \<or> us_ISPID u = ispID) (map snd (ms_users m))"

text \<open>The three methods that find a user by its number and change it or remove it.\<close>

definition on_user :: "int \<Rightarrow> (user \<Rightarrow> user) \<Rightarrow> mem_store \<Rightarrow> unit stored" where
  "on_user i f m =
     (case find_val (\<lambda>u. us_ID u = i) (ms_users m) of
        None \<Rightarrow> (Inl ErrNotFound, m)
      | Some (k, u) \<Rightarrow> (Inr (), m\<lparr>ms_users := AList.update k (f u) (ms_users m)\<rparr>))"

definition UpdateUserPassword :: "int \<Rightarrow> string \<Rightarrow> mem_store \<Rightarrow> unit stored" where
  "UpdateUserPassword i hash = on_user i (\<lambda>u. u\<lparr>us_PasswordHash := hash\<rparr>)"

definition UpdateUserTOTP :: "int \<Rightarrow> string \<Rightarrow> bool \<Rightarrow> mem_store \<Rightarrow> unit stored" where
  "UpdateUserTOTP i secret enabled = on_user i (\<lambda>u. u\<lparr>us_TOTPSecret := secret, us_TOTPEnabled := enabled\<rparr>)"

definition DeleteUser :: "int \<Rightarrow> mem_store \<Rightarrow> unit stored" where
  "DeleteUser i m =
     (case find_val (\<lambda>u. us_ID u = i) (ms_users m) of
        None \<Rightarrow> (Inl ErrNotFound, m)
      | Some (k, u) \<Rightarrow> (Inr (), m\<lparr>ms_users := AList.delete k (ms_users m)\<rparr>))"

definition sameUser :: "user \<Rightarrow> user \<Rightarrow> bool" where
  "sameUser a b \<longleftrightarrow> us_ID a = us_ID b \<and> us_ISPID a = us_ISPID b \<and> us_Email a = us_Email b \<and> us_Role a = us_Role b \<and>
     us_PasswordHash a = us_PasswordHash b \<and> us_TOTPSecret a = us_TOTPSecret b \<and> us_TOTPEnabled a = us_TOTPEnabled b"

text \<open>The number of the primary login of an ISP: the linked one, else the least of its logins.\<close>

definition primary_user :: "u32 \<Rightarrow> mem_store \<Rightarrow> int" where
  "primary_user i m =
     (let linked = (case map_of (ms_isps m) i of Some v \<Rightarrow> is_AdminUserID v | None \<Rightarrow> 0) in
      if linked \<noteq> 0 then linked
      else foldl (\<lambda>p u. if us_ISPID u = i \<and> us_Role u = RoleISP \<and> (p = 0 \<or> us_ID u < p) then us_ID u else p) 0 (map snd (ms_users m)))"

definition SaveUser :: "user \<Rightarrow> user option \<Rightarrow> mem_store \<Rightarrow> user stored" where
  "SaveUser old replacement m =
     (case find_val (\<lambda>u. us_ID u = us_ID old) (ms_users m) of
        None \<Rightarrow> (Inl ErrNotFound, m)
      | Some (key, found) \<Rightarrow>
          if key = [] then (Inl ErrNotFound, m)
          else if \<not> sameUser found old then (Inl ErrConflict, m)
          else case replacement of
            None \<Rightarrow>
              if us_Role found = RoleISP \<and> primary_user (us_ISPID found) m = us_ID old then (Inl ErrPrimaryUser, m)
              else (Inr found, m\<lparr>ms_users := AList.delete key (ms_users m)\<rparr>)
          | Some n \<Rightarrow>
              let n = n\<lparr>us_ID := us_ID found, us_ISPID := us_ISPID found, us_Role := us_Role found, us_CreatedAt := us_CreatedAt found,
                        us_TOTPSecret := us_TOTPSecret found, us_TOTPEnabled := us_TOTPEnabled found\<rparr>
              in case map_of (ms_users m) (us_Email n) of
                Some u \<Rightarrow> if us_ID u \<noteq> us_ID n then (Inl ErrDuplicate, m)
                          else (Inr n, m\<lparr>ms_users := AList.update (us_Email n) n (AList.delete key (ms_users m))\<rparr>)
              | None \<Rightarrow> (Inr n, m\<lparr>ms_users := AList.update (us_Email n) n (AList.delete key (ms_users m))\<rparr>))"

section \<open>ISPs\<close>

definition CreateISP :: "int \<Rightarrow> string \<Rightarrow> mem_store \<Rightarrow> isp stored" where
  "CreateISP now name m =
     (if list_ex (\<lambda>(k, v). is_Name v = name) (ms_isps m) then (Inl ErrDuplicate, m)
      else let n = ms_nextISP m + 1;
               v = \<lparr>is_ID = n, is_Name = name, is_Enabled = True, is_CreatedAt = now, is_Username = [], is_Email = [], is_Phone = [],
                    is_AdminUserID = 0, is_Version = 0\<rparr>
           in (Inr v, m\<lparr>ms_nextISP := n, ms_isps := AList.update n v (ms_isps m)\<rparr>))"

definition ispAccountLocked :: "mem_store \<Rightarrow> isp \<Rightarrow> isp" where
  "ispAccountLocked m v =
     (let own = filter (\<lambda>u. us_ISPID u = is_ID v \<and> us_Role u = RoleISP) (map snd (ms_users m));
          chosen = (if is_AdminUserID v \<noteq> 0 then find (\<lambda>u. us_ID u = is_AdminUserID v) own
                    else foldl (\<lambda>c u. case c of None \<Rightarrow> Some u
                                     | Some x \<Rightarrow> if us_ID x = 0 \<or> us_ID u < us_ID x then Some u else Some x) None own)
      in case chosen of
           None \<Rightarrow> v\<lparr>is_AdminUserID := 0, is_Email := []\<rparr>
         | Some u \<Rightarrow> v\<lparr>is_AdminUserID := us_ID u, is_Email := us_Email u\<rparr>)"

definition GetISP :: "u32 \<Rightarrow> mem_store \<Rightarrow> store_error + isp" where
  "GetISP i m = (case map_of (ms_isps m) i of None \<Rightarrow> Inl ErrNotFound | Some v \<Rightarrow> Inr (ispAccountLocked m v))"

definition ListISPs :: "mem_store \<Rightarrow> isp list" where
  "ListISPs m = map (ispAccountLocked m \<circ> snd) (ms_isps m)"

definition SetISPEnabled :: "u32 \<Rightarrow> bool \<Rightarrow> mem_store \<Rightarrow> unit stored" where
  "SetISPEnabled i enabled m =
     (case map_of (ms_isps m) i of
        None \<Rightarrow> (Inl ErrNotFound, m)
      | Some v \<Rightarrow>
          let v = v\<lparr>is_Enabled := enabled, is_Version := (if is_Version v > 0 then is_Version v + 1 else is_Version v)\<rparr>
          in (Inr (), m\<lparr>ms_isps := AList.update i v (ms_isps m)\<rparr>))"

definition GetUserByLogin :: "string \<Rightarrow> mem_store \<Rightarrow> store_error + user" where
  "GetUserByLogin login m =
     (if CHR ''@'' \<in> set login then GetUserByEmail login m
      else case find (\<lambda>u. u \<noteq> None) (map (\<lambda>(k, i). if equal_fold (is_Username i) login
               then find (\<lambda>u. us_ID u = is_AdminUserID i \<and> us_ISPID u = is_ID i \<and> us_Role u = RoleISP) (map snd (ms_users m))
               else None) (ms_isps m)) of
        Some (Some u) \<Rightarrow> Inr u
      | _ \<Rightarrow> Inl ErrNotFound)"

text \<open>The checks of \<open>SaveISPAccount\<close>: the account to save with its login, or the error.\<close>

definition check_account :: "isp \<Rightarrow> string \<Rightarrow> mem_store \<Rightarrow> store_error + isp" where
  "check_account v hash m =
     (let r = (if is_ID v \<noteq> 0 then
                 (case map_of (ms_isps m) (is_ID v) of
                    None \<Rightarrow> Inl ErrNotFound
                  | Some old \<Rightarrow>
                      if is_Version old \<noteq> is_Version v then Inl ErrConflict
                      else let old = ispAccountLocked m old
                           in Inr (v\<lparr>is_AdminUserID := is_AdminUserID old, is_CreatedAt := is_CreatedAt old\<rparr>))
               else Inr (v\<lparr>is_AdminUserID := 0\<rparr>))
      in case r of
           Inl e \<Rightarrow> Inl e
         | Inr v \<Rightarrow>
             if is_AdminUserID v = 0 \<and> hash = [] then Inl ErrConflict
             else if list_ex (\<lambda>(k, i). is_ID i \<noteq> is_ID v \<and> (equal_fold (is_Name i) (is_Name v) \<or> equal_fold (is_Username i) (is_Username v))) (ms_isps m)
             then Inl ErrDuplicate
             else if list_ex (\<lambda>(k, u). us_ID u \<noteq> is_AdminUserID v \<and> equal_fold (us_Email u) (is_Email v)) (ms_users m) then Inl ErrDuplicate
             else Inr v)"

definition SaveISPAccount :: "int \<Rightarrow> isp \<Rightarrow> string \<Rightarrow> mem_store \<Rightarrow> isp stored" where
  "SaveISPAccount now v0 hash m0 =
     (case check_account v0 hash m0 of
        Inl e \<Rightarrow> (Inl e, m0)
      | Inr v1 \<Rightarrow>
          let (v2, m1) = (if is_ID v1 = 0 then
                let n = ms_nextISP m0 + 1 in (v1\<lparr>is_ID := n, is_CreatedAt := now\<rparr>, m0\<lparr>ms_nextISP := n\<rparr>) else (v1, m0));
              (v3, u, m2) = (if is_AdminUserID v2 = 0 then
                let n = ms_nextUser m1 + 1 in
                (v2\<lparr>is_AdminUserID := n\<rparr>,
                 \<lparr>us_ID = n, us_ISPID = is_ID v2, us_Email = [], us_PasswordHash = [], us_Role = RoleISP, us_TOTPSecret = [],
                  us_TOTPEnabled = False, us_CreatedAt = now\<rparr>,
                 m1\<lparr>ms_nextUser := n\<rparr>)
              else case find_val (\<lambda>u. us_ID u = is_AdminUserID v2) (ms_users m1) of
                Some (key, u) \<Rightarrow> (v2, u, m1\<lparr>ms_users := AList.delete key (ms_users m1)\<rparr>)
              | None \<Rightarrow> (v2, \<lparr>us_ID = 0, us_ISPID = 0, us_Email = [], us_PasswordHash = [], us_Role = [], us_TOTPSecret = [],
                              us_TOTPEnabled = False, us_CreatedAt = 0\<rparr>, m1));
              u = u\<lparr>us_Email := is_Email v3, us_PasswordHash := (if hash \<noteq> [] then hash else us_PasswordHash u)\<rparr>;
              v = v3\<lparr>is_Version := is_Version v3 + 1\<rparr>
          in (Inr v, m2\<lparr>ms_users := AList.update (to_lower (us_Email u)) u (ms_users m2),
                        ms_isps := AList.update (is_ID v) v (ms_isps m2)\<rparr>))"

definition DeleteISPAccount :: "u32 \<Rightarrow> u64 \<Rightarrow> mem_store \<Rightarrow> unit stored" where
  "DeleteISPAccount i version m =
     (case map_of (ms_isps m) i of
        None \<Rightarrow> (Inl ErrNotFound, m)
      | Some v \<Rightarrow>
          if is_Version v \<noteq> version \<or> is_Enabled v then (Inl ErrConflict, m)
          else if list_ex (\<lambda>(k, d). sd_ISPID d = i) (ms_devices m) then (Inl ErrInUse, m)
          else if list_ex (\<lambda>(k, p). cp_ISPID p = i) (ms_policies m) then (Inl ErrInUse, m)
          else (Inr (), m\<lparr>ms_users := filter (\<lambda>(k, u). \<not> (us_ISPID u = i \<and> us_Role u = RoleISP)) (ms_users m),
                          ms_isps := AList.delete i (ms_isps m)\<rparr>))"

section \<open>Devices\<close>

definition CreateDevice :: "int \<Rightarrow> sdevice \<Rightarrow> mem_store \<Rightarrow> sdevice stored" where
  "CreateDevice now d m =
     (if list_ex (\<lambda>(k, v). sd_ExporterIP v = sd_ExporterIP d) (ms_devices m) then (Inl ErrDuplicate, m)
      else let n = ms_nextDev m + 1; d = d\<lparr>sd_ID := n, sd_UpdatedAt := now\<rparr>
           in (Inr d, m\<lparr>ms_nextDev := n, ms_devices := AList.update n d (ms_devices m)\<rparr>))"

definition GetDevice :: "int \<Rightarrow> mem_store \<Rightarrow> store_error + sdevice" where
  "GetDevice i m = (case map_of (ms_devices m) i of None \<Rightarrow> Inl ErrNotFound | Some d \<Rightarrow> Inr d)"

definition ListDevices :: "u32 \<Rightarrow> mem_store \<Rightarrow> sdevice list" where
  "ListDevices ispID m = filter (\<lambda>d. ispID = 0 \<or> sd_ISPID d = ispID) (map snd (ms_devices m))"

definition UpdateDevice :: "int \<Rightarrow> sdevice \<Rightarrow> mem_store \<Rightarrow> unit stored" where
  "UpdateDevice now d m =
     (if map_of (ms_devices m) (sd_ID d) = None then (Inl ErrNotFound, m)
      else if list_ex (\<lambda>(i, v). i \<noteq> sd_ID d \<and> sd_ExporterIP v = sd_ExporterIP d) (ms_devices m) then (Inl ErrDuplicate, m)
      else (Inr (), m\<lparr>ms_devices := AList.update (sd_ID d) (d\<lparr>sd_UpdatedAt := now\<rparr>) (ms_devices m)\<rparr>))"

definition DeleteDevice :: "int \<Rightarrow> mem_store \<Rightarrow> unit stored" where
  "DeleteDevice i m =
     (if map_of (ms_devices m) i = None then (Inl ErrNotFound, m)
      else (Inr (), m\<lparr>ms_devices := AList.delete i (ms_devices m)\<rparr>))"

section \<open>Agents\<close>

definition CreateAgent :: "int \<Rightarrow> string \<Rightarrow> string \<Rightarrow> mem_store \<Rightarrow> agent stored" where
  "CreateAgent now name tokenHash m =
     (if map_of (ms_agents m) tokenHash \<noteq> None then (Inl ErrDuplicate, m)
      else let n = ms_nextAgt m + 1; a = \<lparr>ag_ID = n, ag_Name = name, ag_TokenHash = tokenHash, ag_LastSeen = 0, ag_CreatedAt = now\<rparr>
           in (Inr a, m\<lparr>ms_nextAgt := n, ms_agents := AList.update tokenHash a (ms_agents m)\<rparr>))"

definition GetAgentByToken :: "string \<Rightarrow> mem_store \<Rightarrow> store_error + agent" where
  "GetAgentByToken tokenHash m = (case map_of (ms_agents m) tokenHash of None \<Rightarrow> Inl ErrNotFound | Some a \<Rightarrow> Inr a)"

definition TouchAgent :: "int \<Rightarrow> int \<Rightarrow> mem_store \<Rightarrow> unit stored" where
  "TouchAgent i t m =
     (case find_val (\<lambda>a. ag_ID a = i) (ms_agents m) of
        None \<Rightarrow> (Inl ErrNotFound, m)
      | Some (k, a) \<Rightarrow> (Inr (), m\<lparr>ms_agents := AList.update k (a\<lparr>ag_LastSeen := t\<rparr>) (ms_agents m)\<rparr>))"

section \<open>Policies\<close>

definition CreatePolicy :: "int \<Rightarrow> capture_policy \<Rightarrow> mem_store \<Rightarrow> capture_policy stored" where
  "CreatePolicy now p m =
     (if list_ex (\<lambda>(k, x). cp_ISPID x = cp_ISPID p \<and> cp_Name x = cp_Name p) (ms_policies m) then (Inl ErrDuplicate, m)
      else let n = ms_nextPol m + 1; p = p\<lparr>cp_ID := n, cp_CreatedAt := now\<rparr>
           in (Inr p, m\<lparr>ms_nextPol := n, ms_policies := AList.update n p (ms_policies m)\<rparr>))"

definition ListPolicies :: "u32 \<Rightarrow> mem_store \<Rightarrow> capture_policy list" where
  "ListPolicies ispID m = filter (\<lambda>p. ispID = 0 \<or> cp_ISPID p = 0 \<or> cp_ISPID p = ispID) (map snd (ms_policies m))"

definition DeletePolicy :: "int \<Rightarrow> mem_store \<Rightarrow> unit stored" where
  "DeletePolicy i m =
     (if map_of (ms_policies m) i = None then (Inl ErrNotFound, m)
      else (Inr (), m\<lparr>ms_policies := AList.delete i (ms_policies m)\<rparr>))"

definition samePolicy :: "capture_policy \<Rightarrow> capture_policy \<Rightarrow> bool" where
  "samePolicy a b \<longleftrightarrow> cp_ID a = cp_ID b \<and> cp_ISPID a = cp_ISPID b \<and> cp_Name a = cp_Name b \<and> cp_SkipDNS a = cp_SkipDNS b \<and>
     cp_SkipPrivate a = cp_SkipPrivate b \<and> cp_SkipZero a = cp_SkipZero b \<and> cp_CreatedAt a = cp_CreatedAt b"

definition policyOverlap :: "capture_policy \<Rightarrow> capture_policy \<Rightarrow> bool" where
  "policyOverlap a b \<longleftrightarrow> cp_ID a \<noteq> cp_ID b \<and> (cp_ISPID a = 0 \<or> cp_ISPID b = 0 \<or> cp_ISPID a = cp_ISPID b) \<and> equal_fold (cp_Name a) (cp_Name b)"

definition policyReference :: "capture_policy \<Rightarrow> sdevice \<Rightarrow> bool" where
  "policyReference p d \<longleftrightarrow> (cp_ISPID p = 0 \<or> cp_ISPID p = sd_ISPID d) \<and> equal_fold (cp_Name p) (sd_CapturePolicy d)"

text \<open>The replacement of an existing policy keeps its number, tenant and date.\<close>

definition put_policy :: "int \<Rightarrow> capture_policy option \<Rightarrow> capture_policy \<Rightarrow> mem_store \<Rightarrow> capture_policy stored" where
  "put_policy now old p m =
     (let p = (case old of Some prev \<Rightarrow> p\<lparr>cp_ID := cp_ID prev, cp_ISPID := cp_ISPID prev, cp_CreatedAt := cp_CreatedAt prev\<rparr> | None \<Rightarrow> p) in
      if list_ex (\<lambda>(k, x). policyOverlap p x) (ms_policies m) then (Inl ErrDuplicate, m)
      else if old = None then
        if cp_ISPID p \<noteq> 0 \<and> map_of (ms_isps m) (cp_ISPID p) = None then (Inl ErrNotFound, m)
        else let n = ms_nextPol m + 1; p = p\<lparr>cp_ID := n, cp_CreatedAt := now\<rparr>
             in (Inr p, m\<lparr>ms_nextPol := n, ms_policies := AList.update n p (ms_policies m)\<rparr>)
      else (Inr p, m\<lparr>ms_policies := AList.update (cp_ID p) p (ms_policies m)\<rparr>))"

definition SavePolicy :: "int \<Rightarrow> capture_policy option \<Rightarrow> capture_policy option \<Rightarrow> mem_store \<Rightarrow> capture_policy stored" where
  "SavePolicy now expected replacement m =
     (case expected of
        None \<Rightarrow>
          (case replacement of
             None \<Rightarrow> (Inr \<lparr>cp_ID = 0, cp_ISPID = 0, cp_Name = [], cp_SkipDNS = False, cp_SkipPrivate = False, cp_SkipZero = False, cp_CreatedAt = 0\<rparr>,
                      m\<lparr>ms_policies := AList.delete 0 (ms_policies m)\<rparr>)
           | Some p \<Rightarrow> put_policy now None p m)
      | Some e \<Rightarrow>
          (case map_of (ms_policies m) (cp_ID e) of
             None \<Rightarrow> (Inl ErrNotFound, m)
           | Some old \<Rightarrow>
               if \<not> samePolicy old e then (Inl ErrConflict, m)
               else if (case replacement of None \<Rightarrow> True | Some p \<Rightarrow> cp_Name p \<noteq> cp_Name old) \<and>
                       list_ex (\<lambda>(k, d). policyReference old d) (ms_devices m) then (Inl ErrPolicyInUse, m)
               else case replacement of
                 None \<Rightarrow> (Inr old, m\<lparr>ms_policies := AList.delete (cp_ID old) (ms_policies m)\<rparr>)
               | Some p \<Rightarrow> put_policy now (Some old) p m))"

section \<open>Settings and the audit chain\<close>

definition GetSettings :: "mem_store \<Rightarrow> (string \<times> string) list" where
  "GetSettings m = ms_settings m"

definition PutSetting :: "string \<Rightarrow> string \<Rightarrow> mem_store \<Rightarrow> mem_store" where
  "PutSetting section json m = m\<lparr>ms_settings := AList.update section json (ms_settings m)\<rparr>"

text \<open>The text that \<open>fmt.Fprintf\<close> writes into the hash.\<close>

definition int_text :: "int \<Rightarrow> string" where
  "int_text i = (if i < 0 then CHR ''-'' # dec_string (nat (- i)) else dec_string (nat i))"

definition audit_text :: "(int \<Rightarrow> string) \<Rightarrow> query_audit \<Rightarrow> string \<Rightarrow> string" where
  "audit_text ft q previous =
     ''yeslogs-audit-v1|'' @ previous @ ''|'' @ qa_UserEmail q @ ''|'' @ int_text (uint (qa_ISPID q)) @ ''|'' @ qa_QueryIP q @ ''|''
       @ int_text (qa_QueryPort q) @ ''|'' @ qa_QueryProto q @ ''|'' @ ft (qa_FromTS q) @ ''|'' @ ft (qa_ToTS q) @ ''|''
       @ int_text (qa_ResultCount q) @ ''|'' @ qa_CaseRef q @ ''|'' @ ft (qa_CreatedAt q)"

definition AuditHash :: "(string \<Rightarrow> bytes) \<Rightarrow> (int \<Rightarrow> string) \<Rightarrow> query_audit \<Rightarrow> string \<Rightarrow> string" where
  "AuditHash sha ft q previous = hex_bytes (sha (audit_text ft q previous))"

definition LogQuery :: "(string \<Rightarrow> bytes) \<Rightarrow> (int \<Rightarrow> string) \<Rightarrow> int \<Rightarrow> query_audit \<Rightarrow> mem_store \<Rightarrow> int \<times> mem_store" where
  "LogQuery sha ft now q m =
     (let n = ms_nextQuery m + 1;
          q = q\<lparr>qa_ID := n, qa_CreatedAt := now - now mod 1000000000, qa_PrevHash := (case ms_queries m of [] \<Rightarrow> qa_PrevHash q | x # _ \<Rightarrow> qa_RowHash x)\<rparr>;
          q = q\<lparr>qa_RowHash := AuditHash sha ft q (qa_PrevHash q)\<rparr>
      in (n, m\<lparr>ms_nextQuery := n, ms_queries := q # ms_queries m\<rparr>))"

definition ListQueries :: "u32 \<Rightarrow> nat \<Rightarrow> mem_store \<Rightarrow> query_audit list" where
  "ListQueries ispID limit m = take (max 1 limit) (filter (\<lambda>q. ispID = 0 \<or> qa_ISPID q = ispID) (ms_queries m))"

text \<open>The loop of \<open>VerifyAuditChain\<close> over the rows from the oldest.\<close>

fun verify_rows :: "(string \<Rightarrow> bytes) \<Rightarrow> (int \<Rightarrow> string) \<Rightarrow> string \<Rightarrow> nat \<Rightarrow> query_audit list \<Rightarrow> nat \<times> store_error option" where
  "verify_rows sha ft previous n [] = (n, None)"
| "verify_rows sha ft previous n (q # qs) =
     (if qa_PrevHash q \<noteq> previous \<or> qa_RowHash q \<noteq> AuditHash sha ft q previous then (n, Some ErrConflict)
      else verify_rows sha ft (qa_RowHash q) (Suc n) qs)"

definition VerifyAuditChain :: "(string \<Rightarrow> bytes) \<Rightarrow> (int \<Rightarrow> string) \<Rightarrow> mem_store \<Rightarrow> nat \<times> store_error option" where
  "VerifyAuditChain sha ft m = verify_rows sha ft [] 0 (rev (ms_queries m))"

end
