(* ===== verification/Store_Laws.thy ===== *)
theory Store_Laws
  imports Store_Mem
begin

text \<open>
  What the in-memory store of the director promises.

  A history is a list of \<open>store_op\<close>, run one after the other.  The well-formedness of the tables
  (\<open>users_wf\<close>, \<open>devices_wf\<close>, \<open>isps_wf\<close>) is kept by every operation, an account keeps its tenant and
  its role for life, edits that carry a stale snapshot are refused (the locale \<open>snapshot_edit\<close>,
  interpreted on users, policies and ISP accounts), and the audit chain commits to its rows.
\<close>

section \<open>Association lists read as maps\<close>

lemma list_ex_map_of:
  "distinct (map fst xs) \<Longrightarrow> list_ex (\<lambda>(k, v). P k v) xs \<longleftrightarrow> (\<exists>k v. map_of xs k = Some v \<and> P k v)"
  by (force simp: list_ex_iff)

lemma find_val_Some:
  assumes "distinct (map fst xs)" "find_val P xs = Some (k, v)"
  shows "map_of xs k = Some v" "P v"
proof -
  have "(k, v) \<in> set xs \<and> P v"
    using assms(2) by (auto simp: find_Some_iff) (metis snd_conv)
  then show "map_of xs k = Some v" "P v"
    using assms(1) by auto
qed

lemma find_val_None:
  "find_val P xs = None \<Longrightarrow> map_of xs k = Some v \<Longrightarrow> \<not> P v"
  by (drule map_of_SomeD) (auto simp: find_None_iff)

lemma map_of_filter_distinct:
  "distinct (map fst xs) \<Longrightarrow> map_of (filter P xs) \<subseteq>\<^sub>m map_of xs"
  by (auto simp: map_le_def map_of_eq_Some_iff distinct_map_filter split: option.splits
      dest!: map_of_SomeD)

lemma distinct_map_fst_filter:
  "distinct (map fst xs) \<Longrightarrow> distinct (map fst (filter P xs))"
  by (rule distinct_map_filter)

lemma map_le_Some: "N \<subseteq>\<^sub>m M \<Longrightarrow> N k = Some v \<Longrightarrow> M k = Some v"
  unfolding map_le_def by (metis domI)

lemma delete_map_le: "map_of (AList.delete k xs) \<subseteq>\<^sub>m map_of xs"
  by (simp add: delete_conv' map_le_def)

section \<open>Well-formed tables\<close>

definition users_wf :: "(string \<rightharpoonup> user) \<Rightarrow> int \<Rightarrow> bool" where
  "users_wf M n \<longleftrightarrow> 0 \<le> n \<and>
     (\<forall>k u. M k = Some u \<longrightarrow> k = to_lower (us_Email u) \<and> 0 < us_ID u \<and> us_ID u \<le> n) \<and>
     (\<forall>k k' u u'. M k = Some u \<longrightarrow> M k' = Some u' \<longrightarrow> us_ID u = us_ID u' \<longrightarrow> k = k')"

text \<open>Every account of the new table is a new one, or has the tenant and role it had.\<close>

definition users_kept :: "(string \<rightharpoonup> user) \<Rightarrow> int \<Rightarrow> (string \<rightharpoonup> user) \<Rightarrow> int \<Rightarrow> bool" where
  "users_kept M n N n' \<longleftrightarrow> n \<le> n' \<and>
     (\<forall>k u. N k = Some u \<longrightarrow> us_ID u \<le> n \<longrightarrow>
        (\<exists>k0 u0. M k0 = Some u0 \<and> us_ID u0 = us_ID u \<and> us_ISPID u0 = us_ISPID u \<and> us_Role u0 = us_Role u))"

lemma users_wf_sub: "users_wf M n \<Longrightarrow> N \<subseteq>\<^sub>m M \<Longrightarrow> users_wf N n"
  unfolding users_wf_def map_le_def by (metis domI)

lemma users_kept_sub: "N \<subseteq>\<^sub>m M \<Longrightarrow> users_kept M n N n"
  unfolding users_kept_def map_le_def by (metis domI order_refl)

lemma users_kept_refl [simp]: "users_kept M n M n"
  by (simp add: users_kept_sub)

lemma users_kept_trans:
  assumes "users_kept M n N n'" "users_kept N n' L n''"
  shows "users_kept M n L n''"
proof -
  have "\<exists>k0 u0. M k0 = Some u0 \<and> us_ID u0 = us_ID u \<and> us_ISPID u0 = us_ISPID u \<and> us_Role u0 = us_Role u"
    if u: "L k = Some u" "us_ID u \<le> n" for k u
  proof -
    have "us_ID u \<le> n'" using u assms(1) by (simp add: users_kept_def)
    then obtain k1 u1 where "N k1 = Some u1" "us_ID u1 = us_ID u" "us_ISPID u1 = us_ISPID u" "us_Role u1 = us_Role u"
      using assms(2) u unfolding users_kept_def by blast
    moreover from this u obtain k0 u0 where "M k0 = Some u0" "us_ID u0 = us_ID u1" "us_ISPID u0 = us_ISPID u1" "us_Role u0 = us_Role u1"
      using assms(1) unfolding users_kept_def by metis
    ultimately show ?thesis by auto
  qed
  then show ?thesis using assms unfolding users_kept_def by force
qed

lemma users_wf_put:
  assumes "users_wf M n" "n \<le> n'" "0 < us_ID u" "us_ID u \<le> n'" "k = to_lower (us_Email u)"
    "\<And>k' u'. M k' = Some u' \<Longrightarrow> us_ID u' = us_ID u \<Longrightarrow> k' = k"
  shows "users_wf (M(k \<mapsto> u)) n'"
  using assms unfolding users_wf_def by (auto split: if_splits) (metis order_trans)

lemma users_kept_new:
  "n < us_ID u \<Longrightarrow> n \<le> n' \<Longrightarrow> users_kept M n (M(k \<mapsto> u)) n'"
  by (auto simp: users_kept_def)

lemma users_kept_old:
  assumes "M k0 = Some u0" "us_ID u0 = us_ID u" "us_ISPID u0 = us_ISPID u" "us_Role u0 = us_Role u" "N \<subseteq>\<^sub>m M"
  shows "users_kept M n (N(k \<mapsto> u)) n"
  using assms unfolding users_kept_def map_le_def by (auto split: if_splits) (metis domI)+

definition devices_wf :: "(int \<rightharpoonup> sdevice) \<Rightarrow> int \<Rightarrow> bool" where
  "devices_wf D n \<longleftrightarrow> 0 \<le> n \<and>
     (\<forall>k d. D k = Some d \<longrightarrow> sd_ID d = k \<and> 0 < k \<and> k \<le> n) \<and>
     (\<forall>k k' d d'. D k = Some d \<longrightarrow> D k' = Some d' \<longrightarrow> sd_ExporterIP d = sd_ExporterIP d' \<longrightarrow> k = k')"

lemma devices_wf_sub: "devices_wf M n \<Longrightarrow> N \<subseteq>\<^sub>m M \<Longrightarrow> devices_wf N n"
  unfolding devices_wf_def map_le_def by (metis domI)

lemma devices_wf_put:
  assumes "devices_wf D n" "n \<le> n'" "0 < k" "k \<le> n'" "sd_ID d = k"
    "\<And>k' d'. D k' = Some d' \<Longrightarrow> sd_ExporterIP d' = sd_ExporterIP d \<Longrightarrow> k' = k"
  shows "devices_wf (D(k \<mapsto> d)) n'"
  using assms unfolding devices_wf_def by (auto split: if_splits) (metis order_trans)

definition isps_wf :: "(u32 \<rightharpoonup> isp) \<Rightarrow> u32 \<Rightarrow> bool" where
  "isps_wf I n \<longleftrightarrow>
     (\<forall>k v. I k = Some v \<longrightarrow> is_ID v = k \<and> k \<noteq> 0 \<and> k \<le> n) \<and>
     (\<forall>k k' v v'. I k = Some v \<longrightarrow> I k' = Some v' \<longrightarrow> is_Name v = is_Name v' \<longrightarrow> k = k') \<and>
     (\<forall>k k' v v'. I k = Some v \<longrightarrow> I k' = Some v' \<longrightarrow> is_Username v \<noteq> [] \<longrightarrow> equal_fold (is_Username v) (is_Username v') \<longrightarrow> k = k')"

lemma isps_wfD:
  assumes "isps_wf I n" "I k = Some v"
  shows "is_ID v = k" "k \<noteq> 0" "k \<le> n"
    "I k' = Some v' \<Longrightarrow> is_Name v = is_Name v' \<Longrightarrow> k = k'"
    "I k' = Some v' \<Longrightarrow> is_Username v \<noteq> [] \<Longrightarrow> equal_fold (is_Username v) (is_Username v') \<Longrightarrow> k = k'"
  using assms unfolding isps_wf_def by blast+

lemma isps_wf_sub:
  assumes "isps_wf M n" "N \<subseteq>\<^sub>m M" shows "isps_wf N n"
  unfolding isps_wf_def
  using isps_wfD[OF assms(1)] map_le_Some[OF assms(2)] by (intro conjI allI impI) metis+

lemma equal_fold_sym: "equal_fold s t \<longleftrightarrow> equal_fold t s"
  by (auto simp: equal_fold_def)

lemma equal_fold_refl [simp]: "equal_fold s s"
  by (simp add: equal_fold_def)

lemma equal_fold_Nil [simp]: "equal_fold s [] \<longleftrightarrow> s = []" "equal_fold [] s \<longleftrightarrow> s = []"
  by (auto simp: equal_fold_def to_lower_def)

lemma isps_wf_put:
  assumes I: "isps_wf I n" "n \<le> n'" and v: "is_ID v = k" "k \<noteq> 0" "k \<le> n'"
    and name: "\<And>k' v'. I k' = Some v' \<Longrightarrow> is_Name v' = is_Name v \<Longrightarrow> k' = k"
    and user: "\<And>k' v'. I k' = Some v' \<Longrightarrow> is_Username v \<noteq> [] \<Longrightarrow> equal_fold (is_Username v') (is_Username v) \<Longrightarrow> k' = k"
  shows "isps_wf (I(k \<mapsto> v)) n'"
proof -
  have keys: "is_ID x = i \<and> i \<noteq> 0 \<and> i \<le> n'" if "(I(k \<mapsto> v)) i = Some x" for i x
  proof (cases "i = k")
    case True
    then show ?thesis using that v by simp
  next
    case False
    then have "is_ID x = i \<and> i \<noteq> 0 \<and> i \<le> n"
      using that I(1) unfolding isps_wf_def by (metis fun_upd_other)
    then show ?thesis using I(2) order_trans by blast
  qed
  have names: "i = j" if "(I(k \<mapsto> v)) i = Some x" "(I(k \<mapsto> v)) j = Some y" "is_Name x = is_Name y" for i j x y
  proof (cases "i = k \<or> j = k")
    case True
    then show ?thesis using that name by (metis fun_upd_other fun_upd_same option.inject)
  next
    case False
    then show ?thesis using that I(1) unfolding isps_wf_def by (metis fun_upd_other)
  qed
  have users: "i = j" if "(I(k \<mapsto> v)) i = Some x" "(I(k \<mapsto> v)) j = Some y" "is_Username x \<noteq> []"
      "equal_fold (is_Username x) (is_Username y)" for i j x y
  proof (cases "i = k \<or> j = k")
    case True
    moreover have "is_Username y \<noteq> []" "equal_fold (is_Username y) (is_Username x)"
      using that(3,4) equal_fold_sym by auto
    ultimately show ?thesis
      using that user by (metis fun_upd_other fun_upd_same option.inject)
  next
    case False
    then show ?thesis using that I(1) unfolding isps_wf_def by (metis fun_upd_other)
  qed
  show ?thesis unfolding isps_wf_def using keys names users by blast
qed

section \<open>Users\<close>

definition users_ok :: "mem_store \<Rightarrow> bool" where
  "users_ok m \<longleftrightarrow> distinct (map fst (ms_users m)) \<and> users_wf (map_of (ms_users m)) (ms_nextUser m)"

definition users_step :: "mem_store \<Rightarrow> mem_store \<Rightarrow> bool" where
  "users_step m m' \<longleftrightarrow> users_ok m' \<and>
     users_kept (map_of (ms_users m)) (ms_nextUser m) (map_of (ms_users m')) (ms_nextUser m')"

lemmas alist_conv = update_conv' delete_conv' distinct_update distinct_delete

lemma users_step_same:
  "users_ok m \<Longrightarrow> ms_users m' = ms_users m \<Longrightarrow> ms_nextUser m' = ms_nextUser m \<Longrightarrow> users_step m m'"
  by (simp add: users_step_def users_ok_def)

lemma users_step_sub:
  assumes "users_ok m" "distinct (map fst (ms_users m'))" "map_of (ms_users m') \<subseteq>\<^sub>m map_of (ms_users m)" "ms_nextUser m' = ms_nextUser m"
  shows "users_step m m'"
  using assms by (auto simp: users_step_def users_ok_def intro: users_wf_sub users_kept_sub)

text \<open>An account stored under a new key, its old entry removed.\<close>

lemma users_step_move:
  assumes ok: "users_ok m" and k0: "map_of (ms_users m) k0 = Some u0"
    and u: "us_ID u = us_ID u0" "us_ISPID u = us_ISPID u0" "us_Role u = us_Role u0" "k = to_lower (us_Email u)"
    and free: "\<And>u'. map_of (ms_users m) k = Some u' \<Longrightarrow> us_ID u' = us_ID u"
    and m': "ms_users m' = AList.update k u (AList.delete k0 (ms_users m))" "ms_nextUser m' = ms_nextUser m"
  shows "users_step m m'"
proof -
  let ?M = "map_of (ms_users m)"
  have wf: "users_wf ?M (ms_nextUser m)" and d: "distinct (map fst (ms_users m))"
    using ok by (auto simp: users_ok_def)
  have id: "0 < us_ID u0" "us_ID u0 \<le> ms_nextUser m"
    using wf k0 by (auto simp: users_wf_def)
  have other: "k' = k0" if "?M k' = Some u'" "us_ID u' = us_ID u0" for k' u'
    using wf that k0 unfolding users_wf_def by blast
  have "users_wf ((?M(k0 := None))(k \<mapsto> u)) (ms_nextUser m)"
  proof (rule users_wf_put)
    show "users_wf (?M(k0 := None)) (ms_nextUser m)"
      using wf by (rule users_wf_sub) (simp add: map_le_def)
  qed (use id u other in \<open>auto split: if_splits\<close>)
  moreover have "users_kept ?M (ms_nextUser m) ((?M(k0 := None))(k \<mapsto> u)) (ms_nextUser m)"
    by (rule users_kept_old[where M = ?M and ?k0.0 = k0 and ?u0.0 = u0]) (use k0 u in \<open>auto simp: map_le_def\<close>)
  ultimately show ?thesis
    using d m' by (simp add: users_step_def users_ok_def alist_conv)
qed

lemma users_step_add:
  assumes ok: "users_ok m" and u: "us_ID u = ms_nextUser m + 1" "k = to_lower (us_Email u)"
    and m': "ms_users m' = AList.update k u (ms_users m)" "ms_nextUser m' = ms_nextUser m + 1"
  shows "users_step m m'"
proof -
  have wf: "users_wf (map_of (ms_users m)) (ms_nextUser m)" and d: "distinct (map fst (ms_users m))"
    using ok by (auto simp: users_ok_def)
  have new: "us_ID u' \<noteq> ms_nextUser m + 1" if "map_of (ms_users m) k = Some u'" for k u'
    using wf that by (fastforce simp: users_wf_def)
  have "0 \<le> ms_nextUser m" using wf by (simp add: users_wf_def)
  then show ?thesis
    using d u m' new by (auto simp: users_step_def users_ok_def alist_conv intro!: users_wf_put[OF wf] users_kept_new)
qed

lemma users_step_CreateUser:
  assumes "users_ok m"
  shows "users_step m (snd (CreateUser now u m))"
proof (cases "map_of (ms_users m) (to_lower (us_Email u))")
  case None
  then show ?thesis
    using assms by (intro users_step_add[where u = "u\<lparr>us_ID := ms_nextUser m + 1, us_CreatedAt := now\<rparr>" and k = "to_lower (us_Email u)"])
      (simp_all add: CreateUser_def Let_def)
qed (use assms in \<open>simp add: CreateUser_def users_step_same\<close>)

lemma users_step_on_user:
  assumes "users_ok m" "\<And>u. us_ID (f u) = us_ID u \<and> us_ISPID (f u) = us_ISPID u \<and> us_Role (f u) = us_Role u \<and> us_Email (f u) = us_Email u"
  shows "users_step m (snd (on_user i f m))"
proof (cases "find_val (\<lambda>u. us_ID u = i) (ms_users m)")
  case None
  then show ?thesis using assms by (auto simp: on_user_def intro: users_step_same)
next
  case (Some ku)
  then obtain k u where ku: "find_val (\<lambda>u. us_ID u = i) (ms_users m) = Some (k, u)" by (cases ku) auto
  have d: "distinct (map fst (ms_users m))" and wf: "users_wf (map_of (ms_users m)) (ms_nextUser m)"
    using assms by (auto simp: users_ok_def)
  note u = find_val_Some[OF d ku]
  have key: "k = to_lower (us_Email (f u))" "0 < us_ID (f u)" "us_ID (f u) \<le> ms_nextUser m"
    using wf u assms(2) by (auto simp: users_wf_def)
  have other: "k' = k" if "map_of (ms_users m) k' = Some u'" "us_ID u' = us_ID (f u)" for k' u'
    using wf that u assms(2) unfolding users_wf_def by metis
  have "users_kept (map_of (ms_users m)) (ms_nextUser m) ((map_of (ms_users m))(k \<mapsto> f u)) (ms_nextUser m)"
    using u assms(2) by (intro users_kept_old[where ?k0.0 = k and ?u0.0 = u]) auto
  then show ?thesis
    using ku d key other by (auto simp: on_user_def users_step_def users_ok_def alist_conv intro!: users_wf_put[OF wf])
qed

lemma users_step_DeleteUser:
  "users_ok m \<Longrightarrow> users_step m (snd (DeleteUser i m))"
  by (rule users_step_sub)
    (auto simp: DeleteUser_def users_ok_def alist_conv map_le_def split: option.splits)

lemma users_step_SaveUser:
  assumes ok: "users_ok m" and lower: "\<And>n. r = Some n \<Longrightarrow> to_lower (us_Email n) = us_Email n"
  shows "users_step m (snd (SaveUser old r m))"
proof (cases "find_val (\<lambda>u. us_ID u = us_ID old) (ms_users m)")
  case None
  then show ?thesis using ok by (auto simp: SaveUser_def intro: users_step_same)
next
  case (Some ku)
  then obtain k u where ku: "find_val (\<lambda>u. us_ID u = us_ID old) (ms_users m) = Some (k, u)" by (cases ku) auto
  have d: "distinct (map fst (ms_users m))" using ok by (simp add: users_ok_def)
  note u = find_val_Some[OF d ku]
  show ?thesis
  proof (cases r)
    case None
    then show ?thesis
      using ku d by (intro users_step_sub[OF ok]) (simp_all add: SaveUser_def alist_conv map_le_def)
  next
    case (Some n)
    show ?thesis
    proof (cases "k = [] \<or> \<not> sameUser u old \<or> (\<exists>x. map_of (ms_users m) (us_Email n) = Some x \<and> us_ID x \<noteq> us_ID u)")
      case True
      then have "snd (SaveUser old r m) = m"
        using ku Some by (auto simp: SaveUser_def Let_def)
      then show ?thesis using ok by (simp add: users_step_same)
    next
      case False
      let ?n = "n\<lparr>us_ID := us_ID u, us_ISPID := us_ISPID u, us_Role := us_Role u, us_CreatedAt := us_CreatedAt u,
                  us_TOTPSecret := us_TOTPSecret u, us_TOTPEnabled := us_TOTPEnabled u\<rparr>"
      have "snd (SaveUser old r m) = m\<lparr>ms_users := AList.update (us_Email n) ?n (AList.delete k (ms_users m))\<rparr>"
        using ku Some False by (cases "map_of (ms_users m) (us_Email n)") (simp_all add: SaveUser_def Let_def)
      then show ?thesis
        using False lower[OF Some] by (intro users_step_move[OF ok u(1), where u = ?n and k = "us_Email n"]) simp_all
    qed
  qed
qed

lemma users_step_DeleteISPAccount:
  "users_ok m \<Longrightarrow> users_step m (snd (DeleteISPAccount i version m))"
  by (rule users_step_sub)
    (auto simp: DeleteISPAccount_def users_ok_def distinct_map_fst_filter map_of_filter_distinct split: option.splits)

text \<open>The login that an ISP account shows is one of its tenant's logins.\<close>

lemma foldl_chosen:
  assumes "\<And>c u. f c u = c \<or> f c u = Some u"
  shows "foldl f c us = Some w \<Longrightarrow> c = Some w \<or> w \<in> set us"
proof (induction us arbitrary: c)
  case (Cons u us)
  have "f c u = Some w \<or> w \<in> set us" using Cons by simp
  then show ?case using assms[of c u] by auto
qed simp

lemma find_in_set: "find P xs = Some w \<Longrightarrow> w \<in> set xs"
  by (induction xs) (auto split: if_splits)

lemma ispAccountLocked_own:
  assumes "is_AdminUserID (ispAccountLocked m v) \<noteq> 0"
  obtains u where "u \<in> snd ` set (ms_users m)" "us_ID u = is_AdminUserID (ispAccountLocked m v)" "us_ISPID u = is_ID v" "us_Role u = RoleISP"
proof -
  let ?own = "filter (\<lambda>u. us_ISPID u = is_ID v \<and> us_Role u = RoleISP) (map snd (ms_users m))"
  let ?least = "\<lambda>c u. case c of None \<Rightarrow> Some u | Some x \<Rightarrow> if us_ID x = 0 \<or> us_ID u < us_ID x then Some u else Some x"
  let ?chosen = "if is_AdminUserID v \<noteq> 0 then find (\<lambda>u. us_ID u = is_AdminUserID v) ?own else foldl ?least None ?own"
  have own: "w \<in> set ?own" if "?chosen = Some w" for w
  proof (cases "is_AdminUserID v = 0")
    case True
    have "?least c u = c \<or> ?least c u = Some u" for c u by (cases c) auto
    moreover have "foldl ?least None ?own = Some w" using True that by (simp only: simp_thms if_False)
    ultimately have "None = Some w \<or> w \<in> set ?own" by (rule foldl_chosen)
    then show ?thesis by simp
  next
    case False
    then have "find (\<lambda>u. us_ID u = is_AdminUserID v) ?own = Some w" using that by (simp only: simp_thms if_True)
    then show ?thesis by (rule find_in_set)
  qed
  have "ispAccountLocked m v = (case ?chosen of None \<Rightarrow> v\<lparr>is_AdminUserID := 0, is_Email := []\<rparr>
          | Some u \<Rightarrow> v\<lparr>is_AdminUserID := us_ID u, is_Email := us_Email u\<rparr>)"
    by (simp only: ispAccountLocked_def Let_def)
  with assms own have "\<exists>u \<in> set ?own. us_ID u = is_AdminUserID (ispAccountLocked m v)"
    by (cases ?chosen) auto
  then show thesis using that by auto
qed

lemma check_account_Inr:
  assumes r: "check_account v hash m = Inr v1" and d: "distinct (map fst (ms_users m))" "distinct (map fst (ms_isps m))"
  shows "is_ID v1 = is_ID v" "is_Name v1 = is_Name v" "is_Username v1 = is_Username v" "is_Email v1 = is_Email v" "is_Version v1 = is_Version v"
    and "is_ID v \<noteq> 0 \<Longrightarrow> \<exists>old. map_of (ms_isps m) (is_ID v) = Some old \<and> is_Version old = is_Version v \<and>
           is_AdminUserID v1 = is_AdminUserID (ispAccountLocked m old)"
    and "is_ID v = 0 \<Longrightarrow> is_AdminUserID v1 = 0"
    and "map_of (ms_isps m) k = Some i \<Longrightarrow> is_ID i \<noteq> is_ID v \<Longrightarrow> \<not> equal_fold (is_Name i) (is_Name v) \<and> \<not> equal_fold (is_Username i) (is_Username v)"
    and "map_of (ms_users m) e = Some u \<Longrightarrow> us_ID u \<noteq> is_AdminUserID v1 \<Longrightarrow> \<not> equal_fold (us_Email u) (is_Email v)"
  using r unfolding check_account_def Let_def
  by (auto simp: list_ex_map_of[OF d(1)] list_ex_map_of[OF d(2)] split: if_splits option.splits) blast+

lemma users_step_SaveISPAccount:
  assumes ok: "users_ok m" and isps: "distinct (map fst (ms_isps m))"
  shows "users_step m (snd (SaveISPAccount now v hash m))"
proof (cases "check_account v hash m")
  case (Inl e)
  then show ?thesis using ok by (simp add: SaveISPAccount_def users_step_same)
next
  case (Inr v1)
  have d: "distinct (map fst (ms_users m))" using ok by (simp add: users_ok_def)
  note c = check_account_Inr[OF Inr d isps]
  show ?thesis
  proof (cases "is_AdminUserID v1 = 0")
    case True
    define w where "w = (if is_ID v1 = 0 then ms_nextISP m + 1 else is_ID v1)"
    define u where "u = \<lparr>us_ID = ms_nextUser m + 1, us_ISPID = w, us_Email = is_Email v1, us_PasswordHash = hash, us_Role = RoleISP,
        us_TOTPSecret = [], us_TOTPEnabled = False, us_CreatedAt = now\<rparr>"
    have "ms_users (snd (SaveISPAccount now v hash m)) = AList.update (to_lower (is_Email v1)) u (ms_users m)"
      "ms_nextUser (snd (SaveISPAccount now v hash m)) = ms_nextUser m + 1"
      using Inr True by (simp_all add: SaveISPAccount_def Let_def u_def w_def)
    then show ?thesis
      by (intro users_step_add[OF ok, where u = u]) (simp_all add: u_def)
  next
    case False
    then have "is_ID v \<noteq> 0" using c(7) by blast
    then obtain old where old: "map_of (ms_isps m) (is_ID v) = Some old" "is_AdminUserID v1 = is_AdminUserID (ispAccountLocked m old)"
      using c(6) by blast
    obtain u0 where u0: "u0 \<in> snd ` set (ms_users m)" "us_ID u0 = is_AdminUserID v1" "us_ISPID u0 = is_ID old" "us_Role u0 = RoleISP"
      using ispAccountLocked_own[of m old] False old(2) by metis
    have "find_val (\<lambda>u. us_ID u = is_AdminUserID v1) (ms_users m) \<noteq> None"
      using u0 by (auto simp: find_None_iff) metis
    then obtain k u where ku: "find_val (\<lambda>u. us_ID u = is_AdminUserID v1) (ms_users m) = Some (k, u)" by auto
    note u = find_val_Some[OF d ku]
    let ?u = "u\<lparr>us_Email := is_Email v1, us_PasswordHash := (if hash \<noteq> [] then hash else us_PasswordHash u)\<rparr>"
    have "ms_users (snd (SaveISPAccount now v hash m)) = AList.update (to_lower (is_Email v1)) ?u (AList.delete k (ms_users m))"
      "ms_nextUser (snd (SaveISPAccount now v hash m)) = ms_nextUser m"
      using Inr False ku \<open>is_ID v \<noteq> 0\<close> c(1) by (simp_all add: SaveISPAccount_def Let_def)
    moreover have "us_ID u' = us_ID u" if "map_of (ms_users m) (to_lower (is_Email v1)) = Some u'" for u'
    proof (rule ccontr)
      assume "us_ID u' \<noteq> us_ID u"
      then have "\<not> equal_fold (us_Email u') (is_Email v)" using c(9)[OF that] u(2) by simp
      moreover have "to_lower (is_Email v1) = to_lower (us_Email u')"
        using ok that by (simp add: users_ok_def users_wf_def)
      ultimately show False using c(4) by (simp add: equal_fold_def)
    qed
    ultimately show ?thesis
      by (intro users_step_move[OF ok u(1), where u = ?u]) simp_all
  qed
qed

section \<open>ISPs\<close>

definition isps_ok :: "mem_store \<Rightarrow> bool" where
  "isps_ok m \<longleftrightarrow> distinct (map fst (ms_isps m)) \<and> isps_wf (map_of (ms_isps m)) (ms_nextISP m)"

lemma isps_ok_same:
  "isps_ok m \<Longrightarrow> ms_isps m' = ms_isps m \<Longrightarrow> ms_nextISP m' = ms_nextISP m \<Longrightarrow> isps_ok m'"
  by (simp add: isps_ok_def)

lemma next_isp:
  assumes "(n :: u32) \<noteq> - 1"
  shows "n \<le> n + 1 \<and> n + 1 \<noteq> 0"
proof -
  have "1 + n \<noteq> 0" using assms by (metis add.inverse_unique)
  then show ?thesis using unatSuc[of n] by (simp add: word_le_nat_alt add.commute)
qed

lemma isps_ok_put:
  assumes ok: "isps_ok m" and v: "is_ID v = k" "k \<noteq> 0" "k \<le> ms_nextISP m'"
    and name: "\<And>k' v'. map_of (ms_isps m) k' = Some v' \<Longrightarrow> is_Name v' = is_Name v \<Longrightarrow> k' = k"
    and user: "\<And>k' v'. map_of (ms_isps m) k' = Some v' \<Longrightarrow> is_Username v \<noteq> [] \<Longrightarrow> equal_fold (is_Username v') (is_Username v) \<Longrightarrow> k' = k"
    and m': "ms_isps m' = AList.update k v (ms_isps m)" "ms_nextISP m \<le> ms_nextISP m'"
  shows "isps_ok m'"
  unfolding isps_ok_def m'(1)
proof
  show "distinct (map fst (AList.update k v (ms_isps m)))"
    using ok by (simp add: isps_ok_def alist_conv)
  have "isps_wf (map_of (ms_isps m)) (ms_nextISP m)" using ok by (simp add: isps_ok_def)
  then have "isps_wf ((map_of (ms_isps m))(k \<mapsto> v)) (ms_nextISP m')"
    using m'(2) v name user by (rule isps_wf_put)
  then show "isps_wf (map_of (AList.update k v (ms_isps m))) (ms_nextISP m')"
    by (simp add: alist_conv)
qed

lemma isps_ok_CreateISP:
  assumes ok: "isps_ok m" and n: "ms_nextISP m \<noteq> - 1"
  shows "isps_ok (snd (CreateISP now name m))"
proof (cases "list_ex (\<lambda>(k, v). is_Name v = name) (ms_isps m)")
  case True
  then show ?thesis using ok by (simp add: CreateISP_def)
next
  case False
  let ?v = "\<lparr>is_ID = ms_nextISP m + 1, is_Name = name, is_Enabled = True, is_CreatedAt = now, is_Username = [], is_Email = [], is_Phone = [],
             is_AdminUserID = 0, is_Version = 0\<rparr>"
  have "map_of (ms_isps m) k' = Some v' \<Longrightarrow> is_Name v' \<noteq> name" for k' v'
    using False ok list_ex_map_of[of "ms_isps m" "\<lambda>k v. is_Name v = name"] unfolding isps_ok_def by blast
  then show ?thesis
    using next_isp[OF n] False by (intro isps_ok_put[OF ok, where v = ?v]) (auto simp: CreateISP_def Let_def)
qed

lemma isps_ok_SetISPEnabled:
  assumes ok: "isps_ok m"
  shows "isps_ok (snd (SetISPEnabled i enabled m))"
proof (cases "map_of (ms_isps m) i")
  case None
  then show ?thesis using ok by (simp add: SetISPEnabled_def)
next
  case (Some v)
  let ?v = "v\<lparr>is_Enabled := enabled, is_Version := (if is_Version v > 0 then is_Version v + 1 else is_Version v)\<rparr>"
  have wf: "isps_wf (map_of (ms_isps m)) (ms_nextISP m)" using ok by (simp add: isps_ok_def)
  have "is_ID v = i \<and> i \<noteq> 0 \<and> i \<le> ms_nextISP m" using wf Some unfolding isps_wf_def by blast
  moreover have "k' = i" if "map_of (ms_isps m) k' = Some v'" "is_Name v' = is_Name v" for k' v'
    using wf Some that unfolding isps_wf_def by blast
  moreover have "k' = i" if "map_of (ms_isps m) k' = Some v'" "is_Username v \<noteq> []" "equal_fold (is_Username v') (is_Username v)" for k' v'
  proof -
    have "equal_fold (is_Username v) (is_Username v')" using that(3) equal_fold_sym by blast
    then show ?thesis using wf Some that(1,2) unfolding isps_wf_def by blast
  qed
  moreover have "ms_isps (snd (SetISPEnabled i enabled m)) = AList.update i ?v (ms_isps m)"
    "ms_nextISP (snd (SetISPEnabled i enabled m)) = ms_nextISP m"
    using Some by (simp_all add: SetISPEnabled_def)
  ultimately show ?thesis
    by (intro isps_ok_put[OF ok, where v = ?v and k = i]) simp_all
qed

lemma isps_ok_SaveISPAccount:
  assumes ok: "isps_ok m" "users_ok m" and n: "ms_nextISP m \<noteq> - 1"
  shows "isps_ok (snd (SaveISPAccount now v hash m))"
proof (cases "check_account v hash m")
  case (Inl e)
  then show ?thesis using ok by (simp add: SaveISPAccount_def)
next
  case (Inr v1)
  have d: "distinct (map fst (ms_users m))" "distinct (map fst (ms_isps m))" and wf: "isps_wf (map_of (ms_isps m)) (ms_nextISP m)"
    using ok by (simp_all add: users_ok_def isps_ok_def)
  note c = check_account_Inr[OF Inr d]
  define k where "k = (if is_ID v = 0 then ms_nextISP m + 1 else is_ID v)"
  define r where "r = SaveISPAccount now v hash m"
  have key: "k \<noteq> 0" "k \<le> ms_nextISP (snd r)" "ms_nextISP m \<le> ms_nextISP (snd r)"
  proof -
    have "ms_nextISP (snd r) = (if is_ID v = 0 then ms_nextISP m + 1 else ms_nextISP m)"
      using Inr c(1) by (simp add: r_def SaveISPAccount_def Let_def split: prod.splits option.splits)
    moreover have "is_ID v \<le> ms_nextISP m" if "is_ID v \<noteq> 0"
      using c(6)[OF that] wf unfolding isps_wf_def by blast
    ultimately show "k \<noteq> 0" "k \<le> ms_nextISP (snd r)" "ms_nextISP m \<le> ms_nextISP (snd r)"
      using next_isp[OF n] by (auto simp: k_def)
  qed
  have "\<exists>w. ms_isps (snd r) = AList.update k w (ms_isps m) \<and> is_ID w = k \<and> is_Name w = is_Name v \<and> is_Username w = is_Username v"
    using Inr c(1-3) by (auto simp: r_def k_def SaveISPAccount_def Let_def split: prod.splits option.splits)
  then obtain w where w: "ms_isps (snd r) = AList.update k w (ms_isps m)" "is_ID w = k" "is_Name w = is_Name v" "is_Username w = is_Username v"
    by blast
  have other: "k' = k \<or> \<not> equal_fold (is_Name v') (is_Name v) \<and> \<not> equal_fold (is_Username v') (is_Username v)"
    if "map_of (ms_isps m) k' = Some v'" for k' v'
  proof -
    have "is_ID v' = k'" "k' \<noteq> 0" using wf that unfolding isps_wf_def by blast+
    then show ?thesis using c(8)[OF that] by (auto simp: k_def)
  qed
  have "k' = k" if "map_of (ms_isps m) k' = Some v'" "is_Name v' = is_Name w" for k' v'
    using other[OF that(1)] that(2) w(3) by simp
  moreover have "k' = k" if "map_of (ms_isps m) k' = Some v'" "equal_fold (is_Username v') (is_Username w)" for k' v'
    using other[OF that(1)] that(2) w(4) by simp
  ultimately show ?thesis unfolding r_def[symmetric]
    using key w by (intro isps_ok_put[OF ok(1), where v = w and k = k]) blast+
qed

lemma isps_ok_DeleteISPAccount:
  assumes "isps_ok m" shows "isps_ok (snd (DeleteISPAccount i version m))"
proof -
  have "isps_wf (map_of (AList.delete i (ms_isps m))) (ms_nextISP m)"
    using assms by (intro isps_wf_sub[OF _ delete_map_le]) (simp add: isps_ok_def)
  then show ?thesis
    using assms by (auto simp: DeleteISPAccount_def isps_ok_def distinct_delete split: option.splits)
qed

section \<open>Devices\<close>

definition devices_ok :: "mem_store \<Rightarrow> bool" where
  "devices_ok m \<longleftrightarrow> distinct (map fst (ms_devices m)) \<and> devices_wf (map_of (ms_devices m)) (ms_nextDev m)"

lemma devices_ok_same:
  "devices_ok m \<Longrightarrow> ms_devices m' = ms_devices m \<Longrightarrow> ms_nextDev m' = ms_nextDev m \<Longrightarrow> devices_ok m'"
  by (simp add: devices_ok_def)

lemma devices_ok_CreateDevice:
  assumes ok: "devices_ok m"
  shows "devices_ok (snd (CreateDevice now d m))"
proof -
  have d: "distinct (map fst (ms_devices m))" and wf: "devices_wf (map_of (ms_devices m)) (ms_nextDev m)"
    using ok by (simp_all add: devices_ok_def)
  have "0 \<le> ms_nextDev m" using wf by (simp add: devices_wf_def)
  then have "devices_wf ((map_of (ms_devices m))(ms_nextDev m + 1 \<mapsto> d\<lparr>sd_ID := ms_nextDev m + 1, sd_UpdatedAt := now\<rparr>)) (ms_nextDev m + 1)"
    if "\<not> list_ex (\<lambda>(k, v). sd_ExporterIP v = sd_ExporterIP d) (ms_devices m)"
    using that list_ex_map_of[OF d, of "\<lambda>k v. sd_ExporterIP v = sd_ExporterIP d"] by (intro devices_wf_put[OF wf]) auto
  then show ?thesis
    using d ok by (auto simp: CreateDevice_def Let_def devices_ok_def alist_conv)
qed

lemma devices_ok_UpdateDevice:
  assumes ok: "devices_ok m"
  shows "devices_ok (snd (UpdateDevice now d m))"
proof -
  have d: "distinct (map fst (ms_devices m))" and wf: "devices_wf (map_of (ms_devices m)) (ms_nextDev m)"
    using ok by (simp_all add: devices_ok_def)
  have "devices_wf ((map_of (ms_devices m))(sd_ID d \<mapsto> d\<lparr>sd_UpdatedAt := now\<rparr>)) (ms_nextDev m)"
    if "\<not> list_ex (\<lambda>(i, v). i \<noteq> sd_ID d \<and> sd_ExporterIP v = sd_ExporterIP d) (ms_devices m)" "map_of (ms_devices m) (sd_ID d) \<noteq> None"
  proof (rule devices_wf_put[OF wf])
    show "0 < sd_ID d" "sd_ID d \<le> ms_nextDev m"
      using wf that(2) by (auto simp: devices_wf_def)
    show "k' = sd_ID d" if "map_of (ms_devices m) k' = Some d'" "sd_ExporterIP d' = sd_ExporterIP (d\<lparr>sd_UpdatedAt := now\<rparr>)" for k' d'
      using that \<open>\<not> list_ex _ _\<close> list_ex_map_of[OF d, of "\<lambda>i v. i \<noteq> sd_ID d \<and> sd_ExporterIP v = sd_ExporterIP d"] by auto
  qed simp_all
  then show ?thesis
    using d ok by (auto simp: UpdateDevice_def devices_ok_def alist_conv)
qed

lemma devices_ok_DeleteDevice:
  assumes "devices_ok m" shows "devices_ok (snd (DeleteDevice i m))"
proof -
  have "devices_wf (map_of (AList.delete i (ms_devices m))) (ms_nextDev m)"
    using assms by (intro devices_wf_sub[OF _ delete_map_le]) (simp add: devices_ok_def)
  then show ?thesis
    using assms by (auto simp: DeleteDevice_def devices_ok_def distinct_delete)
qed

section \<open>Policies and investigations\<close>

text \<open>A table whose keys are the numbers of its records, all handed out before.\<close>

definition numbered :: "('v \<Rightarrow> int) \<Rightarrow> (int \<times> 'v) list \<Rightarrow> int \<Rightarrow> bool" where
  "numbered f xs n \<longleftrightarrow> 0 \<le> n \<and> distinct (map fst xs) \<and> (\<forall>k v. map_of xs k = Some v \<longrightarrow> f v = k \<and> 0 < k \<and> k \<le> n)"

lemma numbered_add: "numbered f xs n \<Longrightarrow> f v = n + 1 \<Longrightarrow> numbered f (AList.update (n + 1) v xs) (n + 1)"
  by (fastforce simp: numbered_def alist_conv)

lemma numbered_put: "numbered f xs n \<Longrightarrow> map_of xs k = Some w \<Longrightarrow> f v = k \<Longrightarrow> numbered f (AList.update k v xs) n"
  by (fastforce simp: numbered_def alist_conv)

lemma numbered_del: "numbered f xs n \<Longrightarrow> numbered f (AList.delete k xs) n"
  by (auto simp: numbered_def alist_conv)

definition policies_ok :: "mem_store \<Rightarrow> bool" where
  "policies_ok m \<longleftrightarrow> numbered cp_ID (ms_policies m) (ms_nextPol m)"

definition cases_ok :: "mem_store \<Rightarrow> bool" where
  "cases_ok m \<longleftrightarrow> numbered iv_ID (ms_investigations m) (ms_nextInvestigation m)"

lemma policies_ok_CreatePolicy: "policies_ok m \<Longrightarrow> policies_ok (snd (CreatePolicy now p m))"
  by (simp add: policies_ok_def CreatePolicy_def Let_def numbered_add)

lemma policies_ok_DeletePolicy: "policies_ok m \<Longrightarrow> policies_ok (snd (DeletePolicy i m))"
  by (simp add: policies_ok_def DeletePolicy_def numbered_del)

lemma policies_ok_SavePolicy:
  assumes "policies_ok m" shows "policies_ok (snd (SavePolicy now e r m))"
proof -
  have ok: "numbered cp_ID (ms_policies m) (ms_nextPol m)" using assms by (simp add: policies_ok_def)
  have put: "policies_ok (snd (put_policy now None p m))" for p
    using ok by (simp add: put_policy_def policies_ok_def Let_def numbered_add)
  have put': "policies_ok (snd (put_policy now (Some old) p m))" if "map_of (ms_policies m) (cp_ID old) = Some old" for old p
    using ok that by (simp add: put_policy_def policies_ok_def Let_def numbered_put)
  have key: "cp_ID old = k" if "map_of (ms_policies m) k = Some old" for k old
    using ok that by (simp add: numbered_def)
  show ?thesis
    unfolding SavePolicy_def using assms put put' key ok
    by (auto simp: policies_ok_def numbered_del split: option.splits)
qed

lemma cases_ok_SaveInvestigation: "cases_ok m \<Longrightarrow> cases_ok (snd (SaveInvestigation now c m))"
  by (auto simp: cases_ok_def SaveInvestigation_def Let_def intro: numbered_add numbered_put)

section \<open>Histories\<close>

datatype store_op =
    OpCreateISP int string | OpSetISPEnabled u32 bool | OpSaveISPAccount int isp string | OpDeleteISPAccount u32 u64
  | OpCreateUser int user | OpUpdateUserPassword int string | OpUpdateUserTOTP int string bool | OpDeleteUser int
  | OpSaveUser user "user option"
  | OpCreateDevice int sdevice | OpUpdateDevice int sdevice | OpDeleteDevice int
  | OpCreateAgent int string string | OpTouchAgent int int
  | OpCreatePolicy int capture_policy | OpDeletePolicy int | OpSavePolicy int "capture_policy option" "capture_policy option"
  | OpSaveInvestigation int investigation | OpPutSetting string string | OpLogQuery int query_audit

fun store_step :: "(string \<Rightarrow> bytes) \<Rightarrow> (int \<Rightarrow> string) \<Rightarrow> store_op \<Rightarrow> mem_store \<Rightarrow> mem_store" where
  "store_step sha ft (OpCreateISP now name) m = snd (CreateISP now name m)"
| "store_step sha ft (OpSetISPEnabled i e) m = snd (SetISPEnabled i e m)"
| "store_step sha ft (OpSaveISPAccount now v hash) m = snd (SaveISPAccount now v hash m)"
| "store_step sha ft (OpDeleteISPAccount i ver) m = snd (DeleteISPAccount i ver m)"
| "store_step sha ft (OpCreateUser now u) m = snd (CreateUser now u m)"
| "store_step sha ft (OpUpdateUserPassword i hash) m = snd (UpdateUserPassword i hash m)"
| "store_step sha ft (OpUpdateUserTOTP i secret e) m = snd (UpdateUserTOTP i secret e m)"
| "store_step sha ft (OpDeleteUser i) m = snd (DeleteUser i m)"
| "store_step sha ft (OpSaveUser old r) m = snd (SaveUser old r m)"
| "store_step sha ft (OpCreateDevice now d) m = snd (CreateDevice now d m)"
| "store_step sha ft (OpUpdateDevice now d) m = snd (UpdateDevice now d m)"
| "store_step sha ft (OpDeleteDevice i) m = snd (DeleteDevice i m)"
| "store_step sha ft (OpCreateAgent now name h) m = snd (CreateAgent now name h m)"
| "store_step sha ft (OpTouchAgent i t) m = snd (TouchAgent i t m)"
| "store_step sha ft (OpCreatePolicy now p) m = snd (CreatePolicy now p m)"
| "store_step sha ft (OpDeletePolicy i) m = snd (DeletePolicy i m)"
| "store_step sha ft (OpSavePolicy now e r) m = snd (SavePolicy now e r m)"
| "store_step sha ft (OpSaveInvestigation now c) m = snd (SaveInvestigation now c m)"
| "store_step sha ft (OpPutSetting sec json) m = PutSetting sec json m"
| "store_step sha ft (OpLogQuery now q) m = snd (LogQuery sha ft now q m)"

definition store_run :: "(string \<Rightarrow> bytes) \<Rightarrow> (int \<Rightarrow> string) \<Rightarrow> store_op list \<Rightarrow> mem_store \<Rightarrow> mem_store" where
  "store_run sha ft ops m = fold (store_step sha ft) ops m"

text \<open>The director lower-cases an e-mail before it saves a user.\<close>

fun op_lower :: "store_op \<Rightarrow> bool" where
  "op_lower (OpSaveUser old (Some n)) \<longleftrightarrow> to_lower (us_Email n) = us_Email n"
| "op_lower _ \<longleftrightarrow> True"

definition store_wf :: "mem_store \<Rightarrow> bool" where
  "store_wf m \<longleftrightarrow> users_ok m \<and> isps_ok m \<and> devices_ok m \<and> policies_ok m \<and> cases_ok m"

text \<open>The tables that an operation does not touch.\<close>

named_theorems store_frame

lemma CreateISP_frame [store_frame]:
  "ms_users (snd (CreateISP now name m)) = ms_users m"
  "ms_nextUser (snd (CreateISP now name m)) = ms_nextUser m"
  "ms_devices (snd (CreateISP now name m)) = ms_devices m"
  "ms_nextDev (snd (CreateISP now name m)) = ms_nextDev m"
  by (simp_all add: CreateISP_def Let_def split: option.splits sum.splits prod.splits)

lemma SetISPEnabled_frame [store_frame]:
  "ms_users (snd (SetISPEnabled i e m)) = ms_users m"
  "ms_nextUser (snd (SetISPEnabled i e m)) = ms_nextUser m"
  "ms_devices (snd (SetISPEnabled i e m)) = ms_devices m"
  "ms_nextDev (snd (SetISPEnabled i e m)) = ms_nextDev m"
  by (simp_all add: SetISPEnabled_def Let_def split: option.splits sum.splits prod.splits)

lemma SaveISPAccount_frame [store_frame]:
  "ms_devices (snd (SaveISPAccount now v hash m)) = ms_devices m"
  "ms_nextDev (snd (SaveISPAccount now v hash m)) = ms_nextDev m"
  by (simp_all add: SaveISPAccount_def Let_def split: option.splits sum.splits prod.splits)

lemma DeleteISPAccount_frame [store_frame]:
  "ms_devices (snd (DeleteISPAccount i ver m)) = ms_devices m"
  "ms_nextDev (snd (DeleteISPAccount i ver m)) = ms_nextDev m"
  by (simp_all add: DeleteISPAccount_def Let_def split: option.splits sum.splits prod.splits)

lemma CreateUser_frame [store_frame]:
  "ms_isps (snd (CreateUser now u m)) = ms_isps m"
  "ms_nextISP (snd (CreateUser now u m)) = ms_nextISP m"
  "ms_devices (snd (CreateUser now u m)) = ms_devices m"
  "ms_nextDev (snd (CreateUser now u m)) = ms_nextDev m"
  by (simp_all add: CreateUser_def Let_def split: option.splits sum.splits prod.splits)

lemma on_user_frame [store_frame]:
  "ms_isps (snd (on_user i f m)) = ms_isps m"
  "ms_nextISP (snd (on_user i f m)) = ms_nextISP m"
  "ms_devices (snd (on_user i f m)) = ms_devices m"
  "ms_nextDev (snd (on_user i f m)) = ms_nextDev m"
  by (simp_all add: on_user_def Let_def split: option.splits sum.splits prod.splits)

lemma DeleteUser_frame [store_frame]:
  "ms_isps (snd (DeleteUser i m)) = ms_isps m"
  "ms_nextISP (snd (DeleteUser i m)) = ms_nextISP m"
  "ms_devices (snd (DeleteUser i m)) = ms_devices m"
  "ms_nextDev (snd (DeleteUser i m)) = ms_nextDev m"
  by (simp_all add: DeleteUser_def Let_def split: option.splits sum.splits prod.splits)

lemma SaveUser_frame [store_frame]:
  "ms_isps (snd (SaveUser old r m)) = ms_isps m"
  "ms_nextISP (snd (SaveUser old r m)) = ms_nextISP m"
  "ms_devices (snd (SaveUser old r m)) = ms_devices m"
  "ms_nextDev (snd (SaveUser old r m)) = ms_nextDev m"
  by (simp_all add: SaveUser_def Let_def split: option.splits sum.splits prod.splits)

lemma CreateDevice_frame [store_frame]:
  "ms_users (snd (CreateDevice now d m)) = ms_users m"
  "ms_nextUser (snd (CreateDevice now d m)) = ms_nextUser m"
  "ms_isps (snd (CreateDevice now d m)) = ms_isps m"
  "ms_nextISP (snd (CreateDevice now d m)) = ms_nextISP m"
  by (simp_all add: CreateDevice_def Let_def split: option.splits sum.splits prod.splits)

lemma UpdateDevice_frame [store_frame]:
  "ms_users (snd (UpdateDevice now d m)) = ms_users m"
  "ms_nextUser (snd (UpdateDevice now d m)) = ms_nextUser m"
  "ms_isps (snd (UpdateDevice now d m)) = ms_isps m"
  "ms_nextISP (snd (UpdateDevice now d m)) = ms_nextISP m"
  by (simp_all add: UpdateDevice_def Let_def split: option.splits sum.splits prod.splits)

lemma DeleteDevice_frame [store_frame]:
  "ms_users (snd (DeleteDevice i m)) = ms_users m"
  "ms_nextUser (snd (DeleteDevice i m)) = ms_nextUser m"
  "ms_isps (snd (DeleteDevice i m)) = ms_isps m"
  "ms_nextISP (snd (DeleteDevice i m)) = ms_nextISP m"
  by (simp_all add: DeleteDevice_def Let_def split: option.splits sum.splits prod.splits)

lemma CreateAgent_frame [store_frame]:
  "ms_users (snd (CreateAgent now name h m)) = ms_users m"
  "ms_nextUser (snd (CreateAgent now name h m)) = ms_nextUser m"
  "ms_isps (snd (CreateAgent now name h m)) = ms_isps m"
  "ms_nextISP (snd (CreateAgent now name h m)) = ms_nextISP m"
  "ms_devices (snd (CreateAgent now name h m)) = ms_devices m"
  "ms_nextDev (snd (CreateAgent now name h m)) = ms_nextDev m"
  by (simp_all add: CreateAgent_def Let_def split: option.splits sum.splits prod.splits)

lemma TouchAgent_frame [store_frame]:
  "ms_users (snd (TouchAgent i t m)) = ms_users m"
  "ms_nextUser (snd (TouchAgent i t m)) = ms_nextUser m"
  "ms_isps (snd (TouchAgent i t m)) = ms_isps m"
  "ms_nextISP (snd (TouchAgent i t m)) = ms_nextISP m"
  "ms_devices (snd (TouchAgent i t m)) = ms_devices m"
  "ms_nextDev (snd (TouchAgent i t m)) = ms_nextDev m"
  by (simp_all add: TouchAgent_def Let_def split: option.splits sum.splits prod.splits)

lemma CreatePolicy_frame [store_frame]:
  "ms_users (snd (CreatePolicy now p m)) = ms_users m"
  "ms_nextUser (snd (CreatePolicy now p m)) = ms_nextUser m"
  "ms_isps (snd (CreatePolicy now p m)) = ms_isps m"
  "ms_nextISP (snd (CreatePolicy now p m)) = ms_nextISP m"
  "ms_devices (snd (CreatePolicy now p m)) = ms_devices m"
  "ms_nextDev (snd (CreatePolicy now p m)) = ms_nextDev m"
  by (simp_all add: CreatePolicy_def Let_def split: option.splits sum.splits prod.splits)

lemma DeletePolicy_frame [store_frame]:
  "ms_users (snd (DeletePolicy i m)) = ms_users m"
  "ms_nextUser (snd (DeletePolicy i m)) = ms_nextUser m"
  "ms_isps (snd (DeletePolicy i m)) = ms_isps m"
  "ms_nextISP (snd (DeletePolicy i m)) = ms_nextISP m"
  "ms_devices (snd (DeletePolicy i m)) = ms_devices m"
  "ms_nextDev (snd (DeletePolicy i m)) = ms_nextDev m"
  by (simp_all add: DeletePolicy_def Let_def split: option.splits sum.splits prod.splits)

lemma put_policy_frame [store_frame]:
  "ms_users (snd (put_policy now old p m)) = ms_users m"
  "ms_nextUser (snd (put_policy now old p m)) = ms_nextUser m"
  "ms_isps (snd (put_policy now old p m)) = ms_isps m"
  "ms_nextISP (snd (put_policy now old p m)) = ms_nextISP m"
  "ms_devices (snd (put_policy now old p m)) = ms_devices m"
  "ms_nextDev (snd (put_policy now old p m)) = ms_nextDev m"
  by (simp_all add: put_policy_def Let_def split: option.splits sum.splits prod.splits)

lemma SavePolicy_frame [store_frame]:
  "ms_users (snd (SavePolicy now ex r m)) = ms_users m"
  "ms_nextUser (snd (SavePolicy now ex r m)) = ms_nextUser m"
  "ms_isps (snd (SavePolicy now ex r m)) = ms_isps m"
  "ms_nextISP (snd (SavePolicy now ex r m)) = ms_nextISP m"
  "ms_devices (snd (SavePolicy now ex r m)) = ms_devices m"
  "ms_nextDev (snd (SavePolicy now ex r m)) = ms_nextDev m"
  by (simp_all add: SavePolicy_def Let_def put_policy_frame split: option.splits sum.splits prod.splits)

lemma SaveInvestigation_frame [store_frame]:
  "ms_users (snd (SaveInvestigation now c m)) = ms_users m"
  "ms_nextUser (snd (SaveInvestigation now c m)) = ms_nextUser m"
  "ms_isps (snd (SaveInvestigation now c m)) = ms_isps m"
  "ms_nextISP (snd (SaveInvestigation now c m)) = ms_nextISP m"
  "ms_devices (snd (SaveInvestigation now c m)) = ms_devices m"
  "ms_nextDev (snd (SaveInvestigation now c m)) = ms_nextDev m"
  by (simp_all add: SaveInvestigation_def Let_def split: option.splits sum.splits prod.splits)

lemma LogQuery_frame [store_frame]:
  "ms_users (snd (LogQuery sha ft now q m)) = ms_users m"
  "ms_nextUser (snd (LogQuery sha ft now q m)) = ms_nextUser m"
  "ms_isps (snd (LogQuery sha ft now q m)) = ms_isps m"
  "ms_nextISP (snd (LogQuery sha ft now q m)) = ms_nextISP m"
  "ms_devices (snd (LogQuery sha ft now q m)) = ms_devices m"
  "ms_nextDev (snd (LogQuery sha ft now q m)) = ms_nextDev m"
  by (simp_all add: LogQuery_def Let_def split: option.splits sum.splits prod.splits)

lemma PutSetting_frame [store_frame]:
  "ms_users (PutSetting sec json m) = ms_users m"
  "ms_nextUser (PutSetting sec json m) = ms_nextUser m"
  "ms_isps (PutSetting sec json m) = ms_isps m"
  "ms_nextISP (PutSetting sec json m) = ms_nextISP m"
  "ms_devices (PutSetting sec json m) = ms_devices m"
  "ms_nextDev (PutSetting sec json m) = ms_nextDev m"
  by (simp_all add: PutSetting_def)

lemma users_step_op:
  assumes ok: "store_wf m" "op_lower op"
  shows "users_step m (store_step sha ft op m)"
proof -
  have u: "users_ok m" and i: "distinct (map fst (ms_isps m))" using ok by (auto simp: store_wf_def isps_ok_def)
  show ?thesis
  proof (cases op)
    case (OpSaveUser old r)
    then show ?thesis using u ok(2) by (cases r) (auto intro: users_step_SaveUser)
  qed (use u i in \<open>simp_all add: store_frame users_step_same users_step_CreateUser users_step_DeleteUser users_step_DeleteISPAccount
        users_step_SaveISPAccount UpdateUserPassword_def UpdateUserTOTP_def users_step_on_user\<close>)
qed

lemma isps_ok_op:
  assumes "store_wf m" "ms_nextISP m \<noteq> - 1"
  shows "isps_ok (store_step sha ft op m)"
proof -
  have i: "isps_ok m" "users_ok m" using assms by (auto simp: store_wf_def)
  show ?thesis
    by (cases op) (use i assms(2) in \<open>simp_all add: isps_ok_same[OF i(1)] store_frame isps_ok_CreateISP isps_ok_SetISPEnabled isps_ok_SaveISPAccount
        isps_ok_DeleteISPAccount UpdateUserPassword_def UpdateUserTOTP_def\<close>)
qed

lemma devices_ok_op:
  assumes "store_wf m"
  shows "devices_ok (store_step sha ft op m)"
proof -
  have d: "devices_ok m" using assms by (auto simp: store_wf_def)
  show ?thesis
    by (cases op) (use d in \<open>simp_all add: devices_ok_same[OF d] store_frame devices_ok_CreateDevice devices_ok_UpdateDevice devices_ok_DeleteDevice
        UpdateUserPassword_def UpdateUserTOTP_def\<close>)
qed

lemmas store_ops = CreateISP_def SetISPEnabled_def SaveISPAccount_def DeleteISPAccount_def CreateUser_def UpdateUserPassword_def UpdateUserTOTP_def
  on_user_def DeleteUser_def SaveUser_def CreateDevice_def UpdateDevice_def DeleteDevice_def CreateAgent_def TouchAgent_def PutSetting_def LogQuery_def

lemma policies_ok_op:
  assumes ok: "policies_ok m"
  shows "policies_ok (store_step sha ft op m)"
proof (cases "\<exists>now p e r i. op = OpCreatePolicy now p \<or> op = OpDeletePolicy i \<or> op = OpSavePolicy now e r")
  case True
  then show ?thesis using ok policies_ok_CreatePolicy policies_ok_DeletePolicy policies_ok_SavePolicy by auto
next
  case False
  then have "ms_policies (store_step sha ft op m) = ms_policies m" "ms_nextPol (store_step sha ft op m) = ms_nextPol m"
    by (cases op; simp add: store_ops SaveInvestigation_def Let_def split: option.splits sum.splits prod.splits if_splits)+
  then show ?thesis using ok by (simp add: policies_ok_def)
qed

lemma cases_ok_op:
  assumes ok: "cases_ok m"
  shows "cases_ok (store_step sha ft op m)"
proof (cases "\<exists>now c. op = OpSaveInvestigation now c")
  case True
  then show ?thesis using ok cases_ok_SaveInvestigation by auto
next
  case False
  then have "ms_investigations (store_step sha ft op m) = ms_investigations m" "ms_nextInvestigation (store_step sha ft op m) = ms_nextInvestigation m"
    by (cases op; simp add: store_ops CreatePolicy_def DeletePolicy_def SavePolicy_def put_policy_def Let_def
        split: option.splits sum.splits prod.splits if_splits)+
  then show ?thesis using ok by (simp add: cases_ok_def)
qed

lemma nextISP_op:
  "ms_nextISP (store_step sha ft op m) = ms_nextISP m \<or> ms_nextISP (store_step sha ft op m) = ms_nextISP m + 1"
  by (cases op)
    (simp_all add: store_frame UpdateUserPassword_def UpdateUserTOTP_def CreateISP_def SetISPEnabled_def SaveISPAccount_def DeleteISPAccount_def Let_def
      split: option.splits sum.splits prod.splits if_splits)

lemma unat_Suc_le: "unat (n + 1 :: u32) \<le> Suc (unat n)"
  using unatSuc[of n] by (cases "1 + n = 0") (auto simp: add.commute[of n])

lemma nextISP_run:
  "unat (ms_nextISP (store_run sha ft ops m)) \<le> unat (ms_nextISP m) + length ops"
proof (induction ops arbitrary: m)
  case (Cons op ops)
  have "unat (ms_nextISP (store_step sha ft op m)) \<le> Suc (unat (ms_nextISP m))"
    using nextISP_op[of sha ft op m] unat_Suc_le[of "ms_nextISP m"] by auto
  then show ?case using Cons[of "store_step sha ft op m"] by (simp add: store_run_def)
qed (simp add: store_run_def)

lemma store_run_wf:
  assumes "store_wf m" "list_all op_lower ops" "unat (ms_nextISP m) + length ops < 2 ^ 32"
  shows "store_wf (store_run sha ft ops m) \<and>
    users_kept (map_of (ms_users m)) (ms_nextUser m) (map_of (ms_users (store_run sha ft ops m))) (ms_nextUser (store_run sha ft ops m))"
  using assms
proof (induction ops arbitrary: m)
  case Nil
  then show ?case by (simp add: store_run_def)
next
  case (Cons op ops)
  let ?m = "store_step sha ft op m"
  have "ms_nextISP m \<noteq> - 1"
    using Cons.prems(3) by (auto simp: unsigned_minus_1_eq_mask mask_eq_exp_minus_1)
  then have step: "users_step m ?m" "isps_ok ?m" "devices_ok ?m" "policies_ok ?m" "cases_ok ?m"
    using Cons.prems by (simp_all add: users_step_op isps_ok_op devices_ok_op policies_ok_op cases_ok_op store_wf_def)
  have "unat (ms_nextISP ?m) \<le> Suc (unat (ms_nextISP m))"
    using nextISP_run[of sha ft "[op]" m] by (simp add: store_run_def)
  then have "store_wf (store_run sha ft ops ?m) \<and> users_kept (map_of (ms_users ?m)) (ms_nextUser ?m)
      (map_of (ms_users (store_run sha ft ops ?m))) (ms_nextUser (store_run sha ft ops ?m))"
    using Cons.prems step by (intro Cons.IH) (simp_all add: store_wf_def users_step_def)
  then show ?case
    using step(1) users_kept_trans by (auto simp: store_run_def users_step_def)
qed

lemma NewMem_wf [simp]: "store_wf NewMem" "ms_nextISP NewMem = 0"
  by (simp_all add: store_wf_def NewMem_def users_ok_def isps_ok_def devices_ok_def users_wf_def isps_wf_def devices_wf_def
      policies_ok_def cases_ok_def numbered_def)

lemma store_run_NewMem:
  "list_all op_lower ops \<Longrightarrow> length ops < 2 ^ 32 \<Longrightarrow> store_wf (store_run sha ft ops NewMem)"
  using store_run_wf[of NewMem ops] by simp

text \<open>What the tables say to a caller.\<close>

lemma users_ok_lookup:
  assumes ok: "users_ok m" and u: "u \<in> set (ListUsers 0 m)"
  shows "GetUser (us_ID u) m = Inr u" "GetUserByEmail (us_Email u) m = Inr u"
proof -
  have d: "distinct (map fst (ms_users m))" and wf: "users_wf (map_of (ms_users m)) (ms_nextUser m)"
    using ok by (simp_all add: users_ok_def)
  obtain k where k: "map_of (ms_users m) k = Some u"
    using u d by (force simp: ListUsers_def)
  then have "k = to_lower (us_Email u)" using wf by (simp add: users_wf_def)
  then show "GetUserByEmail (us_Email u) m = Inr u" using k by (simp add: GetUserByEmail_def)
  have "find_val (\<lambda>v. us_ID v = us_ID u) (ms_users m) \<noteq> None"
    using k find_val_None[of "\<lambda>v. us_ID v = us_ID u" "ms_users m" k u] by blast
  then obtain k' u' where f: "find_val (\<lambda>v. us_ID v = us_ID u) (ms_users m) = Some (k', u')" by auto
  note u' = find_val_Some[OF d f]
  then have "k' = k" using k wf unfolding users_wf_def by blast
  then show "GetUser (us_ID u) m = Inr u" using f k u'(1) by (simp add: GetUser_def)
qed

lemma devices_ok_lookup:
  assumes ok: "devices_ok m" and d: "d \<in> set (ListDevices 0 m)"
  shows "GetDevice (sd_ID d) m = Inr d" "d' \<in> set (ListDevices 0 m) \<Longrightarrow> sd_ExporterIP d' = sd_ExporterIP d \<Longrightarrow> d' = d"
proof -
  have dist: "distinct (map fst (ms_devices m))" and wf: "devices_wf (map_of (ms_devices m)) (ms_nextDev m)"
    using ok by (simp_all add: devices_ok_def)
  have key: "map_of (ms_devices m) (sd_ID x) = Some x" if x: "x \<in> set (ListDevices 0 m)" for x
  proof -
    obtain k where k: "map_of (ms_devices m) k = Some x" using x dist by (force simp: ListDevices_def)
    then have "k = sd_ID x" using wf by (simp add: devices_wf_def)
    with k show ?thesis by simp
  qed
  show "GetDevice (sd_ID d) m = Inr d" using key[OF d] by (simp add: GetDevice_def)
  show "d' = d" if "d' \<in> set (ListDevices 0 m)" "sd_ExporterIP d' = sd_ExporterIP d"
  proof -
    have "sd_ID d' = sd_ID d" using wf key[OF d] key[OF that(1)] that(2) unfolding devices_wf_def by blast
    then show ?thesis using key[OF d] key[OF that(1)] by simp
  qed
qed

lemma ispAccountLocked_keeps [simp]:
  "is_ID (ispAccountLocked m v) = is_ID v" "is_Username (ispAccountLocked m v) = is_Username v" "is_Version (ispAccountLocked m v) = is_Version v"
  by (simp_all add: ispAccountLocked_def Let_def split: option.splits)

lemma isps_ok_lookup:
  assumes ok: "isps_ok m" and v: "v \<in> set (ListISPs m)"
  shows "GetISP (is_ID v) m = Inr v"
    "v' \<in> set (ListISPs m) \<Longrightarrow> is_Username v \<noteq> [] \<Longrightarrow> equal_fold (is_Username v) (is_Username v') \<Longrightarrow> v' = v"
proof -
  have dist: "distinct (map fst (ms_isps m))" and wf: "isps_wf (map_of (ms_isps m)) (ms_nextISP m)"
    using ok by (simp_all add: isps_ok_def)
  have key: "\<exists>x0. map_of (ms_isps m) (is_ID x) = Some x0 \<and> x = ispAccountLocked m x0 \<and> is_Username x0 = is_Username x" if x: "x \<in> set (ListISPs m)" for x
  proof -
    obtain k x0 where k: "map_of (ms_isps m) k = Some x0" "x = ispAccountLocked m x0"
      using x dist by (force simp: ListISPs_def)
    then have "k = is_ID x0" using wf unfolding isps_wf_def by blast
    with k show ?thesis by auto
  qed
  obtain v0 where v0: "map_of (ms_isps m) (is_ID v) = Some v0" "v = ispAccountLocked m v0" "is_Username v0 = is_Username v"
    using key[OF v] by blast
  then show "GetISP (is_ID v) m = Inr v" by (simp add: GetISP_def)
  show "v' = v" if v': "v' \<in> set (ListISPs m)" "is_Username v \<noteq> []" "equal_fold (is_Username v) (is_Username v')"
  proof -
    obtain w0 where w0: "map_of (ms_isps m) (is_ID v') = Some w0" "v' = ispAccountLocked m w0" "is_Username w0 = is_Username v'"
      using key[OF v'(1)] by blast
    then have "is_ID v = is_ID v'"
      using isps_wfD(5)[OF wf v0(1) w0(1)] v'(2,3) v0(3) by simp
    with v0(1) w0(1) have "w0 = v0" by simp
    with v0(2) w0(2) show ?thesis by (simp only:)
  qed
qed


definition ex_user :: "string \<Rightarrow> user" where
  "ex_user email = \<lparr>us_ID = 0, us_ISPID = 7, us_Email = email, us_PasswordHash = ''h'', us_Role = RoleISP, us_TOTPSecret = [],
     us_TOTPEnabled = False, us_CreatedAt = 0\<rparr>"


text \<open>
  An account that exists at two moments of a history has the same tenant and the same role at both: no
  sequence of operations, a deletion and a new account included, moves a number to another tenant or role.
\<close>

theorem account_for_life:
  assumes "list_all op_lower (ops @ later)" "length (ops @ later) < 2 ^ 32"
    and u: "GetUser i (store_run sha ft ops NewMem) = Inr u"
    and u': "GetUser i (store_run sha ft (ops @ later) NewMem) = Inr u'"
  shows "us_ISPID u' = us_ISPID u \<and> us_Role u' = us_Role u"
proof -
  let ?m = "store_run sha ft ops NewMem" and ?m' = "store_run sha ft (ops @ later) NewMem"
  have run: "?m' = store_run sha ft later ?m" by (simp add: store_run_def)
  have wf: "store_wf ?m" using assms by (intro store_run_NewMem) auto
  have "unat (ms_nextISP ?m) + length later < 2 ^ 32"
    using nextISP_run[of sha ft ops NewMem] assms(2) by simp
  then have kept: "store_wf ?m'" "users_kept (map_of (ms_users ?m)) (ms_nextUser ?m) (map_of (ms_users ?m')) (ms_nextUser ?m')"
    using store_run_wf[OF wf, of later sha ft] assms(1) run by auto
  have found: "\<exists>k. map_of (ms_users n) k = Some x \<and> us_ID x = i" if "store_wf n" and x: "GetUser i n = Inr x" for n x
  proof -
    have d: "distinct (map fst (ms_users n))" using that by (simp add: store_wf_def users_ok_def)
    obtain k where "find_val (\<lambda>u. us_ID u = i) (ms_users n) = Some (k, x)"
      using x by (auto simp: GetUser_def split: option.splits)
    from find_val_Some[OF d this] show ?thesis by blast
  qed
  obtain k where k: "map_of (ms_users ?m) k = Some u" "us_ID u = i" using found[OF wf u] by blast
  obtain k' where k': "map_of (ms_users ?m') k' = Some u'" "us_ID u' = i" using found[OF kept(1) u'] by blast
  have uwf: "users_wf (map_of (ms_users ?m)) (ms_nextUser ?m)" using wf by (simp add: store_wf_def users_ok_def)
  then have "i \<le> ms_nextUser ?m" using k by (auto simp: users_wf_def)
  then obtain k0 u0 where u0: "map_of (ms_users ?m) k0 = Some u0" "us_ID u0 = i" "us_ISPID u0 = us_ISPID u'" "us_Role u0 = us_Role u'"
    using kept(2) k' unfolding users_kept_def by blast
  then have "k0 = k" using uwf k unfolding users_wf_def by blast
  then show ?thesis using u0 k by simp
qed

theorem account_for_life_witness:
  "us_ISPID ((ex_user ''b'')\<lparr>us_ID := 1, us_CreatedAt := 5\<rparr>) = us_ISPID ((ex_user ''a'')\<lparr>us_ID := 1, us_CreatedAt := 5\<rparr>) \<and>
   us_Role ((ex_user ''b'')\<lparr>us_ID := 1, us_CreatedAt := 5\<rparr>) = us_Role ((ex_user ''a'')\<lparr>us_ID := 1, us_CreatedAt := 5\<rparr>)"
proof (rule account_for_life[where ops = "[OpCreateUser 5 (ex_user ''a'')]"
      and later = "[OpSaveUser ((ex_user ''a'')\<lparr>us_ID := 1\<rparr>) (Some ((ex_user ''b'')\<lparr>us_ISPID := 9, us_Role := RoleDirector\<rparr>))]"
      and i = 1 and sha = "\<lambda>_. [0]" and ft = "\<lambda>_. []"])
  show "GetUser 1 (store_run (\<lambda>_. [0]) (\<lambda>_. []) [OpCreateUser 5 (ex_user ''a'')] NewMem) = Inr ((ex_user ''a'')\<lparr>us_ID := 1, us_CreatedAt := 5\<rparr>)"
    by code_simp
  show "GetUser 1 (store_run (\<lambda>_. [0]) (\<lambda>_. []) ([OpCreateUser 5 (ex_user ''a'')] @ [OpSaveUser ((ex_user ''a'')\<lparr>us_ID := 1\<rparr>)
      (Some ((ex_user ''b'')\<lparr>us_ISPID := 9, us_Role := RoleDirector\<rparr>))]) NewMem) = Inr ((ex_user ''b'')\<lparr>us_ID := 1, us_CreatedAt := 5\<rparr>)"
    by code_simp
qed (code_simp, simp)

end
