(* ===== verification/Store_Edits.thy ===== *)
theory Store_Edits
  imports Store_Laws
begin

text \<open>
  Optimistic edits: a caller that changes a user, a capture policy or an ISP account sends the
  snapshot it has seen, and a stale snapshot is refused.  The contract is the locale
  \<open>snapshot_edit\<close>; an edit that makes its own snapshot stale (\<open>versioned_edit\<close>) succeeds at most once.
\<close>

section \<open>The contract\<close>

fun run_edits :: "('e \<Rightarrow> 'r \<Rightarrow> 's \<Rightarrow> (store_error + 'o) \<times> 's) \<Rightarrow> 'e \<Rightarrow> 'r list \<Rightarrow> 's \<Rightarrow> (store_error + 'o) list \<times> 's" where
  "run_edits edit e [] s = ([], s)"
| "run_edits edit e (r # rs) s = (let (x, s') = edit e r s; (xs, s'') = run_edits edit e rs s' in (x # xs, s''))"

definition successes :: "(store_error + 'o) list \<Rightarrow> nat" where
  "successes xs = length (filter (\<lambda>x. \<not> isl x) xs)"

locale snapshot_edit =
  fixes current :: "'k \<Rightarrow> 's \<Rightarrow> 'v option"
    and key :: "'e \<Rightarrow> 'k"
    and fresh :: "'v \<Rightarrow> 'e \<Rightarrow> bool"
    and names :: "'e \<Rightarrow> bool"
    and edit :: "'e \<Rightarrow> 'r \<Rightarrow> 's \<Rightarrow> (store_error + 'o) \<times> 's"
  assumes edit_gone: "names e \<Longrightarrow> current (key e) s = None \<Longrightarrow> edit e r s = (Inl ErrNotFound, s)"
    and edit_stale: "names e \<Longrightarrow> current (key e) s = Some c \<Longrightarrow> \<not> fresh c e \<Longrightarrow> edit e r s = (Inl ErrConflict, s)"
    and edit_refused: "edit e r s = (Inl x, s') \<Longrightarrow> s' = s"
begin

lemma edit_fresh:
  assumes "names e" "edit e r s = (Inr v, s')"
  shows "\<exists>c. current (key e) s = Some c \<and> fresh c e"
  using assms edit_gone[of e s r] edit_stale[of e s _ r] by (cases "current (key e) s") auto

lemma stale_edits_refused:
  assumes "names e" "\<And>c. current (key e) s = Some c \<Longrightarrow> \<not> fresh c e"
  shows "run_edits edit e rs s = (map (\<lambda>_. Inl (if current (key e) s = None then ErrNotFound else ErrConflict)) rs, s)"
proof (induction rs)
  case (Cons r rs)
  have "edit e r s = (Inl (if current (key e) s = None then ErrNotFound else ErrConflict), s)"
    using assms edit_gone[of e s r] edit_stale[of e s _ r] by (cases "current (key e) s") auto
  with Cons show ?case by simp
qed simp

end

locale versioned_edit = snapshot_edit +
  assumes edit_moves: "names e \<Longrightarrow> edit e r s = (Inr v, s') \<Longrightarrow> current (key e) s' = Some c \<Longrightarrow> \<not> fresh c e"
begin

lemma at_most_one_edit:
  assumes "names e"
  shows "successes (fst (run_edits edit e rs s)) \<le> 1"
proof (induction rs arbitrary: s)
  case (Cons r rs)
  obtain x s' where xs: "edit e r s = (x, s')" by fastforce
  show ?case
  proof (cases x)
    case (Inl y)
    then have "s' = s" using edit_refused xs by blast
    then show ?thesis using Cons[of s] Inl xs by (cases "run_edits edit e rs s") (simp add: successes_def)
  next
    case (Inr v)
    then have "\<And>c. current (key e) s' = Some c \<Longrightarrow> \<not> fresh c e" using edit_moves assms xs by blast
    from stale_edits_refused[OF assms this, where rs = rs] show ?thesis
      using xs by (simp add: successes_def)
  qed
qed (simp add: successes_def)

end

section \<open>Users\<close>

definition current_user :: "int \<Rightarrow> mem_store \<Rightarrow> user option" where
  "current_user i m = (case find_val (\<lambda>u. us_ID u = i) (ms_users m) of Some (k, u) \<Rightarrow> if k = [] then None else Some u | None \<Rightarrow> None)"

interpretation user_edit: snapshot_edit current_user us_ID sameUser "\<lambda>_. True" SaveUser
proof
  show "SaveUser e r s = (Inl ErrNotFound, s)" if "current_user (us_ID e) s = None" for e r s
    using that by (auto simp: current_user_def SaveUser_def split: option.splits if_splits)
  show "SaveUser e r s = (Inl ErrConflict, s)" if "current_user (us_ID e) s = Some c" "\<not> sameUser c e" for e r s c
    using that by (auto simp: current_user_def SaveUser_def split: option.splits if_splits)
  show "s' = s" if "SaveUser e r s = (Inl x, s')" for e r s s' x
    using that by (auto simp: SaveUser_def Let_def split: option.splits if_splits)
qed

section \<open>Capture policies\<close>

definition current_policy :: "int \<Rightarrow> mem_store \<Rightarrow> capture_policy option" where
  "current_policy i m = map_of (ms_policies m) i"

interpretation policy_edit: snapshot_edit current_policy cp_ID samePolicy "\<lambda>_. True" "\<lambda>e (now, r). SavePolicy now (Some e) r"
proof
  show "(case r of (now, r) \<Rightarrow> SavePolicy now (Some e) r) s = (Inl ErrNotFound, s)" if "current_policy (cp_ID e) s = None" for e r s
    using that by (auto simp: current_policy_def SavePolicy_def split: prod.splits)
  show "(case r of (now, r) \<Rightarrow> SavePolicy now (Some e) r) s = (Inl ErrConflict, s)" if "current_policy (cp_ID e) s = Some c" "\<not> samePolicy c e" for e r s c
    using that by (auto simp: current_policy_def SavePolicy_def split: prod.splits)
  show "s' = s" if "(case r of (now, r) \<Rightarrow> SavePolicy now (Some e) r) s = (Inl x, s')" for e r s s' x
    using that by (auto simp: SavePolicy_def put_policy_def Let_def split: prod.splits option.splits if_splits)
qed

section \<open>ISP accounts\<close>

definition current_isp :: "u32 \<Rightarrow> mem_store \<Rightarrow> isp option" where
  "current_isp i m = map_of (ms_isps m) i"

definition edit_account :: "u32 \<times> u64 \<Rightarrow> int \<times> isp \<times> string \<Rightarrow> mem_store \<Rightarrow> isp stored" where
  "edit_account e r m = (case e of (i, ver) \<Rightarrow> case r of (now, v, hash) \<Rightarrow> SaveISPAccount now (v\<lparr>is_ID := i, is_Version := ver\<rparr>) hash m)"

lemma SaveISPAccount_saved:
  assumes "SaveISPAccount now v hash m = (Inr w, m')" "is_ID v \<noteq> 0"
  shows "map_of (ms_isps m') (is_ID v) = Some w \<and> is_Version w = is_Version v + 1"
proof -
  obtain v1 where c: "check_account v hash m = Inr v1"
    using assms(1) by (cases "check_account v hash m") (auto simp: SaveISPAccount_def)
  then have v1: "is_ID v1 = is_ID v" "is_Version v1 = is_Version v"
    unfolding check_account_def Let_def by (auto split: if_splits option.splits)
  show ?thesis
  proof (cases "is_AdminUserID v1 = 0")
    case True
    then show ?thesis using assms c v1 by (auto simp: SaveISPAccount_def Let_def update_conv')
  next
    case False
    then show ?thesis using assms c v1
      by (cases "find_val (\<lambda>u. us_ID u = is_AdminUserID v1) (ms_users m)") (auto simp: SaveISPAccount_def Let_def update_conv')
  qed
qed

interpretation account_edit: versioned_edit current_isp fst "\<lambda>v e. is_Version v = snd e" "\<lambda>e. fst e \<noteq> 0" edit_account
proof
  show "edit_account e r s = (Inl ErrNotFound, s)" if "fst e \<noteq> 0" "current_isp (fst e) s = None" for e r s
    using that by (auto simp: current_isp_def edit_account_def SaveISPAccount_def check_account_def Let_def split: prod.splits)
  show "edit_account e r s = (Inl ErrConflict, s)" if "fst e \<noteq> 0" "current_isp (fst e) s = Some c" "is_Version c \<noteq> snd e" for e r s c
    using that by (auto simp: current_isp_def edit_account_def SaveISPAccount_def check_account_def Let_def split: prod.splits)
  show "s' = s" if "edit_account e r s = (Inl x, s')" for e r s s' x
    using that by (auto simp: edit_account_def SaveISPAccount_def Let_def split: prod.splits sum.splits)
  show "is_Version c \<noteq> snd e" if "fst e \<noteq> 0" "edit_account e r s = (Inr v, s')" "current_isp (fst e) s' = Some c" for e r s v s' c
    using that by (auto simp: edit_account_def current_isp_def split: prod.splits dest!: SaveISPAccount_saved)
qed

text \<open>
  Of any number of edits of one ISP account that carry the same version, at most one succeeds, whatever
  the edits contain and in whatever order they arrive.
\<close>

theorem account_edits_exclusive:
  assumes "i \<noteq> 0"
  shows "successes (fst (run_edits edit_account (i, ver) rs m)) \<le> 1"
  using account_edit.at_most_one_edit[of "(i, ver)"] assms by simp

definition ex_isp :: "string \<Rightarrow> isp" where
  "ex_isp name = \<lparr>is_ID = 0, is_Name = name, is_Enabled = True, is_CreatedAt = 0, is_Username = name, is_Email = name @ ''@x'', is_Phone = [],
     is_AdminUserID = 0, is_Version = 0\<rparr>"

theorem account_edits_exclusive_witness:
  "let m = snd (SaveISPAccount 1 (ex_isp ''a'') ''h'' NewMem); r = fst (run_edits edit_account (1, 1) [(2, ex_isp ''b'', []), (3, ex_isp ''c'', [])] m)
   in successes r \<le> 1 \<and> \<not> isl (r ! 0) \<and> r ! 1 = Inl ErrConflict"
proof -
  have "successes (fst (run_edits edit_account (1, 1) [(2, ex_isp ''b'', []), (3, ex_isp ''c'', [])] (snd (SaveISPAccount 1 (ex_isp ''a'') ''h'' NewMem)))) \<le> 1"
    by (rule account_edits_exclusive) simp
  moreover have "let r = fst (run_edits edit_account (1, 1) [(2, ex_isp ''b'', []), (3, ex_isp ''c'', [])] (snd (SaveISPAccount 1 (ex_isp ''a'') ''h'' NewMem)))
      in \<not> isl (r ! 0) \<and> r ! 1 = Inl ErrConflict"
    by code_simp
  ultimately show ?thesis by (simp add: Let_def)
qed

end
