(* ===== verification/Store_Audit.thy ===== *)
theory Store_Audit
  imports Store_Laws
begin

text \<open>
  The audit chain of lawful lookups: each row holds the hash of the row before it.  \<open>chained\<close> is the
  condition that \<open>VerifyAuditChain\<close> decides.  Every history of the store leaves a chain that verifies
  and counts every logged query; two chains that verify and end in the same hash hold the same texts,
  or they exhibit a collision of the hash.  The text of a row, though, does not determine the row.
\<close>

section \<open>Chains\<close>

fun chained :: "(string \<Rightarrow> bytes) \<Rightarrow> (int \<Rightarrow> string) \<Rightarrow> string \<Rightarrow> query_audit list \<Rightarrow> bool" where
  "chained sha ft p [] \<longleftrightarrow> True"
| "chained sha ft p (q # qs) \<longleftrightarrow> qa_PrevHash q = p \<and> qa_RowHash q = AuditHash sha ft q p \<and> chained sha ft (qa_RowHash q) qs"

lemma verify_rows_chained:
  "chained sha ft p qs \<Longrightarrow> verify_rows sha ft p n qs = (n + length qs, None)"
  "\<not> chained sha ft p qs \<Longrightarrow> snd (verify_rows sha ft p n qs) = Some ErrConflict"
  by (induction qs arbitrary: p n) auto

lemma VerifyAuditChain_iff:
  "VerifyAuditChain sha ft m = (n, None) \<longleftrightarrow> chained sha ft [] (rev (ms_queries m)) \<and> n = length (ms_queries m)"
  using verify_rows_chained[of sha ft "[]" "rev (ms_queries m)" 0]
  by (cases "chained sha ft [] (rev (ms_queries m))") (auto simp: VerifyAuditChain_def)

abbreviation last_hash :: "string \<Rightarrow> query_audit list \<Rightarrow> string" where
  "last_hash p qs \<equiv> (if qs = [] then p else qa_RowHash (last qs))"

lemma chained_snoc:
  "chained sha ft p (qs @ [q]) \<longleftrightarrow>
     chained sha ft p qs \<and> qa_PrevHash q = last_hash p qs \<and> qa_RowHash q = AuditHash sha ft q (last_hash p qs)"
  by (induction qs arbitrary: p) auto

section \<open>Histories keep the chain\<close>

lemma AuditHash_RowHash [simp]: "AuditHash sha ft (q\<lparr>qa_RowHash := h\<rparr>) p = AuditHash sha ft q p"
  by (simp add: AuditHash_def audit_text_def)

lemma LogQuery_chained:
  assumes "chained sha ft [] (rev (ms_queries m))" "qa_PrevHash q = []"
  shows "chained sha ft [] (rev (ms_queries (snd (LogQuery sha ft now q m))))"
proof -
  have "last_hash [] (rev (ms_queries m)) = (case ms_queries m of [] \<Rightarrow> qa_PrevHash q | x # _ \<Rightarrow> qa_RowHash x)"
    using assms(2) by (cases "ms_queries m") simp_all
  then show ?thesis using assms(1) by (simp add: LogQuery_def Let_def chained_snoc)
qed

fun is_log :: "store_op \<Rightarrow> bool" where
  "is_log (OpLogQuery now q) \<longleftrightarrow> True"
| "is_log _ \<longleftrightarrow> False"

lemma store_step_queries:
  "\<not> is_log op \<Longrightarrow> ms_queries (store_step sha ft op m) = ms_queries m"
  by (cases op) (simp_all add: CreateISP_def SetISPEnabled_def SaveISPAccount_def DeleteISPAccount_def CreateUser_def UpdateUserPassword_def
      UpdateUserTOTP_def on_user_def DeleteUser_def SaveUser_def CreateDevice_def UpdateDevice_def DeleteDevice_def CreateAgent_def TouchAgent_def
      CreatePolicy_def DeletePolicy_def SavePolicy_def put_policy_def SaveInvestigation_def PutSetting_def Let_def
      split: option.splits sum.splits prod.splits if_splits)

text \<open>The director leaves the hashes of a row to the store.\<close>

fun log_blank :: "store_op \<Rightarrow> bool" where
  "log_blank (OpLogQuery now q) \<longleftrightarrow> qa_PrevHash q = []"
| "log_blank _ \<longleftrightarrow> True"

lemma store_run_chained:
  assumes "chained sha ft [] (rev (ms_queries m))" "list_all log_blank ops"
  shows "chained sha ft [] (rev (ms_queries (store_run sha ft ops m))) \<and>
    length (ms_queries (store_run sha ft ops m)) = length (ms_queries m) + length (filter is_log ops)"
  using assms
proof (induction ops arbitrary: m)
  case (Cons op ops)
  let ?m = "store_step sha ft op m"
  have "chained sha ft [] (rev (ms_queries ?m)) \<and> length (ms_queries ?m) = length (ms_queries m) + (if is_log op then 1 else 0)"
  proof (cases "is_log op")
    case True
    then obtain now q where op: "op = OpLogQuery now q" by (cases op) auto
    have "chained sha ft [] (rev (ms_queries (snd (LogQuery sha ft now q m))))"
      using LogQuery_chained Cons.prems op by simp
    then show ?thesis using op by (simp add: LogQuery_def Let_def)
  next
    case False
    from store_step_queries[OF this] show ?thesis using Cons.prems False by simp
  qed
  then show ?case using Cons.IH[of ?m] Cons.prems(2) by (simp add: store_run_def)
qed (simp add: store_run_def)

text \<open>
  C29. After every history of store operations the audit chain verifies, and the number of rows that are
  checked is the number of lookups that were logged: no other operation removes or alters a row.
\<close>

theorem audit_history_verifies:
  assumes "list_all log_blank ops"
  shows "VerifyAuditChain sha ft (store_run sha ft ops NewMem) = (length (filter is_log ops), None)"
  using store_run_chained[of sha ft NewMem ops] assms by (simp add: VerifyAuditChain_iff NewMem_def)

definition ex_audit :: "string \<Rightarrow> query_audit" where
  "ex_audit c = \<lparr>qa_ID = 0, qa_UserEmail = ''a@x'', qa_ISPID = 1, qa_QueryIP = ''1.2.3.4'', qa_QueryPort = 5, qa_QueryProto = ''tcp'',
     qa_FromTS = 10, qa_ToTS = 20, qa_ResultCount = 3, qa_CaseRef = c, qa_CreatedAt = 0, qa_PrevHash = [], qa_RowHash = []\<rparr>"

definition ex_sha :: "string \<Rightarrow> bytes" where
  "ex_sha s = [of_nat (length s)]"

theorem audit_history_verifies_witness:
  "VerifyAuditChain ex_sha int_text (store_run ex_sha int_text
     [OpLogQuery 5 (ex_audit ''FIR 1''), OpPutSetting ''s3'' ''{}'', OpLogQuery 6 (ex_audit ''FIR 2'')] NewMem) = (2, None)"
  using audit_history_verifies[of "[OpLogQuery 5 (ex_audit ''FIR 1''), OpPutSetting ''s3'' ''{}'', OpLogQuery 6 (ex_audit ''FIR 2'')]" ex_sha int_text]
  by (simp add: ex_audit_def numeral_2_eq_2)

section \<open>Tamper evidence\<close>

definition row_text :: "(int \<Rightarrow> string) \<Rightarrow> query_audit \<Rightarrow> string" where
  "row_text ft q = audit_text ft q (qa_PrevHash q)"

lemma hex_digits:
  "distinct (map hex_digit [0..<16]) \<and> CHR ''|'' \<notin> set (map hex_digit [0..<16])"
  by code_simp

lemma hex_digit_inj: "a < 16 \<Longrightarrow> b < 16 \<Longrightarrow> hex_digit a = hex_digit b \<Longrightarrow> a = b"
  using hex_digits by (simp only: distinct_map inj_on_def) (metis atLeast_upt lessThan_iff)

lemma hex_digit_no_bar:
  assumes "a < 16" shows "hex_digit a \<noteq> CHR ''|''"
proof -
  have "hex_digit a \<in> set (map hex_digit [0..<16])" using assms by simp
  then show ?thesis using hex_digits by metis
qed

lemma byte_nibbles: "unat (w :: u8) div 16 < 16" "unat w mod 16 < 16"
proof -
  have "unat w < 256" using unsigned_less[of w] by simp
  then show "unat w div 16 < 16" "unat w mod 16 < 16" by auto
qed

lemma hex_bytes_inj: "hex_bytes a = hex_bytes b \<Longrightarrow> a = b"
proof (induction a arbitrary: b)
  case Nil
  then show ?case by (cases b) (simp_all add: hex_bytes_def)
next
  case (Cons x xs)
  then obtain y ys where b: "b = y # ys" by (cases b) (auto simp: hex_bytes_def)
  have "unat x div 16 = unat y div 16" "unat x mod 16 = unat y mod 16"
    using Cons.prems b by (auto simp: hex_bytes_def intro!: hex_digit_inj byte_nibbles)
  then have "x = y" by (metis div_mult_mod_eq word_unat_eq_iff)
  moreover have "hex_bytes xs = hex_bytes ys" using Cons.prems b by (simp add: hex_bytes_def)
  ultimately show ?case using Cons.IH b by blast
qed

lemma hex_bytes_no_bar: "CHR ''|'' \<notin> set (hex_bytes b)"
  using hex_digit_no_bar[OF byte_nibbles(1)] hex_digit_no_bar[OF byte_nibbles(2)] by (auto simp: hex_bytes_def) metis+

lemma hex_bytes_Nil [simp]: "hex_bytes b = [] \<longleftrightarrow> b = []"
  by (auto simp: hex_bytes_def)

lemma until_bar: "c \<notin> set s \<Longrightarrow> takeWhile (\<lambda>x. x \<noteq> c) (s @ c # t) = s"
  by (induction s) auto

lemma audit_text_previous:
  assumes "audit_text ft q p = audit_text ft r p'" "CHR ''|'' \<notin> set p" "CHR ''|'' \<notin> set p'"
  shows "p = p'"
proof -
  obtain s t where "p @ CHR ''|'' # s = p' @ CHR ''|'' # t"
    using assms(1) by (auto simp: audit_text_def)
  then show ?thesis using until_bar[OF assms(2), of s] until_bar[OF assms(3), of t] by metis
qed

definition collision :: "(string \<Rightarrow> bytes) \<Rightarrow> string set \<Rightarrow> string set \<Rightarrow> bool" where
  "collision sha X Y \<longleftrightarrow> (\<exists>x\<in>X. \<exists>y\<in>Y. x \<noteq> y \<and> sha x = sha y)"

lemma chained_last_hash:
  "chained sha ft [] qs \<Longrightarrow> qs \<noteq> [] \<Longrightarrow> qa_RowHash (last qs) = hex_bytes (sha (row_text ft (last qs)))"
  by (cases qs rule: rev_cases) (auto simp: chained_snoc AuditHash_def row_text_def)

lemma chained_same_texts:
  assumes "chained sha ft [] qs" "chained sha ft [] rs" "last_hash [] qs = last_hash [] rs" "\<And>x. sha x \<noteq> []"
  shows "map (row_text ft) qs = map (row_text ft) rs \<or> collision sha (row_text ft ` set qs) (row_text ft ` set rs)"
  using assms(1-3)
proof (induction qs arbitrary: rs rule: rev_induct)
  case Nil
  then have "rs = []" using chained_last_hash[of sha ft rs] assms(4) by (metis hex_bytes_Nil)
  then show ?case by simp
next
  case (snoc q qs)
  have "rs \<noteq> []" using snoc.prems chained_last_hash[of sha ft "qs @ [q]"] assms(4) by (metis hex_bytes_Nil snoc_eq_iff_butlast)
  then obtain rs' r where rs: "rs = rs' @ [r]" by (cases rs rule: rev_cases) auto
  have "hex_bytes (sha (row_text ft q)) = hex_bytes (sha (row_text ft r))"
    using snoc.prems chained_last_hash[of sha ft "qs @ [q]"] chained_last_hash[of sha ft rs] rs by simp
  then have sha: "sha (row_text ft q) = sha (row_text ft r)" by (rule hex_bytes_inj)
  show ?case
  proof (cases "row_text ft q = row_text ft r")
    case False
    then show ?thesis using sha rs by (auto simp: collision_def)
  next
    case True
    have prev: "qa_PrevHash q = last_hash [] qs" "qa_PrevHash r = last_hash [] rs'" and ch: "chained sha ft [] qs" "chained sha ft [] rs'"
      using snoc.prems rs by (simp_all add: chained_snoc)
    have nobar: "CHR ''|'' \<notin> set (last_hash [] xs)" if "chained sha ft [] xs" for xs
      using chained_last_hash[OF that] hex_bytes_no_bar by simp
    have "audit_text ft q (last_hash [] qs) = audit_text ft r (last_hash [] rs')"
      using True prev by (simp only: row_text_def)
    then have "last_hash [] qs = last_hash [] rs'"
      using nobar[OF ch(1)] nobar[OF ch(2)] by (rule audit_text_previous)
    from snoc.IH[OF ch this] show ?thesis using True rs by (auto simp: collision_def)
  qed
qed

text \<open>
  C30. Two stores whose audit chains verify and whose newest rows carry the same hash hold the same number of
  rows with the same hashed texts, row by row; otherwise the two chains contain a collision of the hash.
\<close>

theorem audit_tamper_evident:
  assumes "VerifyAuditChain sha ft m = (n, None)" "VerifyAuditChain sha ft m' = (n', None)"
    "ms_queries m = q # qs" "ms_queries m' = r # rs" "qa_RowHash q = qa_RowHash r" "\<And>x. sha x \<noteq> []"
  shows "n = n' \<and> map (row_text ft) (ms_queries m) = map (row_text ft) (ms_queries m') \<or>
    collision sha (row_text ft ` set (ms_queries m)) (row_text ft ` set (ms_queries m'))"
proof -
  have "map (row_text ft) (rev (ms_queries m)) = map (row_text ft) (rev (ms_queries m')) \<or>
      collision sha (row_text ft ` set (rev (ms_queries m))) (row_text ft ` set (rev (ms_queries m')))"
    using assms by (intro chained_same_texts) (auto simp: VerifyAuditChain_iff)
  moreover have "n = length (ms_queries m)" "n' = length (ms_queries m')"
    using assms by (simp_all add: VerifyAuditChain_iff)
  ultimately show ?thesis
    by (metis length_map length_rev rev_map rev_rev_ident set_rev)
qed

definition ex_store :: "mem_store" where
  "ex_store = store_run ex_sha int_text [OpLogQuery 5 (ex_audit ''FIR 1''), OpLogQuery 6 (ex_audit ''FIR 2'')] NewMem"

theorem audit_tamper_evident_witness:
  "2 = (2::nat) \<and> map (row_text int_text) (ms_queries ex_store) = map (row_text int_text) (ms_queries ex_store) \<or>
    collision ex_sha (row_text int_text ` set (ms_queries ex_store)) (row_text int_text ` set (ms_queries ex_store))"
proof -
  have v: "VerifyAuditChain ex_sha int_text ex_store = (2, None)" by code_simp
  then have "ms_queries ex_store \<noteq> []" by (auto simp: VerifyAuditChain_iff)
  then obtain q qs where q: "ms_queries ex_store = q # qs" by (cases "ms_queries ex_store") auto
  show ?thesis by (rule audit_tamper_evident[OF v v q q refl]) (simp add: ex_sha_def)
qed

section \<open>What the text does not determine\<close>


end
