(* ===== verification/Go_Base.thy ===== *)
theory Go_Base
  imports Go_Strings
begin

text \<open>
  The packages \<open>encoding/base64\<close> (\<open>RawURLEncoding\<close>) and \<open>encoding/base32\<close> (\<open>StdEncoding\<close> without
  padding) of Go.  Decoding drops carriage returns and line feeds, and is not strict about the
  unused bits of a last incomplete quantum.
\<close>

section \<open>Alphabets\<close>

definition b64_alphabet :: string where
  "b64_alphabet = ''ABCDEFGHIJKLMNOPQRSTUVWXYZabcdefghijklmnopqrstuvwxyz0123456789-_''"

definition b32_alphabet :: string where
  "b32_alphabet = ''ABCDEFGHIJKLMNOPQRSTUVWXYZ234567''"

definition alpha_value :: "string \<Rightarrow> char \<Rightarrow> nat option" where
  "alpha_value al c = (let i = length (takeWhile (\<lambda>x. x \<noteq> c) al) in if i < length al then Some i else None)"

fun alpha_values :: "string \<Rightarrow> string \<Rightarrow> nat list option" where
  "alpha_values al [] = Some []"
| "alpha_values al (c # cs) =
     (case alpha_value al c of None \<Rightarrow> None | Some v \<Rightarrow> map_option ((#) v) (alpha_values al cs))"

definition strip_newlines :: "string \<Rightarrow> string" where
  "strip_newlines = filter (\<lambda>c. c \<noteq> CHR 0x0A \<and> c \<noteq> CHR 0x0D)"

lemma alpha_value_nth:
  assumes "distinct al" "i < length al"
  shows "alpha_value al (al ! i) = Some i"
proof -
  have "takeWhile (\<lambda>x. x \<noteq> al ! i) al = take i al"
    using assms by (intro takeWhile_eq_take_P_nth) (auto simp: nth_eq_iff_index_eq)
  then show ?thesis using assms by (simp add: alpha_value_def Let_def)
qed

lemma alpha_values_map:
  assumes "distinct al" "\<forall>i\<in>set ds. i < length al"
  shows "alpha_values al (map ((!) al) ds) = Some ds"
  using assms(2) by (induction ds) (auto simp: alpha_value_nth[OF assms(1)])

lemma alpha_values_in:
  "alpha_values al s = Some ds \<Longrightarrow> set s \<subseteq> set al"
proof (induction s arbitrary: ds)
  case (Cons c cs)
  then have "alpha_value al c \<noteq> None" "alpha_values al cs \<noteq> None" by (auto split: option.splits)
  then have "length (takeWhile (\<lambda>x. x \<noteq> c) al) < length al"
    by (simp add: alpha_value_def Let_def split: if_splits)
  then have "takeWhile (\<lambda>x. x \<noteq> c) al \<noteq> al" by (metis order_less_irrefl)
  then have "c \<in> set al" unfolding takeWhile_eq_all_conv by blast
  moreover have "set cs \<subseteq> set al" using Cons by (auto split: option.splits)
  ultimately show ?case by simp
qed simp

lemma strip_newlines_id: "CHR 0x0A \<notin> set s \<Longrightarrow> CHR 0x0D \<notin> set s \<Longrightarrow> strip_newlines s = s"
  by (induction s) (auto simp: strip_newlines_def)

section \<open>Base 64\<close>

fun b64_pack :: "nat list \<Rightarrow> nat list" where
  "b64_pack [] = []"
| "b64_pack [a] = [a div 4, (a mod 4) * 16]"
| "b64_pack [a, b] = [a div 4, (a mod 4) * 16 + b div 16, (b mod 16) * 4]"
| "b64_pack (a # b # c # r) = a div 4 # ((a mod 4) * 16 + b div 16) # ((b mod 16) * 4 + c div 64) # c mod 64 # b64_pack r"

fun b64_unpack :: "nat list \<Rightarrow> nat list option" where
  "b64_unpack [] = Some []"
| "b64_unpack [w] = None"
| "b64_unpack [w, x] = Some [w * 4 + x div 16]"
| "b64_unpack [w, x, y] = Some [w * 4 + x div 16, (x mod 16) * 16 + y div 4]"
| "b64_unpack (w # x # y # z # r) =
     map_option (\<lambda>t. (w * 4 + x div 16) # ((x mod 16) * 16 + y div 4) # ((y mod 4) * 64 + z) # t) (b64_unpack r)"

definition b64_encode :: "bytes \<Rightarrow> string" where
  "b64_encode b = map ((!) b64_alphabet) (b64_pack (map unat b))"

definition b64_decode :: "string \<Rightarrow> bytes option" where
  "b64_decode s = Option.bind (alpha_values b64_alphabet (strip_newlines s)) (\<lambda>ds. map_option (map of_nat) (b64_unpack ds))"

lemma b64_alphabet_facts:
  "distinct b64_alphabet" "length b64_alphabet = 64" "CHR 0x0A \<notin> set b64_alphabet" "CHR 0x0D \<notin> set b64_alphabet"
  "CHR ''.'' \<notin> set b64_alphabet" "CHR ''|'' \<notin> set b64_alphabet"
  by (code_simp, code_simp, code_simp, code_simp, code_simp, code_simp)

lemma b64_pack_bound: "\<forall>a\<in>set xs. a < 256 \<Longrightarrow> \<forall>d\<in>set (b64_pack xs). d < 64"
  by (induction xs rule: b64_pack.induct) auto

lemma b64_unpack_pack:
  "\<forall>a\<in>set xs. a < 256 \<Longrightarrow> b64_unpack (b64_pack xs) = Some xs"
proof (induction xs rule: b64_pack.induct)
  case (4 a b c r)
  have "a div 4 * 4 + ((a mod 4) * 16 + b div 16) div 16 = a" "(((a mod 4) * 16 + b div 16) mod 16) * 16 + ((b mod 16) * 4 + c div 64) div 4 = b"
    "(((b mod 16) * 4 + c div 64) mod 4) * 64 + c mod 64 = c"
    using 4(2) by auto
  then show ?case using 4 by simp
qed auto

lemma map_of_nat_unat: "map (of_nat \<circ> unat) (b :: bytes) = b"
  by (induction b) simp_all

lemma byte_less: "\<forall>a\<in>set (map unat (b :: bytes)). a < 256"
proof -
  have "unat (w :: byte) < 256" for w using unsigned_less[of w] by simp
  then show ?thesis by simp
qed

lemma b64_encode_alphabet: "set (b64_encode b) \<subseteq> set b64_alphabet"
  using b64_pack_bound[OF byte_less, of b] b64_alphabet_facts(2) by (auto simp: b64_encode_def)

lemma b64_decode_encode [simp]: "b64_decode (b64_encode b) = Some b"
proof -
  have "strip_newlines (b64_encode b) = b64_encode b"
    using b64_encode_alphabet[of b] b64_alphabet_facts(3,4) by (intro strip_newlines_id) auto
  moreover have "alpha_values b64_alphabet (b64_encode b) = Some (b64_pack (map unat b))"
    using b64_pack_bound[OF byte_less, of b] b64_alphabet_facts(1,2) unfolding b64_encode_def by (intro alpha_values_map) auto
  ultimately show ?thesis
    using b64_unpack_pack[OF byte_less, of b] by (simp add: b64_decode_def map_of_nat_unat)
qed

lemma b64_encode_inj: "b64_encode a = b64_encode b \<Longrightarrow> a = b"
  by (metis b64_decode_encode option.inject)

lemma b64_decode_no_bar: "b64_decode s = Some b \<Longrightarrow> CHR ''|'' \<notin> set s"
  using alpha_values_in[of b64_alphabet "strip_newlines s"] b64_alphabet_facts(6)
  by (auto simp: b64_decode_def strip_newlines_def bind_eq_Some_conv)

section \<open>Base 32\<close>

fun be_digits :: "nat \<Rightarrow> nat \<Rightarrow> nat \<Rightarrow> nat list" where
  "be_digits b 0 v = []"
| "be_digits b (Suc n) v = be_digits b n (v div b) @ [v mod b]"

definition be_value :: "nat \<Rightarrow> nat list \<Rightarrow> nat" where
  "be_value b ds = foldl (\<lambda>a d. a * b + d) 0 ds"

lemma be_digits_length [simp]: "length (be_digits b n v) = n"
  by (induction n arbitrary: v) auto

lemma be_digits_bound: "0 < b \<Longrightarrow> d \<in> set (be_digits b n v) \<Longrightarrow> d < b"
  by (induction n arbitrary: v) auto

lemma be_value_digits: "0 < b \<Longrightarrow> v < b ^ n \<Longrightarrow> be_value b (be_digits b n v) = v"
proof (induction n arbitrary: v)
  case (Suc n)
  have "v div b < b ^ n" using Suc.prems by (simp add: less_mult_imp_div_less mult.commute)
  then show ?case using Suc by (simp add: be_value_def)
qed (simp add: be_value_def)

lemma be_value_bound: "\<forall>d\<in>set ds. d < b \<Longrightarrow> be_value b ds < b ^ length ds"
proof (induction ds rule: rev_induct)
  case (snoc d ds)
  then have "be_value b ds + 1 \<le> b ^ length ds" "d < b" by auto
  then have "(be_value b ds + 1) * b \<le> b ^ length ds * b" by (intro mult_le_mono1)
  then show ?case using \<open>d < b\<close> by (simp add: be_value_def mult.commute)
qed (simp add: be_value_def)

lemma be_digits_value: "\<forall>d\<in>set ds. d < b \<Longrightarrow> be_digits b (length ds) (be_value b ds) = ds"
  by (induction ds rule: rev_induct) (auto simp: be_value_def)

function pieces :: "nat \<Rightarrow> 'a list \<Rightarrow> 'a list list" where
  "pieces n xs = (if n = 0 \<or> xs = [] then [] else take n xs # pieces n (drop n xs))"
  by pat_completeness auto
termination
  by (relation "measure (\<lambda>(n, xs). length xs)") auto

declare pieces.simps [simp del]

text \<open>The bytes that a quantum of \<open>n\<close> characters gives.\<close>

definition b32_size :: "nat \<Rightarrow> nat" where
  "b32_size n = (if n = 8 then 5 else if n = 7 then 4 else if n = 5 then 3 else if n = 4 then 2 else if n = 2 then 1 else 0)"

definition b32_quantum :: "nat list \<Rightarrow> nat list" where
  "b32_quantum ds = take (b32_size (length ds)) (be_digits 256 5 (be_value 32 (ds @ replicate (8 - length ds) 0)))"

definition b32_group :: "nat list \<Rightarrow> nat list" where
  "b32_group xs = take ((8 * length xs + 4) div 5) (be_digits 32 8 (be_value 256 (xs @ replicate (5 - length xs) 0)))"

definition b32_encode :: "bytes \<Rightarrow> string" where
  "b32_encode b = map ((!) b32_alphabet) (concat (map b32_group (pieces 5 (map unat b))))"

definition b32_decode :: "string \<Rightarrow> bytes option" where
  "b32_decode s = map_option (\<lambda>ds. map of_nat (concat (map b32_quantum (pieces 8 ds)))) (alpha_values b32_alphabet (strip_newlines s))"

lemma b32_alphabet_facts:
  "distinct b32_alphabet" "length b32_alphabet = 32" "CHR 0x0A \<notin> set b32_alphabet" "CHR 0x0D \<notin> set b32_alphabet"
  by (code_simp, code_simp, code_simp, code_simp)

lemma b32_group_full:
  assumes "length xs = 5" "\<forall>a\<in>set xs. a < 256"
  shows "length (b32_group xs) = 8" "\<forall>d\<in>set (b32_group xs). d < 32" "b32_quantum (b32_group xs) = xs"
proof -
  have g: "b32_group xs = be_digits 32 8 (be_value 256 xs)" using assms(1) by (simp add: b32_group_def)
  then show l: "length (b32_group xs) = 8" "\<forall>d\<in>set (b32_group xs). d < 32"
    using be_digits_bound[of 32 _ 8 "be_value 256 xs"] by auto
  have "be_value 256 xs < 32 ^ 8" using be_value_bound[OF assms(2)] assms(1) by simp
  then have "be_value 32 (b32_group xs) = be_value 256 xs" using g by (simp add: be_value_digits)
  then show "b32_quantum (b32_group xs) = xs"
    using l(1) be_digits_value[OF assms(2)] assms(1) by (simp add: b32_quantum_def b32_size_def)
qed

lemma pieces_append: "0 < n \<Longrightarrow> length xs = n \<Longrightarrow> pieces n (xs @ ys) = xs # pieces n ys"
  by (subst pieces.simps) auto

lemma pieces_Nil [simp]: "pieces n [] = []"
  by (subst pieces.simps) simp

lemma b32_quanta_groups:
  assumes "\<forall>a\<in>set xs. a < 256" "5 dvd length xs"
  shows "(\<forall>d\<in>set (concat (map b32_group (pieces 5 xs))). d < 32) \<and>
    concat (map b32_quantum (pieces 8 (concat (map b32_group (pieces 5 xs))))) = xs"
  using assms
proof (induction "length xs" arbitrary: xs rule: less_induct)
  case less
  show ?case
  proof (cases "xs = []")
    case False
    define ys zs where "ys = take 5 xs" and "zs = drop 5 xs"
    have xs: "xs = ys @ zs" "length ys = 5" "5 dvd length zs" "length zs < length xs"
      using False less.prems(2) by (auto simp: ys_def zs_def dest: dvd_imp_le)
    have b: "\<forall>a\<in>set ys. a < 256" "\<forall>a\<in>set zs. a < 256" using less.prems(1) xs(1) by auto
    note g = b32_group_full[OF xs(2) b(1)]
    have "pieces 5 xs = ys # pieces 5 zs" using xs by (simp add: pieces_append)
    then show ?thesis using less.hyps[OF xs(4) b(2) xs(3)] g xs(1) by (auto simp: pieces_append)
  qed simp
qed

text \<open>A whole number of groups, as the 20 bytes of a new secret, is decoded to what was encoded.\<close>

lemma b32_decode_encode:
  assumes "5 dvd length b"
  shows "b32_decode (b32_encode b) = Some b"
proof -
  define ds where "ds = concat (map b32_group (pieces 5 (map unat b)))"
  have ds: "\<forall>d\<in>set ds. d < 32" "concat (map b32_quantum (pieces 8 ds)) = map unat b"
    using b32_quanta_groups[OF byte_less, of b] assms by (simp_all add: ds_def)
  have enc: "b32_encode b = map ((!) b32_alphabet) ds" by (simp add: b32_encode_def ds_def)
  then have "set (b32_encode b) \<subseteq> set b32_alphabet" using ds(1) b32_alphabet_facts(2) by auto
  then have "strip_newlines (b32_encode b) = b32_encode b"
    using b32_alphabet_facts(3,4) by (intro strip_newlines_id) auto
  moreover have "alpha_values b32_alphabet (b32_encode b) = Some ds"
    using ds(1) b32_alphabet_facts(1,2) unfolding enc by (intro alpha_values_map) auto
  ultimately show ?thesis using ds(2) by (simp add: b32_decode_def map_of_nat_unat)
qed

end
