(* ===== verification/Auth.thy ===== *)
theory Auth
  imports Go_Base Go_Date Store_Mem "HOL-Library.Signed_Division"
begin

text \<open>
  Authentication of the director: \<open>internal/director/auth.go\<close>, \<open>auth_throttle.go\<close> and \<open>totp.go\<close>
  (the parts that are not HTTP handlers).

  The cryptographic primitives (HMAC, SHA-256, bcrypt, AES-GCM) and the JSON codec of the identity
  are fields of \<open>auth_env\<close>; random bytes are arguments.  Times are nanoseconds since 1970, the
  expiry of a session is in seconds.  Constant-time comparison is equality.
\<close>

section \<open>Identities\<close>

record identity =
  id_UserID :: int
  id_ISPID :: u32
  id_Role :: string
  id_Email :: string
  id_Exp :: int

record auth_env =
  ae_key :: bytes
  ae_hmac :: "bytes \<Rightarrow> bytes \<Rightarrow> bytes"
  ae_hmac1 :: "bytes \<Rightarrow> bytes \<Rightarrow> bytes"
  ae_sha :: "bytes \<Rightarrow> bytes"
  ae_marshal :: "identity \<Rightarrow> bytes"
  ae_unmarshal :: "bytes \<Rightarrow> identity option"
  ae_compare :: "string \<Rightarrow> string \<Rightarrow> bool"
  ae_generate :: "string \<Rightarrow> string option"
  ae_seal :: "bytes \<Rightarrow> bytes \<Rightarrow> bytes \<Rightarrow> bytes \<Rightarrow> bytes"
  ae_open :: "bytes \<Rightarrow> bytes \<Rightarrow> bytes \<Rightarrow> bytes \<Rightarrow> bytes option"
  ae_dummyHash :: string
  ae_revalidateSessions :: bool

definition sessionTTL :: int where
  "sessionTTL = 12 * 60 * 60 * 1000000000"

definition HashPassword :: "auth_env \<Rightarrow> string \<Rightarrow> string option" where
  "HashPassword E pw = ae_generate E pw"

definition VerifyPassword :: "auth_env \<Rightarrow> string \<Rightarrow> string \<Rightarrow> bool" where
  "VerifyPassword E hash pw = ae_compare E hash pw"

definition HashToken :: "auth_env \<Rightarrow> string \<Rightarrow> string" where
  "HashToken E tok = hex_bytes (ae_sha E (bytes_of_str tok))"

text \<open>\<open>rnd\<close> are the 32 random bytes, \<open>None\<close> when the source of randomness fails.\<close>

definition NewToken :: "bytes option \<Rightarrow> string option" where
  "NewToken rnd = map_option hex_bytes rnd"

section \<open>Sessions\<close>

definition signSession :: "auth_env \<Rightarrow> identity \<Rightarrow> string" where
  "signSession E i =
     (let p = b64_encode (ae_marshal E i) in p @ ''.'' @ b64_encode (ae_hmac E (ae_key E) (bytes_of_str p)))"

text \<open>\<open>strings.SplitN(v, ".", 2)\<close>: the parts before and after the first dot.\<close>

definition split_dot :: "string \<Rightarrow> (string \<times> string) option" where
  "split_dot v = (case dropWhile (\<lambda>c. c \<noteq> CHR ''.'') v of [] \<Rightarrow> None | _ # t \<Rightarrow> Some (takeWhile (\<lambda>c. c \<noteq> CHR ''.'') v, t))"

definition parseSession :: "auth_env \<Rightarrow> int \<Rightarrow> string \<Rightarrow> identity option" where
  "parseSession E now v =
     (case split_dot v of
        None \<Rightarrow> None
      | Some (p, sig) \<Rightarrow>
          if b64_encode (ae_hmac E (ae_key E) (bytes_of_str p)) \<noteq> sig then None
          else case b64_decode p of
            None \<Rightarrow> None
          | Some raw \<Rightarrow>
              (case ae_unmarshal E raw of
                 None \<Rightarrow> None
               | Some i \<Rightarrow> if now div 1000000000 > id_Exp i then None else Some i))"

definition csrf_text :: "identity \<Rightarrow> string" where
  "csrf_text i = ''csrf|'' @ int_text (id_UserID i) @ ''|'' @ int_text (id_Exp i)"

definition csrfToken :: "auth_env \<Rightarrow> identity \<Rightarrow> string" where
  "csrfToken E i = b64_encode (ae_hmac E (ae_key E) (bytes_of_str (csrf_text i)))"

definition validCSRF :: "auth_env \<Rightarrow> identity \<Rightarrow> string \<Rightarrow> bool" where
  "validCSRF E i submitted \<longleftrightarrow> csrfToken E i = submitted"

definition isDirector :: "identity \<Rightarrow> bool" where
  "isDirector i \<longleftrightarrow> id_Role i = RoleDirector"

definition canManage :: "identity \<Rightarrow> bool" where
  "canManage i \<longleftrightarrow> id_Role i = RoleDirector \<or> id_Role i = RoleISP"

definition canSearch :: "identity \<Rightarrow> bool" where
  "canSearch i \<longleftrightarrow> canManage i \<or> id_Role i = RoleAnalyst \<or> id_Role i = RoleAuditor"

definition canExport :: "identity \<Rightarrow> bool" where
  "canExport i \<longleftrightarrow> canManage i \<or> id_Role i = RoleAnalyst"

definition scopeISP :: "identity \<Rightarrow> u32 \<Rightarrow> u32 option" where
  "scopeISP i requested =
     (if isDirector i then Some requested
      else if id_ISPID i = 0 then None
      else if requested \<noteq> 0 \<and> requested \<noteq> id_ISPID i then None
      else Some (id_ISPID i))"

section \<open>The login throttle\<close>

record login_attempt =
  la_count :: int
  la_firstTry :: int
  la_lockoutAt :: "int option"

record login_throttle =
  lt_attempts :: "(string \<times> login_attempt) list"
  lt_maxAttempts :: int
  lt_window :: int
  lt_lockoutTime :: int

definition NewLoginThrottle :: "int \<Rightarrow> int \<Rightarrow> int \<Rightarrow> login_throttle" where
  "NewLoginThrottle maxAttempts window lockout =
     \<lparr>lt_attempts = [], lt_maxAttempts = (if maxAttempts \<le> 0 then 5 else maxAttempts),
      lt_window = (if window \<le> 0 then 10 * 60 * 1000000000 else window),
      lt_lockoutTime = (if lockout \<le> 0 then 15 * 60 * 1000000000 else lockout)\<rparr>"

definition forget :: "string \<Rightarrow> login_throttle \<Rightarrow> login_throttle" where
  "forget key lt = lt\<lparr>lt_attempts := AList.delete key (lt_attempts lt)\<rparr>"

definition Check_throttle :: "int \<Rightarrow> string \<Rightarrow> login_throttle \<Rightarrow> (bool \<times> int) \<times> login_throttle" where
  "Check_throttle now key lt =
     (case map_of (lt_attempts lt) key of
        None \<Rightarrow> ((False, 0), lt)
      | Some att \<Rightarrow>
          (case la_lockoutAt att of
             Some t \<Rightarrow> if now < t then ((True, t - now), lt) else ((False, 0), forget key lt)
           | None \<Rightarrow> if now - la_firstTry att > lt_window lt then ((False, 0), forget key lt) else ((False, 0), lt)))"

definition expired :: "int \<Rightarrow> int \<Rightarrow> login_attempt \<Rightarrow> bool" where
  "expired now window a \<longleftrightarrow> (case la_lockoutAt a of Some t \<Rightarrow> now > t | None \<Rightarrow> now - la_firstTry a > window)"

definition RecordFailure :: "int \<Rightarrow> string \<Rightarrow> login_throttle \<Rightarrow> (bool \<times> int) \<times> login_throttle" where
  "RecordFailure now key lt =
     (let fresh = \<lparr>la_count = 1, la_firstTry = now, la_lockoutAt = None\<rparr>;
          att = (case map_of (lt_attempts lt) key of
                   None \<Rightarrow> fresh
                 | Some a \<Rightarrow> if now - la_firstTry a > lt_window lt then fresh else a\<lparr>la_count := la_count a + 1\<rparr>)
      in if la_count att \<ge> lt_maxAttempts lt
         then ((True, lt_lockoutTime lt),
               lt\<lparr>lt_attempts := AList.update key (att\<lparr>la_lockoutAt := Some (now + lt_lockoutTime lt)\<rparr>) (lt_attempts lt)\<rparr>)
         else let attempts = AList.update key att (lt_attempts lt)
              in ((False, 0), lt\<lparr>lt_attempts := (if length attempts > 10000 then filter (\<lambda>(k, v). \<not> expired now (lt_window lt) v) attempts
                                               else attempts)\<rparr>))"

definition RecordSuccess :: "string \<Rightarrow> login_throttle \<Rightarrow> login_throttle" where
  "RecordSuccess key lt = forget key lt"

section \<open>One-time codes\<close>

definition totpSecretPrefix :: string where
  "totpSecretPrefix = ''enc:totp:v1:''"

definition NewTOTPSecret :: "bytes option \<Rightarrow> string option" where
  "NewTOTPSecret rnd = map_option b32_encode rnd"

definition totp_counter :: "int \<Rightarrow> bytes" where
  "totp_counter sec = (let c = word_of_int (sec sdiv 30) :: u64 in map (\<lambda>i. ucast (drop_bit (8 * (7 - i)) c)) [0..<8])"

text \<open>The dynamic truncation of a 20-byte tag; \<open>None\<close> is an index out of range.\<close>

definition truncate_tag :: "bytes \<Rightarrow> u32 option" where
  "truncate_tag tag =
     (if tag = [] then None
      else let i = unat (last tag AND 15) in
      if i + 3 < length tag
      then Some (push_bit 24 (ucast (tag ! i) AND 127) OR push_bit 16 (ucast (tag ! (i + 1))) OR push_bit 8 (ucast (tag ! (i + 2))) OR ucast (tag ! (i + 3)))
      else None)"

definition TOTPCode :: "auth_env \<Rightarrow> string \<Rightarrow> int \<Rightarrow> string option" where
  "TOTPCode E secret sec =
     (case b32_decode (to_upper (trim_str secret)) of
        None \<Rightarrow> None
      | Some key \<Rightarrow> map_option (\<lambda>n. pad0 6 (unat n mod 1000000)) (truncate_tag (ae_hmac1 E key (totp_counter sec))))"

definition VerifyTOTP :: "auth_env \<Rightarrow> string \<Rightarrow> string \<Rightarrow> int \<Rightarrow> bool" where
  "VerifyTOTP E secret code sec \<longleftrightarrow>
     length code = 6 \<and> list_ex (\<lambda>d. TOTPCode E secret (sec + d * 30) = Some code) [- 1, 0, 1]"

definition totp_key :: "auth_env \<Rightarrow> bytes" where
  "totp_key E = ae_sha E (bytes_of_str ''yeslogs-totp-secret-v1:'' @ ae_key E)"

definition nonceSize :: nat where
  "nonceSize = 12"

definition sealTOTPSecret :: "auth_env \<Rightarrow> bytes option \<Rightarrow> string \<Rightarrow> string option" where
  "sealTOTPSecret E rnd plain =
     (if plain = [] then Some []
      else map_option (\<lambda>nonce. totpSecretPrefix @ b64_encode (nonce @ ae_seal E (totp_key E) nonce (bytes_of_str plain) (bytes_of_str totpSecretPrefix))) rnd)"

definition openTOTPSecret :: "auth_env \<Rightarrow> string \<Rightarrow> string option" where
  "openTOTPSecret E value =
     (if value = [] \<or> take (length totpSecretPrefix) value \<noteq> totpSecretPrefix then Some value
      else case b64_decode (drop (length totpSecretPrefix) value) of
        None \<Rightarrow> None
      | Some raw \<Rightarrow>
          if length raw < nonceSize then None
          else map_option str_of_bytes (ae_open E (totp_key E) (take nonceSize raw) (drop nonceSize raw) (bytes_of_str totpSecretPrefix)))"

definition verifyUserTOTP :: "auth_env \<Rightarrow> user \<Rightarrow> string \<Rightarrow> int \<Rightarrow> bool" where
  "verifyUserTOTP E u code sec = (case openTOTPSecret E (us_TOTPSecret u) of None \<Rightarrow> False | Some secret \<Rightarrow> VerifyTOTP E secret code sec)"

section \<open>Laws of sessions\<close>

lemma sep_while:
  "c \<notin> set p \<Longrightarrow> dropWhile (\<lambda>x. x \<noteq> c) (p @ c # t) = c # t" "c \<notin> set p \<Longrightarrow> takeWhile (\<lambda>x. x \<noteq> c) (p @ c # t) = p"
  by (induction p) auto

lemma split_dot_append:
  assumes "CHR ''.'' \<notin> set p" shows "split_dot (p @ ''.'' @ t) = Some (p, t)"
  using sep_while[OF assms, of t] by (simp only: split_dot_def append_Cons append_Nil list.case)

lemma split_dot_Some:
  assumes "split_dot v = Some (p, t)"
  shows "v = p @ ''.'' @ t" "CHR ''.'' \<notin> set p"
proof -
  obtain c where d: "dropWhile (\<lambda>c. c \<noteq> CHR ''.'') v = c # t" "p = takeWhile (\<lambda>c. c \<noteq> CHR ''.'') v"
    using assms by (auto simp: split_dot_def split: list.splits)
  then have "c = CHR ''.''" using hd_dropWhile[of "\<lambda>c. c \<noteq> CHR ''.''" v] by simp
  then show "v = p @ ''.'' @ t" using d takeWhile_dropWhile_id[of "\<lambda>c. c \<noteq> CHR ''.''" v] by simp
  show "CHR ''.'' \<notin> set p" using d(2) by (auto dest: set_takeWhileD)
qed

lemma parseSession_sign:
  assumes "ae_unmarshal E (ae_marshal E i) = Some i"
  shows "parseSession E now (signSession E i) = (if now div 1000000000 > id_Exp i then None else Some i)"
proof -
  have "CHR ''.'' \<notin> set (b64_encode (ae_marshal E i))" using b64_encode_alphabet b64_alphabet_facts(5) by blast
  then show ?thesis
    using assms by (simp add: parseSession_def signSession_def Let_def split_dot_append[simplified])
qed

lemma bytes_of_str_inj: "bytes_of_str a = bytes_of_str b \<Longrightarrow> a = b"
  by (metis str_of_bytes_of_str)

text \<open>
  C23. A cookie is accepted only if it ends in the tag of its payload under the server key, the payload decodes
  to the identity and the session has not expired; the tagged payload is never a text that CSRF tokens are
  derived from, so a CSRF token handed to a page is not the signature of any cookie.
\<close>

theorem session_authentic:
  assumes "parseSession E now v = Some i"
  shows "\<exists>p raw. v = p @ ''.'' @ b64_encode (ae_hmac E (ae_key E) (bytes_of_str p)) \<and> b64_decode p = Some raw \<and>
    ae_unmarshal E raw = Some i \<and> now div 1000000000 \<le> id_Exp i \<and> (\<forall>j. bytes_of_str p \<noteq> bytes_of_str (csrf_text j))"
proof -
  obtain p sig where d: "split_dot v = Some (p, sig)"
    using assms by (auto simp: parseSession_def split: option.splits)
  then have s: "sig = b64_encode (ae_hmac E (ae_key E) (bytes_of_str p))"
    using assms by (auto simp: parseSession_def split: option.splits if_splits)
  then obtain raw where r: "b64_decode p = Some raw" "ae_unmarshal E raw = Some i" "now div 1000000000 \<le> id_Exp i"
    using assms d by (auto simp: parseSession_def split: option.splits if_splits)
  have "bytes_of_str p \<noteq> bytes_of_str (csrf_text j)" for j
    using b64_decode_no_bar[OF r(1)] by (auto simp: csrf_text_def dest: bytes_of_str_inj)
  with s r split_dot_Some(1)[OF d] show ?thesis by blast
qed

definition ex_env :: auth_env where
  "ex_env = \<lparr>ae_key = [1, 2], ae_hmac = (\<lambda>k m. take 4 (k @ m)), ae_hmac1 = (\<lambda>k m. take 20 (k @ m @ replicate 20 0)), ae_sha = (\<lambda>m. m),
     ae_marshal = (\<lambda>i. bytes_of_str (id_Email i)),
     ae_unmarshal = (\<lambda>b. Some \<lparr>id_UserID = 1, id_ISPID = 7, id_Role = RoleISP, id_Email = str_of_bytes b, id_Exp = 100\<rparr>),
     ae_compare = (\<lambda>h pw. h = pw), ae_generate = Some, ae_seal = (\<lambda>k n p ad. p), ae_open = (\<lambda>k n c ad. Some c),
     ae_dummyHash = ''*'', ae_revalidateSessions = True\<rparr>"

definition ex_identity :: identity where
  "ex_identity = \<lparr>id_UserID = 1, id_ISPID = 7, id_Role = RoleISP, id_Email = ''ann@x'', id_Exp = 100\<rparr>"

theorem session_authentic_witness:
  "\<exists>p raw. signSession ex_env ex_identity = p @ ''.'' @ b64_encode (ae_hmac ex_env (ae_key ex_env) (bytes_of_str p)) \<and> b64_decode p = Some raw \<and>
    ae_unmarshal ex_env raw = Some ex_identity \<and> 5000000000 div 1000000000 \<le> id_Exp ex_identity \<and> (\<forall>j. bytes_of_str p \<noteq> bytes_of_str (csrf_text j))"
proof -
  have "parseSession ex_env 5000000000 (signSession ex_env ex_identity) = Some ex_identity"
    by (subst parseSession_sign) (simp_all add: ex_env_def ex_identity_def)
  then show ?thesis by (rule session_authentic)
qed

section \<open>Laws of one-time codes\<close>

lemma TOTPCode_length: "TOTPCode E secret sec = Some code \<Longrightarrow> length code = 6"
  using dec_string_length[of _ 5] by (fastforce simp: TOTPCode_def pad0_def Let_def split: option.splits)

text \<open>A code is accepted exactly when it is the code of the current 30-second step or of a neighbour.\<close>

lemma VerifyTOTP_iff:
  "VerifyTOTP E secret code sec \<longleftrightarrow> (\<exists>d\<in>{- 1, 0, 1}. TOTPCode E secret (sec + d * 30) = Some code)"
  using TOTPCode_length by (auto simp: VerifyTOTP_def)

lemma openTOTPSecret_seal:
  assumes "sealTOTPSecret E (Some nonce) plain = Some v" "length nonce = nonceSize"
    "\<And>k n p ad. ae_open E k n (ae_seal E k n p ad) ad = Some p"
  shows "openTOTPSecret E v = Some plain"
proof (cases "plain = []")
  case False
  then have v: "v = totpSecretPrefix @ b64_encode (nonce @ ae_seal E (totp_key E) nonce (bytes_of_str plain) (bytes_of_str totpSecretPrefix))"
    using assms(1) by (simp add: sealTOTPSecret_def)
  show ?thesis using assms(2,3) by (simp add: openTOTPSecret_def v) (simp add: totpSecretPrefix_def)
qed (use assms in \<open>simp add: sealTOTPSecret_def openTOTPSecret_def\<close>)

end
