(* ===== verification/Throttle.thy ===== *)
theory Throttle
  imports Auth
begin

text \<open>
  The guarantee of the login throttle: how many guesses it lets through.  A login first asks
  \<open>Check\<close>; only when the key is not locked out is the password looked at, and the outcome is
  recorded.  \<open>throttle_inv\<close> relates the number of guesses so far to the entry of a key.
\<close>

datatype login_outcome = LoginFailed | LoginForbidden | LoginOK

definition login_try :: "int \<Rightarrow> string \<Rightarrow> login_outcome \<Rightarrow> login_throttle \<Rightarrow> bool \<times> login_throttle" where
  "login_try now key out lt =
     (case Check_throttle now key lt of
        ((locked, remaining), lt') \<Rightarrow>
          if locked then (False, lt')
          else (True, case out of LoginFailed \<Rightarrow> snd (RecordFailure now key lt') | LoginForbidden \<Rightarrow> lt' | LoginOK \<Rightarrow> RecordSuccess key lt'))"

fun guesses :: "string \<Rightarrow> (int \<times> string \<times> login_outcome) list \<Rightarrow> login_throttle \<Rightarrow> int" where
  "guesses k [] lt = 0"
| "guesses k ((now, key, out) # es) lt =
     (case login_try now key out lt of (tried, lt') \<Rightarrow> (if tried \<and> key = k then 1 else 0) + guesses k es lt')"

fun chronological :: "int \<Rightarrow> (int \<times> string \<times> login_outcome) list \<Rightarrow> int \<Rightarrow> bool" where
  "chronological t [] T \<longleftrightarrow> t \<le> T"
| "chronological t ((now, key, out) # es) T \<longleftrightarrow> t \<le> now \<and> chronological now es T"

definition entry_inv :: "int \<Rightarrow> int \<Rightarrow> login_throttle \<Rightarrow> login_attempt \<Rightarrow> bool" where
  "entry_inv n e lt a \<longleftrightarrow>
     1 \<le> la_count a \<and> la_count a \<le> lt_maxAttempts lt \<and> (n - la_count a) * lt_window lt \<le> lt_maxAttempts lt * e \<and>
     (case la_lockoutAt a of None \<Rightarrow> la_count a < lt_maxAttempts lt | Some t \<Rightarrow> la_firstTry a + lt_lockoutTime lt \<le> t)"

definition key_inv :: "int \<Rightarrow> int \<Rightarrow> int \<Rightarrow> login_throttle \<Rightarrow> login_attempt option \<Rightarrow> bool" where
  "key_inv n t0 now lt entry \<longleftrightarrow>
     (case entry of
        None \<Rightarrow> n * lt_window lt \<le> lt_maxAttempts lt * (now - t0)
      | Some a \<Rightarrow> la_firstTry a \<le> now \<and> t0 \<le> la_firstTry a \<and> entry_inv n (la_firstTry a - t0) lt a)"

definition throttle_inv :: "string \<Rightarrow> int \<Rightarrow> int \<Rightarrow> int \<Rightarrow> login_throttle \<Rightarrow> bool" where
  "throttle_inv k n t0 now lt \<longleftrightarrow>
     distinct (map fst (lt_attempts lt)) \<and> 0 < lt_maxAttempts lt \<and> 0 < lt_window lt \<and> lt_window lt \<le> lt_lockoutTime lt \<and> t0 \<le> now \<and>
     key_inv n t0 now lt (map_of (lt_attempts lt) k)"

lemma entry_inv_attempts [simp]: "entry_inv n e (lt\<lparr>lt_attempts := x\<rparr>) a = entry_inv n e lt a"
  by (cases "la_lockoutAt a") (simp_all add: entry_inv_def)

lemma key_inv_attempts [simp]: "key_inv n t0 now (lt\<lparr>lt_attempts := x\<rparr>) entry = key_inv n t0 now lt entry"
  by (cases entry) (simp_all add: key_inv_def)

lemma throttle_inv_later:
  assumes "throttle_inv k n t0 now lt" "now \<le> now'"
  shows "throttle_inv k n t0 now' lt"
proof -
  have "lt_maxAttempts lt * (now - t0) \<le> lt_maxAttempts lt * (now' - t0)"
    using assms by (intro mult_left_mono) (auto simp: throttle_inv_def)
  then have "key_inv n t0 now' lt e" if "key_inv n t0 now lt e" for e
    using that assms(2) by (cases e) (auto simp: key_inv_def)
  then show ?thesis using assms by (simp add: throttle_inv_def)
qed

text \<open>When an entry may be dropped, its guesses are paid for by the time that has passed.\<close>

lemma released:
  assumes inv: "throttle_inv k n t0 now lt" and a: "map_of (lt_attempts lt) k = Some a"
    and gone: "case la_lockoutAt a of Some t \<Rightarrow> t \<le> now | None \<Rightarrow> now - la_firstTry a > lt_window lt"
  shows "n * lt_window lt \<le> lt_maxAttempts lt * (now - t0)"
proof -
  have e: "entry_inv n (la_firstTry a - t0) lt a" "0 < lt_maxAttempts lt" "0 < lt_window lt" "lt_window lt \<le> lt_lockoutTime lt"
    using inv a by (simp_all add: throttle_inv_def key_inv_def)
  have "la_firstTry a + lt_window lt \<le> now"
    using gone e by (auto simp: entry_inv_def split: option.splits)
  then have "lt_maxAttempts lt * (la_firstTry a - t0 + lt_window lt) \<le> lt_maxAttempts lt * (now - t0)"
    using e(2) by (intro mult_left_mono) auto
  moreover have "la_count a * lt_window lt \<le> lt_maxAttempts lt * lt_window lt"
    using e by (intro mult_right_mono) (auto simp: entry_inv_def)
  ultimately show ?thesis using e(1) by (simp add: entry_inv_def algebra_simps)
qed

lemma forget_inv:
  assumes "throttle_inv k n t0 now lt"
    "\<And>a. key = k \<Longrightarrow> map_of (lt_attempts lt) k = Some a \<Longrightarrow> (case la_lockoutAt a of Some t \<Rightarrow> t \<le> now | None \<Rightarrow> now - la_firstTry a > lt_window lt)"
  shows "throttle_inv k n t0 now (forget key lt)"
proof (cases "key = k")
  case True
  have "n * lt_window lt \<le> lt_maxAttempts lt * (now - t0)"
  proof (cases "map_of (lt_attempts lt) k")
    case None
    then show ?thesis using assms(1) by (simp add: throttle_inv_def key_inv_def)
  next
    case (Some a)
    then show ?thesis using released[OF assms(1) Some] assms(2)[OF True Some] by blast
  qed
  then show ?thesis
    using assms(1) True by (simp add: throttle_inv_def forget_def delete_conv' distinct_delete key_inv_def)
next
  case False
  then show ?thesis
    using assms(1) by (simp add: throttle_inv_def forget_def delete_conv' distinct_delete)
qed

lemma Check_inv:
  assumes "throttle_inv k n t0 now lt" "Check_throttle now key lt = (r, lt')"
  shows "throttle_inv k n t0 now lt'"
proof (cases "lt' = lt")
  case False
  then have "lt' = forget key lt" "\<exists>a. map_of (lt_attempts lt) key = Some a \<and>
      (case la_lockoutAt a of Some t \<Rightarrow> t \<le> now | None \<Rightarrow> now - la_firstTry a > lt_window lt)"
    using assms(2) by (auto simp: Check_throttle_def split: option.splits if_splits)
  then show ?thesis using assms(1) by (auto intro!: forget_inv)
qed (use assms in simp)

text \<open>What \<open>Check\<close> leaves behind for a key that is not locked out.\<close>

lemma Check_unlocked:
  assumes "Check_throttle now key lt = ((False, r), lt')" "map_of (lt_attempts lt') key = Some a"
  shows "la_lockoutAt a = None" "now - la_firstTry a \<le> lt_window lt'"
  using assms by (auto simp: Check_throttle_def forget_def delete_conv' split: option.splits if_splits)

lemma map_of_filter_bind:
  assumes "distinct (map fst as)"
  shows "map_of (filter P as) key = Option.bind (map_of as key) (\<lambda>a. if P (key, a) then Some a else None)"
  using assms by (induction as) (auto simp: map_of_eq_None_iff split: Option.bind_split)

text \<open>The periodic clean-up removes only entries that no longer count.\<close>

lemma cleanup_inv:
  assumes "throttle_inv k n t0 now lt"
  shows "throttle_inv k n t0 now (lt\<lparr>lt_attempts := filter (\<lambda>(k, v). \<not> expired now (lt_window lt) v) (lt_attempts lt)\<rparr>)"
proof -
  have d: "distinct (map fst (lt_attempts lt))" using assms by (simp add: throttle_inv_def)
  have "n * lt_window lt \<le> lt_maxAttempts lt * (now - t0)" if "map_of (lt_attempts lt) k = Some a" "expired now (lt_window lt) a" for a
    using that by (intro released[OF assms]) (auto simp: expired_def split: option.splits)
  then show ?thesis
    using assms by (cases "map_of (lt_attempts lt) k")
      (simp_all add: throttle_inv_def map_of_filter_bind[OF d] distinct_map_filter key_inv_def)
qed

lemma update_inv:
  assumes "throttle_inv k n t0 now lt"
  shows "key_inv n' t0 now lt (Some a) \<Longrightarrow> throttle_inv k n' t0 now (lt\<lparr>lt_attempts := AList.update k a (lt_attempts lt)\<rparr>)"
    "key \<noteq> k \<Longrightarrow> throttle_inv k n t0 now (lt\<lparr>lt_attempts := AList.update key b (lt_attempts lt)\<rparr>)"
  using assms by (simp_all add: throttle_inv_def update_conv' distinct_update)

text \<open>The entry that a failure leaves behind, stored with or without the clean-up.\<close>

definition failed_entry :: "int \<Rightarrow> string \<Rightarrow> login_throttle \<Rightarrow> login_attempt" where
  "failed_entry now key lt =
     (let fresh = \<lparr>la_count = 1, la_firstTry = now, la_lockoutAt = None\<rparr>;
          att = (case map_of (lt_attempts lt) key of
                   None \<Rightarrow> fresh
                 | Some a \<Rightarrow> if now - la_firstTry a > lt_window lt then fresh else a\<lparr>la_count := la_count a + 1\<rparr>)
      in if la_count att \<ge> lt_maxAttempts lt then att\<lparr>la_lockoutAt := Some (now + lt_lockoutTime lt)\<rparr> else att)"

lemma RecordFailure_inv:
  assumes "\<And>l. l = lt\<lparr>lt_attempts := AList.update key (failed_entry now key lt) (lt_attempts lt)\<rparr> \<Longrightarrow> throttle_inv k n t0 now l"
  shows "throttle_inv k n t0 now (snd (RecordFailure now key lt))"
proof -
  define l where "l = lt\<lparr>lt_attempts := AList.update key (failed_entry now key lt) (lt_attempts lt)\<rparr>"
  have "snd (RecordFailure now key lt) = l \<or>
      snd (RecordFailure now key lt) = l\<lparr>lt_attempts := filter (\<lambda>(k, v). \<not> expired now (lt_window l) v) (lt_attempts l)\<rparr>"
    by (simp add: RecordFailure_def l_def failed_entry_def Let_def)
  then show ?thesis using cleanup_inv[of k n t0 now l] assms[OF l_def] by auto
qed

lemma failed_entry_inv:
  assumes inv: "throttle_inv k n t0 now lt"
    and unlocked: "\<And>a. map_of (lt_attempts lt) k = Some a \<Longrightarrow> la_lockoutAt a = None \<and> now - la_firstTry a \<le> lt_window lt"
  shows "key_inv (n + 1) t0 now lt (Some (failed_entry now k lt))"
proof (cases "map_of (lt_attempts lt) k")
  case None
  then show ?thesis using inv by (auto simp: throttle_inv_def key_inv_def failed_entry_def entry_inv_def Let_def)
next
  case (Some a)
  then have "la_lockoutAt a = None" "now - la_firstTry a \<le> lt_window lt" using unlocked by auto
  then show ?thesis using inv Some by (auto simp: throttle_inv_def key_inv_def failed_entry_def entry_inv_def Let_def algebra_simps)
qed

lemma login_try_inv:
  assumes inv: "throttle_inv k n t0 now lt" and bad: "key = k \<Longrightarrow> out = LoginFailed" and run: "login_try now key out lt = (tried, lt')"
  shows "throttle_inv k (n + (if tried \<and> key = k then 1 else 0)) t0 now lt'"
proof -
  obtain locked r lt1 where c: "Check_throttle now key lt = ((locked, r), lt1)" by (metis prod.exhaust)
  have inv1: "throttle_inv k n t0 now lt1" using Check_inv[OF inv c] .
  show ?thesis
  proof (cases locked)
    case True
    then show ?thesis using c run inv1 by (simp add: login_try_def)
  next
    case False
    have t: "tried" "lt' = (case out of LoginFailed \<Rightarrow> snd (RecordFailure now key lt1) | LoginForbidden \<Rightarrow> lt1 | LoginOK \<Rightarrow> RecordSuccess key lt1)"
      using c run False by (simp_all add: login_try_def)
    show ?thesis
    proof (cases "key = k")
      case True
      have "key_inv (n + 1) t0 now lt1 (Some (failed_entry now k lt1))"
        using Check_unlocked[of now k lt r lt1] c True False by (intro failed_entry_inv[OF inv1]) simp
      then show ?thesis using t bad True update_inv(1)[OF inv1] by (auto intro!: RecordFailure_inv)
    next
      case False
      then show ?thesis
        using t update_inv(2)[OF inv1] forget_inv[OF inv1] inv1 by (cases out) (auto simp: RecordSuccess_def intro!: RecordFailure_inv)
    qed
  qed
qed

lemma guesses_bound:
  assumes "throttle_inv k n t0 t lt" "chronological t es T" "\<forall>(now, key, out)\<in>set es. key = k \<longrightarrow> out = LoginFailed"
  shows "(n + guesses k es lt) * lt_window lt \<le> lt_maxAttempts lt * (T - t0 + lt_window lt)"
  using assms
proof (induction es arbitrary: n t lt)
  case Nil
  have "throttle_inv k n t0 T lt" using Nil throttle_inv_later by simp
  then have inv: "key_inv n t0 T lt (map_of (lt_attempts lt) k)" "0 < lt_maxAttempts lt" "0 < lt_window lt"
    by (auto simp: throttle_inv_def)
  show ?case
  proof (cases "map_of (lt_attempts lt) k")
    case None
    then have "n * lt_window lt \<le> lt_maxAttempts lt * (T - t0)" using inv by (simp add: key_inv_def)
    also have "\<dots> \<le> lt_maxAttempts lt * (T - t0 + lt_window lt)" using inv by (intro mult_left_mono) auto
    finally show ?thesis by simp
  next
    case (Some a)
    then have e: "entry_inv n (la_firstTry a - t0) lt a" "la_firstTry a \<le> T" using inv by (simp_all add: key_inv_def)
    have "la_count a * lt_window lt \<le> lt_maxAttempts lt * lt_window lt" using inv e by (intro mult_right_mono) (auto simp: entry_inv_def)
    moreover have "lt_maxAttempts lt * (la_firstTry a - t0) \<le> lt_maxAttempts lt * (T - t0)" using inv e by (intro mult_left_mono) auto
    moreover have "n * lt_window lt - la_count a * lt_window lt \<le> lt_maxAttempts lt * (la_firstTry a - t0)"
      using e by (simp add: entry_inv_def left_diff_distrib)
    ultimately have "n * lt_window lt \<le> lt_maxAttempts lt * (T - t0) + lt_maxAttempts lt * lt_window lt" by linarith
    then show ?thesis by (simp add: distrib_left)
  qed
next
  case (Cons e es)
  obtain now key out where e: "e = (now, key, out)" by (metis prod_cases3)
  obtain tried lt' where l: "login_try now key out lt = (tried, lt')" by fastforce
  have "throttle_inv k n t0 now lt" using Cons.prems e throttle_inv_later by auto
  moreover have "key = k \<Longrightarrow> out = LoginFailed" using Cons.prems(3) e by auto
  ultimately have inv: "throttle_inv k (n + (if tried \<and> key = k then 1 else 0)) t0 now lt'"
    using l by (rule login_try_inv)
  have "lt_window lt' = lt_window lt \<and> lt_maxAttempts lt' = lt_maxAttempts lt"
    using l by (auto simp: login_try_def Check_throttle_def RecordSuccess_def RecordFailure_def forget_def Let_def split: option.splits if_splits prod.splits login_outcome.splits)
  moreover have "chronological now es T" "\<forall>(now, key, out)\<in>set es. key = k \<longrightarrow> out = LoginFailed" using Cons.prems e by auto
  ultimately show ?case using Cons.IH[OF inv] e l by (simp add: add.assoc)
qed

text \<open>
  Whatever logins are tried under whatever keys in between, and however often entries are cleaned up, the
  number of wrong passwords that are looked at for one key between two moments is at most the permitted
  attempts per window, one window more than the time between the moments.
\<close>

lemma fresh_throttle_guesses:
  assumes "0 < mx" "0 < window" "window \<le> lockout"
    and "chronological t0 es T" "\<forall>(now, key, out)\<in>set es. key = k \<longrightarrow> out = LoginFailed"
  shows "guesses k es (NewLoginThrottle mx window lockout) * window \<le> mx * (T - t0 + window)"
proof -
  let ?lt = "NewLoginThrottle mx window lockout"
  have lt: "lt_window ?lt = window" "lt_maxAttempts ?lt = mx" using assms by (simp_all add: NewLoginThrottle_def)
  have "throttle_inv k 0 t0 t0 ?lt" using assms by (simp add: throttle_inv_def key_inv_def NewLoginThrottle_def)
  from guesses_bound[OF this assms(4,5)] show ?thesis by (simp add: lt)
qed

end
