(* ===== verification/Api.thy ===== *)
theory Api
  imports Auth Store_Mem Device
begin

text \<open>
  The JSON interface of the director over the in-memory store: \<open>console_admin.go\<close>, \<open>users.go\<close>,
  \<open>isps.go\<close>, \<open>policies.go\<close>, \<open>cases.go\<close>, the account handlers of \<open>totp.go\<close>, the session parts of
  \<open>console.go\<close>, and the form handlers of \<open>server.go\<close>.

  A handler takes the request, the decoded body (\<open>None\<close> when decoding fails) and the time, and gives
  the status code, what it shows, and the store.  The wording of messages is not modelled; the
  fields named by a validation error are.  \<open>net/mail\<close> and the JSON text of a policy are fields of
  \<open>api_env\<close>.
\<close>

section \<open>Requests and responses\<close>

record api_env =
  av_auth :: auth_env
  av_ParseAddress :: "string \<Rightarrow> string option"
  av_policyJSON :: "capture_policy \<Rightarrow> bytes"

record request =
  rq_cookie :: "string option"
  rq_csrf :: string
  rq_path :: string
  rq_id :: string
  rq_isp :: string

record user_view =
  uv_User :: user
  uv_Self :: bool
  uv_Primary :: bool
  uv_Version :: string

record policy_view =
  pv_CapturePolicy :: capture_policy
  pv_Version :: string
  pv_DeviceCount :: nat
  pv_CanEdit :: bool
  pv_CanDelete :: bool
  pv_Devices :: "(sdevice \<times> bool) list"

record isp_view =
  iw_ISP :: isp
  iw_DeviceCount :: nat
  iw_UserCount :: nat

datatype payload =
    Nothing
  | Fields "string list"
  | Enabled bool
  | DeviceOut sdevice
  | DevicesOut "sdevice list" "isp list"
  | UserOut user_view
  | UsersOut "user_view list" "isp list"
  | SavedUser int
  | Secret string
  | PolicyOut policy_view
  | PoliciesOut "policy_view list" "isp list"
  | SavedPolicy capture_policy string
  | IspOut isp_view
  | IspsOut "isp_view list"
  | SavedIsp isp
  | CaseOut investigation
  | CasesOut "investigation list" "isp list"

type_synonym response = "nat \<times> payload"
type_synonym handled = "response \<times> mem_store"

text \<open>\<open>strconv.ParseInt(s, 10, 64)\<close>: the value and whether there was no error.\<close>

definition ParseInt64 :: "string \<Rightarrow> int \<times> bool" where
  "ParseInt64 s =
     (let neg = (case s of c # _ \<Rightarrow> c = CHR ''-'' | [] \<Rightarrow> False);
          body = (case s of c # t \<Rightarrow> if c = CHR ''-'' \<or> c = CHR ''+'' then t else s | [] \<Rightarrow> s);
          (v, ok) = ParseUint 64 body
      in if \<not> ok \<and> v = 0 then (0, False)
         else if \<not> neg \<and> v \<ge> 2 ^ 63 then (2 ^ 63 - 1, False)
         else if neg \<and> v > 2 ^ 63 then (- (2 ^ 63), False)
         else (if neg then - int v else int v, ok))"

definition parseUint32 :: "string \<Rightarrow> u32" where
  "parseUint32 s = of_nat (fst (ParseUint 32 (trim_str s)))"

definition valOr :: "string \<Rightarrow> string \<Rightarrow> string" where
  "valOr v d = (if trim_str v = [] then d else v)"

definition jsonErr :: "store_error \<Rightarrow> response" where
  "jsonErr e = (case e of ErrDuplicate \<Rightarrow> (409, Nothing) | ErrNotFound \<Rightarrow> (404, Nothing) | _ \<Rightarrow> (500, Nothing))"

section \<open>Sessions of requests\<close>

definition ispLoginAllowed :: "user \<Rightarrow> mem_store \<Rightarrow> bool" where
  "ispLoginAllowed u m \<longleftrightarrow>
     (if us_Role u = RoleDirector then us_ISPID u = 0
      else if us_Role u \<noteq> RoleISP \<and> us_Role u \<noteq> RoleAnalyst \<and> us_Role u \<noteq> RoleAuditor \<or> us_ISPID u = 0 then False
      else case GetISP (us_ISPID u) m of Inl _ \<Rightarrow> False | Inr v \<Rightarrow> is_Enabled v)"

definition currentIdentity :: "api_env \<Rightarrow> int \<Rightarrow> request \<Rightarrow> mem_store \<Rightarrow> identity option" where
  "currentIdentity E now r m =
     (case rq_cookie r of
        None \<Rightarrow> None
      | Some c \<Rightarrow>
          (case parseSession (av_auth E) now c of
             None \<Rightarrow> None
           | Some i \<Rightarrow>
               if \<not> ae_revalidateSessions (av_auth E) then Some i
               else case GetUser (id_UserID i) m of
                 Inl _ \<Rightarrow> None
               | Inr u \<Rightarrow>
                   if us_Email u \<noteq> id_Email i \<or> us_ISPID u \<noteq> id_ISPID i \<or> us_Role u \<noteq> id_Role i \<or> \<not> ispLoginAllowed u m then None
                   else Some i))"

definition csrfOK :: "api_env \<Rightarrow> request \<Rightarrow> identity \<Rightarrow> bool" where
  "csrfOK E r i \<longleftrightarrow>
     validCSRF (av_auth E) i (rq_csrf r) \<and>
     (let analystExport = rq_path r = ''/api/v1/exports'' \<and> canExport i in
      canManage i \<or> rq_path r = ''/api/v1/search'' \<or> analystExport \<or> prefix ''/api/v1/account/'' (rq_path r))"

text \<open>\<open>authJSON\<close>, and \<open>authJSON\<close> followed by \<open>csrfOK\<close>: the identity goes to the rest of the handler.\<close>

definition authJSON :: "api_env \<Rightarrow> int \<Rightarrow> request \<Rightarrow> (identity \<Rightarrow> mem_store \<Rightarrow> handled) \<Rightarrow> mem_store \<Rightarrow> handled" where
  "authJSON E now r h m = (case currentIdentity E now r m of None \<Rightarrow> ((401, Nothing), m) | Some i \<Rightarrow> h i m)"

definition authCSRF :: "api_env \<Rightarrow> int \<Rightarrow> request \<Rightarrow> (identity \<Rightarrow> mem_store \<Rightarrow> handled) \<Rightarrow> mem_store \<Rightarrow> handled" where
  "authCSRF E now r h = authJSON E now r (\<lambda>i m. if csrfOK E r i then h i m else ((403, Nothing), m))"

definition tenantScope :: "identity \<Rightarrow> u32" where
  "tenantScope i = (if isDirector i then 0 else id_ISPID i)"

definition handleMe :: "api_env \<Rightarrow> int \<Rightarrow> request \<Rightarrow> mem_store \<Rightarrow> (identity \<times> string) option" where
  "handleMe E now r m = map_option (\<lambda>i. (i, csrfToken (av_auth E) i)) (currentIdentity E now r m)"

section \<open>Capture policies in scope\<close>

definition resolvePolicy :: "u32 \<Rightarrow> string \<Rightarrow> mem_store \<Rightarrow> (bool \<times> bool \<times> bool) option" where
  "resolvePolicy scope name m =
     (let name = trim_str name in
      if name = [] then None
      else map_option (\<lambda>p. (cp_SkipDNS p, cp_SkipPrivate p, cp_SkipZero p)) (find (\<lambda>p. cp_Name p = name) (ListPolicies scope m)))"

section \<open>Devices\<close>

record device_form =
  df_ISPID :: u32
  df_Name :: string
  df_ExporterIP :: string
  df_DeviceID :: u32
  df_Protocol :: string
  df_Profile :: string
  df_CapturePolicy :: string
  df_SkipDNS :: bool
  df_SkipPrivate :: bool
  df_SkipZero :: bool
  df_Enabled :: bool

text \<open>The specification that a handler gives to \<open>device.Validate\<close>.\<close>

definition checked_spec :: "sdevice \<Rightarrow> device_spec" where
  "checked_spec d = \<lparr>ds_Name = sd_Name d, ds_Enabled = False, ds_ExporterIP = sd_ExporterIP d, ds_ISPID = sd_ISPID d, ds_DeviceID = sd_DeviceID d,
     ds_Protocol = sd_Protocol d, ds_Profile = sd_Profile d, ds_AllowedPorts = [], ds_Rules = None\<rparr>"

text \<open>A named policy in scope supplies the rules of the device.\<close>

definition with_policy :: "u32 \<Rightarrow> mem_store \<Rightarrow> sdevice \<Rightarrow> sdevice" where
  "with_policy scope m d =
     (case resolvePolicy scope (sd_CapturePolicy d) m of
        Some (sd, sp, sz) \<Rightarrow> d\<lparr>sd_SkipDNS := sd, sd_SkipPrivate := sp, sd_SkipZero := sz\<rparr>
      | None \<Rightarrow> d)"

definition ownedDevice :: "request \<Rightarrow> identity \<Rightarrow> mem_store \<Rightarrow> store_error + sdevice" where
  "ownedDevice r i m =
     (case GetDevice (fst (ParseInt64 (rq_id r))) m of
        Inl e \<Rightarrow> Inl e
      | Inr d \<Rightarrow> if \<not> isDirector i \<and> sd_ISPID d \<noteq> id_ISPID i then Inl ErrNotFound else Inr d)"

definition apiListDevices :: "api_env \<Rightarrow> int \<Rightarrow> request \<Rightarrow> mem_store \<Rightarrow> handled" where
  "apiListDevices E now r = authJSON E now r (\<lambda>i m.
     case scopeISP i (parseUint32 (rq_isp r)) of
       None \<Rightarrow> ((403, Nothing), m)
     | Some scope \<Rightarrow> ((200, DevicesOut (ListDevices scope m) (if isDirector i then ListISPs m else [])), m))"

definition next_device_id :: "u32 \<Rightarrow> mem_store \<Rightarrow> u32" where
  "next_device_id scope m = foldl (\<lambda>x d. if sd_DeviceID d > x then sd_DeviceID d else x) 0 (ListDevices scope m) + 1"

definition apiCreateDevice :: "api_env \<Rightarrow> int \<Rightarrow> request \<Rightarrow> device_form option \<Rightarrow> mem_store \<Rightarrow> handled" where
  "apiCreateDevice E now r body = authCSRF E now r (\<lambda>i m.
     case body of
       None \<Rightarrow> ((400, Nothing), m)
     | Some b \<Rightarrow>
         (case scopeISP i (df_ISPID b) of
            None \<Rightarrow> ((403, Nothing), m)
          | Some scope \<Rightarrow>
              if scope = 0 then ((403, Nothing), m)
              else case GetISP scope m of
                Inl _ \<Rightarrow> ((400, Nothing), m)
              | Inr _ \<Rightarrow>
                  let d = with_policy scope m
                        \<lparr>sd_ID = 0, sd_ISPID = scope, sd_Name = trim_str (df_Name b), sd_ExporterIP = trim_str (df_ExporterIP b),
                         sd_DeviceID = (if df_DeviceID b = 0 then next_device_id scope m else df_DeviceID b),
                         sd_Protocol = valOr (df_Protocol b) ''auto'', sd_Profile = valOr (df_Profile b) ''generic'',
                         sd_CapturePolicy = trim_str (df_CapturePolicy b), sd_Enabled = True,
                         sd_SkipDNS = df_SkipDNS b, sd_SkipPrivate = df_SkipPrivate b, sd_SkipZero = df_SkipZero b, sd_UpdatedAt = 0\<rparr>
                  in if Validate_devices [checked_spec d] \<noteq> None then ((400, Nothing), m)
                     else case CreateDevice now d m of
                       (Inl e, m') \<Rightarrow> (jsonErr e, m')
                     | (Inr created, m') \<Rightarrow> ((200, DeviceOut created), m')))"

definition apiUpdateDevice :: "api_env \<Rightarrow> int \<Rightarrow> request \<Rightarrow> device_form option \<Rightarrow> mem_store \<Rightarrow> handled" where
  "apiUpdateDevice E now r body = authCSRF E now r (\<lambda>i m.
     case ownedDevice r i m of
       Inl e \<Rightarrow> (jsonErr e, m)
     | Inr d \<Rightarrow>
         (case body of
            None \<Rightarrow> ((400, Nothing), m)
          | Some b \<Rightarrow>
              let d = with_policy (sd_ISPID d) m
                    (d\<lparr>sd_Name := trim_str (df_Name b), sd_ExporterIP := trim_str (df_ExporterIP b), sd_DeviceID := df_DeviceID b,
                       sd_Protocol := valOr (df_Protocol b) ''auto'', sd_Profile := valOr (df_Profile b) ''generic'',
                       sd_CapturePolicy := trim_str (df_CapturePolicy b), sd_SkipDNS := df_SkipDNS b, sd_SkipPrivate := df_SkipPrivate b,
                       sd_SkipZero := df_SkipZero b, sd_Enabled := df_Enabled b\<rparr>)
              in if Validate_devices [checked_spec d] \<noteq> None then ((400, Nothing), m)
                 else case UpdateDevice now d m of
                   (Inl e, m') \<Rightarrow> (jsonErr e, m')
                 | (Inr _, m') \<Rightarrow> ((200, DeviceOut d), m')))"

definition apiToggleDevice :: "api_env \<Rightarrow> int \<Rightarrow> request \<Rightarrow> mem_store \<Rightarrow> handled" where
  "apiToggleDevice E now r = authCSRF E now r (\<lambda>i m.
     case ownedDevice r i m of
       Inl e \<Rightarrow> (jsonErr e, m)
     | Inr d \<Rightarrow>
         let d = d\<lparr>sd_Enabled := \<not> sd_Enabled d\<rparr> in
         (case UpdateDevice now d m of
            (Inl e, m') \<Rightarrow> (jsonErr e, m')
          | (Inr _, m') \<Rightarrow> ((200, Enabled (sd_Enabled d)), m')))"

definition apiDeleteDevice :: "api_env \<Rightarrow> int \<Rightarrow> request \<Rightarrow> mem_store \<Rightarrow> handled" where
  "apiDeleteDevice E now r = authCSRF E now r (\<lambda>i m.
     case ownedDevice r i m of
       Inl e \<Rightarrow> (jsonErr e, m)
     | Inr d \<Rightarrow>
         (case DeleteDevice (sd_ID d) m of
            (Inl e, m') \<Rightarrow> (jsonErr e, m')
          | (Inr _, m') \<Rightarrow> ((200, Nothing), m')))"

section \<open>Users\<close>

record user_form =
  uf_Email :: string
  uf_Password :: string
  uf_ConfirmPassword :: string
  uf_Role :: string
  uf_Version :: string
  uf_OldPassword :: string
  uf_NewPassword :: string
  uf_ISPID :: u32

definition userVersion :: "api_env \<Rightarrow> user \<Rightarrow> string" where
  "userVersion E u = hex_bytes (ae_sha (av_auth E) (bytes_of_str
     (int_text (us_ID u) @ ''|'' @ int_text (uint (us_ISPID u)) @ ''|'' @ us_Email u @ ''|'' @ us_Role u @ ''|'' @ us_PasswordHash u)))"

definition userView :: "api_env \<Rightarrow> identity \<Rightarrow> mem_store \<Rightarrow> user \<Rightarrow> user_view" where
  "userView E i m u =
     \<lparr>uv_User = u, uv_Self = (us_ID u = id_UserID i),
      uv_Primary = (us_ISPID u \<noteq> 0 \<and> (case GetISP (us_ISPID u) m of Inl _ \<Rightarrow> False | Inr v \<Rightarrow> is_AdminUserID v = us_ID u)),
      uv_Version = userVersion E u\<rparr>"

definition canManageUser :: "identity \<Rightarrow> user \<Rightarrow> bool" where
  "canManageUser i target \<longleftrightarrow> isDirector i \<or> id_Role i = RoleISP \<and> us_ISPID target = id_ISPID i \<and> us_Role target \<noteq> RoleDirector"

text \<open>The views of the listed users, or the error of the first one that is gone.\<close>

fun user_views :: "api_env \<Rightarrow> identity \<Rightarrow> mem_store \<Rightarrow> user list \<Rightarrow> store_error + user_view list" where
  "user_views E i m [] = Inr []"
| "user_views E i m (u # us) =
     (case GetUser (us_ID u) m of
        Inl e \<Rightarrow> Inl e
      | Inr full \<Rightarrow> (case user_views E i m us of Inl e \<Rightarrow> Inl e | Inr vs \<Rightarrow> Inr (userView E i m full # vs)))"

definition apiListUsers :: "api_env \<Rightarrow> int \<Rightarrow> request \<Rightarrow> mem_store \<Rightarrow> handled" where
  "apiListUsers E now r = authJSON E now r (\<lambda>i m.
     let scope = (if isDirector i then parseUint32 (rq_isp r) else tenantScope i) in
     case user_views E i m (ListUsers scope m) of
       Inl e \<Rightarrow> (jsonErr e, m)
     | Inr vs \<Rightarrow> ((200, UsersOut vs (if isDirector i then ListISPs m else [])), m))"

definition ownedUser :: "request \<Rightarrow> identity \<Rightarrow> mem_store \<Rightarrow> store_error + user" where
  "ownedUser r i m =
     (case ParseInt64 (rq_id r) of
        (n, ok) \<Rightarrow>
          if \<not> ok \<or> n < 1 then Inl ErrNotFound
          else case GetUser n m of
            Inl e \<Rightarrow> Inl e
          | Inr u \<Rightarrow> if \<not> canManageUser i u then Inl ErrNotFound else Inr u)"

definition apiGetUser :: "api_env \<Rightarrow> int \<Rightarrow> request \<Rightarrow> mem_store \<Rightarrow> handled" where
  "apiGetUser E now r = authJSON E now r (\<lambda>i m.
     case ownedUser r i m of Inl e \<Rightarrow> (jsonErr e, m) | Inr u \<Rightarrow> ((200, UserOut (userView E i m u)), m))"

definition userFormRead :: "user_form \<Rightarrow> user_form" where
  "userFormRead b = b\<lparr>uf_Email := to_lower (trim_str (uf_Email b))\<rparr>"

text \<open>The length in bytes of the first rune of a string; an invalid byte is a rune of its own.\<close>

definition rune_size :: "bytes \<Rightarrow> nat" where
  "rune_size b =
     (let cont = (\<lambda>i lo hi. i < length b \<and> lo \<le> unat (b ! i) \<and> unat (b ! i) \<le> hi); h = (if b = [] then 0 else unat (b ! 0)) in
      if 0xC2 \<le> h \<and> h \<le> 0xDF \<and> cont 1 0x80 0xBF then 2
      else if (h = 0xE0 \<and> cont 1 0xA0 0xBF \<or> h = 0xED \<and> cont 1 0x80 0x9F \<or>
               (0xE1 \<le> h \<and> h \<le> 0xEC \<or> 0xEE \<le> h \<and> h \<le> 0xEF) \<and> cont 1 0x80 0xBF) \<and> cont 2 0x80 0xBF then 3
      else if (h = 0xF0 \<and> cont 1 0x90 0xBF \<or> h = 0xF4 \<and> cont 1 0x80 0x8F \<or> 0xF1 \<le> h \<and> h \<le> 0xF3 \<and> cont 1 0x80 0xBF) \<and>
              cont 2 0x80 0xBF \<and> cont 3 0x80 0xBF then 4
      else 1)"

function runes :: "bytes \<Rightarrow> bytes list" where
  "runes b = (if b = [] then [] else take (rune_size b) b # runes (drop (rune_size b) b))"
  by pat_completeness auto
termination
  by (relation "measure length") (auto simp: rune_size_def Let_def)

declare runes.simps [simp del]

definition RuneCount :: "string \<Rightarrow> nat" where
  "RuneCount s = length (runes (bytes_of_str s))"

text \<open>\<open>unicode.IsControl\<close>: U+0000 to U+001F and U+007F to U+009F.\<close>

definition is_control :: "bytes \<Rightarrow> bool" where
  "is_control r \<longleftrightarrow> (case r of [b] \<Rightarrow> unat b < 0x20 \<or> unat b = 0x7F | [h, b] \<Rightarrow> h = 0xC2 \<and> 0x80 \<le> unat b \<and> unat b \<le> 0x9F | _ \<Rightarrow> False)"

definition userPassword :: "string \<Rightarrow> string \<Rightarrow> bool" where
  "userPassword p c \<longleftrightarrow> \<not> (RuneCount p < 8 \<or> length p > 72) \<and> p = c"

definition userError :: "store_error \<Rightarrow> response" where
  "userError e = (case e of ErrConflict \<Rightarrow> (409, Nothing) | ErrPrimaryUser \<Rightarrow> (409, Nothing) | ErrDuplicate \<Rightarrow> (409, Fields [''Email'']) | _ \<Rightarrow> jsonErr e)"

definition known_role :: "string \<Rightarrow> bool" where
  "known_role role \<longleftrightarrow> role = RoleDirector \<or> role = RoleISP \<or> role = RoleAnalyst \<or> role = RoleAuditor"

text \<open>The fields of a user form that are refused, apart from role and tenant.\<close>

definition user_fields :: "api_env \<Rightarrow> bool \<Rightarrow> user_form \<Rightarrow> string list" where
  "user_fields E update b =
     (if av_ParseAddress E (uf_Email b) \<noteq> Some (uf_Email b) \<or> length (uf_Email b) > 190 \<or> CHR ''.'' \<notin> set (uf_Email b) then [''Email''] else []) @
     (if (\<not> update \<or> uf_Password b \<noteq> [] \<or> uf_ConfirmPassword b \<noteq> []) \<and> \<not> userPassword (uf_Password b) (uf_ConfirmPassword b)
      then [''Password'', ''ConfirmPassword''] else [])"

text \<open>The last step of \<open>userSave\<close>: the account that is created or replaces \<open>old\<close>.\<close>

definition store_user :: "api_env \<Rightarrow> int \<Rightarrow> user option \<Rightarrow> user_form \<Rightarrow> string \<Rightarrow> u32 \<Rightarrow> mem_store \<Rightarrow> handled" where
  "store_user E now old b role scope m =
     (case (if uf_Password b \<noteq> [] then HashPassword (av_auth E) (uf_Password b)
            else Some (case old of Some u \<Rightarrow> us_PasswordHash u | None \<Rightarrow> [])) of
        None \<Rightarrow> ((500, Nothing), m)
      | Some hash \<Rightarrow>
          let u = \<lparr>us_ID = 0, us_ISPID = scope, us_Email = uf_Email b, us_PasswordHash = hash, us_Role = role, us_TOTPSecret = [],
                   us_TOTPEnabled = False, us_CreatedAt = 0\<rparr>
          in case (case old of Some o1 \<Rightarrow> SaveUser o1 (Some u) m | None \<Rightarrow> CreateUser now u m) of
               (Inl e, m') \<Rightarrow> (userError e, m')
             | (Inr u, m') \<Rightarrow> ((200, SavedUser (us_ID u)), m'))"

text \<open>The form part of \<open>userSave\<close>, for the account \<open>old\<close> that is updated, if any.\<close>

definition user_form_save :: "api_env \<Rightarrow> int \<Rightarrow> identity \<Rightarrow> user option \<Rightarrow> user_form \<Rightarrow> mem_store \<Rightarrow> handled" where
  "user_form_save E now i old b m =
     (let b = userFormRead b;
          role = (case old of Some u \<Rightarrow> us_Role u | None \<Rightarrow> uf_Role b);
          scope = (case old of Some u \<Rightarrow> us_ISPID u | None \<Rightarrow> uf_ISPID b);
          moved = (case old of Some u \<Rightarrow> uf_Role b \<noteq> [] \<and> uf_Role b \<noteq> us_Role u \<or> uf_ISPID b \<noteq> us_ISPID u | None \<Rightarrow> False);
          fields = user_fields E (old \<noteq> None) b @ (if moved \<or> \<not> known_role role then [''Role''] else [])
      in if (case old of Some u \<Rightarrow> uf_Version b \<noteq> userVersion E u | None \<Rightarrow> False) then (userError ErrConflict, m)
         else if \<not> isDirector i \<and> (\<not> canManage i \<or> role = RoleDirector \<or> scope \<noteq> 0 \<and> scope \<noteq> id_ISPID i) then ((403, Nothing), m)
         else let scope = (if role = RoleDirector then 0 else if isDirector i then scope else id_ISPID i);
                  fields = fields @ (if role \<noteq> RoleDirector \<and> isl (GetISP scope m) then [''ISPID''] else [])
              in if fields \<noteq> [] then ((422, Fields fields), m)
                 else store_user E now old b role scope m)"

definition userSave :: "api_env \<Rightarrow> int \<Rightarrow> request \<Rightarrow> bool \<Rightarrow> user_form option \<Rightarrow> mem_store \<Rightarrow> handled" where
  "userSave E now r update body = authCSRF E now r (\<lambda>i m.
     if update then
       (case ownedUser r i m of
          Inl e \<Rightarrow> (jsonErr e, m)
        | Inr old \<Rightarrow>
            if uv_Primary (userView E i m old) then (userError ErrPrimaryUser, m)
            else if us_ID old = id_UserID i then ((400, Nothing), m)
            else case body of None \<Rightarrow> ((400, Nothing), m) | Some b \<Rightarrow> user_form_save E now i (Some old) b m)
     else case body of None \<Rightarrow> ((400, Nothing), m) | Some b \<Rightarrow> user_form_save E now i None b m)"

definition apiCreateUser :: "api_env \<Rightarrow> int \<Rightarrow> request \<Rightarrow> user_form option \<Rightarrow> mem_store \<Rightarrow> handled" where
  "apiCreateUser E now r body = userSave E now r False body"

definition apiUpdateUser :: "api_env \<Rightarrow> int \<Rightarrow> request \<Rightarrow> user_form option \<Rightarrow> mem_store \<Rightarrow> handled" where
  "apiUpdateUser E now r body = userSave E now r True body"

definition apiDeleteUser :: "api_env \<Rightarrow> int \<Rightarrow> request \<Rightarrow> user_form option \<Rightarrow> mem_store \<Rightarrow> handled" where
  "apiDeleteUser E now r body = authCSRF E now r (\<lambda>i m.
     case ownedUser r i m of
       Inl e \<Rightarrow> (jsonErr e, m)
     | Inr u \<Rightarrow>
         if us_ID u = id_UserID i then ((400, Nothing), m)
         else case body of
           None \<Rightarrow> ((400, Nothing), m)
         | Some b \<Rightarrow>
             let b = userFormRead b in
             if uf_Email b \<noteq> us_Email u then ((422, Fields [''Email'']), m)
             else if uf_Version b \<noteq> userVersion E u then (userError ErrConflict, m)
             else (case SaveUser u None m of
               (Inl e, m') \<Rightarrow> (userError e, m')
             | (Inr _, m') \<Rightarrow> ((200, Nothing), m')))"

text \<open>The last step of the two password handlers.\<close>

definition save_password :: "api_env \<Rightarrow> user \<Rightarrow> string \<Rightarrow> mem_store \<Rightarrow> handled" where
  "save_password E u pw m =
     (case HashPassword (av_auth E) pw of
        None \<Rightarrow> ((500, Nothing), m)
      | Some hash \<Rightarrow>
          (case SaveUser u (Some (u\<lparr>us_PasswordHash := hash\<rparr>)) m of
             (Inl e, m') \<Rightarrow> (userError e, m')
           | (Inr _, m') \<Rightarrow> ((200, Nothing), m')))"

definition apiResetPassword :: "api_env \<Rightarrow> int \<Rightarrow> request \<Rightarrow> user_form option \<Rightarrow> mem_store \<Rightarrow> handled" where
  "apiResetPassword E now r body = authCSRF E now r (\<lambda>i m.
     case ownedUser r i m of
       Inl e \<Rightarrow> (jsonErr e, m)
     | Inr u \<Rightarrow>
         if us_ID u = id_UserID i then ((400, Nothing), m)
         else case body of
           None \<Rightarrow> ((400, Nothing), m)
         | Some b \<Rightarrow>
             if \<not> userPassword (uf_Password b) (uf_ConfirmPassword b) then ((422, Fields [''Password'', ''ConfirmPassword'']), m)
             else if uf_Version b \<noteq> userVersion E u then (userError ErrConflict, m)
             else save_password E u (uf_Password b) m)"

definition apiChangeOwnPassword :: "api_env \<Rightarrow> int \<Rightarrow> request \<Rightarrow> user_form option \<Rightarrow> mem_store \<Rightarrow> handled" where
  "apiChangeOwnPassword E now r body = authCSRF E now r (\<lambda>i m.
     case body of
       None \<Rightarrow> ((400, Nothing), m)
     | Some b \<Rightarrow>
         if \<not> userPassword (uf_NewPassword b) (uf_ConfirmPassword b) then ((422, Fields [''NewPassword'', ''ConfirmPassword'']), m)
         else case GetUser (id_UserID i) m of
           Inl e \<Rightarrow> (jsonErr e, m)
         | Inr u \<Rightarrow>
             if \<not> VerifyPassword (av_auth E) (us_PasswordHash u) (uf_OldPassword b) then ((422, Fields [''OldPassword'']), m)
             else save_password E u (uf_NewPassword b) m)"

section \<open>Two-factor authentication\<close>

text \<open>\<open>rnd\<close> and \<open>nonce\<close> are the random bytes of the new secret and of its encryption.\<close>

definition handleTOTPSetup :: "api_env \<Rightarrow> int \<Rightarrow> request \<Rightarrow> bytes option \<Rightarrow> bytes option \<Rightarrow> mem_store \<Rightarrow> handled" where
  "handleTOTPSetup E now r rnd nonce = authCSRF E now r (\<lambda>i m.
     case GetUser (id_UserID i) m of
       Inl e \<Rightarrow> (jsonErr e, m)
     | Inr u \<Rightarrow>
         if us_TOTPEnabled u then ((409, Nothing), m)
         else case NewTOTPSecret rnd of
           None \<Rightarrow> ((500, Nothing), m)
         | Some secret \<Rightarrow>
             (case sealTOTPSecret (av_auth E) nonce secret of
                None \<Rightarrow> ((500, Nothing), m)
              | Some sealed \<Rightarrow>
                  (case UpdateUserTOTP (id_UserID i) sealed False m of
                     (Inl e, m') \<Rightarrow> (jsonErr e, m')
                   | (Inr _, m') \<Rightarrow> ((200, Secret secret), m'))))"

definition handleTOTPConfirm :: "api_env \<Rightarrow> int \<Rightarrow> request \<Rightarrow> string option \<Rightarrow> mem_store \<Rightarrow> handled" where
  "handleTOTPConfirm E now r code = authCSRF E now r (\<lambda>i m.
     case code of
       None \<Rightarrow> ((400, Nothing), m)
     | Some c \<Rightarrow>
         (case GetUser (id_UserID i) m of
            Inl e \<Rightarrow> (jsonErr e, m)
          | Inr u \<Rightarrow>
              if \<not> verifyUserTOTP (av_auth E) u c (now div 1000000000) then ((422, Nothing), m)
              else case UpdateUserTOTP (id_UserID i) (us_TOTPSecret u) True m of
                (Inl e, m') \<Rightarrow> (jsonErr e, m')
              | (Inr _, m') \<Rightarrow> ((200, Nothing), m')))"

definition handleTOTPDisable :: "api_env \<Rightarrow> int \<Rightarrow> request \<Rightarrow> (string \<times> string) option \<Rightarrow> mem_store \<Rightarrow> handled" where
  "handleTOTPDisable E now r body = authCSRF E now r (\<lambda>i m.
     case body of
       None \<Rightarrow> ((400, Nothing), m)
     | Some (pw, code) \<Rightarrow>
         (case GetUser (id_UserID i) m of
            Inl e \<Rightarrow> ((401, Nothing), m)
          | Inr u \<Rightarrow>
              if \<not> VerifyPassword (av_auth E) (us_PasswordHash u) pw \<or> \<not> verifyUserTOTP (av_auth E) u code (now div 1000000000) then ((401, Nothing), m)
              else case UpdateUserTOTP (id_UserID i) [] False m of
                (Inl e, m') \<Rightarrow> (jsonErr e, m')
              | (Inr _, m') \<Rightarrow> ((200, Nothing), m')))"

section \<open>ISPs\<close>

record isp_form =
  jf_Name :: string
  jf_Username :: string
  jf_Email :: string
  jf_Phone :: string
  jf_Password :: string
  jf_ConfirmPassword :: string
  jf_Enabled :: "bool option"
  jf_Version :: "u64 option"

definition ispDirector :: "api_env \<Rightarrow> int \<Rightarrow> request \<Rightarrow> bool \<Rightarrow> (mem_store \<Rightarrow> handled) \<Rightarrow> mem_store \<Rightarrow> handled" where
  "ispDirector E now r mutate h = authJSON E now r (\<lambda>i m.
     if \<not> isDirector i then ((403, Nothing), m)
     else if mutate \<and> \<not> csrfOK E r i then ((403, Nothing), m)
     else h m)"

definition ispViews :: "mem_store \<Rightarrow> isp_view list" where
  "ispViews m = map (\<lambda>v. \<lparr>iw_ISP = v, iw_DeviceCount = length (filter (\<lambda>d. sd_ISPID d = is_ID v) (ListDevices 0 m)),
     iw_UserCount = length (filter (\<lambda>u. us_Role u = RoleISP \<and> us_ISPID u = is_ID v) (ListUsers 0 m))\<rparr>) (ListISPs m)"

definition apiListISPs :: "api_env \<Rightarrow> int \<Rightarrow> request \<Rightarrow> mem_store \<Rightarrow> handled" where
  "apiListISPs E now r = ispDirector E now r False (\<lambda>m. ((200, IspsOut (ispViews m)), m))"

definition ispID :: "request \<Rightarrow> u32 option" where
  "ispID r = (case ParseUint 32 (rq_id r) of (n, ok) \<Rightarrow> if \<not> ok \<or> n = 0 then None else Some (of_nat n))"

definition apiGetISP :: "api_env \<Rightarrow> int \<Rightarrow> request \<Rightarrow> mem_store \<Rightarrow> handled" where
  "apiGetISP E now r = ispDirector E now r False (\<lambda>m.
     case ispID r of
       None \<Rightarrow> ((400, Nothing), m)
     | Some n \<Rightarrow> (case find (\<lambda>w. is_ID (iw_ISP w) = n) (ispViews m) of None \<Rightarrow> (jsonErr ErrNotFound, m) | Some w \<Rightarrow> ((200, IspOut w), m)))"

text \<open>The patterns \<open>^[a-zA-Z0-9][a-zA-Z0-9_.-]{2,63}$\<close> and \<open>^\+?[0-9 ()-]{7,25}$\<close>.\<close>

definition alnum :: "char \<Rightarrow> bool" where
  "alnum c \<longleftrightarrow> (let n = of_char c :: nat in 48 \<le> n \<and> n \<le> 57 \<or> 65 \<le> n \<and> n \<le> 90 \<or> 97 \<le> n \<and> n \<le> 122)"

definition ispUsername :: "string \<Rightarrow> bool" where
  "ispUsername s \<longleftrightarrow>
     (case s of
        [] \<Rightarrow> False
      | c # t \<Rightarrow> alnum c \<and> 2 \<le> length t \<and> length t \<le> 63 \<and> list_all (\<lambda>x. alnum x \<or> x = CHR ''_'' \<or> x = CHR ''.'' \<or> x = CHR ''-'') t)"

definition ispPhone :: "string \<Rightarrow> bool" where
  "ispPhone s \<longleftrightarrow>
     (let t = (case s of c # t \<Rightarrow> if c = CHR ''+'' then t else s | [] \<Rightarrow> s) in
      7 \<le> length t \<and> length t \<le> 25 \<and>
      list_all (\<lambda>x. is_digit x \<or> x = CHR '' '' \<or> x = CHR ''('' \<or> x = CHR '')'' \<or> x = CHR ''-'') t)"

definition readISPForm :: "isp_form \<Rightarrow> isp_form" where
  "readISPForm b = b\<lparr>jf_Name := trim_str (jf_Name b), jf_Username := to_lower (trim_str (jf_Username b)),
     jf_Email := to_lower (trim_str (jf_Email b)), jf_Phone := trim_str (jf_Phone b)\<rparr>"

definition validateISPForm :: "api_env \<Rightarrow> isp_form \<Rightarrow> bool \<Rightarrow> string list" where
  "validateISPForm E b passwordRequired =
     (let digits = length (filter is_digit (jf_Phone b));
          host = rev (takeWhile (\<lambda>c. c \<noteq> CHR ''@'') (rev (jf_Email b)))
      in (if jf_Name b = [] \<or> RuneCount (jf_Name b) > 190 then [''Name''] else []) @
         (if \<not> ispUsername (jf_Username b) then [''Username''] else []) @
         (if av_ParseAddress E (jf_Email b) \<noteq> Some (jf_Email b) \<or> CHR ''@'' \<notin> set (jf_Email b) \<or> length (jf_Email b) > 190 \<or> CHR ''.'' \<notin> set host
          then [''Email''] else []) @
         (if \<not> ispPhone (jf_Phone b) \<or> digits < 7 \<or> digits > 15 then [''Phone''] else []) @
         (if jf_Enabled b = None then [''Enabled''] else []) @
         (if passwordRequired \<or> jf_Password b \<noteq> [] \<or> jf_ConfirmPassword b \<noteq> [] then
            (if RuneCount (jf_Password b) < 8 \<or> length (jf_Password b) > 72 then [''Password''] else []) @
            (if jf_ConfirmPassword b = [] \<or> jf_Password b \<noteq> jf_ConfirmPassword b then [''ConfirmPassword''] else [])
          else []))"

definition ispError :: "store_error \<Rightarrow> response" where
  "ispError e = (case e of ErrDuplicate \<Rightarrow> (409, Nothing) | ErrInUse \<Rightarrow> (409, Nothing) | ErrConflict \<Rightarrow> (409, Nothing) | _ \<Rightarrow> jsonErr e)"

text \<open>The form part of \<open>ispSave\<close>, for the ISP \<open>old\<close> that is updated, if any.\<close>

definition isp_form_save :: "api_env \<Rightarrow> int \<Rightarrow> isp option \<Rightarrow> isp_form \<Rightarrow> mem_store \<Rightarrow> handled" where
  "isp_form_save E now old b m =
     (let b = readISPForm b;
          fields = validateISPForm E b (case old of None \<Rightarrow> True | Some v \<Rightarrow> is_AdminUserID v = 0) @
                   (if old \<noteq> None \<and> jf_Version b = None then [''Version''] else [])
      in if fields \<noteq> [] then ((422, Fields fields), m)
         else if (case old of None \<Rightarrow> False | Some v \<Rightarrow> jf_Version b \<noteq> Some (is_Version v)) then (ispError ErrConflict, m)
         else case (if jf_Password b \<noteq> [] then HashPassword (av_auth E) (jf_Password b) else Some []) of
           None \<Rightarrow> ((500, Nothing), m)
         | Some hash \<Rightarrow>
             let v = \<lparr>is_ID = (case old of None \<Rightarrow> 0 | Some o1 \<Rightarrow> is_ID o1), is_Name = jf_Name b, is_Enabled = (jf_Enabled b = Some True), is_CreatedAt = 0,
                      is_Username = jf_Username b, is_Email = jf_Email b, is_Phone = jf_Phone b, is_AdminUserID = 0,
                      is_Version = (case old of None \<Rightarrow> 0 | Some o1 \<Rightarrow> is_Version o1)\<rparr>
             in case SaveISPAccount now v hash m of
                  (Inl e, m') \<Rightarrow> (ispError e, m')
                | (Inr saved, m') \<Rightarrow> ((200, SavedIsp saved), m'))"

definition ispSave :: "api_env \<Rightarrow> int \<Rightarrow> request \<Rightarrow> bool \<Rightarrow> isp_form option \<Rightarrow> mem_store \<Rightarrow> handled" where
  "ispSave E now r update body = ispDirector E now r True (\<lambda>m.
     if update then
       (case ispID r of
          None \<Rightarrow> ((400, Nothing), m)
        | Some n \<Rightarrow>
            (case GetISP n m of
               Inl e \<Rightarrow> (jsonErr e, m)
             | Inr old \<Rightarrow> (case body of None \<Rightarrow> ((400, Nothing), m) | Some b \<Rightarrow> isp_form_save E now (Some old) b m)))
     else case body of None \<Rightarrow> ((400, Nothing), m) | Some b \<Rightarrow> isp_form_save E now None b m)"

definition apiCreateISP :: "api_env \<Rightarrow> int \<Rightarrow> request \<Rightarrow> isp_form option \<Rightarrow> mem_store \<Rightarrow> handled" where
  "apiCreateISP E now r body = ispSave E now r False body"

definition apiUpdateISP :: "api_env \<Rightarrow> int \<Rightarrow> request \<Rightarrow> isp_form option \<Rightarrow> mem_store \<Rightarrow> handled" where
  "apiUpdateISP E now r body = ispSave E now r True body"

definition apiDeleteISP :: "api_env \<Rightarrow> int \<Rightarrow> request \<Rightarrow> (u64 option \<times> string) option \<Rightarrow> mem_store \<Rightarrow> handled" where
  "apiDeleteISP E now r body = ispDirector E now r True (\<lambda>m.
     case ispID r of
       None \<Rightarrow> ((400, Nothing), m)
     | Some n \<Rightarrow>
         (case body of
            Some (Some version, name) \<Rightarrow>
              (case GetISP n m of
                 Inl e \<Rightarrow> (jsonErr e, m)
               | Inr v \<Rightarrow>
                   if is_Enabled v then ((409, Nothing), m)
                   else if name \<noteq> is_Name v then ((400, Nothing), m)
                   else case DeleteISPAccount n version m of
                     (Inl e, m') \<Rightarrow> (ispError e, m')
                   | (Inr _, m') \<Rightarrow> ((200, Nothing), m'))
          | _ \<Rightarrow> ((400, Nothing), m)))"

definition apiToggleISP :: "api_env \<Rightarrow> int \<Rightarrow> request \<Rightarrow> mem_store \<Rightarrow> handled" where
  "apiToggleISP E now r = ispDirector E now r True (\<lambda>m.
     case GetISP (of_nat (fst (ParseUint 32 (rq_id r)))) m of
       Inl e \<Rightarrow> (jsonErr e, m)
     | Inr v \<Rightarrow>
         (case SetISPEnabled (is_ID v) (\<not> is_Enabled v) m of
            (Inl e, m') \<Rightarrow> (jsonErr e, m')
          | (Inr _, m') \<Rightarrow> ((200, Enabled (\<not> is_Enabled v)), m')))"

section \<open>Capture policies\<close>

record policy_form =
  pf_Name :: string
  pf_ISPID :: "u32 option"
  pf_SkipDNS :: "bool option"
  pf_SkipPrivate :: "bool option"
  pf_SkipZero :: "bool option"
  pf_Version :: string

definition policyVersion :: "api_env \<Rightarrow> capture_policy \<Rightarrow> string" where
  "policyVersion E p = hex_bytes (ae_sha (av_auth E) (av_policyJSON E p))"

definition policyViews :: "api_env \<Rightarrow> identity \<Rightarrow> bool \<Rightarrow> sdevice list \<Rightarrow> capture_policy list \<Rightarrow> policy_view list" where
  "policyViews E i detail devs pols = map (\<lambda>p.
     let linked = filter (policyReference p) devs; canEdit = (isDirector i \<or> cp_ISPID p = id_ISPID i) in
     \<lparr>pv_CapturePolicy = p, pv_Version = policyVersion E p, pv_DeviceCount = length linked, pv_CanEdit = canEdit, pv_CanDelete = (canEdit \<and> linked = []),
      pv_Devices = (if detail then map (\<lambda>d. (d, sd_SkipDNS d = cp_SkipDNS p \<and> sd_SkipPrivate d = cp_SkipPrivate p \<and> sd_SkipZero d = cp_SkipZero p)) (take 50 linked)
                    else [])\<rparr>) pols"

definition apiListPolicies :: "api_env \<Rightarrow> int \<Rightarrow> request \<Rightarrow> mem_store \<Rightarrow> handled" where
  "apiListPolicies E now r = authJSON E now r (\<lambda>i m.
     ((200, PoliciesOut (policyViews E i False (ListDevices (tenantScope i) m) (ListPolicies (tenantScope i) m)) (if isDirector i then ListISPs m else [])), m))"

definition getPolicy :: "request \<Rightarrow> identity \<Rightarrow> bool \<Rightarrow> mem_store \<Rightarrow> store_error + capture_policy" where
  "getPolicy r i write m =
     (case ParseInt64 (rq_id r) of
        (n, ok) \<Rightarrow>
          if \<not> ok \<or> n < 1 then Inl ErrNotFound
          else case find (\<lambda>p. cp_ID p = n \<and> (\<not> write \<or> isDirector i \<or> cp_ISPID p = id_ISPID i)) (ListPolicies (tenantScope i) m) of
            None \<Rightarrow> Inl ErrNotFound
          | Some p \<Rightarrow> Inr p)"

definition apiGetPolicy :: "api_env \<Rightarrow> int \<Rightarrow> request \<Rightarrow> mem_store \<Rightarrow> handled" where
  "apiGetPolicy E now r = authJSON E now r (\<lambda>i m.
     case getPolicy r i False m of
       Inl e \<Rightarrow> (jsonErr e, m)
     | Inr p \<Rightarrow> ((200, PolicyOut (hd (policyViews E i True (ListDevices (tenantScope i) m) [p]))), m))"

definition policyError :: "store_error \<Rightarrow> response" where
  "policyError e = (case e of ErrConflict \<Rightarrow> (409, Nothing) | ErrPolicyInUse \<Rightarrow> (409, Nothing) | ErrDuplicate \<Rightarrow> (409, Fields [''Name'']) | _ \<Rightarrow> jsonErr e)"

definition policy_fields :: "identity \<Rightarrow> bool \<Rightarrow> policy_form \<Rightarrow> string list" where
  "policy_fields i update b =
     (if pf_Name b = [] \<or> RuneCount (pf_Name b) > 64 \<or> list_ex is_control (runes (bytes_of_str (pf_Name b))) then [''Name''] else []) @
     (if pf_SkipDNS b = None then [''SkipDNS''] else []) @ (if pf_SkipPrivate b = None then [''SkipPrivate''] else []) @
     (if pf_SkipZero b = None then [''SkipZero''] else []) @ (if isDirector i \<and> pf_ISPID b = None then [''ISPID''] else []) @
     (if update \<and> pf_Version b = [] then [''Version''] else [])"

text \<open>The form part of \<open>savePolicy\<close>, for the policy \<open>old\<close> that is updated, if any.\<close>

definition policy_form_save :: "api_env \<Rightarrow> int \<Rightarrow> identity \<Rightarrow> capture_policy option \<Rightarrow> policy_form \<Rightarrow> mem_store \<Rightarrow> handled" where
  "policy_form_save E now i old b m =
     (let b = b\<lparr>pf_Name := trim_str (pf_Name b)\<rparr>; fields = policy_fields i (old \<noteq> None) b in
      if fields \<noteq> [] then ((422, Fields fields), m)
      else if \<not> isDirector i \<and> pf_ISPID b \<noteq> None \<and> pf_ISPID b \<noteq> Some (id_ISPID i) then ((403, Nothing), m)
      else let scope = (if isDirector i then (case pf_ISPID b of Some n \<Rightarrow> n | None \<Rightarrow> 0) else id_ISPID i) in
        if (case old of Some p \<Rightarrow> pf_Version b \<noteq> policyVersion E p | None \<Rightarrow> False) then (policyError ErrConflict, m)
        else if (case old of Some p \<Rightarrow> scope \<noteq> cp_ISPID p | None \<Rightarrow> False) then ((422, Fields [''ISPID'']), m)
        else if scope \<noteq> 0 \<and> isl (GetISP scope m) then ((422, Fields [''ISPID'']), m)
        else let p = \<lparr>cp_ID = 0, cp_ISPID = scope, cp_Name = pf_Name b, cp_SkipDNS = (pf_SkipDNS b = Some True), cp_SkipPrivate = (pf_SkipPrivate b = Some True),
                      cp_SkipZero = (pf_SkipZero b = Some True), cp_CreatedAt = 0\<rparr>
             in case SavePolicy now old (Some p) m of
                  (Inl e, m') \<Rightarrow> (policyError e, m')
                | (Inr saved, m') \<Rightarrow> ((200, SavedPolicy saved (policyVersion E saved)), m'))"

definition savePolicy :: "api_env \<Rightarrow> int \<Rightarrow> request \<Rightarrow> bool \<Rightarrow> policy_form option \<Rightarrow> mem_store \<Rightarrow> handled" where
  "savePolicy E now r update body = authCSRF E now r (\<lambda>i m.
     if update then
       (case getPolicy r i True m of
          Inl e \<Rightarrow> (jsonErr e, m)
        | Inr p \<Rightarrow> (case body of None \<Rightarrow> ((400, Nothing), m) | Some b \<Rightarrow> policy_form_save E now i (Some p) b m))
     else case body of None \<Rightarrow> ((400, Nothing), m) | Some b \<Rightarrow> policy_form_save E now i None b m)"

definition apiCreatePolicy :: "api_env \<Rightarrow> int \<Rightarrow> request \<Rightarrow> policy_form option \<Rightarrow> mem_store \<Rightarrow> handled" where
  "apiCreatePolicy E now r body = savePolicy E now r False body"

definition apiUpdatePolicy :: "api_env \<Rightarrow> int \<Rightarrow> request \<Rightarrow> policy_form option \<Rightarrow> mem_store \<Rightarrow> handled" where
  "apiUpdatePolicy E now r body = savePolicy E now r True body"

definition apiDeletePolicy :: "api_env \<Rightarrow> int \<Rightarrow> request \<Rightarrow> policy_form option \<Rightarrow> mem_store \<Rightarrow> handled" where
  "apiDeletePolicy E now r body = authCSRF E now r (\<lambda>i m.
     case getPolicy r i True m of
       Inl e \<Rightarrow> (jsonErr e, m)
     | Inr p \<Rightarrow>
         (case body of
            None \<Rightarrow> ((400, Nothing), m)
          | Some b \<Rightarrow>
              if trim_str (pf_Name b) \<noteq> cp_Name p then ((422, Fields [''Name'']), m)
              else if pf_Version b = [] \<or> pf_Version b \<noteq> policyVersion E p then (policyError ErrConflict, m)
              else case SavePolicy now (Some p) None m of
                (Inl e, m') \<Rightarrow> (policyError e, m')
              | (Inr _, m') \<Rightarrow> ((200, Nothing), m')))"

section \<open>Investigations\<close>

definition handleCases :: "api_env \<Rightarrow> int \<Rightarrow> request \<Rightarrow> mem_store \<Rightarrow> handled" where
  "handleCases E now r = authJSON E now r (\<lambda>i m.
     ((200, CasesOut (ListInvestigations (tenantScope i) m) (if isDirector i then ListISPs m else [])), m))"

definition handleCaseGet :: "api_env \<Rightarrow> int \<Rightarrow> request \<Rightarrow> mem_store \<Rightarrow> handled" where
  "handleCaseGet E now r = authJSON E now r (\<lambda>i m.
     case ParseInt64 (rq_id r) of
       (n, ok) \<Rightarrow>
         if \<not> ok then (jsonErr ErrNotFound, m)
         else case GetInvestigation n m of
           Inl _ \<Rightarrow> (jsonErr ErrNotFound, m)
         | Inr c \<Rightarrow> if \<not> isDirector i \<and> iv_ISPID c \<noteq> id_ISPID i then (jsonErr ErrNotFound, m) else ((200, CaseOut c), m))"

definition read_case :: "request \<Rightarrow> investigation \<Rightarrow> investigation" where
  "read_case r c =
     (let c = (if rq_id r \<noteq> [] then c\<lparr>iv_ID := fst (ParseInt64 (rq_id r))\<rparr> else c);
          status = to_lower (trim_str (iv_Status c))
      in c\<lparr>iv_Reference := trim_str (iv_Reference c), iv_Title := trim_str (iv_Title c), iv_Notes := trim_str (iv_Notes c),
           iv_Status := (if status = [] then ''open'' else status)\<rparr>)"

definition handleCaseSave :: "api_env \<Rightarrow> int \<Rightarrow> request \<Rightarrow> investigation option \<Rightarrow> mem_store \<Rightarrow> handled" where
  "handleCaseSave E now r body = authCSRF E now r (\<lambda>i m.
     case body of
       None \<Rightarrow> ((400, Nothing), m)
     | Some c \<Rightarrow>
         let c = read_case r c in
         if iv_Reference c = [] \<or> iv_Title c = [] \<or> iv_Status c \<noteq> ''open'' \<and> iv_Status c \<noteq> ''closed'' then ((422, Nothing), m)
         else if length (iv_Reference c) > 190 \<or> length (iv_Title c) > 255 \<or> length (iv_Notes c) > 2 ^ 20 then ((422, Nothing), m)
         else
           let target = (if iv_ID c > 0 then
                 (case GetInvestigation (iv_ID c) m of
                    Inl _ \<Rightarrow> Inl (jsonErr ErrNotFound)
                  | Inr old \<Rightarrow>
                      if \<not> isDirector i \<and> iv_ISPID old \<noteq> id_ISPID i then Inl (jsonErr ErrNotFound)
                      else Inr (c\<lparr>iv_ISPID := iv_ISPID old, iv_CreatedBy := iv_CreatedBy old\<rparr>))
               else (case scopeISP i (iv_ISPID c) of
                    None \<Rightarrow> Inl (403, Nothing)
                  | Some scope \<Rightarrow> if scope = 0 then Inl (403, Nothing) else Inr (c\<lparr>iv_ISPID := scope, iv_CreatedBy := id_Email i\<rparr>)))
           in case target of
             Inl e \<Rightarrow> (e, m)
           | Inr c \<Rightarrow>
               (case SaveInvestigation now c m of
                  (Inl e, m') \<Rightarrow> (jsonErr e, m')
                | (Inr saved, m') \<Rightarrow> ((200, CaseOut saved), m')))"

section \<open>The form pages\<close>

text \<open>The wrappers \<open>auth\<close> and \<open>director\<close> of a POST; every outcome of a page handler is a redirect.\<close>

definition auth_page :: "api_env \<Rightarrow> int \<Rightarrow> request \<Rightarrow> (identity \<Rightarrow> mem_store \<Rightarrow> handled) \<Rightarrow> mem_store \<Rightarrow> handled" where
  "auth_page E now r h m =
     (case rq_cookie r of
        None \<Rightarrow> ((303, Nothing), m)
      | Some c \<Rightarrow>
          (case parseSession (av_auth E) now c of
             None \<Rightarrow> ((303, Nothing), m)
           | Some i \<Rightarrow>
               if \<not> validCSRF (av_auth E) i (rq_csrf r) then ((403, Nothing), m)
               else if rq_path r \<noteq> ''/logout'' \<and> \<not> canManage i then ((403, Nothing), m)
               else h i m))"

definition director_page :: "api_env \<Rightarrow> int \<Rightarrow> request \<Rightarrow> (identity \<Rightarrow> mem_store \<Rightarrow> handled) \<Rightarrow> mem_store \<Rightarrow> handled" where
  "director_page E now r h = auth_page E now r (\<lambda>i m. if \<not> isDirector i then ((403, Nothing), m) else h i m)"

definition handleCreateISP :: "api_env \<Rightarrow> int \<Rightarrow> request \<Rightarrow> string \<Rightarrow> string \<Rightarrow> string \<Rightarrow> mem_store \<Rightarrow> handled" where
  "handleCreateISP E now r name admin_email admin_password = director_page E now r (\<lambda>i m.
     let name = trim_str name in
     if name = [] then ((303, Nothing), m)
     else case CreateISP now name m of
       (Inl e, m') \<Rightarrow> ((303, Nothing), m')
     | (Inr v, m') \<Rightarrow>
         let email = trim_str (to_lower admin_email) in
         ((303, Nothing),
          if email \<noteq> [] \<and> admin_password \<noteq> [] then
            (case HashPassword (av_auth E) admin_password of
               None \<Rightarrow> m'
             | Some hash \<Rightarrow> snd (CreateUser now \<lparr>us_ID = 0, us_ISPID = is_ID v, us_Email = email, us_PasswordHash = hash, us_Role = RoleISP,
                                   us_TOTPSecret = [], us_TOTPEnabled = False, us_CreatedAt = 0\<rparr> m'))
          else m'))"

definition handleToggleISP :: "api_env \<Rightarrow> int \<Rightarrow> request \<Rightarrow> mem_store \<Rightarrow> handled" where
  "handleToggleISP E now r = director_page E now r (\<lambda>i m.
     case GetISP (of_nat (fst (ParseUint 32 (rq_id r)))) m of
       Inl _ \<Rightarrow> ((303, Nothing), m)
     | Inr v \<Rightarrow> ((303, Nothing), snd (SetISPEnabled (is_ID v) (\<not> is_Enabled v) m)))"

text \<open>The form values \<open>isp_id\<close> and \<open>device_id\<close> are the texts \<open>isp\<close> and \<open>dev\<close>; the rest is in \<open>b\<close>.\<close>

definition handleCreateDevice :: "api_env \<Rightarrow> int \<Rightarrow> request \<Rightarrow> string \<Rightarrow> string \<Rightarrow> device_form \<Rightarrow> mem_store \<Rightarrow> handled" where
  "handleCreateDevice E now r isp dev b = auth_page E now r (\<lambda>i m.
     case scopeISP i (parseUint32 isp) of
       None \<Rightarrow> ((303, Nothing), m)
     | Some scope \<Rightarrow>
         if scope = 0 then ((303, Nothing), m)
         else let d = \<lparr>sd_ID = 0, sd_ISPID = scope, sd_Name = trim_str (df_Name b), sd_ExporterIP = trim_str (df_ExporterIP b), sd_DeviceID = parseUint32 dev,
                       sd_Protocol = valOr (df_Protocol b) ''auto'', sd_Profile = valOr (df_Profile b) ''generic'', sd_CapturePolicy = [], sd_Enabled = True,
                       sd_SkipDNS = df_SkipDNS b, sd_SkipPrivate = df_SkipPrivate b, sd_SkipZero = df_SkipZero b, sd_UpdatedAt = 0\<rparr>
              in if isl (GetISP scope m) \<or> Validate_devices [checked_spec d] \<noteq> None then ((303, Nothing), m)
                 else ((303, Nothing), snd (CreateDevice now d m)))"

definition handleDeleteDevice :: "api_env \<Rightarrow> int \<Rightarrow> request \<Rightarrow> mem_store \<Rightarrow> handled" where
  "handleDeleteDevice E now r = auth_page E now r (\<lambda>i m.
     case ownedDevice r i m of Inl _ \<Rightarrow> ((303, Nothing), m) | Inr d \<Rightarrow> ((303, Nothing), snd (DeleteDevice (sd_ID d) m)))"

definition handleToggleDevice :: "api_env \<Rightarrow> int \<Rightarrow> request \<Rightarrow> mem_store \<Rightarrow> handled" where
  "handleToggleDevice E now r = auth_page E now r (\<lambda>i m.
     case ownedDevice r i m of Inl _ \<Rightarrow> ((303, Nothing), m) | Inr d \<Rightarrow> ((303, Nothing), snd (UpdateDevice now (d\<lparr>sd_Enabled := \<not> sd_Enabled d\<rparr>) m)))"

section \<open>Routes\<close>

datatype route =
    ListDevicesR | CreateDeviceR "device_form option" | UpdateDeviceR "device_form option" | ToggleDeviceR | DeleteDeviceR
  | ListUsersR | GetUserR | CreateUserR "user_form option" | UpdateUserR "user_form option" | DeleteUserR "user_form option"
  | ResetPasswordR "user_form option" | ChangeOwnPasswordR "user_form option"
  | TOTPSetupR "bytes option" "bytes option" | TOTPConfirmR "string option" | TOTPDisableR "(string \<times> string) option"
  | ListISPsR | GetISPR | CreateISPR "isp_form option" | UpdateISPR "isp_form option" | DeleteISPR "(u64 option \<times> string) option" | ToggleISPR
  | ListPoliciesR | GetPolicyR | CreatePolicyR "policy_form option" | UpdatePolicyR "policy_form option" | DeletePolicyR "policy_form option"
  | CasesR | CaseGetR | CaseSaveR "investigation option" | CaseUpdateR "investigation option"
  | PageCreateISP string string string | PageToggleISP | PageCreateDevice string string device_form | PageDeleteDevice | PageToggleDevice

text \<open>The path and the path value \<open>id\<close> of a request that the table of \<open>Handler\<close> sends to a route.\<close>

fun route_path :: "route \<Rightarrow> string \<Rightarrow> string" where
  "route_path ListDevicesR x = ''/api/v1/devices''"
| "route_path (CreateDeviceR b) x = ''/api/v1/devices''"
| "route_path (UpdateDeviceR b) x = ''/api/v1/devices/'' @ x"
| "route_path ToggleDeviceR x = ''/api/v1/devices/'' @ x @ ''/toggle''"
| "route_path DeleteDeviceR x = ''/api/v1/devices/'' @ x"
| "route_path ListUsersR x = ''/api/v1/users''"
| "route_path GetUserR x = ''/api/v1/users/'' @ x"
| "route_path (CreateUserR b) x = ''/api/v1/users''"
| "route_path (UpdateUserR b) x = ''/api/v1/users/'' @ x"
| "route_path (DeleteUserR b) x = ''/api/v1/users/'' @ x"
| "route_path (ResetPasswordR b) x = ''/api/v1/users/'' @ x @ ''/reset''"
| "route_path (ChangeOwnPasswordR b) x = ''/api/v1/account/password''"
| "route_path (TOTPSetupR a b) x = ''/api/v1/account/totp/setup''"
| "route_path (TOTPConfirmR b) x = ''/api/v1/account/totp/confirm''"
| "route_path (TOTPDisableR b) x = ''/api/v1/account/totp/disable''"
| "route_path ListISPsR x = ''/api/v1/isps''"
| "route_path GetISPR x = ''/api/v1/isps/'' @ x"
| "route_path (CreateISPR b) x = ''/api/v1/isps''"
| "route_path (UpdateISPR b) x = ''/api/v1/isps/'' @ x"
| "route_path (DeleteISPR b) x = ''/api/v1/isps/'' @ x"
| "route_path ToggleISPR x = ''/api/v1/isps/'' @ x @ ''/toggle''"
| "route_path ListPoliciesR x = ''/api/v1/policies''"
| "route_path GetPolicyR x = ''/api/v1/policies/'' @ x"
| "route_path (CreatePolicyR b) x = ''/api/v1/policies''"
| "route_path (UpdatePolicyR b) x = ''/api/v1/policies/'' @ x"
| "route_path (DeletePolicyR b) x = ''/api/v1/policies/'' @ x"
| "route_path CasesR x = ''/api/v1/cases''"
| "route_path CaseGetR x = ''/api/v1/cases/'' @ x"
| "route_path (CaseSaveR b) x = ''/api/v1/cases''"
| "route_path (CaseUpdateR b) x = ''/api/v1/cases/'' @ x"
| "route_path (PageCreateISP a b c) x = ''/isps''"
| "route_path PageToggleISP x = ''/isps/'' @ x @ ''/toggle''"
| "route_path (PageCreateDevice a b c) x = ''/devices''"
| "route_path PageDeleteDevice x = ''/devices/'' @ x @ ''/delete''"
| "route_path PageToggleDevice x = ''/devices/'' @ x @ ''/toggle''"

text \<open>The handler of a route; \<open>CaseSaveR\<close> has no path value.\<close>

fun handler :: "api_env \<Rightarrow> int \<Rightarrow> route \<Rightarrow> request \<Rightarrow> mem_store \<Rightarrow> handled" where
  "handler E now ListDevicesR r = apiListDevices E now r"
| "handler E now (CreateDeviceR b) r = apiCreateDevice E now r b"
| "handler E now (UpdateDeviceR b) r = apiUpdateDevice E now r b"
| "handler E now ToggleDeviceR r = apiToggleDevice E now r"
| "handler E now DeleteDeviceR r = apiDeleteDevice E now r"
| "handler E now ListUsersR r = apiListUsers E now r"
| "handler E now GetUserR r = apiGetUser E now r"
| "handler E now (CreateUserR b) r = apiCreateUser E now r b"
| "handler E now (UpdateUserR b) r = apiUpdateUser E now r b"
| "handler E now (DeleteUserR b) r = apiDeleteUser E now r b"
| "handler E now (ResetPasswordR b) r = apiResetPassword E now r b"
| "handler E now (ChangeOwnPasswordR b) r = apiChangeOwnPassword E now r b"
| "handler E now (TOTPSetupR a b) r = handleTOTPSetup E now r a b"
| "handler E now (TOTPConfirmR b) r = handleTOTPConfirm E now r b"
| "handler E now (TOTPDisableR b) r = handleTOTPDisable E now r b"
| "handler E now ListISPsR r = apiListISPs E now r"
| "handler E now GetISPR r = apiGetISP E now r"
| "handler E now (CreateISPR b) r = apiCreateISP E now r b"
| "handler E now (UpdateISPR b) r = apiUpdateISP E now r b"
| "handler E now (DeleteISPR b) r = apiDeleteISP E now r b"
| "handler E now ToggleISPR r = apiToggleISP E now r"
| "handler E now ListPoliciesR r = apiListPolicies E now r"
| "handler E now GetPolicyR r = apiGetPolicy E now r"
| "handler E now (CreatePolicyR b) r = apiCreatePolicy E now r b"
| "handler E now (UpdatePolicyR b) r = apiUpdatePolicy E now r b"
| "handler E now (DeletePolicyR b) r = apiDeletePolicy E now r b"
| "handler E now CasesR r = handleCases E now r"
| "handler E now CaseGetR r = handleCaseGet E now r"
| "handler E now (CaseSaveR b) r = handleCaseSave E now r b"
| "handler E now (CaseUpdateR b) r = handleCaseSave E now r b"
| "handler E now (PageCreateISP n e p) r = handleCreateISP E now r n e p"
| "handler E now PageToggleISP r = handleToggleISP E now r"
| "handler E now (PageCreateDevice i d b) r = handleCreateDevice E now r i d b"
| "handler E now PageDeleteDevice r = handleDeleteDevice E now r"
| "handler E now PageToggleDevice r = handleToggleDevice E now r"

definition serve :: "api_env \<Rightarrow> int \<Rightarrow> route \<Rightarrow> request \<Rightarrow> mem_store \<Rightarrow> handled" where
  "serve E now rt r = handler E now rt (r\<lparr>rq_path := route_path rt (rq_id r), rq_id := (case rt of CaseSaveR _ \<Rightarrow> [] | _ \<Rightarrow> rq_id r)\<rparr>)"

end
