(* ===== verification/Login.thy ===== *)
theory Login
  imports Throttle Api Store_Laws
begin

text \<open>
  The login handlers: \<open>handleLogin\<close> of \<open>internal/director/server.go\<close> and \<open>handleAPILogin\<close>,
  \<open>handleAPILogout\<close> of \<open>console.go\<close>, over the throttle and the store.  A login advances the throttle as
  \<open>login_try\<close> does, which carries the bound on guesses over to the handlers.
\<close>

section \<open>The client address\<close>

definition last_colon :: "string \<Rightarrow> nat option" where
  "last_colon s = (if CHR '':'' \<in> set s then Some (length s - 1 - length (takeWhile (\<lambda>c. c \<noteq> CHR '':'') (rev s))) else None)"

text \<open>The host of \<open>net.SplitHostPort\<close>, empty when it reports an error.\<close>

definition SplitHost :: "string \<Rightarrow> string" where
  "SplitHost hp =
     (case last_colon hp of
        None \<Rightarrow> []
      | Some i \<Rightarrow>
          if hd hp = CHR ''['' then
            let e = length (takeWhile (\<lambda>c. c \<noteq> CHR '']'') hp) in
            if e = length hp \<or> e + 1 \<noteq> i \<or> CHR ''['' \<in> set (drop 1 hp) \<or> CHR '']'' \<in> set (drop (e + 1) hp) then []
            else take (e - 1) (drop 1 hp)
          else if CHR '':'' \<in> set (take i hp) \<or> CHR ''['' \<in> set hp \<or> CHR '']'' \<in> set hp then []
          else take i hp)"

definition throttleKey :: "string \<Rightarrow> string \<Rightarrow> string" where
  "throttleKey remoteAddr email =
     (let clientIP = SplitHost remoteAddr; clientIP = (if clientIP = [] then remoteAddr else clientIP) in clientIP @ '':'' @ email)"

section \<open>The handlers\<close>

record credentials =
  cr_Email :: string
  cr_Password :: string
  cr_TOTP :: string

definition login_email :: "credentials \<Rightarrow> string" where
  "login_email b = trim_str (to_lower (cr_Email b))"

text \<open>Whether the credentials are those of a stored user, and whether the user may sign in.\<close>

definition authenticate :: "api_env \<Rightarrow> int \<Rightarrow> credentials \<Rightarrow> mem_store \<Rightarrow> login_outcome \<times> user option" where
  "authenticate E now b m =
     (let found = GetUserByLogin (login_email b) m;
          hash = (case found of Inr u \<Rightarrow> us_PasswordHash u | Inl _ \<Rightarrow> ae_dummyHash (av_auth E))
      in case (VerifyPassword (av_auth E) hash (cr_Password b), found) of
           (True, Inr u) \<Rightarrow>
             if us_TOTPEnabled u \<and> \<not> verifyUserTOTP (av_auth E) u (cr_TOTP b) (now div 1000000000) then (LoginFailed, None)
             else if \<not> ispLoginAllowed u m then (LoginForbidden, None)
             else (LoginOK, Some u)
         | _ \<Rightarrow> (LoginFailed, None))"

definition session_of :: "int \<Rightarrow> user \<Rightarrow> identity" where
  "session_of now u = \<lparr>id_UserID = us_ID u, id_ISPID = us_ISPID u, id_Role = us_Role u, id_Email = us_Email u, id_Exp = (now + sessionTTL) div 1000000000\<rparr>"

text \<open>The status, the session with its cookie, and the throttle (\<open>None\<close> when logins are not throttled).\<close>

definition handleAPILogin ::
    "api_env \<Rightarrow> int \<Rightarrow> string \<Rightarrow> credentials option \<Rightarrow> mem_store \<Rightarrow> login_throttle option \<Rightarrow> (nat \<times> (identity \<times> string) option) \<times> login_throttle option" where
  "handleAPILogin E now remoteAddr body m throttle =
     (case body of
        None \<Rightarrow> ((400, None), throttle)
      | Some b \<Rightarrow>
          let key = throttleKey remoteAddr (login_email b);
              (locked, throttle) = (case throttle of
                  None \<Rightarrow> (False, None)
                | Some lt \<Rightarrow> (case Check_throttle now key lt of ((locked, remaining), lt') \<Rightarrow> (locked, Some lt')))
          in if locked then ((429, None), throttle)
             else case authenticate E now b m of
               (LoginOK, Some u) \<Rightarrow>
                 let i = session_of now u in ((200, Some (i, signSession (av_auth E) i)), map_option (RecordSuccess key) throttle)
             | (LoginForbidden, _) \<Rightarrow> ((403, None), throttle)
             | _ \<Rightarrow> ((401, None), map_option (\<lambda>lt. snd (RecordFailure now key lt)) throttle))"

text \<open>The form has the same fields; its success is a redirect.\<close>

definition handleLogin ::
    "api_env \<Rightarrow> int \<Rightarrow> string \<Rightarrow> credentials \<Rightarrow> mem_store \<Rightarrow> login_throttle option \<Rightarrow> (nat \<times> (identity \<times> string) option) \<times> login_throttle option" where
  "handleLogin E now remoteAddr b m throttle =
     (case handleAPILogin E now remoteAddr (Some b) m throttle of
        ((status, session), throttle) \<Rightarrow> ((if status = 200 then 303 else status, session), throttle))"

text \<open>Whether the session cookie is cleared; \<open>r\<close> carries the token of the request.\<close>

definition handleAPILogout :: "api_env \<Rightarrow> int \<Rightarrow> request \<Rightarrow> mem_store \<Rightarrow> nat \<times> bool" where
  "handleAPILogout E now r m =
     (case currentIdentity E now r m of
        Some i \<Rightarrow> if \<not> validCSRF (av_auth E) i (rq_csrf r) then (403, False) else (200, True)
      | None \<Rightarrow> (200, True))"

section \<open>A login as a step of the throttle\<close>

lemma authenticate_OK:
  assumes "authenticate E now b m = (LoginOK, r)"
  obtains u where "r = Some u" "GetUserByLogin (login_email b) m = Inr u" "VerifyPassword (av_auth E) (us_PasswordHash u) (cr_Password b)"
    "us_TOTPEnabled u \<Longrightarrow> verifyUserTOTP (av_auth E) u (cr_TOTP b) (now div 1000000000)" "ispLoginAllowed u m"
  using assms by (auto simp: authenticate_def Let_def split: sum.splits if_splits bool.splits)

lemma login_refines_try:
  assumes "login_try now (throttleKey addr (login_email b)) (fst (authenticate E now b m)) lt = (tried, lt')"
  shows "snd (handleAPILogin E now addr (Some b) m (Some lt)) = Some lt'"
    "fst (fst (handleAPILogin E now addr (Some b) m (Some lt))) =
       (if \<not> tried then 429 else case fst (authenticate E now b m) of LoginFailed \<Rightarrow> 401 | LoginForbidden \<Rightarrow> 403 | LoginOK \<Rightarrow> 200)"
proof -
  obtain out r where a: "authenticate E now b m = (out, r)" by fastforce
  have "out = LoginOK \<Longrightarrow> \<exists>u. r = Some u" using a authenticate_OK by metis
  then show "snd (handleAPILogin E now addr (Some b) m (Some lt)) = Some lt'"
    "fst (fst (handleAPILogin E now addr (Some b) m (Some lt))) =
       (if \<not> tried then 429 else case fst (authenticate E now b m) of LoginFailed \<Rightarrow> 401 | LoginForbidden \<Rightarrow> 403 | LoginOK \<Rightarrow> 200)"
    using assms a by (cases out; auto simp: handleAPILogin_def login_try_def Let_def split: prod.splits if_splits)+
qed

text \<open>
  A sequence of logins, each with its time, address, credentials and the store at that moment: how many of those under a
  key are answered with 401, that is, have their password or code looked at and found wrong.
\<close>

type_synonym login_event = "int \<times> string \<times> credentials \<times> mem_store"

definition event_key :: "login_event \<Rightarrow> string" where
  "event_key e = (case e of (now, addr, b, m) \<Rightarrow> throttleKey addr (login_email b))"

definition event_outcome :: "api_env \<Rightarrow> login_event \<Rightarrow> login_outcome" where
  "event_outcome E e = (case e of (now, addr, b, m) \<Rightarrow> fst (authenticate E now b m))"

fun wrong_logins :: "api_env \<Rightarrow> string \<Rightarrow> login_event list \<Rightarrow> login_throttle option \<Rightarrow> int" where
  "wrong_logins E k [] lt = 0"
| "wrong_logins E k ((now, addr, b, m) # es) lt =
     (case handleAPILogin E now addr (Some b) m lt of
        ((status, session), lt') \<Rightarrow>
          (if throttleKey addr (login_email b) = k \<and> status = 401 then 1 else 0) + wrong_logins E k es lt')"

lemma wrong_logins_guesses:
  assumes "\<forall>e\<in>set es. event_key e = k \<longrightarrow> event_outcome E e = LoginFailed"
  shows "wrong_logins E k es (Some lt) = guesses k (map (\<lambda>e. (fst e, event_key e, event_outcome E e)) es) lt"
  using assms
proof (induction es arbitrary: lt)
  case (Cons e es)
  obtain now addr b m where e: "e = (now, addr, b, m)" by (metis prod_cases4)
  let ?k = "throttleKey addr (login_email b)" and ?out = "fst (authenticate E now b m)"
  obtain tried lt' where l: "login_try now ?k ?out lt = (tried, lt')" by fastforce
  have out: "?k = k \<Longrightarrow> ?out = LoginFailed" using Cons.prems e by (auto simp: event_key_def event_outcome_def)
  obtain st s th where h: "handleAPILogin E now addr (Some b) m (Some lt) = ((st, s), th)" by (metis prod.exhaust)
  have "th = Some lt'" "st = (if \<not> tried then 429 else case ?out of LoginFailed \<Rightarrow> 401 | LoginForbidden \<Rightarrow> 403 | LoginOK \<Rightarrow> 200)"
    using login_refines_try[OF l] h by simp_all
  then show ?case
    using Cons h l out e by (cases "?k = k") (auto simp: event_key_def event_outcome_def)
qed simp

fun in_order :: "int \<Rightarrow> login_event list \<Rightarrow> int \<Rightarrow> bool" where
  "in_order t [] T \<longleftrightarrow> t \<le> T"
| "in_order t ((now, addr, b, m) # es) T \<longleftrightarrow> t \<le> now \<and> in_order now es T"

lemma in_order_chronological: "in_order t es T = chronological t (map (\<lambda>e. (fst e, event_key e, event_outcome E e)) es) T"
  by (induction t es T rule: in_order.induct) auto


definition ex_login_env :: api_env where
  "ex_login_env = \<lparr>av_auth = ex_env\<lparr>ae_marshal := \<lambda>i. [of_int (id_UserID i)], ae_compare := (\<lambda>h p. h = p)\<rparr>,
     av_ParseAddress = Some, av_policyJSON = (\<lambda>p. [])\<rparr>"

definition ex_credentials :: credentials where
  "ex_credentials = \<lparr>cr_Email = '' Ann@X.org'', cr_Password = ''wrong'', cr_TOTP = []\<rparr>"

definition ex_logins :: "login_event list" where
  "ex_logins = map (\<lambda>t. (t, ''198.51.100.7:4711'', ex_credentials, NewMem)) [0, 2, 3, 4]"

lemma ex_login_fails: "fst (authenticate E now b NewMem) = LoginFailed"
proof -
  have "GetUserByLogin l NewMem = Inl ErrNotFound" for l
    by (simp add: GetUserByLogin_def GetUserByEmail_def NewMem_def)
  then show ?thesis by (simp add: authenticate_def Let_def split: bool.splits)
qed


section \<open>The session of a login\<close>

lemma GetUserByLogin_listed:
  assumes "GetUserByLogin l m = Inr u"
  shows "u \<in> set (ListUsers 0 m)"
proof -
  have "u \<in> set (map snd (ms_users m))"
  proof (cases "CHR ''@'' \<in> set l")
    case True
    then show ?thesis
      using assms by (auto simp: GetUserByLogin_def GetUserByEmail_def split: option.splits dest!: map_of_SomeD) force
  next
    case False
    let ?f = "\<lambda>(k :: u32, i :: isp). if equal_fold (is_Username i) l
        then find (\<lambda>u. us_ID u = is_AdminUserID i \<and> us_ISPID u = is_ID i \<and> us_Role u = RoleISP) (map snd (ms_users m)) else None"
    from False have "find (\<lambda>u. u \<noteq> None) (map ?f (ms_isps m)) = Some (Some u)"
      using assms by (simp add: GetUserByLogin_def split: option.splits)
    then have "Some u \<in> set (map ?f (ms_isps m))" by (rule find_in_set)
    then obtain ki where "Some u = ?f ki" by auto
    then obtain k i where "Some u = ?f (k, i)" by (cases ki) blast
    then have "find (\<lambda>u. us_ID u = is_AdminUserID i \<and> us_ISPID u = is_ID i \<and> us_Role u = RoleISP) (map snd (ms_users m)) = Some u"
      by (simp split: if_splits)
    then show ?thesis by (rule find_in_set)
  qed
  then show ?thesis by (simp add: ListUsers_def)
qed

text \<open>
  A login that answers with a session has found a stored user with the password, with the code of the authenticator
  when one is set up, and with an enabled tenant; and for twelve hours, while that user stays as he is and
  may sign in, requests with the cookie are his, and none after that.
\<close>

theorem login_session:
  assumes ops: "list_all op_lower ops" "length ops < 2 ^ 32" "m = store_run sha ft ops NewMem"
    and codec: "\<And>u. GetUserByLogin (login_email b) m = Inr u \<Longrightarrow>
      ae_unmarshal (av_auth E) (ae_marshal (av_auth E) (session_of now u)) = Some (session_of now u)"
    and login: "fst (handleAPILogin E now addr (Some b) m throttle) = (status, Some (i, cookie))"
  shows "\<exists>u. GetUserByLogin (login_email b) m = Inr u \<and> VerifyPassword (av_auth E) (us_PasswordHash u) (cr_Password b) \<and>
    (us_TOTPEnabled u \<longrightarrow> verifyUserTOTP (av_auth E) u (cr_TOTP b) (now div 1000000000)) \<and> ispLoginAllowed u m \<and>
    i = session_of now u \<and>
    (\<forall>t r. rq_cookie r = Some cookie \<longrightarrow>
       currentIdentity E t r m = (if t div 1000000000 > (now + sessionTTL) div 1000000000 then None else Some (session_of now u)))"
proof -
  obtain u where a: "authenticate E now b m = (LoginOK, Some u)" and i: "i = session_of now u" "cookie = signSession (av_auth E) i"
    using login by (auto simp: handleAPILogin_def Let_def split: option.splits prod.splits if_splits login_outcome.splits)
  obtain v where v: "Some u = Some v" "GetUserByLogin (login_email b) m = Inr v" "VerifyPassword (av_auth E) (us_PasswordHash v) (cr_Password b)"
    "us_TOTPEnabled v \<Longrightarrow> verifyUserTOTP (av_auth E) v (cr_TOTP b) (now div 1000000000)" "ispLoginAllowed v m"
    using authenticate_OK[OF a] by blast
  have "users_ok m" using store_run_NewMem[OF ops(1,2)] ops(3) by (simp add: store_wf_def)
  then have "GetUser (us_ID u) m = Inr u" using users_ok_lookup GetUserByLogin_listed v by blast
  then have "currentIdentity E t r m = (if t div 1000000000 > (now + sessionTTL) div 1000000000 then None else Some (session_of now u))"
    if "rq_cookie r = Some cookie" for t r
    using that i v parseSession_sign[OF codec[OF v(2)], of t] by (simp add: currentIdentity_def session_of_def)
  then show ?thesis using v i by blast
qed

definition ex_admin :: user where
  "ex_admin = \<lparr>us_ID = 1, us_ISPID = 0, us_Email = ''ann@x.org'', us_PasswordHash = ''pw'', us_Role = RoleDirector, us_TOTPSecret = [],
     us_TOTPEnabled = False, us_CreatedAt = 5\<rparr>"

definition ex_admin_env :: api_env where
  "ex_admin_env = ex_login_env\<lparr>av_auth := (av_auth ex_login_env)\<lparr>ae_unmarshal := (\<lambda>_. Some (session_of 0 ex_admin))\<rparr>\<rparr>"

definition ex_admin_store :: mem_store where
  "ex_admin_store = store_run (\<lambda>_. [0]) (\<lambda>_. []) [OpCreateUser 5 ex_admin] NewMem"

definition ex_right :: credentials where
  "ex_right = ex_credentials\<lparr>cr_Password := ''pw''\<rparr>"

lemma ex_right_login:
  "login_email ex_right = ''ann@x.org''" "GetUserByLogin ''ann@x.org'' ex_admin_store = Inr ex_admin"
  "authenticate ex_admin_env 0 ex_right ex_admin_store = (LoginOK, Some ex_admin)"
  by code_simp+

theorem login_session_witness:
  "\<exists>u. GetUserByLogin (login_email ex_right) ex_admin_store = Inr u \<and> VerifyPassword (av_auth ex_admin_env) (us_PasswordHash u) (cr_Password ex_right) \<and>
    (us_TOTPEnabled u \<longrightarrow> verifyUserTOTP (av_auth ex_admin_env) u (cr_TOTP ex_right) (0 div 1000000000)) \<and> ispLoginAllowed u ex_admin_store \<and>
    session_of 0 ex_admin = session_of 0 u \<and>
    (\<forall>t r. rq_cookie r = Some (signSession (av_auth ex_admin_env) (session_of 0 ex_admin)) \<longrightarrow>
       currentIdentity ex_admin_env t r ex_admin_store = (if t div 1000000000 > (0 + sessionTTL) div 1000000000 then None else Some (session_of 0 u)))"
proof (rule login_session[OF _ _ ex_admin_store_def])
  show "fst (handleAPILogin ex_admin_env 0 ''198.51.100.7:4711'' (Some ex_right) ex_admin_store None) =
      (200, Some (session_of 0 ex_admin, signSession (av_auth ex_admin_env) (session_of 0 ex_admin)))"
    by (simp add: handleAPILogin_def ex_right_login Let_def)
  show "ae_unmarshal (av_auth ex_admin_env) (ae_marshal (av_auth ex_admin_env) (session_of 0 u)) = Some (session_of 0 u)"
    if "GetUserByLogin (login_email ex_right) ex_admin_store = Inr u" for u
    using that by (simp add: ex_right_login ex_admin_env_def)
qed (simp_all add: ex_admin_def)

end
