(* ===== verification/Tenancy.thy ===== *)
theory Tenancy
  imports Api Store_Laws
begin

text \<open>
  Tenant isolation of the director's interface.  \<open>same_outside t m m'\<close> says that two stores agree on
  everything that does not belong to tenant \<open>t\<close>; \<open>shows_only t\<close> that a response shows nothing of
  another tenant.  Both hold of every route for a session of a user of \<open>t\<close>.
\<close>

section \<open>Agreement outside a tenant\<close>

definition kept_outside :: "('v \<Rightarrow> bool) \<Rightarrow> ('k \<rightharpoonup> 'v) \<Rightarrow> ('k \<rightharpoonup> 'v) \<Rightarrow> bool" where
  "kept_outside P M N \<longleftrightarrow> (\<forall>k v. P v \<longrightarrow> (N k = Some v \<longleftrightarrow> M k = Some v))"

lemma kept_outside_refl [simp]: "kept_outside P M M"
  by (simp add: kept_outside_def)

lemma kept_outside_upd:
  assumes "\<not> P v" "\<And>w. M k = Some w \<Longrightarrow> \<not> P w"
  shows "kept_outside P M (M(k \<mapsto> v))"
  using assms by (auto simp: kept_outside_def)

lemma kept_outside_del:
  assumes "\<And>w. M k = Some w \<Longrightarrow> \<not> P w"
  shows "kept_outside P M (M(k := None))"
  using assms by (auto simp: kept_outside_def)

lemma kept_outside_trans: "kept_outside P M N \<Longrightarrow> kept_outside P N L \<Longrightarrow> kept_outside P M L"
  by (simp add: kept_outside_def)

definition same_outside :: "u32 \<Rightarrow> mem_store \<Rightarrow> mem_store \<Rightarrow> bool" where
  "same_outside t m m' \<longleftrightarrow>
     ms_isps m' = ms_isps m \<and> ms_agents m' = ms_agents m \<and> ms_settings m' = ms_settings m \<and> ms_queries m' = ms_queries m \<and>
     kept_outside (\<lambda>u. us_ISPID u \<noteq> t) (map_of (ms_users m)) (map_of (ms_users m')) \<and>
     kept_outside (\<lambda>d. sd_ISPID d \<noteq> t) (map_of (ms_devices m)) (map_of (ms_devices m')) \<and>
     kept_outside (\<lambda>p. cp_ISPID p \<noteq> t) (map_of (ms_policies m)) (map_of (ms_policies m')) \<and>
     kept_outside (\<lambda>c. iv_ISPID c \<noteq> t) (map_of (ms_investigations m)) (map_of (ms_investigations m'))"

lemma same_outside_refl [simp]: "same_outside t m m"
  by (simp add: same_outside_def)

section \<open>Store operations of one tenant\<close>

lemma same_outside_users:
  "kept_outside (\<lambda>u. us_ISPID u \<noteq> t) (map_of (ms_users m)) (map_of us) \<Longrightarrow> same_outside t m (m\<lparr>ms_nextUser := n, ms_users := us\<rparr>)"
  "kept_outside (\<lambda>u. us_ISPID u \<noteq> t) (map_of (ms_users m)) (map_of us) \<Longrightarrow> same_outside t m (m\<lparr>ms_users := us\<rparr>)"
  by (simp_all add: same_outside_def)

lemma same_outside_devices:
  "kept_outside (\<lambda>d. sd_ISPID d \<noteq> t) (map_of (ms_devices m)) (map_of ds) \<Longrightarrow> same_outside t m (m\<lparr>ms_nextDev := n, ms_devices := ds\<rparr>)"
  "kept_outside (\<lambda>d. sd_ISPID d \<noteq> t) (map_of (ms_devices m)) (map_of ds) \<Longrightarrow> same_outside t m (m\<lparr>ms_devices := ds\<rparr>)"
  by (simp_all add: same_outside_def)

lemma same_outside_policies:
  "kept_outside (\<lambda>p. cp_ISPID p \<noteq> t) (map_of (ms_policies m)) (map_of ps) \<Longrightarrow> same_outside t m (m\<lparr>ms_nextPol := n, ms_policies := ps\<rparr>)"
  "kept_outside (\<lambda>p. cp_ISPID p \<noteq> t) (map_of (ms_policies m)) (map_of ps) \<Longrightarrow> same_outside t m (m\<lparr>ms_policies := ps\<rparr>)"
  by (simp_all add: same_outside_def)

lemma same_outside_cases:
  "kept_outside (\<lambda>c. iv_ISPID c \<noteq> t) (map_of (ms_investigations m)) (map_of cs) \<Longrightarrow>
     same_outside t m (m\<lparr>ms_nextInvestigation := n, ms_investigations := cs\<rparr>)"
  "kept_outside (\<lambda>c. iv_ISPID c \<noteq> t) (map_of (ms_investigations m)) (map_of cs) \<Longrightarrow> same_outside t m (m\<lparr>ms_investigations := cs\<rparr>)"
  by (simp_all add: same_outside_def)

lemma fresh_number:
  assumes "\<And>k v. M k = Some v \<Longrightarrow> k \<le> (n :: int)"
  shows "M (n + 1) = None"
  using assms[of "n + 1"] by (cases "M (n + 1)") auto

lemma new_device_number:
  "devices_ok m \<Longrightarrow> map_of (ms_devices m) (ms_nextDev m + 1) = None"
  by (rule fresh_number) (auto simp: devices_ok_def devices_wf_def simp del: map_of_eq_Some_iff)

lemma new_numbered:
  "numbered f xs n \<Longrightarrow> map_of xs (n + 1) = None"
  by (rule fresh_number) (auto simp: numbered_def simp del: map_of_eq_Some_iff)

lemma tenant_CreateDevice:
  assumes "devices_ok m" "sd_ISPID d = t"
  shows "same_outside t m (snd (CreateDevice now d m))"
  using new_device_number[OF assms(1)] assms(2)
  by (auto simp: CreateDevice_def Let_def update_conv' intro!: same_outside_devices kept_outside_upd)

lemma tenant_UpdateDevice:
  assumes "sd_ISPID d = t" "\<And>w. map_of (ms_devices m) (sd_ID d) = Some w \<Longrightarrow> sd_ISPID w = t"
  shows "same_outside t m (snd (UpdateDevice now d m))"
  using assms by (auto simp: UpdateDevice_def update_conv' intro!: same_outside_devices kept_outside_upd)

lemma tenant_DeleteDevice:
  assumes "\<And>w. map_of (ms_devices m) i = Some w \<Longrightarrow> sd_ISPID w = t"
  shows "same_outside t m (snd (DeleteDevice i m))"
  using assms by (auto simp: DeleteDevice_def delete_conv' intro!: same_outside_devices kept_outside_del)

lemma tenant_CreateUser:
  assumes "us_ISPID u = t"
  shows "same_outside t m (snd (CreateUser now u m))"
  using assms by (auto simp: CreateUser_def Let_def update_conv' intro!: same_outside_users kept_outside_upd)

text \<open>A lookup by number finds the only entry with that number.\<close>

lemma GetUser_entry:
  assumes "users_ok m" "GetUser i m = Inr u"
  obtains k where "find_val (\<lambda>x. us_ID x = i) (ms_users m) = Some (k, u)" "map_of (ms_users m) k = Some u" "us_ID u = i"
proof -
  obtain k where k: "find_val (\<lambda>x. us_ID x = i) (ms_users m) = Some (k, u)"
    using assms(2) by (auto simp: GetUser_def split: option.splits)
  then show thesis
    using that find_val_Some[of "ms_users m" "\<lambda>x. us_ID x = i" k u] assms(1) by (auto simp: users_ok_def)
qed

text \<open>An operation on one account keeps every account outside it; \<open>P\<close> is what it must keep.\<close>

lemma kept_on_user:
  assumes ok: "users_ok m" and P: "\<And>u. GetUser i m = Inr u \<Longrightarrow> \<not> P u \<and> \<not> P (f u)"
  shows "kept_outside P (map_of (ms_users m)) (map_of (ms_users (snd (on_user i f m))))"
proof (cases "find_val (\<lambda>x. us_ID x = i) (ms_users m)")
  case None
  then show ?thesis by (simp add: on_user_def)
next
  case (Some ku)
  obtain k v where ku: "ku = (k, v)" by fastforce
  then have g: "GetUser i m = Inr v" using Some by (simp add: GetUser_def)
  have "map_of (ms_users m) k = Some v"
    using find_val_Some[of "ms_users m" "\<lambda>x. us_ID x = i" k v] Some ku ok by (simp add: users_ok_def)
  then show ?thesis
    using Some ku P[OF g] by (auto simp: on_user_def update_conv' intro!: kept_outside_upd)
qed

lemma kept_SaveUser:
  assumes ok: "users_ok m" and u: "GetUser (us_ID old) m = Inr u"
    and P: "\<And>x. us_ID x = us_ID old \<Longrightarrow> us_ISPID x = us_ISPID u \<Longrightarrow> \<not> P x"
  shows "kept_outside P (map_of (ms_users m)) (map_of (ms_users (snd (SaveUser old r m))))"
proof -
  obtain k where k: "find_val (\<lambda>x. us_ID x = us_ID old) (ms_users m) = Some (k, u)" "map_of (ms_users m) k = Some u" "us_ID u = us_ID old"
    using GetUser_entry[OF ok u] by blast
  have own: "w = u" if "map_of (ms_users m) e = Some w" "us_ID w = us_ID old" for e w
  proof -
    have "e = k" using ok that k unfolding users_ok_def users_wf_def by metis
    then show ?thesis using that k u by simp
  qed
  have del: "kept_outside P (map_of (ms_users m)) ((map_of (ms_users m))(k := None))"
    using k P by (intro kept_outside_del) auto
  show ?thesis
  proof (cases r)
    case None
    then show ?thesis using k del by (auto simp: SaveUser_def delete_conv')
  next
    case (Some n)
    let ?n = "n\<lparr>us_ID := us_ID u, us_ISPID := us_ISPID u, us_Role := us_Role u, us_CreatedAt := us_CreatedAt u,
                us_TOTPSecret := us_TOTPSecret u, us_TOTPEnabled := us_TOTPEnabled u\<rparr>"
    show ?thesis
    proof (cases "k = [] \<or> \<not> sameUser u old \<or> (\<exists>w. map_of (ms_users m) (us_Email n) = Some w \<and> us_ID w \<noteq> us_ID u)")
      case True
      then have "snd (SaveUser old r m) = m" using k(1,3) Some by (auto simp: SaveUser_def Let_def)
      then show ?thesis by simp
    next
      case False
      have saved: "snd (SaveUser old r m) = m\<lparr>ms_users := AList.update (us_Email n) ?n (AList.delete k (ms_users m))\<rparr>"
        using k(1) Some False by (cases "map_of (ms_users m) (us_Email n)") (simp_all add: SaveUser_def Let_def)
      have "kept_outside P (map_of (ms_users m)) ((map_of (ms_users m))(k := None, us_Email n \<mapsto> ?n))"
      proof (rule kept_outside_trans[OF del], rule kept_outside_upd)
        show "\<not> P ?n" using P k(3) by simp
        show "\<not> P w" if w: "((map_of (ms_users m))(k := None)) (us_Email n) = Some w" for w
        proof -
          have "map_of (ms_users m) (us_Email n) = Some w" using w by (cases "us_Email n = k") auto
          then have "us_ID w = us_ID old \<and> w = u" using own False k(3) by metis
          then show ?thesis using P by metis
        qed
      qed
      then show ?thesis by (simp add: saved update_conv' delete_conv')
    qed
  qed
qed

lemma only_users:
  "snd (on_user i f m) = m\<lparr>ms_users := ms_users (snd (on_user i f m))\<rparr>"
  "snd (SaveUser old r m) = m\<lparr>ms_users := ms_users (snd (SaveUser old r m))\<rparr>"
  by (simp_all add: on_user_def SaveUser_def Let_def split: option.splits prod.splits)

lemma tenant_on_user:
  assumes "users_ok m" "\<And>u. GetUser i m = Inr u \<Longrightarrow> us_ISPID u = t" "\<And>u. us_ISPID (f u) = us_ISPID u"
  shows "same_outside t m (snd (on_user i f m))"
  by (subst only_users, rule same_outside_users(2), rule kept_on_user) (use assms in auto)

lemma tenant_SaveUser:
  assumes "users_ok m" "GetUser (us_ID old) m = Inr u" "us_ISPID u = t"
  shows "same_outside t m (snd (SaveUser old r m))"
  by (subst only_users, rule same_outside_users(2), rule kept_SaveUser[OF assms(1,2)]) (use assms(3) in auto)

lemma tenant_SavePolicy_new:
  assumes "policies_ok m" "cp_ISPID p = t"
  shows "same_outside t m (snd (SavePolicy now None (Some p) m))"
proof -
  have "map_of (ms_policies m) (ms_nextPol m + 1) = None"
    using assms(1) by (simp add: policies_ok_def new_numbered)
  then show ?thesis
    using assms(2) by (auto simp: SavePolicy_def put_policy_def Let_def update_conv' intro!: same_outside_policies kept_outside_upd)
qed

lemma tenant_SavePolicy_old:
  assumes "policies_ok m" "cp_ISPID e = t"
  shows "same_outside t m (snd (SavePolicy now (Some e) r m))"
proof (cases "map_of (ms_policies m) (cp_ID e)")
  case None
  then show ?thesis by (simp add: SavePolicy_def)
next
  case (Some old)
  have key: "cp_ID old = cp_ID e" using assms(1) Some by (simp add: policies_ok_def numbered_def)
  show ?thesis
  proof (cases "samePolicy old e")
    case True
    then have t: "cp_ISPID old = t" using assms(2) by (simp add: samePolicy_def)
    show ?thesis
      by (cases r) (use Some True t key in \<open>auto simp: SavePolicy_def put_policy_def Let_def update_conv' delete_conv'
          intro!: same_outside_policies kept_outside_upd kept_outside_del\<close>)
  next
    case False
    then show ?thesis using Some by (simp add: SavePolicy_def)
  qed
qed

lemma tenant_SaveInvestigation:
  assumes "cases_ok m" "iv_ISPID c = t" "\<And>w. map_of (ms_investigations m) (iv_ID c) = Some w \<Longrightarrow> iv_ISPID w = t"
  shows "same_outside t m (snd (SaveInvestigation now c m))"
proof -
  have "map_of (ms_investigations m) (ms_nextInvestigation m + 1) = None"
    using assms(1) by (simp add: cases_ok_def new_numbered)
  then show ?thesis
    using assms(2,3) by (auto simp: SaveInvestigation_def Let_def update_conv' intro!: same_outside_cases kept_outside_upd)
qed

section \<open>Responses\<close>

fun shows_only :: "u32 \<Rightarrow> payload \<Rightarrow> bool" where
  "shows_only t (DeviceOut d) \<longleftrightarrow> sd_ISPID d = t"
| "shows_only t (DevicesOut ds vs) \<longleftrightarrow> (\<forall>d\<in>set ds. sd_ISPID d = t) \<and> vs = []"
| "shows_only t (UserOut v) \<longleftrightarrow> us_ISPID (uv_User v) = t"
| "shows_only t (UsersOut us vs) \<longleftrightarrow> (\<forall>v\<in>set us. us_ISPID (uv_User v) = t) \<and> vs = []"
| "shows_only t (PolicyOut v) \<longleftrightarrow> cp_ISPID (pv_CapturePolicy v) \<in> {0, t} \<and> (\<forall>d\<in>set (pv_Devices v). sd_ISPID (fst d) = t)"
| "shows_only t (PoliciesOut ps vs) \<longleftrightarrow>
     (\<forall>v\<in>set ps. cp_ISPID (pv_CapturePolicy v) \<in> {0, t} \<and> (\<forall>d\<in>set (pv_Devices v). sd_ISPID (fst d) = t)) \<and> vs = []"
| "shows_only t (SavedPolicy p v) \<longleftrightarrow> cp_ISPID p = t"
| "shows_only t (IspOut v) \<longleftrightarrow> False"
| "shows_only t (IspsOut vs) \<longleftrightarrow> False"
| "shows_only t (SavedIsp v) \<longleftrightarrow> False"
| "shows_only t (CaseOut c) \<longleftrightarrow> iv_ISPID c = t"
| "shows_only t (CasesOut cs vs) \<longleftrightarrow> (\<forall>c\<in>set cs. iv_ISPID c = t) \<and> vs = []"
| "shows_only t _ \<longleftrightarrow> True"

definition confined :: "u32 \<Rightarrow> mem_store \<Rightarrow> handled \<Rightarrow> bool" where
  "confined t m h \<longleftrightarrow> same_outside t m (snd h) \<and> shows_only t (snd (fst h))"

lemma confined_same [simp]: "confined t m (resp, m) \<longleftrightarrow> shows_only t (snd resp)"
  by (simp add: confined_def)

lemma shows_errors [simp]:
  "shows_only t (snd (jsonErr e))" "shows_only t (snd (userError e))" "shows_only t (snd (policyError e))"
  by (cases e; simp add: jsonErr_def userError_def policyError_def)+

lemma jsonErr_shows: "jsonErr e = (c, p) \<Longrightarrow> shows_only t p"
  by (metis shows_errors(1) snd_conv)

lemma confined_op:
  assumes "same_outside t m (snd r)" "\<And>e. shows_only t (snd (f e))" "\<And>x. fst r = Inr x \<Longrightarrow> shows_only t (snd (g x))"
  shows "confined t m (case r of (Inl e, m') \<Rightarrow> (f e, m') | (Inr x, m') \<Rightarrow> (g x, m'))"
  using assms by (cases r; cases "fst r") (auto simp: confined_def)

lemma confined_snd: "same_outside t m m' \<Longrightarrow> shows_only t (snd resp) \<Longrightarrow> confined t m (resp, m')"
  by (simp add: confined_def)

section \<open>Sessions\<close>

lemma currentIdentity_parse:
  "currentIdentity E now r m = Some i \<Longrightarrow> \<exists>c. rq_cookie r = Some c \<and> parseSession (av_auth E) now c = Some i"
  by (auto simp: currentIdentity_def split: option.splits if_splits sum.splits)

definition session :: "api_env \<Rightarrow> int \<Rightarrow> request \<Rightarrow> identity \<Rightarrow> bool" where
  "session E now r i \<longleftrightarrow> (\<exists>c. rq_cookie r = Some c \<and> parseSession (av_auth E) now c = Some i)"

lemma authJSON_confined:
  assumes "session E now r i" "confined t m (h i m)"
  shows "confined t m (authJSON E now r h m)"
proof (cases "currentIdentity E now r m")
  case (Some j)
  then have "j = i" using currentIdentity_parse[OF Some] assms(1) by (auto simp: session_def)
  then show ?thesis using assms(2) Some by (simp add: authJSON_def)
qed (simp add: authJSON_def)

lemma authCSRF_confined:
  assumes "session E now r i" "csrfOK E r i \<Longrightarrow> confined t m (h i m)"
  shows "confined t m (authCSRF E now r h m)"
  unfolding authCSRF_def using assms by (intro authJSON_confined) auto

lemma auth_page_confined:
  assumes "session E now r i" "confined t m (h i m)"
  shows "confined t m (auth_page E now r h m)"
  using assms by (auto simp: session_def auth_page_def)

text \<open>A user of a tenant, as the store knows him.\<close>

definition tenant_user :: "identity \<Rightarrow> mem_store \<Rightarrow> bool" where
  "tenant_user i m \<longleftrightarrow> \<not> isDirector i \<and> id_ISPID i \<noteq> 0 \<and>
     (\<forall>u. GetUser (id_UserID i) m = Inr u \<longrightarrow> us_ISPID u = id_ISPID i)"

lemma scope_tenant: "\<not> isDirector i \<Longrightarrow> scopeISP i q = Some s \<Longrightarrow> s = id_ISPID i"
  by (auto simp: scopeISP_def split: if_splits)

section \<open>Devices\<close>

lemma ownedDevice_tenant:
  assumes "devices_ok m" "\<not> isDirector i" "ownedDevice r i m = Inr d"
  shows "sd_ISPID d = id_ISPID i" "map_of (ms_devices m) (sd_ID d) = Some d"
  using assms by (auto simp: ownedDevice_def GetDevice_def devices_ok_def devices_wf_def simp del: map_of_eq_Some_iff split: option.splits if_splits)

lemma with_policy_keeps [simp]: "sd_ISPID (with_policy s m d) = sd_ISPID d" "sd_ID (with_policy s m d) = sd_ID d"
  by (simp_all add: with_policy_def split: option.splits prod.splits)

lemma CreateDevice_created: "fst (CreateDevice now d m) = Inr x \<Longrightarrow> sd_ISPID x = sd_ISPID d"
  by (auto simp: CreateDevice_def Let_def split: if_splits)

lemma ListDevices_tenant: "t \<noteq> 0 \<Longrightarrow> d \<in> set (ListDevices t m) \<Longrightarrow> sd_ISPID d = t"
  by (auto simp: ListDevices_def)

lemma devices_confined:
  assumes s: "session E now r i" and u: "tenant_user i m" and ok: "store_wf m"
  shows "confined (id_ISPID i) m (apiListDevices E now r m)"
    "confined (id_ISPID i) m (apiCreateDevice E now r fo m)"
    "confined (id_ISPID i) m (apiUpdateDevice E now r fo m)"
    "confined (id_ISPID i) m (apiToggleDevice E now r m)"
    "confined (id_ISPID i) m (apiDeleteDevice E now r m)"
proof -
  have nd: "\<not> isDirector i" "id_ISPID i \<noteq> 0" and d: "devices_ok m" using u ok by (auto simp: tenant_user_def store_wf_def)
  note own = ownedDevice_tenant[OF d nd(1)]
  show "confined (id_ISPID i) m (apiListDevices E now r m)"
    unfolding apiListDevices_def
    by (rule authJSON_confined[OF s]) (use nd scope_tenant[OF nd(1)] ListDevices_tenant in \<open>fastforce split: option.splits\<close>)
  show "confined (id_ISPID i) m (apiCreateDevice E now r fo m)"
    unfolding apiCreateDevice_def
    by (rule authCSRF_confined[OF s])
      (auto simp: Let_def split: option.splits sum.splits dest!: scope_tenant[OF nd(1)] CreateDevice_created
        intro!: confined_op tenant_CreateDevice[OF d])
  show "confined (id_ISPID i) m (apiUpdateDevice E now r fo m)"
    unfolding apiUpdateDevice_def
    by (rule authCSRF_confined[OF s])
      (auto simp: Let_def own split: option.splits sum.splits intro!: confined_op tenant_UpdateDevice simp del: map_of_eq_Some_iff)
  show "confined (id_ISPID i) m (apiToggleDevice E now r m)"
    unfolding apiToggleDevice_def
    by (rule authCSRF_confined[OF s])
      (auto simp: Let_def own split: sum.splits intro!: confined_op tenant_UpdateDevice simp del: map_of_eq_Some_iff)
  show "confined (id_ISPID i) m (apiDeleteDevice E now r m)"
    unfolding apiDeleteDevice_def
    by (rule authCSRF_confined[OF s])
      (auto simp: Let_def own split: sum.splits intro!: confined_op tenant_DeleteDevice simp del: map_of_eq_Some_iff)
qed

section \<open>Users\<close>

lemma ownedUser_tenant:
  assumes "\<not> isDirector i" "ownedUser r i m = Inr u"
  shows "us_ISPID u = id_ISPID i" "us_Role u \<noteq> RoleDirector" "\<exists>n. GetUser n m = Inr u"
  using assms by (auto simp: ownedUser_def canManageUser_def split: prod.splits if_splits sum.splits)

lemma GetUser_number: "GetUser n m = Inr u \<Longrightarrow> us_ID u = n"
  by (auto simp: GetUser_def find_Some_iff split: option.splits) (metis snd_conv)

lemma ListUsers_tenant: "t \<noteq> 0 \<Longrightarrow> u \<in> set (ListUsers t m) \<Longrightarrow> us_ISPID u = t \<and> u \<in> set (ListUsers 0 m)"
  by (auto simp: ListUsers_def)

lemma user_views_tenant:
  assumes "users_ok m"
  shows "user_views E i m us = Inr vs \<Longrightarrow> (\<forall>u\<in>set us. us_ISPID u = t \<and> u \<in> set (ListUsers 0 m)) \<Longrightarrow> (\<forall>v\<in>set vs. us_ISPID (uv_User v) = t)"
proof (induction us arbitrary: vs)
  case (Cons u us)
  have "GetUser (us_ID u) m = Inr u" using users_ok_lookup(1)[OF assms] Cons.prems(2) by simp
  then obtain ws where "user_views E i m us = Inr ws" "vs = userView E i m u # ws"
    using Cons.prems(1) by (auto split: sum.splits)
  then show ?case using Cons by (simp add: userView_def)
qed simp

lemma save_password_confined:
  assumes "users_ok m" "GetUser (us_ID u) m = Inr u" "us_ISPID u = t"
  shows "confined t m (save_password E u pw m)"
  unfolding save_password_def
  by (auto split: option.splits intro!: confined_op tenant_SaveUser[OF assms(1,2)] assms(3))

lemma store_user_confined:
  assumes ok: "users_ok m" and s: "scope = t" and old: "\<And>u. old = Some u \<Longrightarrow> GetUser (us_ID u) m = Inr u \<and> us_ISPID u = t"
  shows "confined t m (store_user E now old b role scope m)"
proof (cases old)
  case None
  then show ?thesis using s unfolding store_user_def Let_def
    by (auto split: option.splits intro!: confined_op tenant_CreateUser)
next
  case (Some u)
  then have u: "GetUser (us_ID u) m = Inr u" "us_ISPID u = t" using old by auto
  show ?thesis unfolding store_user_def Let_def Some option.case
    by (auto split: option.splits intro!: confined_op tenant_SaveUser[OF ok u])
qed

lemma user_form_save_confined:
  assumes ok: "users_ok m" and nd: "\<not> isDirector i"
    and old: "\<And>u. old = Some u \<Longrightarrow> GetUser (us_ID u) m = Inr u \<and> us_ISPID u = id_ISPID i"
  shows "confined (id_ISPID i) m (user_form_save E now i old b m)"
  unfolding user_form_save_def Let_def
  using nd store_user_confined[OF ok refl old] by auto

lemma users_confined:
  assumes s: "session E now r i" and u: "tenant_user i m" and ok: "store_wf m"
  shows "confined (id_ISPID i) m (apiListUsers E now r m)"
    "confined (id_ISPID i) m (apiGetUser E now r m)"
    "confined (id_ISPID i) m (userSave E now r upd fo m)"
    "confined (id_ISPID i) m (apiDeleteUser E now r fo m)"
    "confined (id_ISPID i) m (apiResetPassword E now r fo m)"
    "confined (id_ISPID i) m (apiChangeOwnPassword E now r fo m)"
proof -
  have nd: "\<not> isDirector i" "id_ISPID i \<noteq> 0" and us: "users_ok m"
    and self: "\<And>v. GetUser (id_UserID i) m = Inr v \<Longrightarrow> us_ISPID v = id_ISPID i"
    using u ok by (auto simp: tenant_user_def store_wf_def)
  have own: "GetUser (us_ID v) m = Inr v" "us_ISPID v = id_ISPID i" if "ownedUser r i m = Inr v" for v
    using ownedUser_tenant[OF nd(1) that] GetUser_number by auto
  have views: "us_ISPID (uv_User v) = id_ISPID i" if "user_views E i m (ListUsers (id_ISPID i) m) = Inr vs" "v \<in> set vs" for v vs
    using user_views_tenant[OF us that(1)] ListUsers_tenant[OF nd(2)] that(2) by blast
  show "confined (id_ISPID i) m (apiListUsers E now r m)"
    unfolding apiListUsers_def
    by (rule authJSON_confined[OF s]) (use nd views in \<open>auto simp: Let_def tenantScope_def split: sum.splits\<close>)
  show "confined (id_ISPID i) m (apiGetUser E now r m)"
    unfolding apiGetUser_def by (rule authJSON_confined[OF s]) (use own in \<open>auto simp: userView_def split: sum.splits\<close>)
  show "confined (id_ISPID i) m (userSave E now r upd fo m)"
    unfolding userSave_def
    by (rule authCSRF_confined[OF s]) (use own in \<open>auto split: sum.splits option.splits intro!: user_form_save_confined[OF us nd(1)]\<close>)
  show "confined (id_ISPID i) m (apiDeleteUser E now r fo m)"
    unfolding apiDeleteUser_def
    by (rule authCSRF_confined[OF s]) (use own in \<open>auto simp: Let_def split: sum.splits option.splits intro!: confined_op tenant_SaveUser[OF us]\<close>)
  show "confined (id_ISPID i) m (apiResetPassword E now r fo m)"
    unfolding apiResetPassword_def
    by (rule authCSRF_confined[OF s]) (use own in \<open>auto split: sum.splits option.splits intro!: save_password_confined[OF us]\<close>)
  show "confined (id_ISPID i) m (apiChangeOwnPassword E now r fo m)"
    unfolding apiChangeOwnPassword_def
    by (rule authCSRF_confined[OF s]) (use self GetUser_number in \<open>auto split: sum.splits option.splits intro!: save_password_confined[OF us]\<close>)
qed

lemma totp_confined:
  assumes s: "session E now r i" and u: "tenant_user i m" and ok: "store_wf m"
  shows "confined (id_ISPID i) m (handleTOTPSetup E now r rnd nonce m)"
    "confined (id_ISPID i) m (handleTOTPConfirm E now r code m)"
    "confined (id_ISPID i) m (handleTOTPDisable E now r body m)"
proof -
  have us: "users_ok m" and self: "\<And>v. GetUser (id_UserID i) m = Inr v \<Longrightarrow> us_ISPID v = id_ISPID i"
    using u ok by (auto simp: tenant_user_def store_wf_def)
  have upd: "same_outside (id_ISPID i) m (snd (UpdateUserTOTP (id_UserID i) x e m))" for x e
    unfolding UpdateUserTOTP_def by (rule tenant_on_user[OF us]) (use self in auto)
  show "confined (id_ISPID i) m (handleTOTPSetup E now r rnd nonce m)"
    unfolding handleTOTPSetup_def
    by (rule authCSRF_confined[OF s]) (use upd in \<open>auto split: sum.splits option.splits intro!: confined_op\<close>)
  show "confined (id_ISPID i) m (handleTOTPConfirm E now r code m)"
    unfolding handleTOTPConfirm_def
    by (rule authCSRF_confined[OF s]) (use upd in \<open>auto split: sum.splits option.splits intro!: confined_op\<close>)
  show "confined (id_ISPID i) m (handleTOTPDisable E now r body m)"
    unfolding handleTOTPDisable_def
    by (rule authCSRF_confined[OF s], cases body) (use upd in \<open>auto split: sum.splits intro!: confined_op\<close>)
qed

section \<open>Policies\<close>

lemma ListPolicies_tenant: "t \<noteq> 0 \<Longrightarrow> p \<in> set (ListPolicies t m) \<Longrightarrow> cp_ISPID p \<in> {0, t}"
  by (auto simp: ListPolicies_def)

lemma getPolicy_tenant:
  assumes "\<not> isDirector i" "id_ISPID i \<noteq> 0" "getPolicy r i w m = Inr p"
  shows "cp_ISPID p \<in> {0, id_ISPID i}" "w \<Longrightarrow> cp_ISPID p = id_ISPID i"
proof -
  obtain n where "find (\<lambda>p. cp_ID p = n \<and> (\<not> w \<or> isDirector i \<or> cp_ISPID p = id_ISPID i)) (ListPolicies (id_ISPID i) m) = Some p"
    using assms by (auto simp: getPolicy_def tenantScope_def split: prod.splits if_splits option.splits)
  then have p: "p \<in> set (ListPolicies (id_ISPID i) m)" "w \<longrightarrow> cp_ISPID p = id_ISPID i"
    using find_in_set assms(1) by (fastforce simp: find_Some_iff)+
  then show "cp_ISPID p \<in> {0, id_ISPID i}" "w \<Longrightarrow> cp_ISPID p = id_ISPID i"
    using ListPolicies_tenant[OF assms(2)] by auto
qed

lemma policyViews_tenant:
  assumes "t \<noteq> 0" "v \<in> set (policyViews E i d (ListDevices t m) ps)" "\<forall>p\<in>set ps. cp_ISPID p \<in> {0, t}"
  shows "cp_ISPID (pv_CapturePolicy v) \<in> {0, t}" "x \<in> set (pv_Devices v) \<Longrightarrow> sd_ISPID (fst x) = t"
  using assms(2,3) ListDevices_tenant[OF assms(1)]
  by (auto simp: policyViews_def Let_def split: if_splits dest!: in_set_takeD)

lemma SavePolicy_saved:
  assumes "fst (SavePolicy now e (Some p) m) = Inr q" "cp_ISPID p = t" "\<And>x. e = Some x \<Longrightarrow> cp_ISPID x = t"
  shows "cp_ISPID q = t"
  using assms by (auto simp: SavePolicy_def put_policy_def Let_def samePolicy_def split: option.splits if_splits)

lemma policy_form_save_confined:
  assumes ok: "policies_ok m" and nd: "\<not> isDirector i" and old: "\<And>p. old = Some p \<Longrightarrow> cp_ISPID p = id_ISPID i"
  shows "confined (id_ISPID i) m (policy_form_save E now i old b m)"
proof -
  have save: "same_outside (id_ISPID i) m (snd (SavePolicy now old (Some p) m))" if "cp_ISPID p = id_ISPID i" for p
    using that old tenant_SavePolicy_new[OF ok] tenant_SavePolicy_old[OF ok] by (cases old) auto
  have saved: "cp_ISPID q = id_ISPID i" if "fst (SavePolicy now old (Some p) m) = Inr q" "cp_ISPID p = id_ISPID i" for p q
    using SavePolicy_saved[OF that(1,2)] old by blast
  show ?thesis
    unfolding policy_form_save_def Let_def using nd save saved by (auto intro!: confined_op)
qed

lemma policies_confined:
  assumes s: "session E now r i" and u: "tenant_user i m" and ok: "store_wf m"
  shows "confined (id_ISPID i) m (apiListPolicies E now r m)"
    "confined (id_ISPID i) m (apiGetPolicy E now r m)"
    "confined (id_ISPID i) m (savePolicy E now r upd fo m)"
    "confined (id_ISPID i) m (apiDeletePolicy E now r fo m)"
proof -
  have nd: "\<not> isDirector i" "id_ISPID i \<noteq> 0" and p: "policies_ok m" using u ok by (auto simp: tenant_user_def store_wf_def)
  note get = getPolicy_tenant[OF nd]
  have views: "\<forall>v\<in>set (policyViews E i False (ListDevices (id_ISPID i) m) (ListPolicies (id_ISPID i) m)).
      cp_ISPID (pv_CapturePolicy v) \<in> {0, id_ISPID i} \<and> (\<forall>d\<in>set (pv_Devices v). sd_ISPID (fst d) = id_ISPID i)"
    using policyViews_tenant[OF nd(2), where ps = "ListPolicies (id_ISPID i) m"] ListPolicies_tenant[OF nd(2)] by blast
  show "confined (id_ISPID i) m (apiListPolicies E now r m)"
    unfolding apiListPolicies_def by (rule authJSON_confined[OF s]) (use nd views in \<open>simp add: tenantScope_def\<close>)
  show "confined (id_ISPID i) m (apiGetPolicy E now r m)"
    unfolding apiGetPolicy_def
  proof (rule authJSON_confined[OF s], cases "getPolicy r i False m")
    case (Inr p)
    have "hd (policyViews E i True (ListDevices (id_ISPID i) m) [p]) \<in> set (policyViews E i True (ListDevices (id_ISPID i) m) [p])"
      by (simp add: policyViews_def)
    then show "confined (id_ISPID i) m (case getPolicy r i False m of Inl e \<Rightarrow> (jsonErr e, m)
        | Inr p \<Rightarrow> ((200, PolicyOut (hd (policyViews E i True (ListDevices (tenantScope i) m) [p]))), m))"
      using policyViews_tenant[OF nd(2)] get(1)[OF Inr] Inr nd by (auto simp: tenantScope_def)
  qed simp
  show "confined (id_ISPID i) m (savePolicy E now r upd fo m)"
    unfolding savePolicy_def
    by (rule authCSRF_confined[OF s]) (use get(2) in \<open>auto split: sum.splits option.splits intro!: policy_form_save_confined[OF p nd(1)]\<close>)
  show "confined (id_ISPID i) m (apiDeletePolicy E now r fo m)"
    unfolding apiDeletePolicy_def
    by (rule authCSRF_confined[OF s]) (use get(2) in \<open>auto split: sum.splits option.splits intro!: confined_op tenant_SavePolicy_old[OF p]\<close>)
qed

section \<open>Investigations, ISPs and pages\<close>

lemma GetInvestigation_number: "cases_ok m \<Longrightarrow> GetInvestigation n m = Inr c \<Longrightarrow> map_of (ms_investigations m) n = Some c"
  by (auto simp: GetInvestigation_def split: option.splits)

lemma SaveInvestigation_saved: "fst (SaveInvestigation now c m) = Inr x \<Longrightarrow> iv_ISPID x = iv_ISPID c"
  by (auto simp: SaveInvestigation_def Let_def split: if_splits)

lemma handleCaseSave_confined:
  assumes s: "session E now r i" and u: "tenant_user i m" and ok: "store_wf m"
  shows "confined (id_ISPID i) m (handleCaseSave E now r fo m)"
proof -
  have nd: "\<not> isDirector i" "id_ISPID i \<noteq> 0" and c: "cases_ok m" using u ok by (auto simp: tenant_user_def store_wf_def)
  have none: "map_of (ms_investigations m) k = None" if "\<not> k > 0" for k
    using c that by (cases "map_of (ms_investigations m) k") (auto simp: cases_ok_def numbered_def simp del: map_of_eq_Some_iff)
  have save: "confined (id_ISPID i) m (case SaveInvestigation now x m of (Inl e, m') \<Rightarrow> (jsonErr e, m') | (Inr saved, m') \<Rightarrow> ((200, CaseOut saved), m'))"
    if "iv_ISPID x = id_ISPID i" "\<And>w. map_of (ms_investigations m) (iv_ID x) = Some w \<Longrightarrow> iv_ISPID w = id_ISPID i" for x
    using that SaveInvestigation_saved by (intro confined_op tenant_SaveInvestigation[OF c]) auto
  show ?thesis
    unfolding handleCaseSave_def
    by (rule authCSRF_confined[OF s], cases fo)
      (auto simp: Let_def none nd simp del: map_of_eq_Some_iff split: sum.splits option.splits if_splits
        dest!: GetInvestigation_number[OF c] scope_tenant[OF nd(1)] intro!: save intro: jsonErr_shows)
qed

lemma cases_confined:
  assumes s: "session E now r i" and u: "tenant_user i m"
  shows "confined (id_ISPID i) m (handleCases E now r m)" "confined (id_ISPID i) m (handleCaseGet E now r m)"
proof -
  have nd: "\<not> isDirector i" "id_ISPID i \<noteq> 0" using u by (auto simp: tenant_user_def)
  show "confined (id_ISPID i) m (handleCases E now r m)"
    unfolding handleCases_def
    by (rule authJSON_confined[OF s]) (use nd in \<open>auto simp: ListInvestigations_def tenantScope_def\<close>)
  show "confined (id_ISPID i) m (handleCaseGet E now r m)"
    unfolding handleCaseGet_def
    by (rule authJSON_confined[OF s]) (use nd in \<open>auto split: prod.splits sum.splits\<close>)
qed

lemma ispDirector_confined:
  assumes "session E now r i" "tenant_user i m"
  shows "confined (id_ISPID i) m (ispDirector E now r mu h m)"
  unfolding ispDirector_def by (rule authJSON_confined[OF assms(1)]) (use assms(2) in \<open>simp add: tenant_user_def\<close>)

lemma pages_confined:
  assumes s: "session E now r i" and u: "tenant_user i m" and ok: "store_wf m"
  shows "confined (id_ISPID i) m (director_page E now r h m)"
    "confined (id_ISPID i) m (handleCreateDevice E now r isp dev b m)"
    "confined (id_ISPID i) m (handleDeleteDevice E now r m)"
    "confined (id_ISPID i) m (handleToggleDevice E now r m)"
proof -
  have nd: "\<not> isDirector i" "id_ISPID i \<noteq> 0" and d: "devices_ok m" using u ok by (auto simp: tenant_user_def store_wf_def)
  note own = ownedDevice_tenant[OF d nd(1)]
  show "confined (id_ISPID i) m (director_page E now r h m)"
    unfolding director_page_def by (rule auth_page_confined[OF s]) (simp add: nd)
  show "confined (id_ISPID i) m (handleCreateDevice E now r isp dev b m)"
    unfolding handleCreateDevice_def
    by (rule auth_page_confined[OF s])
      (auto simp: Let_def split: option.splits dest!: scope_tenant[OF nd(1)] intro!: confined_snd tenant_CreateDevice[OF d])
  show "confined (id_ISPID i) m (handleDeleteDevice E now r m)"
    unfolding handleDeleteDevice_def
    by (rule auth_page_confined[OF s])
      (auto simp: own split: sum.splits intro!: confined_snd tenant_DeleteDevice simp del: map_of_eq_Some_iff)
  show "confined (id_ISPID i) m (handleToggleDevice E now r m)"
    unfolding handleToggleDevice_def
    by (rule auth_page_confined[OF s])
      (auto simp: own split: sum.splits intro!: confined_snd tenant_UpdateDevice simp del: map_of_eq_Some_iff)
qed

lemmas routes_confined = devices_confined users_confined totp_confined policies_confined handleCaseSave_confined pages_confined

lemma handler_confined:
  assumes "session E now r i" "tenant_user i m" "store_wf m"
  shows "confined (id_ISPID i) m (handler E now rt r m)"
  by (cases rt) (simp_all add: routes_confined[OF assms] ispDirector_confined[OF assms(1,2)] cases_confined[OF assms(1,2)] apiCreateUser_def apiUpdateUser_def apiCreatePolicy_def apiUpdatePolicy_def
      apiListISPs_def apiGetISP_def apiCreateISP_def apiUpdateISP_def ispSave_def apiDeleteISP_def apiToggleISP_def handleCreateISP_def handleToggleISP_def)

lemma session_path [simp]: "session E now (r\<lparr>rq_path := p, rq_id := x\<rparr>) i \<longleftrightarrow> session E now r i"
  by (simp add: session_def)

lemma serve_confined:
  assumes "session E now r i" "tenant_user i m" "store_wf m"
  shows "confined (id_ISPID i) m (serve E now rt r m)"
  unfolding serve_def using assms by (intro handler_confined) simp_all


definition ex_api :: api_env where
  "ex_api = \<lparr>av_auth = ex_env, av_ParseAddress = Some, av_policyJSON = (\<lambda>p. [])\<rparr>"

definition ex_device :: sdevice where
  "ex_device = \<lparr>sd_ID = 0, sd_ISPID = 8, sd_Name = ''edge'', sd_ExporterIP = ''10.0.0.1'', sd_DeviceID = 3, sd_Protocol = ''auto'',
     sd_Profile = ''generic'', sd_CapturePolicy = [], sd_Enabled = True, sd_SkipDNS = False, sd_SkipPrivate = False, sd_SkipZero = False, sd_UpdatedAt = 0\<rparr>"

definition ex_request :: request where
  "ex_request = \<lparr>rq_cookie = Some (signSession ex_env ex_identity), rq_csrf = csrfToken ex_env ex_identity, rq_path = [], rq_id = ''1'', rq_isp = []\<rparr>"

definition ex_store :: mem_store where
  "ex_store = store_run (\<lambda>_. [0]) (\<lambda>_. []) [OpCreateUser 5 (ex_user ''ann@x''), OpCreateDevice 6 ex_device] NewMem"

lemma ex_session: "parseSession (av_auth ex_api) 5000000000 (signSession ex_env ex_identity) = Some ex_identity"
  by (simp add: ex_api_def, subst parseSession_sign) (simp_all add: ex_env_def ex_identity_def)

lemma ex_user_stored: "GetUser 1 ex_store = Inr u \<Longrightarrow> us_ISPID u = 7"
proof -
  have "case GetUser 1 ex_store of Inl _ \<Rightarrow> False | Inr u \<Rightarrow> us_ISPID u = 7" by code_simp
  then show "GetUser 1 ex_store = Inr u \<Longrightarrow> us_ISPID u = 7" by simp
qed


section \<open>Authority for a change\<close>

definition own_account :: "int \<Rightarrow> mem_store \<Rightarrow> mem_store \<Rightarrow> bool" where
  "own_account n m m' \<longleftrightarrow> m' = m\<lparr>ms_users := ms_users m'\<rparr> \<and> kept_outside (\<lambda>u. us_ID u \<noteq> n) (map_of (ms_users m)) (map_of (ms_users m'))"

lemma own_account_refl [simp]: "own_account n m m"
  by (simp add: own_account_def)

lemma own_on_user:
  assumes "users_ok m" "\<And>u. us_ID (f u) = us_ID u"
  shows "own_account i m (snd (on_user i f m))"
  unfolding own_account_def
proof
  show "snd (on_user i f m) = m\<lparr>ms_users := ms_users (snd (on_user i f m))\<rparr>" by (rule only_users)
  show "kept_outside (\<lambda>u. us_ID u \<noteq> i) (map_of (ms_users m)) (map_of (ms_users (snd (on_user i f m))))"
    by (rule kept_on_user[OF assms(1)]) (use GetUser_number assms(2) in auto)
qed

lemma own_SaveUser:
  assumes "users_ok m" "GetUser (us_ID u) m = Inr u"
  shows "own_account (us_ID u) m (snd (SaveUser u r m))"
  unfolding own_account_def
proof
  show "snd (SaveUser u r m) = m\<lparr>ms_users := ms_users (snd (SaveUser u r m))\<rparr>" by (rule only_users)
  show "kept_outside (\<lambda>x. us_ID x \<noteq> us_ID u) (map_of (ms_users m)) (map_of (ms_users (snd (SaveUser u r m))))"
    by (rule kept_SaveUser[OF assms]) auto
qed

text \<open>What a change through a guarded handler rests on.\<close>

lemma authJSON_changes:
  assumes "snd (authJSON E now r h m) \<noteq> m"
  obtains i where "currentIdentity E now r m = Some i" "snd (h i m) \<noteq> m" "snd (authJSON E now r h m) = snd (h i m)"
  using assms by (auto simp: authJSON_def split: option.splits)

definition authorised :: "api_env \<Rightarrow> int \<Rightarrow> request \<Rightarrow> mem_store \<Rightarrow> mem_store \<Rightarrow> bool" where
  "authorised E now r m m' \<longleftrightarrow> (\<exists>i. session E now r i \<and> validCSRF (av_auth E) i (rq_csrf r) \<and> (canManage i \<or> own_account (id_UserID i) m m'))"

lemma authCSRF_authorised:
  assumes "snd (authCSRF E now r h m) \<noteq> m"
    and "\<And>i. prefix ''/api/v1/account/'' (rq_path r) \<or> rq_path r = ''/api/v1/search'' \<or> rq_path r = ''/api/v1/exports'' \<Longrightarrow>
      own_account (id_UserID i) m (snd (h i m))"
  shows "authorised E now r m (snd (authCSRF E now r h m))"
proof -
  obtain i where i: "currentIdentity E now r m = Some i" "csrfOK E r i" "snd (authCSRF E now r h m) = snd (h i m)"
    using assms(1) unfolding authCSRF_def by (rule authJSON_changes) (auto split: if_splits)
  then show ?thesis
    using currentIdentity_parse[OF i(1)] assms(2)[of i] by (auto simp: authorised_def session_def csrfOK_def Let_def)
qed

definition managed_path :: "string \<Rightarrow> bool" where
  "managed_path p \<longleftrightarrow> \<not> prefix ''/api/v1/account/'' p \<and> p \<noteq> ''/api/v1/search'' \<and> p \<noteq> ''/api/v1/exports''"

lemma authCSRF_managed:
  "snd (authCSRF E now r h m) \<noteq> m \<Longrightarrow> managed_path (rq_path r) \<Longrightarrow> authorised E now r m (snd (authCSRF E now r h m))"
  by (rule authCSRF_authorised) (auto simp: managed_path_def)

lemma ispDirector_authorised:
  assumes "snd (ispDirector E now r True h m) \<noteq> m"
  shows "authorised E now r m (snd (ispDirector E now r True h m))"
proof -
  obtain i where i: "currentIdentity E now r m = Some i" "isDirector i" "csrfOK E r i"
    using assms(1) unfolding ispDirector_def by (rule authJSON_changes) (auto split: if_splits)
  then show ?thesis
    using currentIdentity_parse[OF i(1)] by (auto simp: authorised_def session_def csrfOK_def isDirector_def canManage_def)
qed

lemma auth_page_authorised:
  assumes "snd (auth_page E now r h m) \<noteq> m" "rq_path r \<noteq> ''/logout''"
  shows "authorised E now r m (snd (auth_page E now r h m))"
  using assms by (auto simp: auth_page_def authorised_def session_def split: option.splits if_splits)

lemma own_snd_case:
  "own_account n m (snd r) \<Longrightarrow> own_account n m (snd (case r of (Inl e, m') \<Rightarrow> (f e, m') | (Inr x, m') \<Rightarrow> (g x, m')))"
  by (auto split: prod.splits sum.splits)

lemma account_password_own:
  assumes "users_ok m" "GetUser (us_ID u) m = Inr u"
  shows "own_account (us_ID u) m (snd (save_password E u pw m))"
  using own_SaveUser[OF assms] by (auto simp: save_password_def split: option.splits intro!: own_snd_case)

lemma account_totp_own:
  assumes "users_ok m"
  shows "own_account n m (snd (UpdateUserTOTP n s e m))"
  unfolding UpdateUserTOTP_def by (rule own_on_user[OF assms]) simp

lemma account_routes_authorised:
  assumes ok: "users_ok m"
  shows "snd (apiChangeOwnPassword E now r fo m) \<noteq> m \<Longrightarrow> authorised E now r m (snd (apiChangeOwnPassword E now r fo m))"
    "snd (handleTOTPSetup E now r rnd nonce m) \<noteq> m \<Longrightarrow> authorised E now r m (snd (handleTOTPSetup E now r rnd nonce m))"
    "snd (handleTOTPConfirm E now r code m) \<noteq> m \<Longrightarrow> authorised E now r m (snd (handleTOTPConfirm E now r code m))"
    "snd (handleTOTPDisable E now r body m) \<noteq> m \<Longrightarrow> authorised E now r m (snd (handleTOTPDisable E now r body m))"
proof -
  note totp = own_snd_case account_totp_own[OF ok]
  have pw: "own_account (id_UserID i) m (snd (save_password E u p m))" if "GetUser (id_UserID i) m = Inr u" for i u p
    using account_password_own[OF ok, of u] GetUser_number[OF that] that by simp
  show "snd (apiChangeOwnPassword E now r fo m) \<noteq> m \<Longrightarrow> authorised E now r m (snd (apiChangeOwnPassword E now r fo m))"
    unfolding apiChangeOwnPassword_def by (erule authCSRF_authorised) (auto split: option.splits sum.splits intro: pw)
  show "snd (handleTOTPSetup E now r rnd nonce m) \<noteq> m \<Longrightarrow> authorised E now r m (snd (handleTOTPSetup E now r rnd nonce m))"
    unfolding handleTOTPSetup_def by (erule authCSRF_authorised) (auto split: option.splits sum.splits intro!: totp)
  show "snd (handleTOTPConfirm E now r code m) \<noteq> m \<Longrightarrow> authorised E now r m (snd (handleTOTPConfirm E now r code m))"
    unfolding handleTOTPConfirm_def by (erule authCSRF_authorised) (auto split: option.splits sum.splits intro!: totp)
  show "snd (handleTOTPDisable E now r body m) \<noteq> m \<Longrightarrow> authorised E now r m (snd (handleTOTPDisable E now r body m))"
    unfolding handleTOTPDisable_def by (erule authCSRF_authorised, cases body) (auto split: sum.splits intro!: totp)
qed

lemmas csrf_routes = apiCreateDevice_def apiUpdateDevice_def apiToggleDevice_def apiDeleteDevice_def apiCreateUser_def apiUpdateUser_def userSave_def
  apiDeleteUser_def apiResetPassword_def apiCreatePolicy_def apiUpdatePolicy_def savePolicy_def apiDeletePolicy_def handleCaseSave_def

lemmas director_routes = apiCreateISP_def apiUpdateISP_def ispSave_def apiDeleteISP_def apiToggleISP_def

lemmas page_routes = director_page_def handleCreateISP_def handleToggleISP_def handleCreateDevice_def handleDeleteDevice_def handleToggleDevice_def

lemmas reading_routes = apiListDevices_def apiListUsers_def apiGetUser_def apiListPolicies_def apiGetPolicy_def handleCases_def handleCaseGet_def
  apiListISPs_def apiGetISP_def ispDirector_def

lemma authJSON_keeps: "(\<And>i. snd (h i m) = m) \<Longrightarrow> snd (authJSON E now r h m) = m"
  by (simp add: authJSON_def split: option.splits)

lemma reading_keeps:
  "snd (apiListDevices E now r m) = m" "snd (apiListUsers E now r m) = m" "snd (apiGetUser E now r m) = m" "snd (apiListPolicies E now r m) = m"
  "snd (apiGetPolicy E now r m) = m" "snd (handleCases E now r m) = m" "snd (handleCaseGet E now r m) = m"
  "snd (apiListISPs E now r m) = m" "snd (apiGetISP E now r m) = m"
  unfolding reading_routes by (rule authJSON_keeps; simp add: Let_def split: option.splits sum.splits prod.splits)+

lemma handler_authorised:
  assumes "users_ok m" "snd (handler E now rt r m) \<noteq> m" "rq_path r = route_path rt x"
  shows "authorised E now r m (snd (handler E now rt r m))"
  using assms
  by (cases rt) (simp_all add: reading_keeps account_routes_authorised csrf_routes director_routes page_routes
      authCSRF_managed ispDirector_authorised auth_page_authorised managed_path_def)


definition ex_own_store :: mem_store where
  "ex_own_store = store_run (\<lambda>_. [0]) (\<lambda>_. []) [OpCreateDevice 6 (ex_device\<lparr>sd_ISPID := 7\<rparr>)] NewMem"

definition ex_open_api :: api_env where
  "ex_open_api = ex_api\<lparr>av_auth := ex_env\<lparr>ae_revalidateSessions := False\<rparr>\<rparr>"


end
