(* ===== verification/Managed.thy ===== *)
theory Managed
  imports Tenancy Config "HOL-Library.Char_ord" "HOL-Library.List_Lexorder"
begin

text \<open>
  The configuration of a managed collector: the bundle of the director (\<open>buildBundle\<close>,
  \<open>handleAgentConfig\<close>, \<open>EnsureAdmin\<close> of \<open>internal/director/server.go\<close>, \<open>agentcfg\<close>) and the polling
  client of \<open>internal/managed/managed.go\<close>.  The locale \<open>config_source\<close> is the interface \<open>Source\<close>: what a
  poll makes of the registry is proved in it once, and the store of the director interprets it.
\<close>

section \<open>The bundle\<close>

record agent_device =
  gd_Name :: string
  gd_ExporterIP :: string
  gd_ISPID :: u32
  gd_DeviceID :: u32
  gd_Protocol :: string
  gd_Profile :: string
  gd_Enabled :: bool
  gd_SkipDNS :: bool
  gd_SkipPrivate :: bool
  gd_SkipZero :: bool

record agent_bundle =
  bu_Version :: string
  bu_UnknownExporterMode :: string
  bu_Devices :: "agent_device list"

definition bundle_device :: "sdevice \<Rightarrow> agent_device" where
  "bundle_device d = \<lparr>gd_Name = sd_Name d, gd_ExporterIP = sd_ExporterIP d, gd_ISPID = sd_ISPID d, gd_DeviceID = sd_DeviceID d,
     gd_Protocol = sd_Protocol d, gd_Profile = sd_Profile d, gd_Enabled = sd_Enabled d,
     gd_SkipDNS = sd_SkipDNS d, gd_SkipPrivate = sd_SkipPrivate d, gd_SkipZero = sd_SkipZero d\<rparr>"

text \<open>
  \<open>mode\<close> is the mode for unknown exporters of the current settings, \<open>marshal\<close> the JSON text.  The
  addresses of stored devices differ, so there is one order in which \<open>sort.Slice\<close> can leave them.
\<close>

definition buildBundle :: "auth_env \<Rightarrow> (agent_device list \<Rightarrow> bytes) \<Rightarrow> string \<Rightarrow> mem_store \<Rightarrow> agent_bundle" where
  "buildBundle A marshal mode m =
     (let out = map bundle_device (sort_key sd_ExporterIP (ListDevices 0 m)) in
      \<lparr>bu_Version = hex_bytes (take 8 (ae_sha A (marshal out))),
       bu_UnknownExporterMode = (if mode = [] then ''reject'' else mode), bu_Devices = out\<rparr>)"

definition Bundle :: "auth_env \<Rightarrow> (agent_device list \<Rightarrow> bytes) \<Rightarrow> string \<Rightarrow> mem_store \<Rightarrow> agent_bundle" where
  "Bundle A marshal mode m = buildBundle A marshal mode m"

text \<open>The header is the text of \<open>Authorization\<close>, empty when it is missing.\<close>

definition TrimPrefix :: "string \<Rightarrow> string \<Rightarrow> string" where
  "TrimPrefix s p = (if prefix p s then drop (length p) s else s)"

definition handleAgentConfig ::
    "auth_env \<Rightarrow> (agent_device list \<Rightarrow> bytes) \<Rightarrow> string \<Rightarrow> int \<Rightarrow> string \<Rightarrow> mem_store \<Rightarrow> (nat \<times> agent_bundle option) \<times> mem_store" where
  "handleAgentConfig A marshal mode now header m =
     (let tok = TrimPrefix header ''Bearer '' in
      if tok = [] then ((401, None), m)
      else case GetAgentByToken (HashToken A tok) m of
        Inl _ \<Rightarrow> ((401, None), m)
      | Inr a \<Rightarrow> let m' = snd (TouchAgent (ag_ID a) now m) in ((200, Some (buildBundle A marshal mode m')), m'))"

definition EnsureAdmin :: "auth_env \<Rightarrow> int \<Rightarrow> string \<Rightarrow> string \<Rightarrow> mem_store \<Rightarrow> (bool \<times> bool) \<times> mem_store" where
  "EnsureAdmin A now email pw m =
     (if CountUsers m > 0 then ((False, True), m)
      else case HashPassword A pw of
        None \<Rightarrow> ((False, False), m)
      | Some hash \<Rightarrow>
          (case CreateUser now \<lparr>us_ID = 0, us_ISPID = 0, us_Email = to_lower email, us_PasswordHash = hash, us_Role = RoleDirector,
                                us_TOTPSecret = [], us_TOTPEnabled = False, us_CreatedAt = 0\<rparr> m of
             (Inl _, m') \<Rightarrow> ((False, False), m')
           | (Inr _, m') \<Rightarrow> ((True, True), m')))"

section \<open>The client\<close>

datatype poll_error = FetchFailed | BuildFailed device_error

text \<open>The fields of \<open>Client\<close> a poll changes: the stores it writes to, the gauge, the last version.\<close>

record client =
  mc_devices :: "registry option"
  mc_live :: live
  mc_entries :: nat
  mc_lastVersion :: string

text \<open>The answer of the server: status and body, \<open>None\<close> when the request fails.\<close>

definition Fetch_http :: "(bytes \<Rightarrow> agent_bundle option) \<Rightarrow> (nat \<times> bytes) option \<Rightarrow> poll_error + agent_bundle" where
  "Fetch_http decode resp =
     (case resp of
        None \<Rightarrow> Inl FetchFailed
      | Some (status, body) \<Rightarrow>
          if status \<noteq> 200 then Inl FetchFailed
          else case decode body of None \<Rightarrow> Inl FetchFailed | Some b \<Rightarrow> Inr b)"

definition bundle_spec :: "agent_device \<Rightarrow> device_spec" where
  "bundle_spec d = \<lparr>ds_Name = gd_Name d, ds_Enabled = gd_Enabled d, ds_ExporterIP = gd_ExporterIP d, ds_ISPID = gd_ISPID d, ds_DeviceID = gd_DeviceID d,
     ds_Protocol = gd_Protocol d, ds_Profile = gd_Profile d, ds_AllowedPorts = [],
     ds_Rules = Some \<lparr>rs_SkipDNS = Some (gd_SkipDNS d), rs_SkipPrivateToPrivate = Some (gd_SkipPrivate d), rs_SkipZeroBytes = Some (gd_SkipZero d)\<rparr>\<rparr>"

definition PollOnce :: "rule_set \<Rightarrow> bool \<Rightarrow> poll_error + agent_bundle \<Rightarrow> client \<Rightarrow> poll_error option \<times> client" where
  "PollOnce baseRules manageLive fetched c =
     (case fetched of
        Inl e \<Rightarrow> (Some e, c)
      | Inr b \<Rightarrow>
          (case Build_registry (map bundle_spec (bu_Devices b)) baseRules of
             Inl e \<Rightarrow> (Some (BuildFailed e), c)
           | Inr reg \<Rightarrow>
               let c = c\<lparr>mc_devices := Store_device (Some reg) (mc_devices c)\<rparr>;
                   mode = (case ParseUnknownMode (bu_UnknownExporterMode b) of Inl _ \<Rightarrow> ModeReject | Inr m \<Rightarrow> m);
                   c = (if manageLive then c\<lparr>mc_live := (mc_live c)\<lparr>l_UnknownMode := mode\<rparr>\<rparr> else c);
                   c = c\<lparr>mc_entries := Len_registry (Some reg)\<rparr>
               in (None, if bu_Version b \<noteq> mc_lastVersion c then c\<lparr>mc_lastVersion := bu_Version b\<rparr> else c)))"

text \<open>\<open>Run\<close>: one poll per tick, whatever the source answers; an error is logged only.\<close>

definition Run_client :: "rule_set \<Rightarrow> bool \<Rightarrow> (poll_error + agent_bundle) list \<Rightarrow> client \<Rightarrow> client" where
  "Run_client baseRules manageLive fetches c = foldl (\<lambda>c f. snd (PollOnce baseRules manageLive f c)) c fetches"

section \<open>What a poll does\<close>

lemma Build_registry_Inl:
  "(\<exists>e. Build_registry specs g = Inl e) \<longleftrightarrow> \<not> (list_all spec_ok specs \<and> distinct (map spec_key specs))"
  using validate_specs_None_iff[of 0 "[]" specs]
  by (auto simp: Build_registry_def Validate_devices_def split: option.splits)

lemma PollOnce_failed: "fst (PollOnce g ml f c) = Some e \<Longrightarrow> snd (PollOnce g ml f c) = c"
  by (auto simp: PollOnce_def Let_def split: sum.splits)

lemma PollOnce_None_iff:
  "fst (PollOnce g ml f c) = None \<longleftrightarrow>
     (\<exists>b. f = Inr b \<and> list_all spec_ok (map bundle_spec (bu_Devices b)) \<and> distinct (map spec_key (map bundle_spec (bu_Devices b))))"
proof (cases f)
  case (Inr b)
  then show ?thesis
    using Build_registry_Inl[of "map bundle_spec (bu_Devices b)" g]
    by (auto simp: PollOnce_def Let_def split: sum.splits simp del: map_map)
qed (simp add: PollOnce_def)

lemma PollOnce_registry:
  assumes "fst (PollOnce g ml (Inr b) c) = None"
  shows "\<exists>reg. Build_registry (map bundle_spec (bu_Devices b)) g = Inr reg \<and> mc_devices (snd (PollOnce g ml (Inr b) c)) = Some reg"
  using assms by (auto simp: PollOnce_def Let_def Store_device_def split: sum.splits)

text \<open>The registry describes a stored device: its identity, whether it is enabled, and its own rules.\<close>

definition describes :: "device \<Rightarrow> sdevice \<Rightarrow> bool" where
  "describes x d \<longleftrightarrow> d_ISPID x = sd_ISPID d \<and> d_DeviceID x = sd_DeviceID d \<and> d_Enabled x = sd_Enabled d \<and>
     SkipDNS (d_Rules x) = sd_SkipDNS d \<and> SkipPrivateToPrivate (d_Rules x) = sd_SkipPrivate d \<and> SkipZeroBytes (d_Rules x) = sd_SkipZero d"

definition stored_key :: "sdevice \<Rightarrow> bytes" where
  "stored_key d = device_key (ParseIP (sd_ExporterIP d))"

definition stored_ok :: "sdevice \<Rightarrow> bool" where
  "stored_ok d \<longleftrightarrow> spec_ok (checked_spec d)"

lemma bundle_spec_device [simp]:
  "spec_key (bundle_spec (bundle_device d)) = stored_key d"
  "spec_ok (bundle_spec (bundle_device d)) = stored_ok d"
  by (simp_all add: spec_key_def bundle_spec_def bundle_device_def stored_key_def stored_ok_def spec_ok_def checked_spec_def)

lemma describes_device_of: "describes (device_of g (bundle_spec (bundle_device d))) d"
  by (simp add: describes_def device_of_def bundle_spec_def bundle_device_def effective_rules_def Let_def)

text \<open>A source of bundles: what it fetches are the devices that are stored behind it, each once, in some order.\<close>

locale config_source =
  fixes fetch :: "'s \<Rightarrow> poll_error + agent_bundle" and stored :: "'s \<Rightarrow> sdevice list"
  assumes supplies: "fetch s = Inr b \<Longrightarrow> mset (bu_Devices b) = mset (map bundle_device (stored s))"
begin

lemma fetched_specs:
  assumes "fetch s = Inr b"
  shows "list_all spec_ok (map bundle_spec (bu_Devices b)) \<longleftrightarrow> list_all stored_ok (stored s)"
    "distinct (map spec_key (map bundle_spec (bu_Devices b))) \<longleftrightarrow> distinct (map stored_key (stored s))"
    "set (map bundle_spec (bu_Devices b)) = (\<lambda>d. bundle_spec (bundle_device d)) ` set (stored s)"
proof -
  have eq: "mset (map bundle_spec (bu_Devices b)) = mset (map (\<lambda>d. bundle_spec (bundle_device d)) (stored s))"
    using arg_cong[OF supplies[OF assms], of "image_mset bundle_spec"] by (simp add: multiset.map_comp o_def)
  then show s: "set (map bundle_spec (bu_Devices b)) = (\<lambda>d. bundle_spec (bundle_device d)) ` set (stored s)"
    by (metis list.set_map mset_eq_setD)
  show "list_all spec_ok (map bundle_spec (bu_Devices b)) \<longleftrightarrow> list_all stored_ok (stored s)"
    unfolding list_all_iff s by auto
  have "mset (map spec_key (map bundle_spec (bu_Devices b))) = mset (map stored_key (stored s))"
    using arg_cong[OF eq, of "image_mset spec_key"] by (simp add: multiset.map_comp o_def)
  then show "distinct (map spec_key (map bundle_spec (bu_Devices b))) \<longleftrightarrow> distinct (map stored_key (stored s))"
    by (metis mset_eq_imp_distinct_iff)
qed

lemma poll_succeeds_iff:
  "fst (PollOnce g ml (fetch s) c) = None \<longleftrightarrow>
     \<not> isl (fetch s) \<and> list_all stored_ok (stored s) \<and> distinct (map stored_key (stored s))"
  unfolding PollOnce_None_iff using fetched_specs[of s] by (cases "fetch s") auto

lemma poll_attributes:
  assumes "fst (PollOnce g ml (fetch s) c) = None" and a: "a \<noteq> nil_ip"
  defines "reg \<equiv> mc_devices (snd (PollOnce g ml (fetch s) c))"
  shows "d \<in> set (stored s) \<Longrightarrow> stored_key d = device_key a \<Longrightarrow> \<exists>x. Lookup_device reg a = Some x \<and> describes x d"
    "(\<And>d. d \<in> set (stored s) \<Longrightarrow> stored_key d \<noteq> device_key a) \<Longrightarrow> Lookup_device reg a = None"
proof -
  obtain b where b: "fetch s = Inr b" using assms(1) PollOnce_None_iff by blast
  obtain r where r: "Build_registry (map bundle_spec (bu_Devices b)) g = Inr r" "reg = Some r"
    using PollOnce_registry[of g ml b c] assms(1) b by (auto simp: reg_def)
  note ok = Build_registry_ok[OF r(1)]
  show "\<exists>x. Lookup_device reg a = Some x \<and> describes x d" if d: "d \<in> set (stored s)" "stored_key d = device_key a"
  proof -
    let ?s = "bundle_spec (bundle_device d)"
    have "?s \<in> set (map bundle_spec (bu_Devices b))" using fetched_specs(3)[OF b] d by auto
    then have "find (\<lambda>s. spec_key s = device_key a) (map bundle_spec (bu_Devices b)) = Some ?s"
      using find_key_Some[OF ok(2)] d(2) by simp
    then show ?thesis using ok(3)[OF a] r(2) describes_device_of by (auto simp: describes_def)
  qed
  show "Lookup_device reg a = None" if "\<And>d. d \<in> set (stored s) \<Longrightarrow> stored_key d \<noteq> device_key a"
  proof -
    have "find (\<lambda>s. spec_key s = device_key a) (map bundle_spec (bu_Devices b)) = None"
      using that fetched_specs(3)[OF b] unfolding find_None_iff by (metis (no_types, lifting) bundle_spec_device(1) imageE)
    then show ?thesis using ok(3)[OF a] r(2) by simp
  qed
qed

end

interpretation in_process: config_source "\<lambda>m. Inr (Bundle A marshal mode m)" "ListDevices 0" for A marshal mode
  by unfold_locales (auto simp: Bundle_def buildBundle_def Let_def)

section \<open>Devices stored through the interface\<close>

definition valid_devices :: "mem_store \<Rightarrow> bool" where
  "valid_devices m \<longleftrightarrow> (\<forall>d\<in>set (ListDevices 0 m). stored_ok d)"

lemma valid_devices_frame: "ms_devices m' = ms_devices m \<Longrightarrow> valid_devices m \<Longrightarrow> valid_devices m'"
  by (simp add: valid_devices_def ListDevices_def)

lemma set_AList_update: "set (AList.update k v xs) \<subseteq> insert (k, v) (set xs)"
  by (induction xs) auto

lemma update_append_new: "map_of xs k = None \<Longrightarrow> AList.update k v xs = xs @ [(k, v)]"
  by (induction xs) (auto split: if_splits)

lemma valid_devices_put:
  assumes "valid_devices m" "stored_ok d"
  shows "valid_devices (m\<lparr>ms_devices := AList.update k d (ms_devices m)\<rparr>)"
    "valid_devices (m\<lparr>ms_nextDev := n, ms_devices := AList.update k d (ms_devices m)\<rparr>)"
  using assms set_AList_update[of k d "ms_devices m"] by (auto simp: valid_devices_def ListDevices_def)

lemma stored_ok_update [simp]:
  "stored_ok (d\<lparr>sd_ID := i\<rparr>) = stored_ok d" "stored_ok (d\<lparr>sd_UpdatedAt := u\<rparr>) = stored_ok d"
  "stored_ok (d\<lparr>sd_Enabled := e\<rparr>) = stored_ok d"
  by (simp_all add: stored_ok_def checked_spec_def spec_ok_def)

lemma Validate_one: "Validate_devices [checked_spec d] = None \<longleftrightarrow> stored_ok d"
  by (simp add: Validate_devices_def validate_specs_None_iff stored_ok_def del: validate_specs.simps)

lemma valid_CreateDevice: "valid_devices m \<Longrightarrow> stored_ok d \<Longrightarrow> valid_devices (snd (CreateDevice now d m))"
  by (auto simp: CreateDevice_def Let_def intro!: valid_devices_put)

lemma valid_UpdateDevice: "valid_devices m \<Longrightarrow> stored_ok d \<Longrightarrow> valid_devices (snd (UpdateDevice now d m))"
  by (simp add: UpdateDevice_def valid_devices_put)

lemma valid_DeleteDevice: "valid_devices m \<Longrightarrow> valid_devices (snd (DeleteDevice i m))"
  by (auto simp: DeleteDevice_def valid_devices_def ListDevices_def AList.delete_eq)

lemma valid_case:
  "valid_devices (snd r) \<Longrightarrow> valid_devices (snd (case r of (Inl e, m') \<Rightarrow> (f e, m') | (Inr x, m') \<Rightarrow> (g x, m')))"
  by (auto split: prod.splits sum.splits)

lemma valid_authJSON: "valid_devices m \<Longrightarrow> (\<And>i. valid_devices (snd (h i m))) \<Longrightarrow> valid_devices (snd (authJSON E now r h m))"
  by (simp add: authJSON_def split: option.splits)

lemma valid_authCSRF: "valid_devices m \<Longrightarrow> (\<And>i. valid_devices (snd (h i m))) \<Longrightarrow> valid_devices (snd (authCSRF E now r h m))"
  unfolding authCSRF_def by (rule valid_authJSON) auto

lemma valid_ispDirector: "valid_devices m \<Longrightarrow> valid_devices (snd (h m)) \<Longrightarrow> valid_devices (snd (ispDirector E now r mu h m))"
  unfolding ispDirector_def by (rule valid_authJSON) auto

lemma valid_auth_page: "valid_devices m \<Longrightarrow> (\<And>i. valid_devices (snd (h i m))) \<Longrightarrow> valid_devices (snd (auth_page E now r h m))"
  by (simp add: auth_page_def split: option.splits)

lemma valid_ownedDevice: "valid_devices m \<Longrightarrow> ownedDevice r i m = Inr d \<Longrightarrow> stored_ok d"
  by (auto simp: ownedDevice_def GetDevice_def valid_devices_def ListDevices_def split: option.splits if_splits dest!: map_of_SomeD)

lemmas valid_guards = valid_authJSON valid_authCSRF valid_ispDirector valid_auth_page

lemma valid_ops:
  assumes "valid_devices m"
  shows "valid_devices (snd (CreateISP now n m))" "valid_devices (snd (SetISPEnabled k e m))" "valid_devices (snd (SaveISPAccount now v hash m))"
    "valid_devices (snd (DeleteISPAccount k ver m))" "valid_devices (snd (CreateUser now u m))" "valid_devices (snd (SaveUser u w m))"
    "valid_devices (snd (UpdateUserTOTP j s e m))" "valid_devices (snd (SavePolicy now p q m))" "valid_devices (snd (SaveInvestigation now c m))"
  by (rule valid_devices_frame[OF _ assms], simp add: store_frame UpdateUserTOTP_def)+

lemma valid_device_routes:
  assumes "valid_devices m"
  shows "valid_devices (snd (apiCreateDevice E now r b m))" "valid_devices (snd (apiUpdateDevice E now r b m))"
    "valid_devices (snd (apiToggleDevice E now r m))" "valid_devices (snd (apiDeleteDevice E now r m))"
    "valid_devices (snd (handleCreateDevice E now r x y f m))" "valid_devices (snd (handleDeleteDevice E now r m))"
    "valid_devices (snd (handleToggleDevice E now r m))"
  unfolding apiCreateDevice_def apiUpdateDevice_def apiToggleDevice_def apiDeleteDevice_def handleCreateDevice_def handleDeleteDevice_def handleToggleDevice_def
  by (rule valid_guards[OF assms];
      use assms in \<open>auto simp: Let_def Validate_one split: option.splits sum.splits dest: valid_ownedDevice
        intro!: valid_case valid_CreateDevice valid_UpdateDevice valid_DeleteDevice\<close>)+

lemma valid_user_parts:
  assumes "valid_devices m"
  shows "valid_devices (snd (store_user E now old b role scope m))" "valid_devices (snd (save_password E u pw m))"
  unfolding store_user_def save_password_def
  using assms by (auto simp: Let_def split: option.splits intro!: valid_case valid_ops)

lemma valid_user_form_save: "valid_devices m \<Longrightarrow> valid_devices (snd (user_form_save E now i old b m))"
  by (simp add: user_form_save_def Let_def valid_user_parts)

lemma valid_user_routes:
  assumes "valid_devices m"
  shows "valid_devices (snd (userSave E now r upd b m))" "valid_devices (snd (apiDeleteUser E now r b m))" "valid_devices (snd (apiResetPassword E now r b m))"
    "valid_devices (snd (apiChangeOwnPassword E now r b m))" "valid_devices (snd (handleTOTPSetup E now r rnd nonce m))"
    "valid_devices (snd (handleTOTPConfirm E now r code m))"
  unfolding userSave_def apiDeleteUser_def apiResetPassword_def apiChangeOwnPassword_def handleTOTPSetup_def handleTOTPConfirm_def
  by (rule valid_guards[OF assms];
      use assms in \<open>auto simp: Let_def split: option.splits sum.splits intro!: valid_case valid_ops valid_user_form_save valid_user_parts\<close>)+

lemma valid_totp_disable: "valid_devices m \<Longrightarrow> valid_devices (snd (handleTOTPDisable E now r body m))"
  unfolding handleTOTPDisable_def by (rule valid_guards, simp, cases body) (auto split: sum.splits intro!: valid_case valid_ops)

lemma valid_form_saves:
  assumes "valid_devices m"
  shows "valid_devices (snd (policy_form_save E now i old b m))" "valid_devices (snd (isp_form_save E now w f m))"
  unfolding policy_form_save_def isp_form_save_def Let_def
  using assms by (auto split: option.splits intro!: valid_case valid_ops)

lemma valid_result:
  assumes "valid_devices m"
  shows "CreateISP now n m = (x, m') \<Longrightarrow> valid_devices m'" "DeleteISPAccount k ver m = (y, m') \<Longrightarrow> valid_devices m'"
  using valid_ops(1,4)[OF assms] by (metis snd_conv)+

lemma valid_handleCreateISP: "valid_devices m \<Longrightarrow> valid_devices (snd (handleCreateISP E now r n e pw m))"
  unfolding handleCreateISP_def director_page_def
  by (rule valid_auth_page) (auto simp: Let_def split: option.splits prod.splits sum.splits intro!: valid_ops dest: valid_result)

lemma valid_other_routes:
  assumes "valid_devices m"
  shows "valid_devices (snd (savePolicy E now r upd p m))" "valid_devices (snd (apiDeletePolicy E now r p m))"
    "valid_devices (snd (ispSave E now r upd f m))"
    "valid_devices (snd (apiToggleISP E now r m))" "valid_devices (snd (handleToggleISP E now r m))"
  unfolding savePolicy_def apiDeletePolicy_def ispSave_def apiToggleISP_def handleToggleISP_def director_page_def
  by (rule valid_guards[OF assms];
      use assms in \<open>auto simp: Let_def split: option.splits sum.splits intro!: valid_case valid_ops valid_form_saves\<close>)+

lemma valid_apiDeleteISP: "valid_devices m \<Longrightarrow> valid_devices (snd (apiDeleteISP E now r g m))"
  unfolding apiDeleteISP_def by (rule valid_guards) (auto split: option.splits sum.splits prod.splits dest: valid_result)

lemma valid_handleCaseSave: "valid_devices m \<Longrightarrow> valid_devices (snd (handleCaseSave E now r c m))"
  unfolding handleCaseSave_def by (rule valid_guards, simp, cases c) (auto simp: Let_def split: sum.splits intro!: valid_case valid_ops)

lemma valid_handler: "valid_devices m \<Longrightarrow> valid_devices (snd (handler E now rt r m))"
  by (cases rt)
    (simp_all add: reading_keeps valid_device_routes valid_user_routes valid_totp_disable valid_other_routes valid_apiDeleteISP valid_handleCaseSave
      valid_handleCreateISP apiCreateUser_def apiUpdateUser_def apiCreatePolicy_def apiUpdatePolicy_def apiCreateISP_def apiUpdateISP_def)

text \<open>A sequence of requests, each at its time.\<close>

definition serve_all :: "api_env \<Rightarrow> (int \<times> route \<times> request) list \<Rightarrow> mem_store \<Rightarrow> mem_store" where
  "serve_all E rs m = foldl (\<lambda>m (now, rt, r). snd (serve E now rt r m)) m rs"

lemma valid_serve_all: "valid_devices m \<Longrightarrow> valid_devices (serve_all E rs m)"
  unfolding serve_all_def
proof (induction rs arbitrary: m)
  case (Cons q rs)
  obtain now rt r where "q = (now, rt, r)" by (cases q)
  then show ?case using Cons valid_handler by (simp add: serve_def)
qed simp

section \<open>Properties\<close>

text \<open>
  C25. Whatever requests the director has served, a poll of its bundle succeeds exactly when no two stored devices name
  the same exporter address.  Then the registry attributes the datagrams of every stored device to its
  tenant, device number, state and rules, and no other address to anyone; otherwise the client is left as it was.
\<close>

theorem managed_poll:
  assumes "valid_devices m0" "m = serve_all E rs m0"
    and p: "p = PollOnce baseRules manageLive (Inr (Bundle (av_auth E) marshal mode m)) c"
  shows "if distinct (map stored_key (ListDevices 0 m))
    then fst p = None \<and>
      (\<forall>a. a \<noteq> nil_ip \<longrightarrow>
         (\<forall>d\<in>set (ListDevices 0 m). stored_key d = device_key a \<longrightarrow> (\<exists>x. Lookup_device (mc_devices (snd p)) a = Some x \<and> describes x d)) \<and>
         ((\<forall>d\<in>set (ListDevices 0 m). stored_key d \<noteq> device_key a) \<longrightarrow> Lookup_device (mc_devices (snd p)) a = None))
    else fst p \<noteq> None \<and> snd p = c"
proof -
  have valid: "list_all stored_ok (ListDevices 0 m)"
    using valid_serve_all[OF assms(1)] assms(2) by (simp add: valid_devices_def list_all_iff)
  show ?thesis
  proof (cases "distinct (map stored_key (ListDevices 0 m))")
    case True
    then have ok: "fst p = None" unfolding p in_process.poll_succeeds_iff using valid by simp
    then show ?thesis using True in_process.poll_attributes[OF ok[unfolded p], folded p] by (metis (no_types, lifting))
  next
    case False
    then have "fst p \<noteq> None" unfolding p in_process.poll_succeeds_iff by simp
    then show ?thesis using False PollOnce_failed unfolding p by auto
  qed
qed

text \<open>
  C26. The store compares exporter addresses as texts and the handlers validate one device at a time, but the registry
  compares addresses: a device that passes both checks and names the address of a stored device in another
  form, such as \<open>::ffff:10.0.0.1\<close> for \<open>10.0.0.1\<close>, makes every poll fail, so no collector takes a new configuration.
\<close>

theorem device_blocks_updates:
  assumes ops: "list_all op_lower ops" "length ops < 2 ^ 32" "m = store_run sha ft ops NewMem"
    and d: "d \<in> set (ListDevices 0 m)" and d': "sd_ExporterIP d' \<notin> sd_ExporterIP ` set (ListDevices 0 m)"
    "Validate_devices [checked_spec d'] = None" "stored_key d' = stored_key d"
    and c': "c' = snd (PollOnce baseRules manageLive (Inr (Bundle A marshal mode (snd (CreateDevice now d' m)))) c)"
  shows "(\<exists>x. fst (CreateDevice now d' m) = Inr x) \<and> c' = c \<and>
    fst (PollOnce baseRules manageLive (Inr (Bundle A marshal mode (snd (CreateDevice now d' m)))) c) \<noteq> None"
proof -
  have new: "\<not> list_ex (\<lambda>(k, v). sd_ExporterIP v = sd_ExporterIP d') (ms_devices m)"
    using d'(1) unfolding list_ex_iff ListDevices_def by (auto simp: image_iff)
  let ?n = "ms_nextDev m + 1" and ?m = "snd (CreateDevice now d' m)"
  let ?d = "d'\<lparr>sd_ID := ?n, sd_UpdatedAt := now\<rparr>"
  have "store_wf m" using store_run_NewMem[OF ops(1,2)] ops(3) by simp
  then have "map_of (ms_devices m) ?n = None" by (simp add: store_wf_def new_device_number)
  then have made: "fst (CreateDevice now d' m) = Inr ?d" "ListDevices 0 ?m = ListDevices 0 m @ [?d]"
    using new by (simp_all add: CreateDevice_def Let_def ListDevices_def update_append_new)
  have "stored_key ?d = stored_key d" using d'(3) by (simp add: stored_key_def)
  then have "\<not> distinct (map stored_key (ListDevices 0 ?m))" using made(2) d by auto
  then have "fst (PollOnce baseRules manageLive (Inr (Bundle A marshal mode ?m)) c) \<noteq> None"
    unfolding in_process.poll_succeeds_iff by simp
  then show ?thesis using made(1) PollOnce_failed c' by auto
qed

definition ex_mapped :: sdevice where
  "ex_mapped = ex_device\<lparr>sd_ISPID := 9, sd_ExporterIP := ''::ffff:10.0.0.1''\<rparr>"

definition ex_client :: client where
  "ex_client = \<lparr>mc_devices = None, mc_live = Live zero_config, mc_entries = 0, mc_lastVersion = []\<rparr>"

lemma ex_addresses: "ParseIP ''10.0.0.1'' = v4InV6Prefix @ [10, 0, 0, 1]" "ParseIP ''::ffff:10.0.0.1'' = v4InV6Prefix @ [10, 0, 0, 1]"
  by (simp_all add: ParseIP_def parse_v6_def v6_groups.simps hex_value_def is_digit_def digit_value_def v4InV6Prefix_def)
    (simp add: numeral_eq_Suc)

lemma ex_key: "device_key (v4InV6Prefix @ [10, 0, 0, 1]) = [10, 0, 0, 1]"
  by code_simp

lemma ex_stored: "ListDevices 0 ex_store = [ex_device\<lparr>sd_ID := 1, sd_UpdatedAt := 6\<rparr>]"
  by (simp add: ex_store_def store_run_def ListDevices_def NewMem_def CreateDevice_def CreateUser_def Let_def)

lemma ex_stored_ok: "stored_ok ex_device" "stored_ok ex_mapped"
  by (simp_all add: stored_ok_def spec_ok_def checked_spec_def ex_mapped_def ex_device_def ex_addresses validProtocol_def validProtocols_def
      validProfile_def validProfiles_def)

theorem device_blocks_updates_witness:
  "(\<exists>x. fst (CreateDevice 7 ex_mapped ex_store) = Inr x) \<and>
    snd (PollOnce (New_rules False False True) True (Inr (Bundle ex_env (\<lambda>_. []) [] (snd (CreateDevice 7 ex_mapped ex_store)))) ex_client) = ex_client \<and>
    fst (PollOnce (New_rules False False True) True (Inr (Bundle ex_env (\<lambda>_. []) [] (snd (CreateDevice 7 ex_mapped ex_store)))) ex_client) \<noteq> None"
proof (rule device_blocks_updates[OF _ _ ex_store_def _ _ _ _ refl])
  show "ex_device\<lparr>sd_ID := 1, sd_UpdatedAt := 6\<rparr> \<in> set (ListDevices 0 ex_store)" by (simp add: ex_stored)
  show "sd_ExporterIP ex_mapped \<notin> sd_ExporterIP ` set (ListDevices 0 ex_store)" by (simp add: ex_stored ex_mapped_def ex_device_def)
  show "Validate_devices [checked_spec ex_mapped] = None" by (simp add: Validate_one ex_stored_ok)
  show "stored_key ex_mapped = stored_key (ex_device\<lparr>sd_ID := 1, sd_UpdatedAt := 6\<rparr>)"
    by (simp add: stored_key_def ex_mapped_def ex_device_def ex_addresses)
qed (simp_all add: ex_user_def)

definition ex_requests :: "(int \<times> route \<times> request) list" where
  "ex_requests = [(5, DeleteDeviceR, ex_request\<lparr>rq_cookie := None\<rparr>)]"

definition ex_poll :: "poll_error option \<times> client" where
  "ex_poll = PollOnce (New_rules False False True) True (Inr (Bundle (av_auth ex_api) (\<lambda>_. []) [] (serve_all ex_api ex_requests ex_store))) ex_client"

theorem managed_poll_witness:
  "\<exists>x. Lookup_device (mc_devices (snd ex_poll)) [10, 0, 0, 1] = Some x \<and> d_ISPID x = 8"
proof -
  have m: "serve_all ex_api ex_requests ex_store = ex_store"
    by (simp add: serve_all_def ex_requests_def serve_def apiDeleteDevice_def authCSRF_def authJSON_def currentIdentity_def)
  have "valid_devices ex_store" by (simp add: valid_devices_def ex_stored ex_stored_ok)
  note p = managed_poll[OF this m[symmetric], of ex_poll "New_rules False False True" True "\<lambda>_. []" "[]" ex_client]
  have "distinct (map stored_key (ListDevices 0 ex_store))" by (simp add: ex_stored)
  then have "\<forall>a. a \<noteq> nil_ip \<longrightarrow> (\<forall>d\<in>set (ListDevices 0 ex_store). stored_key d = device_key a \<longrightarrow>
      (\<exists>x. Lookup_device (mc_devices (snd ex_poll)) a = Some x \<and> describes x d))"
    using p by (simp only: if_True simp_thms) (simp add: ex_poll_def m)
  from this[THEN spec, of "[10, 0, 0, 1]"]
  have "\<exists>x. Lookup_device (mc_devices (snd ex_poll)) [10, 0, 0, 1] = Some x \<and> describes x (ex_device\<lparr>sd_ID := 1, sd_UpdatedAt := 6\<rparr>)"
    using ex_key device_key_idem[of "v4InV6Prefix @ [10, 0, 0, 1]"] by (simp add: ex_stored stored_key_def ex_addresses) (simp add: ex_device_def ex_addresses)
  then show ?thesis by (auto simp: describes_def ex_device_def)
qed

end
