(* ===== verification/Alerts.thy ===== *)
theory Alerts
  imports Store_Mem
begin

text \<open>
  The alert state machines of the director: device liveness and the daily summary
  (\<open>internal/director/monitor.go\<close>), ingest stalls, database outages and broken parts
  (\<open>internal/director/ingestmon.go\<close>).

  A point in time is its nanoseconds, \<open>None\<close> the zero \<open>time.Time\<close>, which is before every other.  The
  answers of the databases, the settings and whether a notification is delivered are arguments; a notification
  is what a step sends, its wording is not modelled.
\<close>

type_synonym instant = "int option"

fun after :: "instant \<Rightarrow> instant \<Rightarrow> bool" where
  "after None t = False"
| "after (Some x) None = True"
| "after (Some x) (Some y) = (y < x)"

section \<open>Device liveness\<close>

record notification_settings =
  nt_Enabled :: bool
  nt_SilenceMins :: int
  nt_RemindHours :: int
  nt_DailySummary :: bool
  nt_DailyHourIST :: int

datatype health_status = HInit | HHealthy | HSilent

record devHealthState =
  dh_lastFlow :: instant
  dh_status :: health_status
  dh_lastAlertAt :: instant

datatype badge = Online | Silent | NoData

record DeviceHealth =
  hb_LastSeen :: instant
  hb_Status :: badge
  hb_AgoSecs :: int

definition exporterKey :: "u32 \<Rightarrow> string \<Rightarrow> string" where
  "exporterKey ispID addr = dec_string (unat ispID) @ ''|'' @ addr"

definition minute_ns :: int where
  "minute_ns = 60 * 1000000000"

definition notifSilenceMins :: "notification_settings \<Rightarrow> int" where
  "notifSilenceMins n = (if nt_SilenceMins n < 1 then 15 else nt_SilenceMins n)"

text \<open>\<open>seen\<close> is the answer of the last-seen query and \<open>sigs\<close> the time of the last dropped flow of a device number.\<close>

definition device_badge :: "(string \<rightharpoonup> int) \<Rightarrow> (u32 \<rightharpoonup> int) \<Rightarrow> int \<Rightarrow> int \<Rightarrow> sdevice \<Rightarrow> DeviceHealth" where
  "device_badge seen sigs silence now d =
     (let ls = seen (exporterKey (sd_ISPID d) (sd_ExporterIP d));
          ls = (if after (sigs (sd_DeviceID d)) ls then sigs (sd_DeviceID d) else ls)
      in case ls of
           None \<Rightarrow> \<lparr>hb_LastSeen = None, hb_Status = NoData, hb_AgoSecs = 0\<rparr>
         | Some t \<Rightarrow> \<lparr>hb_LastSeen = ls, hb_Status = (if now - t > silence then Silent else Online), hb_AgoSecs = (now - t) sdiv 1000000000\<rparr>)"

definition deviceHealthMap :: "notification_settings \<Rightarrow> (string \<rightharpoonup> int) option \<Rightarrow> (u32 \<rightharpoonup> int) \<Rightarrow> int \<Rightarrow> sdevice list \<Rightarrow> (int \<times> DeviceHealth) list" where
  "deviceHealthMap n seen sigs now devs =
     (case seen of
        None \<Rightarrow> []
      | Some seen \<Rightarrow> foldl (\<lambda>out d. AList.update (sd_ID d) (device_badge seen sigs (notifSilenceMins n * minute_ns) now d) out) [] devs)"

record pendingAlert =
  pa_d :: sdevice
  pa_st :: devHealthState
  pa_recovered :: bool

type_synonym health = "(string \<times> devHealthState) list"

text \<open>The transition of one device: its new state and the alert, if one is due.\<close>

definition transition :: "int \<Rightarrow> int \<Rightarrow> int \<Rightarrow> instant \<Rightarrow> devHealthState \<Rightarrow> devHealthState \<times> bool option" where
  "transition silence remind now ls st =
     (let st = (if after ls (dh_lastFlow st) then st\<lparr>dh_lastFlow := ls\<rparr> else st) in
      case dh_lastFlow st of
        None \<Rightarrow> (st, None)
      | Some t \<Rightarrow>
          let down = now - t > silence in
          if down \<and> dh_status st \<noteq> HSilent then (st\<lparr>dh_status := HSilent, dh_lastAlertAt := Some now\<rparr>, Some False)
          else if down \<and> dh_status st = HSilent \<and> remind > 0 \<and> (case dh_lastAlertAt st of None \<Rightarrow> True | Some a \<Rightarrow> now - a \<ge> remind)
          then (st\<lparr>dh_lastAlertAt := Some now\<rparr>, Some False)
          else if \<not> down \<and> dh_status st = HSilent then (st\<lparr>dh_status := HHealthy\<rparr>, Some True)
          else if \<not> down then (st\<lparr>dh_status := HHealthy\<rparr>, None)
          else (st, None))"

definition eval_device ::
    "(string \<rightharpoonup> int) \<Rightarrow> int \<Rightarrow> int \<Rightarrow> int \<Rightarrow> health \<times> string list \<times> pendingAlert list \<Rightarrow> sdevice \<Rightarrow> health \<times> string list \<times> pendingAlert list" where
  "eval_device seen silence remind now acc d =
     (case acc of (health, live, toSend) \<Rightarrow>
        if \<not> sd_Enabled d then (health, live, toSend)
        else
          let key = exporterKey (sd_ISPID d) (sd_ExporterIP d);
              st = (case map_of health key of None \<Rightarrow> \<lparr>dh_lastFlow = None, dh_status = HInit, dh_lastAlertAt = None\<rparr> | Some st \<Rightarrow> st);
              (st', alert) = transition silence remind now (seen key) st
          in (AList.update key st' health, key # live,
              case alert of None \<Rightarrow> toSend | Some recovered \<Rightarrow> toSend @ [\<lparr>pa_d = d, pa_st = st', pa_recovered = recovered\<rparr>]))"

definition evalTransitions :: "sdevice list \<Rightarrow> (string \<rightharpoonup> int) \<Rightarrow> int \<Rightarrow> int \<Rightarrow> int \<Rightarrow> health \<Rightarrow> pendingAlert list \<times> health" where
  "evalTransitions devs seen silence remind now health =
     (case foldl (eval_device seen silence remind now) (health, [], []) devs of
        (health, live, toSend) \<Rightarrow> (toSend, filter (\<lambda>(k, st). k \<in> set live) health))"

text \<open>
  One check: what is sent and the state after it.  \<open>notifier\<close> says whether a transport is installed; \<open>devs\<close> and \<open>seen\<close>
  are \<open>None\<close> when the query fails.  A failed delivery changes nothing: it is logged.
\<close>

definition runHealthCheck ::
    "notification_settings \<Rightarrow> bool \<Rightarrow> sdevice list option \<Rightarrow> (string \<rightharpoonup> int) option \<Rightarrow> int \<Rightarrow> health \<Rightarrow> pendingAlert list \<times> health" where
  "runHealthCheck n notifier devs seen now health =
     (if \<not> nt_Enabled n \<or> \<not> notifier then ([], health)
      else case (devs, seen) of
        (Some devs, Some seen) \<Rightarrow> evalTransitions devs seen (notifSilenceMins n * minute_ns) (nt_RemindHours n * 60 * minute_ns) now health
      | _ \<Rightarrow> ([], health))"

section \<open>The daily summary\<close>

text \<open>
  \<open>day\<close> and \<open>hour\<close> are the previous day and the hour of the tick in the local time zone; \<open>sum_ok\<close> and \<open>sent_ok\<close> say whether the query
  and the delivery succeed.  The result says whether a mail was delivered.
\<close>

definition runDailySummary ::
    "notification_settings \<Rightarrow> bool \<Rightarrow> string \<Rightarrow> int \<Rightarrow> bool \<Rightarrow> bool \<Rightarrow> mem_store \<Rightarrow> bool \<times> mem_store" where
  "runDailySummary n notifier day hour sum_ok sent_ok m =
     (if \<not> nt_Enabled n \<or> \<not> nt_DailySummary n \<or> hour \<noteq> nt_DailyHourIST n \<or> \<not> notifier then (False, m)
      else if map_of (GetSettings m) ''daily_summary_last'' = Some day then (False, m)
      else if \<not> sum_ok \<or> \<not> sent_ok then (False, m)
      else (True, PutSetting ''daily_summary_last'' day m))"

section \<open>Ingest\<close>

record IngestHealth =
  ih_Decoded :: u64
  ih_Inserted :: u64
  ih_InsertErrors :: u64

record ingestMonState =
  im_prev :: IngestHealth
  im_havePrev :: bool
  im_stalled :: nat
  im_alerted :: bool
  im_stallDecoded :: u64
  im_stallErrors :: u64
  im_lastAlert :: instant
  im_broken :: u64
  im_lastBrokenAlert :: instant
  im_dbDown :: bool
  im_lastDBAlert :: instant

definition ingestStallTicks :: nat where
  "ingestStallTicks = 5"

definition brokenCheckEvery :: nat where
  "brokenCheckEvery = 10"

definition remindInterval :: "notification_settings \<Rightarrow> int" where
  "remindInterval n = (if nt_RemindHours n < 1 then 6 else nt_RemindHours n) * 60 * minute_ns"

record ingestDeltas =
  de_decoded :: u64
  de_inserted :: u64
  de_errors :: u64
  de_window :: nat

definition since :: "int \<Rightarrow> instant \<Rightarrow> int \<Rightarrow> bool" where
  "since now t d \<longleftrightarrow> (case t of None \<Rightarrow> True | Some x \<Rightarrow> now - x \<ge> d)"

definition evalIngestTick :: "ingestMonState \<Rightarrow> IngestHealth \<Rightarrow> int \<Rightarrow> int \<Rightarrow> (bool \<times> bool \<times> ingestDeltas) \<times> ingestMonState" where
  "evalIngestTick st cur remind now =
     (if \<not> im_havePrev st \<or> ih_Decoded cur < ih_Decoded (im_prev st) \<or> ih_Inserted cur < ih_Inserted (im_prev st) then
        ((False, False, \<lparr>de_decoded = 0, de_inserted = 0, de_errors = 0, de_window = 0\<rparr>),
         st\<lparr>im_prev := cur, im_havePrev := True, im_stalled := 0, im_stallDecoded := 0, im_stallErrors := 0\<rparr>)
      else
        let d = \<lparr>de_decoded = ih_Decoded cur - ih_Decoded (im_prev st), de_inserted = ih_Inserted cur - ih_Inserted (im_prev st),
                 de_errors = ih_InsertErrors cur - ih_InsertErrors (im_prev st), de_window = 0\<rparr>;
            st = st\<lparr>im_prev := cur\<rparr>
        in if de_inserted d = 0 \<and> (de_decoded d > 0 \<or> de_errors d > 0) then
             let st = st\<lparr>im_stalled := im_stalled st + 1, im_stallDecoded := im_stallDecoded st + de_decoded d,
                         im_stallErrors := im_stallErrors st + de_errors d\<rparr>
             in if im_stalled st \<ge> ingestStallTicks \<and> (\<not> im_alerted st \<or> since now (im_lastAlert st) remind) then
                  ((True, False, d\<lparr>de_window := im_stalled st, de_decoded := im_stallDecoded st, de_errors := im_stallErrors st\<rparr>),
                   st\<lparr>im_alerted := True, im_lastAlert := Some now\<rparr>)
                else ((False, False, d), st)
           else if de_inserted d > 0 then
             let st = st\<lparr>im_stalled := 0, im_stallDecoded := 0, im_stallErrors := 0\<rparr>
             in if im_alerted st then ((False, True, d), st\<lparr>im_alerted := False\<rparr>) else ((False, False, d), st)
           else ((False, False, d), st))"

datatype notice = DBDown | DBRecovered | IngestStalled ingestDeltas | IngestRecovered | BrokenParts u64 u64

text \<open>A step takes whether notifications can go out and whether this one is delivered; it gives what is delivered.\<close>

definition ingestTick :: "notification_settings \<Rightarrow> bool \<Rightarrow> bool \<Rightarrow> IngestHealth \<Rightarrow> int \<Rightarrow> ingestMonState \<Rightarrow> notice list \<times> ingestMonState" where
  "ingestTick n notifier sent cur now st =
     (case evalIngestTick st cur (remindInterval n) now of
        ((alert, recovered, d), st') \<Rightarrow>
          if \<not> alert \<and> \<not> recovered \<or> \<not> notifier \<or> \<not> nt_Enabled n \<or> \<not> sent then ([], st')
          else if recovered then ([IngestRecovered], st')
          else ([IngestStalled d], st'))"

text \<open>\<open>ping\<close> is \<open>None\<close> without a reader, and otherwise whether the database answers.\<close>

definition clickHouseHealthCheck ::
    "notification_settings \<Rightarrow> bool \<Rightarrow> bool \<Rightarrow> bool option \<Rightarrow> int \<Rightarrow> ingestMonState \<Rightarrow> notice list \<times> ingestMonState" where
  "clickHouseHealthCheck n notifier sent ping now st =
     (case ping of
        None \<Rightarrow> ([], st)
      | Some ok \<Rightarrow>
          if ok \<and> \<not> im_dbDown st then ([], st)
          else if ok then (if notifier \<and> nt_Enabled n \<and> sent then [DBRecovered] else [], st\<lparr>im_dbDown := False\<rparr>)
          else
            let st = st\<lparr>im_dbDown := True\<rparr> in
            if \<not> notifier \<or> \<not> nt_Enabled n \<or> \<not> since now (im_lastDBAlert st) (remindInterval n) then ([], st)
            else if \<not> sent then ([], st)
            else ([DBDown], st\<lparr>im_lastDBAlert := Some now\<rparr>))"

definition brokenPartsCheck ::
    "notification_settings \<Rightarrow> bool \<Rightarrow> bool \<Rightarrow> u64 option \<Rightarrow> int \<Rightarrow> ingestMonState \<Rightarrow> notice list \<times> ingestMonState" where
  "brokenPartsCheck n notifier sent parts now st =
     (case parts of
        None \<Rightarrow> ([], st)
      | Some k \<Rightarrow>
          if k \<le> im_broken st then ([], st\<lparr>im_broken := k\<rparr>)
          else if \<not> since now (im_lastBrokenAlert st) (remindInterval n) then ([], st)
          else if \<not> notifier \<or> \<not> nt_Enabled n \<or> \<not> sent then ([], st)
          else ([BrokenParts k (im_broken st)], st\<lparr>im_broken := k, im_lastBrokenAlert := Some now\<rparr>))"

text \<open>One tick of \<open>RunIngestMonitor\<close>; \<open>k\<close> counts the ticks, \<open>sent\<close> says of each of the three checks whether its notice is delivered.\<close>

definition ingest_monitor_tick ::
    "notification_settings \<Rightarrow> bool \<Rightarrow> bool \<times> bool \<times> bool \<Rightarrow> bool option \<Rightarrow> IngestHealth \<Rightarrow> u64 option \<Rightarrow> int \<Rightarrow> nat \<times> ingestMonState \<Rightarrow>
      notice list \<times> nat \<times> ingestMonState" where
  "ingest_monitor_tick n notifier sent ping cur parts now s =
     (case (sent, s) of ((s1, s2, s3), k, st) \<Rightarrow>
        let (o1, st) = clickHouseHealthCheck n notifier s1 ping now st;
            (o2, st) = ingestTick n notifier s2 cur now st;
            k = k + 1;
            (o3, st) = (if k mod brokenCheckEvery = 0 then brokenPartsCheck n notifier s3 parts now st else ([], st))
        in (o1 @ o2 @ o3, k, st))"

section \<open>Stalls\<close>

text \<open>A history of ticks, the newest first: the snapshot since which nothing was inserted, and the ticks with work since then.\<close>

definition restarted :: "IngestHealth \<Rightarrow> IngestHealth \<Rightarrow> bool" where
  "restarted p c \<longleftrightarrow> ih_Decoded c < ih_Decoded p \<or> ih_Inserted c < ih_Inserted p"

definition worked :: "IngestHealth \<Rightarrow> IngestHealth \<Rightarrow> bool" where
  "worked p c \<longleftrightarrow> ih_Decoded c \<noteq> ih_Decoded p \<or> ih_InsertErrors c \<noteq> ih_InsertErrors p"

fun stall_base :: "IngestHealth list \<Rightarrow> IngestHealth" where
  "stall_base (c # p # hs) = (if restarted p c \<or> ih_Inserted c \<noteq> ih_Inserted p then c else stall_base (p # hs))"
| "stall_base [c] = c"
| "stall_base [] = \<lparr>ih_Decoded = 0, ih_Inserted = 0, ih_InsertErrors = 0\<rparr>"

fun stall_ticks :: "IngestHealth list \<Rightarrow> nat" where
  "stall_ticks (c # p # hs) =
     (if restarted p c \<or> ih_Inserted c \<noteq> ih_Inserted p then 0 else (if worked p c then 1 else 0) + stall_ticks (p # hs))"
| "stall_ticks _ = 0"

definition fresh_monitor :: ingestMonState where
  "fresh_monitor = \<lparr>im_prev = \<lparr>ih_Decoded = 0, ih_Inserted = 0, ih_InsertErrors = 0\<rparr>, im_havePrev = False, im_stalled = 0, im_alerted = False,
     im_stallDecoded = 0, im_stallErrors = 0, im_lastAlert = None, im_broken = 0, im_lastBrokenAlert = None, im_dbDown = False, im_lastDBAlert = None\<rparr>"

fun monitored :: "int \<Rightarrow> (int \<times> IngestHealth) list \<Rightarrow> ingestMonState" where
  "monitored remind [] = fresh_monitor"
| "monitored remind ((now, c) # hs) = snd (evalIngestTick (monitored remind hs) c remind now)"

text \<open>Whether the last message of a history that was due is an alert, and when.\<close>

fun outstanding :: "int \<Rightarrow> (int \<times> IngestHealth) list \<Rightarrow> bool \<times> instant" where
  "outstanding remind [] = (False, None)"
| "outstanding remind ((now, c) # hs) =
     (case fst (evalIngestTick (monitored remind hs) c remind now) of
        (alert, recovered, d) \<Rightarrow> if alert then (True, Some now) else if recovered then (False, snd (outstanding remind hs)) else outstanding remind hs)"

lemma monitored_outstanding: "im_alerted (monitored remind hs) = fst (outstanding remind hs)" "im_lastAlert (monitored remind hs) = snd (outstanding remind hs)"
proof (induction hs)
  case (Cons h hs)
  obtain now c where h: "h = (now, c)" by fastforce
  { case 1 show ?case using Cons by (auto simp: h evalIngestTick_def Let_def) }
  { case 2 show ?case using Cons by (auto simp: h evalIngestTick_def Let_def) }
qed (simp_all add: fresh_monitor_def)

lemma monitored_Cons:
  "im_havePrev (monitored remind (h # hs))" "im_prev (monitored remind (h # hs)) = snd h"
  by (cases h; simp add: evalIngestTick_def Let_def)+

lemma word_diff_pos: "(a :: u64) - b > 0 \<longleftrightarrow> a \<noteq> b" "(a - b = 0) = (a = b)"
  by (simp_all add: word_gt_0)

lemma tick_stall:
  fixes st :: ingestMonState
  assumes "im_havePrev st" "im_prev st = p" "st' = snd (evalIngestTick st c remind now)"
  shows "restarted p c \<or> ih_Inserted c \<noteq> ih_Inserted p \<Longrightarrow> im_stalled st' = 0 \<and> im_stallDecoded st' = 0 \<and> im_stallErrors st' = 0"
    "\<not> restarted p c \<Longrightarrow> ih_Inserted c = ih_Inserted p \<Longrightarrow>
      im_stalled st' = (if worked p c then 1 else 0) + im_stalled st \<and> im_stallDecoded st' = im_stallDecoded st + (ih_Decoded c - ih_Decoded p) \<and>
      im_stallErrors st' = im_stallErrors st + (ih_InsertErrors c - ih_InsertErrors p)"
  subgoal using assms by (cases "restarted p c") (simp_all add: evalIngestTick_def Let_def restarted_def word_diff_pos)
  subgoal using assms by (cases "worked p c") (simp_all add: evalIngestTick_def Let_def restarted_def worked_def word_diff_pos)
  done

lemma monitored_stall:
  assumes "hs \<noteq> []"
  shows "im_stalled (monitored remind hs) = stall_ticks (map snd hs) \<and>
    im_stallDecoded (monitored remind hs) = ih_Decoded (snd (hd hs)) - ih_Decoded (stall_base (map snd hs)) \<and>
    im_stallErrors (monitored remind hs) = ih_InsertErrors (snd (hd hs)) - ih_InsertErrors (stall_base (map snd hs)) \<and>
    ih_Inserted (stall_base (map snd hs)) = ih_Inserted (snd (hd hs))"
  using assms
proof (induction hs)
  case (Cons h hs)
  obtain now c where h: "h = (now, c)" by fastforce
  show ?case
  proof (cases hs)
    case Nil
    then show ?thesis by (simp add: h evalIngestTick_def fresh_monitor_def)
  next
    case (Cons h' hs')
    obtain t p where h': "h' = (t, p)" by fastforce
    have ih: "im_stalled (monitored remind hs) = stall_ticks (p # map snd hs')"
      "im_stallDecoded (monitored remind hs) = ih_Decoded p - ih_Decoded (stall_base (p # map snd hs'))"
      "im_stallErrors (monitored remind hs) = ih_InsertErrors p - ih_InsertErrors (stall_base (p # map snd hs'))"
      "ih_Inserted (stall_base (p # map snd hs')) = ih_Inserted p"
      using Cons.IH Cons h' by simp_all
    have prev: "im_havePrev (monitored remind hs)" "im_prev (monitored remind hs) = p"
      using monitored_Cons[of remind h' hs'] Cons h' by simp_all
    note tick = tick_stall[OF prev, of "monitored remind (h # hs)" c remind now]
    have new: "monitored remind (h # hs) = snd (evalIngestTick (monitored remind hs) c remind now)" by (simp add: h)
    show ?thesis
    proof (cases "restarted p c \<or> ih_Inserted c \<noteq> ih_Inserted p")
      case True
      then show ?thesis using tick(1)[OF new True] by (simp add: h h' Cons del: monitored.simps)
    next
      case False
      then show ?thesis using tick(2)[OF new] ih by (simp add: h h' Cons del: monitored.simps)
    qed
  qed
qed simp

lemma tick_alert:
  assumes "evalIngestTick st cur remind now = ((alert, recovered, d), st')" "im_havePrev st" "im_prev st = p"
  shows "alert \<longleftrightarrow> \<not> restarted p cur \<and> ih_Inserted cur = ih_Inserted p \<and> worked p cur \<and> Suc (im_stalled st) \<ge> 5 \<and>
      (\<not> im_alerted st \<or> since now (im_lastAlert st) remind)"
    "alert \<Longrightarrow> de_window d = Suc (im_stalled st) \<and> de_decoded d = im_stallDecoded st + (ih_Decoded cur - ih_Decoded p) \<and>
      de_errors d = im_stallErrors st + (ih_InsertErrors cur - ih_InsertErrors p)"
    "recovered \<longleftrightarrow> im_alerted st \<and> \<not> restarted p cur \<and> ih_Inserted cur \<noteq> ih_Inserted p"
  using assms by (auto simp: evalIngestTick_def Let_def restarted_def worked_def word_diff_pos ingestStallTicks_def split: if_splits)

text \<open>
  C33. The alert on a stall is exact.  After any history of snapshots, a tick raises the alert exactly when flows were decoded
  or batches failed since the last tick, nothing was inserted over at least five such ticks, and no alert is outstanding or the
  reminder is due; the alert reports the flows decoded and the batches failed since the last insert, over all these ticks.
  A recovery is reported exactly when an alert is outstanding and rows are inserted again.
\<close>

theorem ingest_alert_exact:
  assumes "hs \<noteq> []" "evalIngestTick (monitored remind hs) cur remind now = ((alert, recovered, d), st')"
    and "prev = snd (hd hs)" "hist = cur # map snd hs"
  shows "(alert \<longleftrightarrow> \<not> restarted prev cur \<and> ih_Inserted cur = ih_Inserted prev \<and> worked prev cur \<and> stall_ticks hist \<ge> 5 \<and>
      (\<not> fst (outstanding remind hs) \<or> since now (snd (outstanding remind hs)) remind)) \<and>
    (alert \<longrightarrow> de_window d = stall_ticks hist \<and> de_decoded d = ih_Decoded cur - ih_Decoded (stall_base hist) \<and>
      de_errors d = ih_InsertErrors cur - ih_InsertErrors (stall_base hist) \<and> ih_Inserted (stall_base hist) = ih_Inserted cur) \<and>
    (recovered \<longleftrightarrow> fst (outstanding remind hs) \<and> \<not> restarted prev cur \<and> ih_Inserted cur \<noteq> ih_Inserted prev)"
proof -
  obtain h hs' where hs: "hs = h # hs'" using assms(1) by (cases hs) auto
  have p: "im_havePrev (monitored remind hs)" "im_prev (monitored remind hs) = prev" "hist = cur # prev # map snd hs'"
    using monitored_Cons[of remind h hs'] assms(3,4) hs by simp_all
  have st: "im_stalled (monitored remind hs) = stall_ticks (prev # map snd hs')"
    "im_stallDecoded (monitored remind hs) = ih_Decoded prev - ih_Decoded (stall_base (prev # map snd hs'))"
    "im_stallErrors (monitored remind hs) = ih_InsertErrors prev - ih_InsertErrors (stall_base (prev # map snd hs'))"
    "ih_Inserted (stall_base (prev # map snd hs')) = ih_Inserted prev"
    using monitored_stall[OF assms(1), of remind] assms(3) hs by simp_all
  note tick = tick_alert[OF assms(2) p(1,2)] and out = monitored_outstanding[of remind hs]
  have quiet: "stall_ticks hist = Suc (stall_ticks (prev # map snd hs'))" "stall_base hist = stall_base (prev # map snd hs')"
    if "\<not> restarted prev cur" "ih_Inserted cur = ih_Inserted prev" "worked prev cur"
    using that p(3) by simp_all
  show ?thesis
  proof (intro conjI)
    show "alert \<longleftrightarrow> \<not> restarted prev cur \<and> ih_Inserted cur = ih_Inserted prev \<and> worked prev cur \<and> stall_ticks hist \<ge> 5 \<and>
      (\<not> fst (outstanding remind hs) \<or> since now (snd (outstanding remind hs)) remind)"
      using tick(1) quiet(1) st(1) out by auto
    show "alert \<longrightarrow> de_window d = stall_ticks hist \<and> de_decoded d = ih_Decoded cur - ih_Decoded (stall_base hist) \<and>
      de_errors d = ih_InsertErrors cur - ih_InsertErrors (stall_base hist) \<and> ih_Inserted (stall_base hist) = ih_Inserted cur"
      using tick(1,2) quiet st by auto
  qed (use tick(3) out in simp)
qed

lemma ingest_alert_exact_witness:
  defines "ih \<equiv> \<lambda>d e. \<lparr>ih_Decoded = d, ih_Inserted = 7, ih_InsertErrors = e\<rparr>"
  shows "\<exists>st'. evalIngestTick (monitored 100 (map (\<lambda>k. (int k, ih (10 * of_nat k) 0)) [5, 4, 3, 2, 1])) (ih 60 1) 100 6 =
      ((True, False, \<lparr>de_decoded = 50, de_inserted = 0, de_errors = 1, de_window = 5\<rparr>), st') \<and>
    stall_ticks (map (\<lambda>k. ih (10 * of_nat k) (if k = 6 then 1 else 0)) [6, 5, 4, 3, 2, 1]) = 5"
proof -
  let ?hs = "map (\<lambda>k. (int k, ih (10 * of_nat k) 0)) [5, 4, 3, 2, 1]"
  have run: "\<exists>st'. evalIngestTick (monitored 100 ?hs) (ih 60 1) 100 6 = ((True, False, \<lparr>de_decoded = 50, de_inserted = 0, de_errors = 1, de_window = 5\<rparr>), st')"
    by (simp add: ih_def evalIngestTick_def fresh_monitor_def ingestStallTicks_def)
  then obtain st' where st': "evalIngestTick (monitored 100 ?hs) (ih 60 1) 100 6 =
      ((True, False, \<lparr>de_decoded = 50, de_inserted = 0, de_errors = 1, de_window = 5\<rparr>), st')" by blast
  have "stall_ticks (ih 60 1 # map snd ?hs) = 5"
    using ingest_alert_exact[OF _ st' refl refl, THEN conjunct2, THEN conjunct1] by (simp del: stall_ticks.simps stall_base.simps)
  then show ?thesis using run by (simp add: ih_def)
qed

section \<open>Outages of the database\<close>



section \<open>Outages of devices\<close>

text \<open>
  A history of health checks, the newest first, each with its time, the answer of the last-seen query and the devices.  A device counts
  from the last check it was missing from or disabled at.
\<close>

type_synonym device_check = "int \<times> (string \<rightharpoonup> int) \<times> sdevice list"

definition exporter_of :: "sdevice \<Rightarrow> string" where
  "exporter_of d = exporterKey (sd_ISPID d) (sd_ExporterIP d)"

definition live_keys :: "sdevice list \<Rightarrow> string list" where
  "live_keys devs = map exporter_of (filter sd_Enabled devs)"

definition watched :: "string \<Rightarrow> device_check list \<Rightarrow> device_check list" where
  "watched k hs = takeWhile (\<lambda>(now, seen, devs). k \<in> set (live_keys devs)) hs"

fun newest_flow :: "string \<Rightarrow> device_check list \<Rightarrow> instant" where
  "newest_flow k [] = None"
| "newest_flow k ((now, seen, devs) # hs) = (if after (seen k) (newest_flow k hs) then seen k else newest_flow k hs)"

fun is_down :: "int \<Rightarrow> string \<Rightarrow> device_check list \<Rightarrow> bool" where
  "is_down silence k [] = False"
| "is_down silence k ((now, seen, devs) # hs) = (case newest_flow k ((now, seen, devs) # hs) of None \<Rightarrow> False | Some t \<Rightarrow> now - t > silence)"

fun told :: "int \<Rightarrow> int \<Rightarrow> string \<Rightarrow> device_check list \<Rightarrow> instant" where
  "told silence remind k [] = None"
| "told silence remind k ((now, seen, devs) # hs) =
     (if is_down silence k ((now, seen, devs) # hs) \<and> (\<not> is_down silence k hs \<or> remind > 0 \<and> since now (told silence remind k hs) remind)
      then Some now else told silence remind k hs)"

fun checked :: "notification_settings \<Rightarrow> device_check list \<Rightarrow> health" where
  "checked n [] = []"
| "checked n ((now, seen, devs) # hs) = snd (runHealthCheck n True (Some devs) (Some seen) now (checked n hs))"

definition known :: "health \<Rightarrow> string \<Rightarrow> devHealthState" where
  "known health k = (case map_of health k of None \<Rightarrow> \<lparr>dh_lastFlow = None, dh_status = HInit, dh_lastAlertAt = None\<rparr> | Some st \<Rightarrow> st)"

definition device_alert :: "(string \<rightharpoonup> int) \<Rightarrow> int \<Rightarrow> int \<Rightarrow> int \<Rightarrow> health \<Rightarrow> sdevice \<Rightarrow> pendingAlert list" where
  "device_alert seen silence remind now health d =
     (case transition silence remind now (seen (exporter_of d)) (known health (exporter_of d)) of
        (st, None) \<Rightarrow> [] | (st, Some r) \<Rightarrow> [\<lparr>pa_d = d, pa_st = st, pa_recovered = r\<rparr>])"

lemma eval_devices:
  assumes "distinct (live_keys devs)" "foldl (eval_device seen silence remind now) (health, live, toSend) devs = (health', live', toSend')"
  shows "set live' = set (live_keys devs) \<union> set live \<and>
    map_of health' k = (if k \<in> set (live_keys devs) then Some (fst (transition silence remind now (seen k) (known health k))) else map_of health k) \<and>
    toSend' = toSend @ concat (map (device_alert seen silence remind now health) (filter sd_Enabled devs))"
  using assms
proof (induction devs arbitrary: health live toSend)
  case Nil
  then show ?case by (simp add: live_keys_def)
next
  case (Cons d devs)
  show ?case
  proof (cases "sd_Enabled d")
    case False
    then show ?thesis using Cons by (simp add: live_keys_def eval_device_def)
  next
    case True
    define st where "st = transition silence remind now (seen (exporter_of d)) (known health (exporter_of d))"
    define health1 where "health1 = AList.update (exporter_of d) (fst st) health"
    have step: "eval_device seen silence remind now (health, live, toSend) d =
        (health1, exporter_of d # live, toSend @ device_alert seen silence remind now health d)"
      using True by (simp add: eval_device_def exporter_of_def[symmetric] known_def[symmetric] st_def[symmetric] health1_def device_alert_def
          Let_def split: prod.split option.split)
    have other: "known health1 k' = known health k'" if "k' \<noteq> exporter_of d" for k'
      using that by (simp add: known_def health1_def update_conv)
    have new: "exporter_of d \<notin> set (live_keys devs)" and d: "distinct (live_keys devs)"
      using Cons.prems(1) True by (simp_all add: live_keys_def)
    have alerts: "map (device_alert seen silence remind now health1) (filter sd_Enabled devs) =
        map (device_alert seen silence remind now health) (filter sd_Enabled devs)"
      by (rule map_cong[OF refl]) (use new other in \<open>auto simp: device_alert_def live_keys_def image_iff\<close>)
    have ih: "set live' = set (live_keys devs) \<union> set (exporter_of d # live) \<and>
      map_of health' k = (if k \<in> set (live_keys devs) then Some (fst (transition silence remind now (seen k) (known health1 k))) else map_of health1 k) \<and>
      toSend' = (toSend @ device_alert seen silence remind now health d) @ concat (map (device_alert seen silence remind now health1) (filter sd_Enabled devs))"
      by (rule Cons.IH[OF d]) (use Cons.prems(2) step in simp)
    show ?thesis using ih[unfolded alerts] new other True
      by (cases "k = exporter_of d") (auto simp: live_keys_def health1_def st_def update_conv)
  qed
qed

lemma map_of_filter_live: "map_of (filter (\<lambda>(k, st). k \<in> L) m) k = (if k \<in> L then map_of m k else None)"
  by (induction m) auto

lemma evalTransitions_spec:
  assumes "distinct (live_keys devs)" "evalTransitions devs seen silence remind now health = (sent, health')"
  shows "sent = concat (map (device_alert seen silence remind now health) (filter sd_Enabled devs)) \<and>
    map_of health' k = (if k \<in> set (live_keys devs) then Some (fst (transition silence remind now (seen k) (known health k))) else None)"
proof -
  obtain h l t where f: "foldl (eval_device seen silence remind now) (health, [], []) devs = (h, l, t)" using prod_cases3 by blast
  show ?thesis using eval_devices[OF assms(1) f, of k] assms(2) f by (auto simp: evalTransitions_def map_of_filter_live)
qed

lemma transition_state:
  fixes st :: devHealthState
  assumes "ls' = (if after ls (dh_lastFlow st) then ls else dh_lastFlow st)" "down \<longleftrightarrow> (\<exists>t. ls' = Some t \<and> now - t > silence)"
    and "due \<longleftrightarrow> dh_status st \<noteq> HSilent \<or> remind > 0 \<and> since now (dh_lastAlertAt st) remind"
  shows "dh_lastFlow (fst (transition silence remind now ls st)) = ls'"
    "dh_status (fst (transition silence remind now ls st)) = HSilent \<longleftrightarrow> down \<or> ls' = None \<and> dh_status st = HSilent"
    "dh_lastAlertAt (fst (transition silence remind now ls st)) = (if down \<and> due then Some now else dh_lastAlertAt st)"
    "snd (transition silence remind now ls st) =
       (if down \<and> due then Some False else if ls' \<noteq> None \<and> \<not> down \<and> dh_status st = HSilent then Some True else None)"
  using assms by (auto simp: transition_def since_def Let_def split: option.splits)

lemma newest_flow_grows: "newest_flow k hs \<noteq> None \<Longrightarrow> newest_flow k (h # hs) \<noteq> None"
  by (cases h; cases "newest_flow k hs") (auto split: if_splits elim: after.elims)

lemma is_down_iff: "is_down silence k (h # hs) \<longleftrightarrow> (\<exists>t. newest_flow k (h # hs) = Some t \<and> fst h - t > silence)"
  by (cases h) (simp split: option.split)

lemma is_down_seen: "is_down silence k hs \<Longrightarrow> newest_flow k hs \<noteq> None"
  by (cases hs) (auto simp: is_down_iff simp del: is_down.simps(2) newest_flow.simps)

lemma checked_state:
  assumes "nt_Enabled n" "\<forall>(now, seen, devs) \<in> set hs. distinct (live_keys devs)"
  defines "silence \<equiv> notifSilenceMins n * minute_ns" and "remind \<equiv> nt_RemindHours n * 60 * minute_ns"
  shows "dh_lastFlow (known (checked n hs) k) = newest_flow k (watched k hs) \<and>
    (dh_status (known (checked n hs) k) = HSilent \<longleftrightarrow> is_down silence k (watched k hs)) \<and>
    dh_lastAlertAt (known (checked n hs) k) = told silence remind k (watched k hs)"
  using assms(2)
proof (induction hs)
  case Nil
  then show ?case by (simp add: known_def watched_def)
next
  case (Cons h hs)
  obtain now seen devs where h: "h = (now, seen, devs)" using prod_cases3 by blast
  obtain sent health' where e: "evalTransitions devs seen silence remind now (checked n hs) = (sent, health')" by fastforce
  have c: "checked n (h # hs) = health'"
    using e assms(1) by (simp add: h runHealthCheck_def silence_def remind_def)
  have m: "map_of health' k = (if k \<in> set (live_keys devs) then Some (fst (transition silence remind now (seen k) (known (checked n hs) k))) else None)"
    using evalTransitions_spec[OF _ e, of k] Cons.prems h by simp
  show ?case
  proof (cases "k \<in> set (live_keys devs)")
    case False
    then show ?thesis using m c by (simp add: known_def watched_def h)
  next
    case True
    have w: "watched k (h # hs) = (now, seen, devs) # watched k hs" using True by (simp add: watched_def h)
    have k: "known health' k = fst (transition silence remind now (seen k) (known (checked n hs) k))" using m True by (simp add: known_def)
    have ih: "dh_lastFlow (known (checked n hs) k) = newest_flow k (watched k hs)"
      "dh_status (known (checked n hs) k) = HSilent \<longleftrightarrow> is_down silence k (watched k hs)"
      "dh_lastAlertAt (known (checked n hs) k) = told silence remind k (watched k hs)"
      using Cons by simp_all
    note tr = transition_state[OF _ refl refl, of "newest_flow k (watched k (h # hs))" "seen k" "known (checked n hs) k"]
    have new: "newest_flow k (watched k (h # hs)) = (if after (seen k) (dh_lastFlow (known (checked n hs) k)) then seen k else dh_lastFlow (known (checked n hs) k))"
      by (simp add: w ih)
    have down: "is_down silence k (watched k (h # hs)) \<longleftrightarrow> (\<exists>t. newest_flow k (watched k (h # hs)) = Some t \<and> now - t > silence)"
      unfolding w is_down_iff by simp
    have seen: "newest_flow k (watched k (h # hs)) = None \<Longrightarrow> \<not> is_down silence k (watched k hs)"
      using newest_flow_grows is_down_seen unfolding w by blast
    have told: "told silence remind k (watched k (h # hs)) = (if is_down silence k (watched k (h # hs)) \<and>
        (\<not> is_down silence k (watched k hs) \<or> remind > 0 \<and> since now (told silence remind k (watched k hs)) remind)
        then Some now else told silence remind k (watched k hs))"
      unfolding w by simp
    note tr = tr[OF new, of silence remind now, folded down, unfolded ih]
    show ?thesis unfolding c k tr told using seen by blast
  qed
qed

text \<open>
  C32. The alerts on devices are exact.  Over any history of health checks, in each of which the exporters of the enabled devices are distinct,
  a check sends an alert on an enabled device exactly when the newest flow any check has seen since the device is watched is older than the silence
  threshold and either it was not so at the last check or the reminder since the last alert is due; it sends a recovery exactly when the
  device was silent at the last check and is not any more.  Nothing else is sent.
\<close>

theorem device_alerts_exact:
  assumes "nt_Enabled n" "\<forall>(now, seen, devs) \<in> set ((now, seen, devs) # hs). distinct (live_keys devs)"
    and "silence = notifSilenceMins n * minute_ns" "remind = nt_RemindHours n * 60 * minute_ns"
    and "runHealthCheck n True (Some devs) (Some seen) now (checked n hs) = (sent, health')"
    and "d \<in> set devs" "sd_Enabled d"
    and "before = watched (exporter_of d) hs" "after_check = (now, seen, devs) # before"
  shows "((\<exists>a \<in> set sent. pa_d a = d \<and> \<not> pa_recovered a) \<longleftrightarrow> is_down silence (exporter_of d) after_check \<and>
      (\<not> is_down silence (exporter_of d) before \<or> remind > 0 \<and> since now (told silence remind (exporter_of d) before) remind)) \<and>
    ((\<exists>a \<in> set sent. pa_d a = d \<and> pa_recovered a) \<longleftrightarrow> is_down silence (exporter_of d) before \<and> \<not> is_down silence (exporter_of d) after_check) \<and>
    pa_d ` set sent \<subseteq> {d \<in> set devs. sd_Enabled d}"
proof -
  let ?k = "exporter_of d" and ?st = "known (checked n hs) (exporter_of d)"
  have sent: "sent = concat (map (device_alert seen silence remind now (checked n hs)) (filter sd_Enabled devs))"
    using evalTransitions_spec[of devs seen silence remind now "checked n hs" sent health'] assms(1-5) by (simp add: runHealthCheck_def)
  have st: "dh_lastFlow ?st = newest_flow ?k before" "dh_status ?st = HSilent \<longleftrightarrow> is_down silence ?k before"
    "dh_lastAlertAt ?st = told silence remind ?k before"
    using checked_state[of n hs ?k] assms(1-4,8) by auto
  have new: "newest_flow ?k after_check = (if after (seen ?k) (dh_lastFlow ?st) then seen ?k else dh_lastFlow ?st)"
    by (simp add: assms(9) st)
  have down: "is_down silence ?k after_check \<longleftrightarrow> (\<exists>t. newest_flow ?k after_check = Some t \<and> now - t > silence)"
    unfolding assms(9) is_down_iff by simp
  have gone: "newest_flow ?k after_check = None \<Longrightarrow> \<not> is_down silence ?k before"
    using newest_flow_grows is_down_seen unfolding assms(9) by blast
  note tr = transition_state(4)[OF new refl refl, of silence remind now, folded down, unfolded st]
  have mine: "a \<in> set sent \<and> pa_d a = d \<longleftrightarrow> a \<in> set (device_alert seen silence remind now (checked n hs) d)" for a
    using assms(6,7) by (auto simp: sent device_alert_def split: prod.splits option.splits)
  have one: "(\<exists>a \<in> set (device_alert seen silence remind now (checked n hs) d). pa_recovered a = r) \<longleftrightarrow>
      snd (transition silence remind now (seen ?k) ?st) = Some r" for r
    by (cases "transition silence remind now (seen ?k) ?st"; cases "snd (transition silence remind now (seen ?k) ?st)") (auto simp: device_alert_def)
  have "(\<exists>a \<in> set sent. pa_d a = d \<and> pa_recovered a = r) \<longleftrightarrow> snd (transition silence remind now (seen ?k) ?st) = Some r" for r
    using mine one[of r] by blast
  from this[of False] this[of True] tr gone
  have "((\<exists>a \<in> set sent. pa_d a = d \<and> \<not> pa_recovered a) \<longleftrightarrow> is_down silence ?k after_check \<and>
      (\<not> is_down silence ?k before \<or> remind > 0 \<and> since now (told silence remind ?k before) remind))"
    "((\<exists>a \<in> set sent. pa_d a = d \<and> pa_recovered a) \<longleftrightarrow> is_down silence ?k before \<and> \<not> is_down silence ?k after_check)"
    by auto
  moreover have "pa_d ` set sent \<subseteq> {d \<in> set devs. sd_Enabled d}"
    by (auto simp: sent device_alert_def split: prod.splits option.splits)
  ultimately show ?thesis by blast
qed

lemma device_alerts_exact_witness:
  defines "n \<equiv> \<lparr>nt_Enabled = True, nt_SilenceMins = 15, nt_RemindHours = 6, nt_DailySummary = False, nt_DailyHourIST = 9\<rparr>"
    and "d \<equiv> \<lparr>sd_ID = 1, sd_ISPID = 1, sd_Name = ''r1'', sd_ExporterIP = ''10.0.0.1'', sd_DeviceID = 1, sd_Protocol = ''ipfix'',
      sd_Profile = [], sd_CapturePolicy = [], sd_Enabled = True, sd_SkipDNS = False, sd_SkipPrivate = False, sd_SkipZero = False, sd_UpdatedAt = 0\<rparr>"
    and "seen \<equiv> \<lambda>k :: string. Some (0 :: int)"
  shows "pa_recovered ` set (fst (runHealthCheck n True (Some [d]) (Some seen) (16 * minute_ns) (checked n [(minute_ns, seen, [d])]))) = {False}"
proof -
  let ?hs = "[(minute_ns, seen, [d])]"
  obtain sent health' where r: "runHealthCheck n True (Some [d]) (Some seen) (16 * minute_ns) (checked n ?hs) = (sent, health')" by fastforce
  have w: "watched (exporter_of d) ?hs = ?hs" by (simp add: watched_def live_keys_def d_def)
  have "(\<exists>a \<in> set sent. pa_d a = d \<and> \<not> pa_recovered a) \<and> \<not> (\<exists>a \<in> set sent. pa_d a = d \<and> pa_recovered a) \<and> pa_d ` set sent \<subseteq> {d}"
    using device_alerts_exact[of n "16 * minute_ns" seen "[d]" ?hs _ _ sent health' d, OF _ _ refl refl r _ _ refl refl]
    unfolding w by (auto simp: n_def seen_def live_keys_def d_def notifSilenceMins_def minute_ns_def)
  then show ?thesis unfolding r fst_conv by (auto simp: image_iff)
qed

end
