(* ===== verification/Compliance.thy ===== *)
theory Compliance
  imports Alerts Api Go_Date "HOL-Library.List_Lexorder" "HOL-Library.Char_ord" "HOL-Library.Product_Lexorder" "HOL-Library.Multiset"
begin

text \<open>
  The audit of what the stored records can answer (\<open>internal/director/compliance.go\<close>) and the measured days
  behind it (\<open>internal/director/ipdrdays.go\<close>).

  The queries are evaluated over the rows of \<open>flow_logs\<close> and of \<open>flow_ipdr_days\<close>; whether the database answers is an argument.
  Dates are strings in the layout \<open>2006-01-02\<close>, whose byte order is the order of the dates.  Counters are numbers of rows and are kept as
  natural numbers.  The wording of the grades and of the mails is not modelled.
\<close>

section \<open>Rows\<close>

record flow_row =
  fl_isp_id :: u32
  fl_device_id :: u32
  fl_event_date :: string
  fl_flow_start :: int
  fl_src_ip :: u32
  fl_nat_public_ip :: u32
  fl_nat_public_port :: u16

definition translated :: "flow_row \<Rightarrow> bool" where
  "translated r \<longleftrightarrow> fl_nat_public_ip r \<noteq> 0 \<and> fl_nat_public_ip r \<noteq> fl_src_ip r"

definition privateSrc :: "flow_row \<Rightarrow> bool" where
  "privateSrc r \<longleftrightarrow> (let a = unat (fl_src_ip r) in
     10 * 16777216 \<le> a \<and> a < 11 * 16777216 \<or>
     172 * 16777216 + 16 * 65536 \<le> a \<and> a < 172 * 16777216 + 32 * 65536 \<or>
     192 * 16777216 + 168 * 65536 \<le> a \<and> a < 192 * 16777216 + 169 * 65536 \<or>
     100 * 16777216 + 64 * 65536 \<le> a \<and> a < 100 * 16777216 + 128 * 65536)"

definition in_scope :: "u32 \<Rightarrow> flow_row \<Rightarrow> bool" where
  "in_scope isp_id r \<longleftrightarrow> isp_id = 0 \<or> fl_isp_id r = isp_id"

definition countIf :: "('a \<Rightarrow> bool) \<Rightarrow> 'a list \<Rightarrow> nat" where
  "countIf p rows = length (filter p rows)"

section \<open>Devices\<close>

datatype ComplianceState = CompOK | CompNoPort | CompPartialPort | CompNoNATFields | CompNoTranslation | CompSilent | CompDisabled

definition answerable :: "ComplianceState \<Rightarrow> bool" where
  "answerable c \<longleftrightarrow> c = CompOK \<or> c = CompPartialPort"

record DeviceFlowStats =
  fs_Flows :: nat
  fs_Translated :: nat
  fs_NoNATField :: nat
  fs_SameAsSrc :: nat
  fs_WithPort :: nat
  fs_PrivateSrc :: nat
  fs_LastFlow :: instant

record DeviceSignal =
  sg_NoNATDropped :: u64
  sg_LastFlow :: instant

record DeviceCompliance =
  co_StoreID :: int
  co_DeviceID :: u32
  co_Name :: string
  co_ExporterIP :: string
  co_State :: ComplianceState
  co_Answerable :: bool
  co_stats :: DeviceFlowStats
  co_NoNATDropped :: u64
  co_LastFlow :: instant

definition no_stats :: DeviceFlowStats where
  "no_stats = \<lparr>fs_Flows = 0, fs_Translated = 0, fs_NoNATField = 0, fs_SameAsSrc = 0, fs_WithPort = 0, fs_PrivateSrc = 0, fs_LastFlow = None\<rparr>"

definition no_signal :: DeviceSignal where
  "no_signal = \<lparr>sg_NoNATDropped = 0, sg_LastFlow = None\<rparr>"

text \<open>The columns of one group of the query, and the query; \<open>now\<close> and \<open>from_date\<close> are the database's \<open>now()\<close> and \<open>today() - 2\<close>.\<close>

definition device_row :: "flow_row list \<Rightarrow> DeviceFlowStats" where
  "device_row rows =
     \<lparr>fs_Flows = length rows, fs_Translated = countIf translated rows, fs_NoNATField = countIf (\<lambda>r. fl_nat_public_ip r = 0) rows,
      fs_SameAsSrc = countIf (\<lambda>r. fl_nat_public_ip r = fl_src_ip r) rows,
      fs_WithPort = countIf (\<lambda>r. translated r \<and> fl_nat_public_port r \<noteq> 0) rows, fs_PrivateSrc = countIf privateSrc rows,
      fs_LastFlow = (if rows = [] then None else Some (Max (fl_flow_start ` set rows)))\<rparr>"

definition audit_window :: "u32 \<Rightarrow> int \<Rightarrow> int \<Rightarrow> string \<Rightarrow> flow_row \<Rightarrow> bool" where
  "audit_window isp_id window now from_date r \<longleftrightarrow>
     (let mins = (if window div minute_ns < 1 then 1 else window div minute_ns)
      in from_date \<le> fl_event_date r \<and> now - mins * minute_ns < fl_flow_start r \<and> in_scope isp_id r)"

definition TranslationStats :: "bool \<Rightarrow> flow_row list \<Rightarrow> u32 \<Rightarrow> int \<Rightarrow> int \<Rightarrow> string \<Rightarrow> (u32 \<rightharpoonup> DeviceFlowStats) option" where
  "TranslationStats ok rows isp_id window now from_date =
     (if \<not> ok then None
      else Some (\<lambda>i. let rs = filter (\<lambda>r. audit_window isp_id window now from_date r \<and> fl_device_id r = i) rows
                     in if rs = [] then None else Some (device_row rs)))"

definition grade :: "bool \<Rightarrow> DeviceFlowStats \<Rightarrow> DeviceSignal \<Rightarrow> ComplianceState" where
  "grade enabled st sig =
     (if \<not> enabled then CompDisabled
      else if fs_Flows st = 0 \<and> sg_NoNATDropped sig > 0 then CompNoNATFields
      else if fs_Flows st = 0 then CompSilent
      else if fs_Translated st = 0 \<and> fs_NoNATField st \<ge> fs_SameAsSrc st then CompNoNATFields
      else if fs_Translated st = 0 then CompNoTranslation
      else if fs_WithPort st = 0 then CompNoPort
      else if fs_WithPort st < fs_Translated st then CompPartialPort
      else CompOK)"

definition gradeDevice :: "sdevice \<Rightarrow> DeviceFlowStats \<Rightarrow> DeviceSignal \<Rightarrow> DeviceCompliance" where
  "gradeDevice d st sig =
     (let s = grade (sd_Enabled d) st sig in
      \<lparr>co_StoreID = sd_ID d, co_DeviceID = sd_DeviceID d, co_Name = sd_Name d, co_ExporterIP = sd_ExporterIP d, co_State = s,
       co_Answerable = answerable s, co_stats = st, co_NoNATDropped = sg_NoNATDropped sig,
       co_LastFlow = (if after (sg_LastFlow sig) (fs_LastFlow st) then sg_LastFlow sig else fs_LastFlow st)\<rparr>)"

section \<open>Days\<close>

record DayIPDR =
  dy_Date :: string
  dy_Flows :: nat
  dy_Translated :: nat
  dy_TranslatedKnown :: bool

record ipdr_row =
  ip_isp_id :: u32
  ip_event_date :: string
  ip_flows :: nat
  ip_translated :: nat

definition day_rows :: "u32 \<Rightarrow> string \<Rightarrow> flow_row list \<Rightarrow> flow_row list" where
  "day_rows isp_id day rows = filter (\<lambda>r. in_scope isp_id r \<and> fl_event_date r = day) rows"

definition day_groups :: "flow_row list \<Rightarrow> u32 \<Rightarrow> DayIPDR list" where
  "day_groups rows isp_id =
     map (\<lambda>day. \<lparr>dy_Date = day, dy_Flows = length (day_rows isp_id day rows), dy_Translated = 0, dy_TranslatedKnown = False\<rparr>)
       (rev (sort (remdups (map fl_event_date (filter (in_scope isp_id) rows)))))"

text \<open>The counts of the parts, which are split by day, are those of the rows.\<close>

definition partsDayCounts :: "bool \<Rightarrow> flow_row list \<Rightarrow> DayIPDR list option" where
  "partsDayCounts ok rows = (if ok then Some (day_groups rows 0) else None)"

definition dayFlowCounts :: "bool \<Rightarrow> bool \<Rightarrow> flow_row list \<Rightarrow> u32 \<Rightarrow> DayIPDR list option" where
  "dayFlowCounts parts_ok scan_ok rows isp_id =
     (let scan = (if scan_ok then Some (day_groups rows isp_id) else None) in
      if isp_id = 0 then
        (case partsDayCounts parts_ok rows of
           Some out \<Rightarrow> if length out > 0 then Some out else scan
         | None \<Rightarrow> scan)
      else scan)"

text \<open>
  The table of measured days, the newest insertion first.  The insertions for one day are minutes apart, so the newest one has the
  largest \<open>computed_at\<close> and \<open>argMax\<close> reads it.
\<close>

definition latest :: "ipdr_row list \<Rightarrow> u32 \<Rightarrow> string \<Rightarrow> ipdr_row option" where
  "latest tbl i day = find (\<lambda>r. ip_isp_id r = i \<and> ip_event_date r = day) tbl"

definition measured_isps :: "ipdr_row list \<Rightarrow> u32 \<Rightarrow> string \<Rightarrow> u32 list" where
  "measured_isps tbl isp_id day = remdups (map ip_isp_id (filter (\<lambda>r. (isp_id = 0 \<or> ip_isp_id r = isp_id) \<and> ip_event_date r = day) tbl))"

definition storedIPDRDays :: "bool \<Rightarrow> ipdr_row list \<Rightarrow> u32 \<Rightarrow> (string \<rightharpoonup> nat \<times> nat) option" where
  "storedIPDRDays ok tbl isp_id =
     (if \<not> ok then None
      else Some (\<lambda>day. let isps = measured_isps tbl isp_id day in
        if isps = [] then None
        else Some (sum_list (map (\<lambda>i. case latest tbl i day of None \<Rightarrow> 0 | Some r \<Rightarrow> ip_flows r) isps),
                   sum_list (map (\<lambda>i. case latest tbl i day of None \<Rightarrow> 0 | Some r \<Rightarrow> ip_translated r) isps))))"

text \<open>\<open>None\<close> is a failed query; the flag says that the translations could not be read.\<close>

definition TranslationsByDay :: "bool \<Rightarrow> bool \<Rightarrow> bool \<Rightarrow> flow_row list \<Rightarrow> ipdr_row list \<Rightarrow> u32 \<Rightarrow> (DayIPDR list \<times> bool) option" where
  "TranslationsByDay parts_ok scan_ok stored_ok rows tbl isp_id =
     (case dayFlowCounts parts_ok scan_ok rows isp_id of
        None \<Rightarrow> None
      | Some out \<Rightarrow>
          (case storedIPDRDays stored_ok tbl isp_id of
             None \<Rightarrow> Some (out, True)
           | Some stored \<Rightarrow>
               Some (map (\<lambda>d. case stored (dy_Date d) of
                            Some (f, t) \<Rightarrow> if f = dy_Flows d then d\<lparr>dy_Translated := t, dy_TranslatedKnown := True\<rparr> else d
                          | None \<Rightarrow> d) out, False)))"

definition unanswerableDays :: "DayIPDR list \<Rightarrow> string list" where
  "unanswerableDays days = sort (map dy_Date (filter (\<lambda>d. dy_TranslatedKnown d \<and> dy_Flows d > 0 \<and> dy_Translated d = 0) days))"

definition computeIPDRDay :: "bool \<Rightarrow> flow_row list \<Rightarrow> string \<Rightarrow> ipdr_row list \<Rightarrow> bool \<times> ipdr_row list" where
  "computeIPDRDay ok rows day tbl =
     (if \<not> ok then (False, tbl)
      else (True, map (\<lambda>i. let rs = filter (\<lambda>r. fl_isp_id r = i \<and> fl_event_date r = day) rows
                           in \<lparr>ip_isp_id = i, ip_event_date = day, ip_flows = length rs, ip_translated = countIf translated rs\<rparr>)
                    (remdups (map fl_isp_id (filter (\<lambda>r. fl_event_date r = day) rows))) @ tbl))"

definition ipdrDayBudget :: nat where
  "ipdrDayBudget = 3"

fun ipdr_work_from :: "DayIPDR list \<Rightarrow> (string \<rightharpoonup> nat \<times> nat) \<Rightarrow> nat \<Rightarrow> string list \<Rightarrow> string list" where
  "ipdr_work_from [] stored budget out = out"
| "ipdr_work_from (d # live) stored budget out =
     (if length out \<ge> budget then out
      else case stored (dy_Date d) of
             Some (f, t) \<Rightarrow> ipdr_work_from live stored budget (if f \<noteq> dy_Flows d then out @ [dy_Date d] else out)
           | None \<Rightarrow> ipdr_work_from live stored budget (out @ [dy_Date d]))"

definition ipdrDaysNeedingWork :: "DayIPDR list \<Rightarrow> (string \<rightharpoonup> nat \<times> nat) \<Rightarrow> nat \<Rightarrow> string list" where
  "ipdrDaysNeedingWork live stored budget = ipdr_work_from live stored budget []"

text \<open>
  One pass; \<open>fails\<close> says of which days the measurement fails, \<open>cancelled\<close> at which pause the process is told to stop.
\<close>

fun ipdr_loop :: "(nat \<Rightarrow> bool) \<Rightarrow> (string \<Rightarrow> bool) \<Rightarrow> flow_row list \<Rightarrow> nat \<Rightarrow> string list \<Rightarrow> ipdr_row list \<Rightarrow> ipdr_row list" where
  "ipdr_loop cancelled fails rows i [] tbl = tbl"
| "ipdr_loop cancelled fails rows i (day # work) tbl =
     (if i > 0 \<and> cancelled i then tbl
      else ipdr_loop cancelled fails rows (i + 1) work (snd (computeIPDRDay (\<not> fails day) rows day tbl)))"

definition ipdrDayPass :: "bool \<Rightarrow> bool \<Rightarrow> bool \<Rightarrow> (nat \<Rightarrow> bool) \<Rightarrow> (string \<Rightarrow> bool) \<Rightarrow> flow_row list \<Rightarrow> ipdr_row list \<Rightarrow> ipdr_row list" where
  "ipdrDayPass parts_ok scan_ok stored_ok cancelled fails rows tbl =
     (case (dayFlowCounts parts_ok scan_ok rows 0, storedIPDRDays stored_ok tbl 0) of
        (Some live, Some stored) \<Rightarrow> ipdr_loop cancelled fails rows 0 (ipdrDaysNeedingWork live stored ipdrDayBudget) tbl
      | _ \<Rightarrow> tbl)"

text \<open>Counts with separators, and the wrapping of the mails.\<close>

fun human_groups :: "string \<Rightarrow> string \<Rightarrow> string" where
  "human_groups b [] = b"
| "human_groups b (c # s) = human_groups ((if length b > 0 then b @ '','' else b) @ take 3 (c # s)) (drop 2 s)"

definition human :: "nat \<Rightarrow> string" where
  "human n =
     (let s = dec_string n in
      if length s \<le> 3 then s
      else let pre = length s mod 3 in human_groups (if pre > 0 then take pre s else []) (drop pre s))"

fun wrap_words :: "nat \<Rightarrow> string \<Rightarrow> nat \<Rightarrow> string list \<Rightarrow> string" where
  "wrap_words width indent line [] = []"
| "wrap_words width indent line (w # ws) =
     (if line + 1 + length w > width then CHR 0x0A # indent @ w @ wrap_words width indent (length w) ws
      else CHR '' '' # w @ wrap_words width indent (line + 1 + length w) ws)"

definition wrapAt :: "string list \<Rightarrow> nat \<Rightarrow> string \<Rightarrow> string" where
  "wrapAt words width indent =
     (case words of [] \<Rightarrow> [] | w # ws \<Rightarrow> w @ wrap_words width indent (length w) ws)"

lemma human_digits: "filter (\<lambda>c. c \<noteq> CHR '','') (human n) = dec_string n"
proof -
  have digits: "CHR '','' \<notin> set (dec_string n)" using dec_string_digits[of n] by (auto simp: list_all_iff is_digit_def)
  have "filter (\<lambda>c. c \<noteq> CHR '','') (human_groups b s) = filter (\<lambda>c. c \<noteq> CHR '','') b @ filter (\<lambda>c. c \<noteq> CHR '','') s" for b s
    by (induction b s rule: human_groups.induct) (simp_all flip: filter_append add: numeral_eq_Suc, simp)
  then show ?thesis using digits
    by (simp add: human_def Let_def filter_id_conv flip: filter_append) (metis in_set_takeD)
qed

section \<open>Missing days\<close>

fun date_less :: "date \<Rightarrow> date \<Rightarrow> bool" where
  "date_less (y, m, d) (y', m', d') \<longleftrightarrow> y < y' \<or> y = y' \<and> (m < m' \<or> m = m' \<and> d < d')"

fun next_day :: "date \<Rightarrow> date" where
  "next_day (y, m, d) = (if d < daysIn m y then (y, m, d + 1) else if m < 12 then (y, m + 1, 1) else (y + 1, 1, 1))"

text \<open>The date of the zero \<open>time.Time\<close>.\<close>

definition zero_date :: date where
  "zero_date = (1, 1, 1)"

lemma daysIn_le: "daysIn m y \<le> 31"
  by (simp add: daysIn_def)

function days_between :: "date \<Rightarrow> date \<Rightarrow> date list" where
  "days_between t hi = (if date_less hi t then [] else t # days_between (next_day t) hi)"
  by pat_completeness auto

termination
proof (relation "measures [\<lambda>(t, n). Suc (fst n) - fst t, \<lambda>(t, n). 12 - fst (snd t), \<lambda>(t, n). 31 - snd (snd t)]")
  fix t hi :: date
  assume "\<not> date_less hi t"
  then show "((next_day t, hi), t, hi) \<in> measures [\<lambda>(t, n). Suc (fst n) - fst t, \<lambda>(t, n). 12 - fst (snd t), \<lambda>(t, n). 31 - snd (snd t)]"
    using daysIn_le[of "fst (snd t)" "fst t"] by (cases t; cases hi) auto
qed simp

declare days_between.simps [simp del]

definition held_step :: "date \<times> date \<Rightarrow> DayIPDR \<Rightarrow> date \<times> date" where
  "held_step r d =
     (case parse_date (dy_Date d) of
        None \<Rightarrow> r
      | Some t \<Rightarrow> (if fst r = zero_date \<or> date_less t (fst r) then t else fst r, if snd r = zero_date \<or> date_less (snd r) t then t else snd r))"

definition missingDays :: "DayIPDR list \<Rightarrow> string list" where
  "missingDays days =
     (if length days < 2 then []
      else
        let have = map dy_Date (filter (\<lambda>d. parse_date (dy_Date d) \<noteq> None) days);
            (lo, hi) = foldl held_step (zero_date, zero_date) days
        in if lo = zero_date \<or> hi = zero_date then []
           else filter (\<lambda>k. k \<notin> set have) (map format_date (days_between lo hi)))"

section \<open>The audit\<close>

record ComplianceReport =
  cr_Devices :: "DeviceCompliance list"
  cr_Answerable :: nat
  cr_Failing :: nat
  cr_RetentionDays :: int
  cr_RetentionOK :: bool
  cr_MissingDays :: "string list"
  cr_UnanswerableDays :: "string list"
  cr_Days :: "DayIPDR list"
  cr_Available :: bool

text \<open>What an audit meets: the clock, the store, the tables, and which queries fail.\<close>

record audit_env =
  ae_now :: int
  ae_db_now :: int
  ae_from_date :: string
  ae_retDays :: int
  ae_flows :: bool
  ae_list_ok :: bool
  ae_stats_ok :: bool
  ae_parts_ok :: bool
  ae_scan_ok :: bool
  ae_stored_ok :: bool
  ae_store :: mem_store
  ae_rows :: "flow_row list"
  ae_tbl :: "ipdr_row list"
  ae_sigs :: "u32 \<rightharpoonup> DeviceSignal"

definition complianceWindowMins :: int where
  "complianceWindowMins = 24 * 60"

definition retentionMinDays :: int where
  "retentionMinDays = 180"

definition complianceGrace :: int where
  "complianceGrace = 2 * 60 * minute_ns"

definition compFresh :: int where
  "compFresh = 5 * minute_ns"

definition audit_device :: "(u32 \<rightharpoonup> DeviceFlowStats) \<Rightarrow> (u32 \<rightharpoonup> DeviceSignal) \<Rightarrow> ComplianceReport \<Rightarrow> sdevice \<Rightarrow> ComplianceReport" where
  "audit_device stats sigs rep d =
     (let c = gradeDevice d (case stats (sd_DeviceID d) of None \<Rightarrow> no_stats | Some st \<Rightarrow> st)
                (case sigs (sd_DeviceID d) of None \<Rightarrow> no_signal | Some sg \<Rightarrow> sg)
      in if co_State c = CompDisabled then rep\<lparr>cr_Devices := cr_Devices rep @ [c]\<rparr>
         else if co_Answerable c then rep\<lparr>cr_Answerable := cr_Answerable rep + 1, cr_Devices := cr_Devices rep @ [c]\<rparr>
         else rep\<lparr>cr_Failing := cr_Failing rep + 1, cr_Devices := cr_Devices rep @ [c]\<rparr>)"

definition empty_report :: "int \<Rightarrow> ComplianceReport" where
  "empty_report retDays =
     (let n = (if retDays = 0 then 180 else retDays) in
      \<lparr>cr_Devices = [], cr_Answerable = 0, cr_Failing = 0, cr_RetentionDays = n, cr_RetentionOK = (n \<ge> retentionMinDays),
       cr_MissingDays = [], cr_UnanswerableDays = [], cr_Days = [], cr_Available = False\<rparr>)"

definition computeComplianceAudit :: "audit_env \<Rightarrow> u32 \<Rightarrow> ComplianceReport" where
  "computeComplianceAudit e isp_id =
     (let rep = empty_report (ae_retDays e) in
      if \<not> ae_flows e then rep
      else
        let rep = rep\<lparr>cr_Available := True\<rparr> in
        if \<not> ae_list_ok e then rep
        else case TranslationStats (ae_stats_ok e) (ae_rows e) isp_id (complianceWindowMins * minute_ns) (ae_db_now e) (ae_from_date e) of
          None \<Rightarrow> rep
        | Some stats \<Rightarrow>
            let rep = foldl (audit_device stats (ae_sigs e)) rep (ListDevices isp_id (ae_store e));
                rep = rep\<lparr>cr_Devices := sort_key (\<lambda>c. (co_Answerable c, co_Name c)) (cr_Devices rep)\<rparr>
            in case TranslationsByDay (ae_parts_ok e) (ae_scan_ok e) (ae_stored_ok e) (ae_rows e) (ae_tbl e) isp_id of
                 None \<Rightarrow> rep
               | Some (days, unmeasured) \<Rightarrow>
                   rep\<lparr>cr_Days := days, cr_MissingDays := missingDays days, cr_UnanswerableDays := unanswerableDays days\<rparr>)"

text \<open>The reports kept between requests.\<close>

record compEntry =
  ce_rep :: ComplianceReport
  ce_at :: int
  ce_refreshing :: bool

type_synonym compCache = "(u32 \<times> compEntry) list"

definition complianceAuditFresh :: "audit_env \<Rightarrow> u32 \<Rightarrow> compCache \<Rightarrow> ComplianceReport \<times> compCache" where
  "complianceAuditFresh e isp_id cache =
     (let rep = computeComplianceAudit e isp_id in
      (rep, if cr_Available rep
            then (case map_of cache isp_id of
                    Some cur \<Rightarrow> AList.update isp_id (cur\<lparr>ce_rep := rep, ce_at := ae_now e\<rparr>) cache
                  | None \<Rightarrow> AList.update isp_id \<lparr>ce_rep = rep, ce_at = ae_now e, ce_refreshing = False\<rparr> cache)
            else cache))"

text \<open>A request: its answer, the cache, and whether it starts a refresh, which runs later as \<open>compliance_refresh\<close>.\<close>

definition ComplianceAudit :: "audit_env \<Rightarrow> u32 \<Rightarrow> compCache \<Rightarrow> ComplianceReport \<times> compCache \<times> bool" where
  "ComplianceAudit e isp_id cache =
     (case map_of cache isp_id of
        Some cur \<Rightarrow>
          if ae_now e - ce_at cur > compFresh \<and> \<not> ce_refreshing cur
          then (ce_rep cur, AList.update isp_id (cur\<lparr>ce_refreshing := True\<rparr>) cache, True)
          else (ce_rep cur, cache, False)
      | None \<Rightarrow> (case complianceAuditFresh e isp_id cache of (rep, cache) \<Rightarrow> (rep, cache, False)))"

definition compliance_refresh :: "audit_env \<Rightarrow> u32 \<Rightarrow> compCache \<Rightarrow> compCache" where
  "compliance_refresh e isp_id cache =
     (let cache = snd (complianceAuditFresh e isp_id cache) in
      case map_of cache isp_id of None \<Rightarrow> cache | Some cur \<Rightarrow> AList.update isp_id (cur\<lparr>ce_refreshing := False\<rparr>) cache)"

section \<open>The monitor\<close>

record compState =
  cs_state :: ComplianceState
  cs_firstSeen :: int
  cs_lastAlert :: instant

type_synonym compSeen = "(u32 \<times> compState) list"

definition comp_step :: "int \<Rightarrow> int \<Rightarrow> compSeen \<times> u32 list \<times> DeviceCompliance list \<Rightarrow> DeviceCompliance \<Rightarrow> compSeen \<times> u32 list \<times> DeviceCompliance list" where
  "comp_step now remind acc c =
     (case acc of (seen, live, alerts) \<Rightarrow>
        if co_State c = CompDisabled then (seen, live, alerts)
        else case map_of seen (co_DeviceID c) of
          None \<Rightarrow> (AList.update (co_DeviceID c) \<lparr>cs_state = co_State c, cs_firstSeen = now, cs_lastAlert = None\<rparr> seen, co_DeviceID c # live, alerts)
        | Some st \<Rightarrow>
            if co_Answerable c
            then (AList.update (co_DeviceID c) (st\<lparr>cs_state := co_State c, cs_lastAlert := None\<rparr>) seen, co_DeviceID c # live, alerts)
            else
              let changed = (cs_state st \<noteq> co_State c);
                  graceOver = (now - cs_firstSeen st \<ge> complianceGrace);
                  due = (case cs_lastAlert st of None \<Rightarrow> graceOver | Some a \<Rightarrow> now - a \<ge> remind)
              in if changed \<or> due
                 then (AList.update (co_DeviceID c) (st\<lparr>cs_lastAlert := Some now, cs_state := co_State c\<rparr>) seen, co_DeviceID c # live, alerts @ [c])
                 else (AList.update (co_DeviceID c) (st\<lparr>cs_state := co_State c\<rparr>) seen, co_DeviceID c # live, alerts))"

text \<open>A tick gives the devices of the mail it sends, if any, the memory of the monitor and the cache.\<close>

definition complianceTick ::
    "notification_settings \<Rightarrow> bool \<Rightarrow> bool \<Rightarrow> audit_env \<Rightarrow> compSeen \<times> compCache \<Rightarrow> DeviceCompliance list \<times> compSeen \<times> compCache" where
  "complianceTick n notifier sent e s =
     (case complianceAuditFresh e 0 (snd s) of (rep, cache) \<Rightarrow>
        if \<not> cr_Available rep then ([], fst s, cache)
        else case foldl (comp_step (ae_now e) (remindInterval n)) (fst s, [], []) (cr_Devices rep) of
          (seen, live, alerts) \<Rightarrow>
            (if alerts = [] \<or> \<not> notifier \<or> \<not> nt_Enabled n \<or> \<not> sent then [] else alerts, filter (\<lambda>(i, st). i \<in> set live) seen, cache))"

definition handleCompliance :: "api_env \<Rightarrow> int \<Rightarrow> request \<Rightarrow> audit_env \<Rightarrow> compCache \<Rightarrow> (nat + ComplianceReport) \<times> compCache \<times> bool" where
  "handleCompliance E now r e cache =
     (case currentIdentity E now r (ae_store e) of
        None \<Rightarrow> (Inl 401, cache, False)
      | Some i \<Rightarrow> (case ComplianceAudit e (if isDirector i then 0 else id_ISPID i) cache of (rep, cache, b) \<Rightarrow> (Inr rep, cache, b)))"

section \<open>The grades\<close>

definition graded :: "(u32 \<rightharpoonup> DeviceFlowStats) \<Rightarrow> (u32 \<rightharpoonup> DeviceSignal) \<Rightarrow> sdevice \<Rightarrow> DeviceCompliance" where
  "graded stats sigs d = gradeDevice d (case stats (sd_DeviceID d) of None \<Rightarrow> no_stats | Some st \<Rightarrow> st)
     (case sigs (sd_DeviceID d) of None \<Rightarrow> no_signal | Some sg \<Rightarrow> sg)"

text \<open>A row of a device, seen by an audit, that names the subscriber behind an address and port.\<close>

definition evidence :: "audit_env \<Rightarrow> u32 \<Rightarrow> u32 \<Rightarrow> flow_row \<Rightarrow> bool" where
  "evidence e isp_id dev r \<longleftrightarrow> r \<in> set (ae_rows e) \<and> audit_window isp_id (complianceWindowMins * minute_ns) (ae_db_now e) (ae_from_date e) r \<and>
     fl_device_id r = dev \<and> translated r \<and> fl_nat_public_port r \<noteq> 0"

definition audit_stats :: "audit_env \<Rightarrow> u32 \<Rightarrow> u32 \<rightharpoonup> DeviceFlowStats" where
  "audit_stats e isp_id = the (TranslationStats True (ae_rows e) isp_id (complianceWindowMins * minute_ns) (ae_db_now e) (ae_from_date e))"

lemma countIf_pos: "countIf p xs > 0 \<longleftrightarrow> (\<exists>x \<in> set xs. p x)" "countIf p xs = 0 \<longleftrightarrow> (\<forall>x \<in> set xs. \<not> p x)"
  by (simp_all add: countIf_def filter_empty_conv)

lemma countIf_mono: "(\<And>x. p x \<Longrightarrow> q x) \<Longrightarrow> countIf p xs \<le> countIf q xs"
  by (induction xs) (auto simp: countIf_def)

lemma device_row_counts: "fs_WithPort (device_row rs) \<le> fs_Translated (device_row rs)" "fs_Translated (device_row rs) \<le> fs_Flows (device_row rs)"
  subgoal unfolding device_row_def by (simp, rule countIf_mono) simp
  subgoal by (simp add: device_row_def countIf_def)
  done

lemma graded_simps [simp]:
  "co_StoreID (graded stats sigs d) = sd_ID d" "co_DeviceID (graded stats sigs d) = sd_DeviceID d" "co_Name (graded stats sigs d) = sd_Name d"
  "co_State (graded stats sigs d) = CompDisabled \<longleftrightarrow> \<not> sd_Enabled d"
  by (simp_all add: graded_def gradeDevice_def Let_def grade_def)

lemma grade_answerable:
  assumes "fs_WithPort st \<le> fs_Translated st" "fs_Translated st \<le> fs_Flows st"
  shows "answerable (grade enabled st sig) \<longleftrightarrow> enabled \<and> fs_WithPort st > 0"
  using assms by (auto simp: answerable_def grade_def)

lemma graded_answerable: "co_Answerable (graded (audit_stats e isp_id) sigs d) \<longleftrightarrow> sd_Enabled d \<and> (\<exists>r. evidence e isp_id (sd_DeviceID d) r)"
proof -
  define st where "st = (case audit_stats e isp_id (sd_DeviceID d) of None \<Rightarrow> no_stats | Some st \<Rightarrow> st)"
  let ?rs = "filter (\<lambda>r. audit_window isp_id (complianceWindowMins * minute_ns) (ae_db_now e) (ae_from_date e) r \<and> fl_device_id r = sd_DeviceID d) (ae_rows e)"
  have st: "st = (if ?rs = [] then no_stats else device_row ?rs)"
    by (simp add: st_def audit_stats_def TranslationStats_def Let_def)
  have "fs_WithPort st \<le> fs_Translated st" "fs_Translated st \<le> fs_Flows st"
    unfolding st using device_row_counts[of ?rs] by (simp_all add: no_stats_def)
  moreover have "fs_WithPort st > 0 \<longleftrightarrow> (\<exists>r \<in> set ?rs. translated r \<and> fl_nat_public_port r \<noteq> 0)"
    by (cases "?rs = []") (simp_all only: st if_True if_False, simp_all add: no_stats_def device_row_def countIf_pos)
  moreover have "(\<exists>r \<in> set ?rs. translated r \<and> fl_nat_public_port r \<noteq> 0) \<longleftrightarrow> (\<exists>r. evidence e isp_id (sd_DeviceID d) r)"
    by (auto simp: evidence_def)
  ultimately show ?thesis
    by (simp add: graded_def gradeDevice_def Let_def st_def[symmetric] grade_answerable)
qed

lemma audit_devices:
  "cr_Devices (foldl (audit_device stats sigs) rep devs) = cr_Devices rep @ map (graded stats sigs) devs \<and>
   cr_Answerable (foldl (audit_device stats sigs) rep devs) = cr_Answerable rep + countIf co_Answerable (map (graded stats sigs) devs) \<and>
   cr_Failing (foldl (audit_device stats sigs) rep devs) = cr_Failing rep + countIf (\<lambda>d. sd_Enabled d \<and> \<not> co_Answerable (graded stats sigs d)) devs"
proof (induction devs arbitrary: rep)
  case (Cons d devs)
  have "co_Answerable (graded stats sigs d) \<Longrightarrow> sd_Enabled d"
    by (cases "sd_Enabled d") (simp_all add: graded_def gradeDevice_def Let_def answerable_def grade_def)
  then show ?case
    using Cons[of "audit_device stats sigs rep d"] by (auto simp: audit_device_def graded_def[symmetric] countIf_def Let_def)
qed (simp add: countIf_def)

text \<open>An audit whose queries on the devices answer.\<close>

definition audited :: "audit_env \<Rightarrow> bool" where
  "audited e \<longleftrightarrow> ae_flows e \<and> ae_list_ok e \<and> ae_stats_ok e"

lemma audit_report:
  assumes "audited e" "rep = computeComplianceAudit e isp_id"
  defines "devs \<equiv> ListDevices isp_id (ae_store e)" and "g \<equiv> graded (audit_stats e isp_id) (ae_sigs e)"
  shows "cr_Available rep" "cr_Devices rep = sort_key (\<lambda>c. (co_Answerable c, co_Name c)) (map g devs)"
    "cr_Answerable rep = countIf co_Answerable (map g devs)" "cr_Failing rep = countIf (\<lambda>d. sd_Enabled d \<and> \<not> co_Answerable (g d)) devs"
proof -
  define r0 where "r0 = (empty_report (ae_retDays e))\<lparr>cr_Available := True\<rparr>"
  have r0: "cr_Devices r0 = []" "cr_Answerable r0 = 0" "cr_Failing r0 = 0" "cr_Available r0"
    by (simp_all add: r0_def empty_report_def Let_def)
  have stats: "TranslationStats True (ae_rows e) isp_id (complianceWindowMins * minute_ns) (ae_db_now e) (ae_from_date e) = Some (audit_stats e isp_id)"
    by (simp add: audit_stats_def TranslationStats_def)
  have avail: "cr_Available (foldl (audit_device stats sigs) r ds) = cr_Available r" for stats sigs r ds
    by (induction ds arbitrary: r) (simp_all add: audit_device_def Let_def)
  show "cr_Available rep" "cr_Devices rep = sort_key (\<lambda>c. (co_Answerable c, co_Name c)) (map g devs)"
    "cr_Answerable rep = countIf co_Answerable (map g devs)" "cr_Failing rep = countIf (\<lambda>d. sd_Enabled d \<and> \<not> co_Answerable (g d)) devs"
    using assms(1,2) audit_devices[of "audit_stats e isp_id" "ae_sigs e" r0 devs] r0
    by (simp_all add: audited_def computeComplianceAudit_def stats avail devs_def g_def r0_def[symmetric] Let_def split: option.split)
qed

text \<open>
  C36. The audit of a tenant is right.  When its queries answer, the report has every device of the tenant once and no other; a device is graded as able
  to answer a lawful request exactly when it is enabled and a row of this tenant and device in the audited day carries a public address that was
  translated and its port; the counters add up to the enabled devices, and the failing devices come first.
\<close>

theorem audit_answerable:
  assumes "audited e" "isp_id \<noteq> 0" "rep = computeComplianceAudit e isp_id" "devs = ListDevices isp_id (ae_store e)"
  shows "mset (map co_StoreID (cr_Devices rep)) = mset (map sd_ID devs) \<and> (\<forall>d \<in> set devs. sd_ISPID d = isp_id) \<and>
    (\<forall>c \<in> set (cr_Devices rep). \<exists>d \<in> set devs. co_StoreID c = sd_ID d \<and>
       (co_Answerable c \<longleftrightarrow> sd_Enabled d \<and> (\<exists>r. evidence e isp_id (sd_DeviceID d) r \<and> fl_isp_id r = isp_id))) \<and>
    cr_Answerable rep = countIf co_Answerable (cr_Devices rep) \<and> cr_Answerable rep + cr_Failing rep = countIf sd_Enabled devs \<and>
    sorted (map co_Answerable (cr_Devices rep))"
proof -
  let ?g = "graded (audit_stats e isp_id) (ae_sigs e)"
  note r = audit_report[OF assms(1,3), folded assms(4)]
  have own: "evidence e isp_id dev r \<Longrightarrow> fl_isp_id r = isp_id" for dev r
    using assms(2) by (simp add: evidence_def audit_window_def in_scope_def Let_def)
  have c1: "mset (map co_StoreID (cr_Devices rep)) = mset (map sd_ID devs)"
    unfolding r(2) by (simp add: image_mset.compositionality comp_def)
  have c2: "\<exists>d \<in> set devs. co_StoreID c = sd_ID d \<and> (co_Answerable c \<longleftrightarrow> sd_Enabled d \<and> (\<exists>r. evidence e isp_id (sd_DeviceID d) r \<and> fl_isp_id r = isp_id))"
    if in_report: "c \<in> set (cr_Devices rep)" for c
  proof -
    obtain d where d: "d \<in> set devs" "c = ?g d" using in_report unfolding r(2) set_sort set_map by blast
    show ?thesis using own by (intro bexI[OF _ d(1)]) (auto simp: d(2) graded_answerable)
  qed
  have c3: "countIf co_Answerable (sort_key k xs) = countIf co_Answerable xs" for k :: "DeviceCompliance \<Rightarrow> bool \<times> string" and xs
    unfolding countIf_def by (metis mset_filter mset_sort size_mset)
  have c4: "countIf co_Answerable (map ?g devs) + countIf (\<lambda>d. sd_Enabled d \<and> \<not> co_Answerable (?g d)) devs = countIf sd_Enabled devs" for devs
    by (induction devs) (auto simp: countIf_def graded_answerable)
  have c5: "sorted (map co_Answerable (cr_Devices rep))"
    using sorted_sort_key[of "\<lambda>c. (co_Answerable c, co_Name c)" "map ?g devs"] unfolding r(2)
    by (auto simp: sorted_wrt_map elim!: sorted_wrt_mono_rel[rotated] simp del: sorted_sort_key)
  show ?thesis
    using c1 c2 c3 c4 c5 r(3,4) assms(2,4) unfolding r(2) by (simp add: ListDevices_def)
qed

text \<open>Two tenants have a device numbered 1; the row is the second tenant's.\<close>

definition ex_row :: flow_row where
  "ex_row = \<lparr>fl_isp_id = 2, fl_device_id = 1, fl_event_date = ''2026-01-02'', fl_flow_start = 5, fl_src_ip = 1, fl_nat_public_ip = 2, fl_nat_public_port = 3\<rparr>"

definition ex_audited_device :: "int \<Rightarrow> u32 \<Rightarrow> sdevice" where
  "ex_audited_device i isp_id = \<lparr>sd_ID = i, sd_ISPID = isp_id, sd_Name = ''r'', sd_ExporterIP = dec_string (nat i), sd_DeviceID = 1, sd_Protocol = ''ipfix'',
     sd_Profile = [], sd_CapturePolicy = [], sd_Enabled = True, sd_SkipDNS = False, sd_SkipPrivate = False, sd_SkipZero = False, sd_UpdatedAt = 0\<rparr>"

definition ex_env :: audit_env where
  "ex_env = \<lparr>ae_now = 6, ae_db_now = 6, ae_from_date = ''2026-01-01'', ae_retDays = 0, ae_flows = True, ae_list_ok = True, ae_stats_ok = True,
     ae_parts_ok = True, ae_scan_ok = True, ae_stored_ok = True,
     ae_store = NewMem\<lparr>ms_devices := [(1, ex_audited_device 1 1), (2, ex_audited_device 2 2)]\<rparr>,
     ae_rows = [ex_row], ae_tbl = [], ae_sigs = (\<lambda>_. None)\<rparr>"

lemma ex_evidence: "audited ex_env" "evidence ex_env 2 1 ex_row" "evidence ex_env 0 1 ex_row"
  by (simp_all add: audited_def evidence_def ex_env_def ex_row_def audit_window_def in_scope_def translated_def complianceWindowMins_def minute_ns_def
      less_eq_list_code less_char_def)

lemma audit_answerable_witness: "\<exists>c \<in> set (cr_Devices (computeComplianceAudit ex_env 2)). co_StoreID c = 2 \<and> co_Answerable c"
proof -
  have devs: "ListDevices 2 (ae_store ex_env) = [ex_audited_device 2 2]"
    by (simp add: ListDevices_def ex_env_def ex_audited_device_def)
  have a: "mset (map co_StoreID (cr_Devices (computeComplianceAudit ex_env 2))) = {#2#}"
    "\<forall>c \<in> set (cr_Devices (computeComplianceAudit ex_env 2)). co_Answerable c \<longleftrightarrow> (\<exists>r. evidence ex_env 2 1 r \<and> fl_isp_id r = 2)"
    using audit_answerable[OF ex_evidence(1), of 2, OF _ refl refl] unfolding devs by (simp_all add: ex_audited_device_def)
  obtain c where "cr_Devices (computeComplianceAudit ex_env 2) = [c]" "co_StoreID c = 2" using a(1) by (auto simp flip: mset_map)
  moreover have "fl_isp_id ex_row = 2" by (simp add: ex_row_def)
  ultimately show ?thesis using a(2) ex_evidence(2) by auto
qed

section \<open>Devices with the same number\<close>

lemma comp_alerts:
  assumes "foldl (comp_step now remind) (seen, live, alerts) cs = (seen', live', alerts')"
  shows "set alerts' \<subseteq> set alerts \<union> {c \<in> set cs. co_State c \<noteq> CompDisabled \<and> \<not> co_Answerable c}"
  using assms
proof (induction cs arbitrary: seen live alerts)
  case (Cons c cs)
  obtain s l a where step: "comp_step now remind (seen, live, alerts) c = (s, l, a)" using prod_cases3 by blast
  have "set a \<subseteq> set alerts \<union> (if co_State c = CompDisabled \<or> co_Answerable c then {} else {c})"
    using step by (auto simp: comp_step_def Let_def split: if_splits option.splits)
  then show ?case using Cons.IH[of s l a] Cons.prems step by (auto split: if_splits)
qed simp

lemma tick_alerts: "a \<in> set (fst (complianceTick n notifier sent e s)) \<Longrightarrow> a \<in> set (cr_Devices (computeComplianceAudit e 0)) \<and> co_State a \<noteq> CompDisabled \<and> \<not> co_Answerable a"
  using comp_alerts[of "ae_now e" "remindInterval n" "fst s" "[]" "[]" "cr_Devices (computeComplianceAudit e 0)"]
  by (auto simp: complianceTick_def complianceAuditFresh_def Let_def split: prod.splits if_splits)

text \<open>
  C39. Another tenant's device hides a dead one.  Device numbers are given per tenant, but the audit of the whole fleet, the only one the monitor
  alerts on, groups rows by device number alone: a device of which not one row is stored is graded as answering as soon as a device of another
  tenant with the same number logs one translation, and no tick of the monitor names it, while the audit of its own tenant says that it fails.
\<close>

theorem silent_device_masked:
  assumes "audited e" "d \<in> set (ListDevices 0 (ae_store e))" "sd_Enabled d" "sd_ISPID d \<noteq> 0"
    and "\<forall>r \<in> set (ae_rows e). fl_isp_id r = sd_ISPID d \<longrightarrow> fl_device_id r \<noteq> sd_DeviceID d"
    and "evidence e 0 (sd_DeviceID d) r"
  shows "(\<exists>c \<in> set (cr_Devices (computeComplianceAudit e (sd_ISPID d))). co_StoreID c = sd_ID d \<and> \<not> co_Answerable c) \<and>
    (\<exists>c \<in> set (cr_Devices (computeComplianceAudit e 0)). co_StoreID c = sd_ID d \<and> co_Answerable c) \<and>
    (\<forall>a \<in> set (fst (complianceTick n notifier sent e s)). co_DeviceID a \<noteq> sd_DeviceID d)"
proof (intro conjI ballI)
  have "d \<in> set (ListDevices (sd_ISPID d) (ae_store e))" using assms(2) by (auto simp: ListDevices_def)
  moreover have "\<not> evidence e (sd_ISPID d) (sd_DeviceID d) r" for r
    using assms(4,5) by (auto simp: evidence_def audit_window_def in_scope_def Let_def)
  ultimately show "\<exists>c \<in> set (cr_Devices (computeComplianceAudit e (sd_ISPID d))). co_StoreID c = sd_ID d \<and> \<not> co_Answerable c"
    unfolding audit_report(2)[OF assms(1) refl] by (auto simp: graded_answerable)
  show "\<exists>c \<in> set (cr_Devices (computeComplianceAudit e 0)). co_StoreID c = sd_ID d \<and> co_Answerable c"
    unfolding audit_report(2)[OF assms(1) refl] using assms(2,3,6) by (auto simp: graded_answerable)
next
  fix a assume a: "a \<in> set (fst (complianceTick n notifier sent e s))"
  then obtain d' where "a = graded (audit_stats e 0) (ae_sigs e) d'" "co_State a \<noteq> CompDisabled" "\<not> co_Answerable a"
    using tick_alerts[OF a] unfolding audit_report(2)[OF assms(1) refl] by auto
  then show "co_DeviceID a \<noteq> sd_DeviceID d" using assms(6) by (auto simp: graded_answerable)
qed

lemma silent_device_masked_witness:
  "(\<exists>c \<in> set (cr_Devices (computeComplianceAudit ex_env 1)). co_StoreID c = 1 \<and> \<not> co_Answerable c) \<and>
   (\<exists>c \<in> set (cr_Devices (computeComplianceAudit ex_env 0)). co_StoreID c = 1 \<and> co_Answerable c)"
  using silent_device_masked[OF ex_evidence(1), of "ex_audited_device 1 1" ex_row] ex_evidence(3)
  by (simp add: ListDevices_def ex_env_def ex_audited_device_def ex_row_def)

section \<open>Failed queries\<close>

fun comp_run :: "notification_settings \<Rightarrow> bool \<Rightarrow> bool \<Rightarrow> audit_env list \<Rightarrow> compSeen \<times> compCache \<Rightarrow> DeviceCompliance list list" where
  "comp_run n notifier sent [] s = []"
| "comp_run n notifier sent (e # es) s = (case complianceTick n notifier sent e s of (alerts, s') \<Rightarrow> alerts # comp_run n notifier sent es s')"

definition in_grace :: "(u32 \<Rightarrow> ComplianceState) \<Rightarrow> int \<Rightarrow> compSeen \<Rightarrow> bool" where
  "in_grace S t0 seen \<longleftrightarrow> (\<forall>i st. map_of seen i = Some st \<longrightarrow> cs_state st = S i \<and> cs_firstSeen st \<ge> t0 \<and> cs_lastAlert st = None)"

lemma comp_step_grace:
  assumes "in_grace S t0 seen" "t0 \<le> now" "now - t0 < complianceGrace" "co_State c \<noteq> CompDisabled \<longrightarrow> co_State c = S (co_DeviceID c)"
    and "comp_step now remind (seen, live, []) c = (seen', live', alerts)"
  shows "in_grace S t0 seen' \<and> alerts = []"
proof (cases "map_of seen (co_DeviceID c)")
  case None
  then show ?thesis using assms by (auto simp: comp_step_def in_grace_def update_conv split: if_splits)
next
  case (Some st)
  then have "cs_state st = S (co_DeviceID c)" "\<not> complianceGrace \<le> now - cs_firstSeen st" "cs_lastAlert st = None"
    using assms(1,3) unfolding in_grace_def by fastforce+
  then show ?thesis using assms Some by (auto simp: comp_step_def in_grace_def update_conv Let_def split: if_splits)
qed

lemma comp_fold_grace:
  assumes "in_grace S t0 seen" "t0 \<le> now" "now - t0 < complianceGrace" "\<forall>c \<in> set cs. co_State c \<noteq> CompDisabled \<longrightarrow> co_State c = S (co_DeviceID c)"
    and "foldl (comp_step now remind) (seen, live, []) cs = (seen', live', alerts)"
  shows "in_grace S t0 seen' \<and> alerts = []"
  using assms
proof (induction cs arbitrary: seen live)
  case (Cons c cs)
  obtain s l a where step: "comp_step now remind (seen, live, []) c = (s, l, a)" using prod_cases3 by blast
  have "in_grace S t0 s \<and> a = []" using comp_step_grace[OF _ _ _ _ step, of S t0] Cons.prems by simp
  then show ?case using Cons.IH[of s l] Cons.prems step by simp
qed simp

lemma tick_grace:
  assumes "in_grace S t0 (fst s)" "t0 \<le> ae_now e" "ae_now e - t0 < complianceGrace"
    and "\<forall>c \<in> set (cr_Devices (computeComplianceAudit e 0)). co_State c \<noteq> CompDisabled \<longrightarrow> co_State c = S (co_DeviceID c)"
    and "complianceTick n notifier sent e s = (alerts, s')"
  shows "in_grace S t0 (fst s') \<and> alerts = []"
proof -
  obtain seen live al where f: "foldl (comp_step (ae_now e) (remindInterval n)) (fst s, [], []) (cr_Devices (computeComplianceAudit e 0)) = (seen, live, al)"
    using prod_cases3 by blast
  have g: "in_grace S t0 seen" "al = []" using comp_fold_grace[OF assms(1-4) f] by simp_all
  show ?thesis
    using assms(1,5) g f by (auto simp: complianceTick_def complianceAuditFresh_def Let_def in_grace_def map_of_filter_live split: if_splits)
qed

lemma failed_audit:
  assumes "ae_flows e" "\<not> ae_list_ok e \<or> \<not> ae_stats_ok e"
  shows "cr_Devices (computeComplianceAudit e i) = []" "cr_Failing (computeComplianceAudit e i) = 0" "cr_Available (computeComplianceAudit e i)"
  using assms by (auto simp: computeComplianceAudit_def empty_report_def TranslationStats_def Let_def)

text \<open>
  C38. A failed query makes the monitor forget.  An audit whose query on the devices fails gives an available report without devices, which the
  console is then served as one without failures, and the monitor drops what it knew of every device.  So in the two hours after such a tick, with the
  grades of the devices unchanged, nothing is sent, however long a device has been failing and whatever was known before.
\<close>

theorem audit_failure_silences:
  assumes "ae_flows e0" "\<not> ae_list_ok e0 \<or> \<not> ae_stats_ok e0"
    and "\<forall>e \<in> set es. ae_now e0 \<le> ae_now e \<and> ae_now e - ae_now e0 < complianceGrace"
    and "\<forall>e \<in> set es. \<forall>c \<in> set (cr_Devices (computeComplianceAudit e 0)). co_State c \<noteq> CompDisabled \<longrightarrow> co_State c = S (co_DeviceID c)"
  shows "(\<forall>alerts \<in> set (comp_run n notifier sent (e0 # es) s). alerts = []) \<and>
    (\<exists>cur. map_of (snd (snd (complianceTick n notifier sent e0 s))) 0 = Some cur \<and> cr_Available (ce_rep cur) \<and> cr_Devices (ce_rep cur) = [] \<and>
       cr_Failing (ce_rep cur) = 0)"
proof
  note f = failed_audit[OF assms(1,2), of 0]
  have t0: "fst (complianceTick n notifier sent e0 s) = [] \<and> fst (snd (complianceTick n notifier sent e0 s)) = []"
    using f by (simp add: complianceTick_def complianceAuditFresh_def Let_def)
  have "\<forall>alerts \<in> set (comp_run n notifier sent es s'). alerts = []" if "in_grace S (ae_now e0) (fst s')" for s'
    using that assms(3,4)
  proof (induction es arbitrary: s')
    case (Cons e es)
    obtain a s'' where t: "complianceTick n notifier sent e s' = (a, s'')" by (rule prod.exhaust)
    show ?case using Cons.IH[of s''] tick_grace[OF Cons.prems(1) _ _ _ t] Cons.prems t by simp
  qed simp
  from this[of "snd (complianceTick n notifier sent e0 s)"] t0
  show "\<forall>alerts \<in> set (comp_run n notifier sent (e0 # es) s). alerts = []"
    by (cases "complianceTick n notifier sent e0 s") (simp add: in_grace_def)
  show "\<exists>cur. map_of (snd (snd (complianceTick n notifier sent e0 s))) 0 = Some cur \<and> cr_Available (ce_rep cur) \<and> cr_Devices (ce_rep cur) = [] \<and>
       cr_Failing (ce_rep cur) = 0"
    using f by (simp add: complianceTick_def complianceAuditFresh_def Let_def update_conv' split: option.split)
qed

lemma comp_run_length: "length (comp_run n notifier sent es s) = length es"
  by (induction es arbitrary: s) (auto split: prod.split)

lemma audit_failure_silences_witness:
  defines "n \<equiv> \<lparr>nt_Enabled = True, nt_SilenceMins = 15, nt_RemindHours = 6, nt_DailySummary = False, nt_DailyHourIST = 9\<rparr>"
    and "silent \<equiv> ex_env\<lparr>ae_rows := [], ae_now := 60 * minute_ns\<rparr>"
  shows "comp_run n True True [ex_env\<lparr>ae_stats_ok := False\<rparr>, silent, silent] ([], []) = [[], [], []]"
proof -
  have "audited silent" by (simp add: silent_def audited_def ex_env_def)
  then have "\<forall>c \<in> set (cr_Devices (computeComplianceAudit silent 0)). co_State c \<noteq> CompDisabled \<longrightarrow> co_State c = CompSilent"
    by (auto simp: audit_report(2)[OF _ refl] graded_def gradeDevice_def Let_def grade_def audit_stats_def TranslationStats_def silent_def ex_env_def
        no_stats_def no_signal_def)
  then have "\<forall>alerts \<in> set (comp_run n True True [ex_env\<lparr>ae_stats_ok := False\<rparr>, silent, silent] ([], [])). alerts = []"
    using audit_failure_silences[of "ex_env\<lparr>ae_stats_ok := False\<rparr>" "[silent, silent]" "\<lambda>_. CompSilent" n True True "([], [])"]
    by (simp add: silent_def ex_env_def complianceGrace_def minute_ns_def)
  from replicate_length_same[OF this] show ?thesis unfolding comp_run_length by (simp add: numeral_3_eq_3 eq_commute[of "[[], [], []]"])
qed

section \<open>The calendar\<close>

fun valid_date :: "date \<Rightarrow> bool" where
  "valid_date (y, m, d) \<longleftrightarrow> 1 \<le> m \<and> m \<le> 12 \<and> 1 \<le> d \<and> d \<le> daysIn m y"

lemma date_less_iff: "date_less a b \<longleftrightarrow> a < b"
  by (cases a; cases b) (auto simp: less_prod_def less_eq_prod_def)

lemma daysIn_pos: "daysIn m y \<ge> 28"
  by (simp add: daysIn_def)

lemma next_day_valid: "valid_date t \<Longrightarrow> valid_date (next_day t)"
  using daysIn_pos[of "fst (snd t) + 1" "fst t"] daysIn_pos[of 1 "fst t + 1"] by (cases t) auto

lemma next_day_greater: "valid_date t \<Longrightarrow> t < next_day t"
  by (cases t) (auto simp: date_less_iff[symmetric])

lemma next_day_least: "valid_date t \<Longrightarrow> valid_date x \<Longrightarrow> t < x \<Longrightarrow> next_day t \<le> x"
  unfolding not_less[symmetric] date_less_iff[symmetric] by (cases t; cases x) (auto simp: not_less)

lemma days_between_spec:
  "valid_date t \<Longrightarrow> set (days_between t hi) = {x. valid_date x \<and> t \<le> x \<and> x \<le> hi} \<and> sorted_wrt (<) (days_between t hi)"
proof (induction t hi rule: days_between.induct)
  case (1 t hi)
  show ?case
  proof (cases "date_less hi t")
    case True
    then show ?thesis by (auto simp: days_between.simps[of t hi] date_less_iff)
  next
    case False
    have ih: "set (days_between (next_day t) hi) = {x. valid_date x \<and> next_day t \<le> x \<and> x \<le> hi}" "sorted_wrt (<) (days_between (next_day t) hi)"
      using 1 False next_day_valid by simp_all
    have step: "t \<le> x \<longleftrightarrow> x = t \<or> next_day t \<le> x" if "valid_date x" for x
      using next_day_least[OF 1(2) that] next_day_greater[OF 1(2)] by (metis le_less less_le_trans)
    have "set (days_between t hi) = {x. valid_date x \<and> t \<le> x \<and> x \<le> hi}"
      using ih(1) step False 1(2) by (subst days_between.simps) (auto simp: date_less_iff not_less)
    moreover have "sorted_wrt (<) (days_between t hi)"
      using ih False next_day_greater[OF 1(2)] by (subst days_between.simps) auto
    ultimately show ?thesis by blast
  qed
qed

lemma parse_date_valid: "parse_date s = Some x \<Longrightarrow> valid_date x \<and> fst x < 10000"
proof -
  have "dec_value s < 10 ^ length s" if "list_all is_digit s" for s
    using that by (induction s rule: rev_induct) (auto simp: dec_value_snoc dest!: digit_value_less, simp add: dec_value_def)
  from this[of "take 4 s"] show "parse_date s = Some x \<Longrightarrow> valid_date x \<and> fst x < 10000"
    by (auto simp: parse_date_def Let_def split: if_splits)
qed

lemma pad0_length: "n < 10 ^ Suc k \<Longrightarrow> length (pad0 (Suc k) n) = Suc k"
  using dec_string_length[of n k] by (simp add: pad0_def Let_def)

lemma pad0_digits: "list_all is_digit (pad0 w n)"
  using dec_string_digits[of n] by (simp add: pad0_def Let_def list_all_iff is_digit_def set_replicate_conv_if)

lemma parse_format_date:
  assumes "valid_date x" "fst x < 10000"
  shows "parse_date (format_date x) = Some x"
proof -
  obtain y m d where x: "x = (y, m, d)" using prod_cases3 by blast
  have len: "length (pad0 4 y) = 4" "length (pad0 2 m) = 2" "length (pad0 2 d) = 2"
    using pad0_length[of y 3] pad0_length[of m 1] pad0_length[of d 1] assms daysIn_le[of m y] by (simp_all add: x numeral_2_eq_2)
  show ?thesis using assms len pad0_digits by (simp add: x parse_date_def format_date_def Let_def nth_append)
qed

definition held :: "DayIPDR list \<Rightarrow> date set" where
  "held days = {x. \<exists>d \<in> set days. parse_date (dy_Date d) = Some x}"

lemma held_fold:
  assumes "zero_date \<notin> held days"
  shows "(held days = {} \<and> foldl held_step (zero_date, zero_date) days = (zero_date, zero_date)) \<or>
    (\<exists>lo \<in> held days. \<exists>hi \<in> held days. foldl held_step (zero_date, zero_date) days = (lo, hi) \<and> (\<forall>x \<in> held days. lo \<le> x \<and> x \<le> hi))"
  using assms
proof (induction days rule: rev_induct)
  case (snoc d days)
  have h: "held (days @ [d]) = held days \<union> {x. parse_date (dy_Date d) = Some x}" by (auto simp: held_def)
  show ?case
  proof (cases "parse_date (dy_Date d)")
    case None
    then show ?thesis using snoc h by (simp add: held_step_def)
  next
    case (Some t)
    have step: "held_step r d = (if fst r = zero_date \<or> t < fst r then t else fst r, if snd r = zero_date \<or> snd r < t then t else snd r)" for r
      using Some by (simp add: held_step_def date_less_iff)
    have z: "zero_date \<notin> held days" using snoc.prems h by simp
    from snoc.IH[OF z] show ?thesis
    proof (elim disjE conjE bexE)
      assume "held days = {}" "foldl held_step (zero_date, zero_date) days = (zero_date, zero_date)"
      then show ?thesis using h Some by (simp add: step)
    next
      fix lo hi assume lh: "lo \<in> held days" "hi \<in> held days" "foldl held_step (zero_date, zero_date) days = (lo, hi)" "\<forall>x \<in> held days. lo \<le> x \<and> x \<le> hi"
      have "lo \<noteq> zero_date" "hi \<noteq> zero_date" using lh z by auto
      then have f: "foldl held_step (zero_date, zero_date) (days @ [d]) = (min lo t, max hi t)" using lh(3) by (auto simp: step)
      have "min lo t \<in> held (days @ [d])" "max hi t \<in> held (days @ [d])" "\<forall>x \<in> held (days @ [d]). min lo t \<le> x \<and> x \<le> max hi t"
        using lh h Some by (auto simp: min_def max_def)
      then show ?thesis using f by blast
    qed
  qed
qed (simp add: held_def)

text \<open>
  The missing days are exact: the days listed, in the order of the calendar, are those between two days that hold records which hold none.
\<close>

theorem missing_days_exact:
  assumes "\<forall>d \<in> set days. parse_date (dy_Date d) \<noteq> Some zero_date"
  shows "\<exists>ds. missingDays days = map format_date ds \<and> sorted_wrt date_less ds \<and>
    set ds = {x. valid_date x \<and> x \<notin> held days \<and> (\<exists>lo \<in> held days. date_less lo x) \<and> (\<exists>hi \<in> held days. date_less x hi)}"
proof -
  have z: "zero_date \<notin> held days" using assms by (auto simp: held_def)
  have between: "{x. valid_date x \<and> x \<notin> held days \<and> (\<exists>lo \<in> held days. date_less lo x) \<and> (\<exists>hi \<in> held days. date_less x hi)} =
      {x. valid_date x \<and> lo \<le> x \<and> x \<le> hi \<and> x \<notin> held days}"
    if "lo \<in> held days" "hi \<in> held days" "\<forall>x \<in> held days. lo \<le> x \<and> x \<le> hi" for lo hi
    using that unfolding date_less_iff by (metis (no_types, lifting) dual_order.order_iff_strict le_less_trans less_le_trans)
  show ?thesis
  proof (cases "length days < 2 \<or> held days = {}")
    case True
    have few: "x = y" if "x \<in> held days" "y \<in> held days" for x y
    proof -
      have "length days < 2" using True that by blast
      then show ?thesis using that by (cases days) (auto simp: held_def)
    qed
    then have "{x. valid_date x \<and> x \<notin> held days \<and> (\<exists>lo \<in> held days. date_less lo x) \<and> (\<exists>hi \<in> held days. date_less x hi)} = {}"
      unfolding date_less_iff using few less_asym by blast
    moreover have "missingDays days = []" using True held_fold[OF z] by (auto simp: missingDays_def)
    ultimately show ?thesis by (intro exI[of _ "[]"]) simp
  next
    case False
    then obtain lo hi where lh: "lo \<in> held days" "hi \<in> held days" "foldl held_step (zero_date, zero_date) days = (lo, hi)" "\<forall>x \<in> held days. lo \<le> x \<and> x \<le> hi"
      using held_fold[OF z] by blast
    have valid: "valid_date lo" "fst hi < 10000" using lh(1,2) parse_date_valid unfolding held_def by blast+
    note db = days_between_spec[OF valid(1), of hi]
    have k: "format_date x \<in> set (map dy_Date (filter (\<lambda>d. parse_date (dy_Date d) \<noteq> None) days)) \<longleftrightarrow> x \<in> held days" if "x \<in> set (days_between lo hi)" for x
    proof -
      have "fst x < 10000" "valid_date x" using that db valid(2) by (auto simp: less_eq_prod_def)
      then have p: "parse_date (format_date x) = Some x" by (rule parse_format_date[rotated])
      show ?thesis
      proof
        assume "format_date x \<in> set (map dy_Date (filter (\<lambda>d. parse_date (dy_Date d) \<noteq> None) days))"
        then obtain d where "d \<in> set days" "dy_Date d = format_date x" by auto
        then show "x \<in> held days" using p unfolding held_def by force
      next
        assume "x \<in> held days"
        then obtain d where "d \<in> set days" "parse_date (dy_Date d) = Some x" unfolding held_def by blast
        moreover from this have "format_date x = dy_Date d" using format_parse_date by blast
        ultimately show "format_date x \<in> set (map dy_Date (filter (\<lambda>d. parse_date (dy_Date d) \<noteq> None) days))"
          by (cases x) simp
      qed
    qed
    have "missingDays days = map format_date (filter (\<lambda>x. x \<notin> held days) (days_between lo hi))"
      using False lh z k by (auto simp: missingDays_def Let_def filter_map comp_def cong: filter_cong)
    moreover have "sorted_wrt date_less (filter (\<lambda>x. x \<notin> held days) (days_between lo hi))"
      using db by (simp add: sorted_wrt_filter date_less_iff[abs_def])
    ultimately show ?thesis using between[OF lh(1,2,4)] db by (intro exI[of _ "filter (\<lambda>x. x \<notin> held days) (days_between lo hi)"]) auto
  qed
qed

lemma missing_days_exact_witness:
  defines "days \<equiv> map (\<lambda>s. \<lparr>dy_Date = s, dy_Flows = 1, dy_Translated = 0, dy_TranslatedKnown = False\<rparr>) [''2026-01-01'', ''2025-12-30'']"
  shows "missingDays days = [''2025-12-31''] \<and> (\<exists>ds. missingDays days = map format_date ds \<and> sorted_wrt date_less ds)"
proof
  have p: "parse_date ''2026-01-01'' = Some (2026, 1, 1)" "parse_date ''2025-12-30'' = Some (2025, 12, 30)" by code_simp+
  show "missingDays days = [''2025-12-31'']"
    by (simp add: days_def missingDays_def held_step_def p zero_date_def days_between.simps daysIn_def format_date_def) code_simp
  show "\<exists>ds. missingDays days = map format_date ds \<and> sorted_wrt date_less ds"
    using missing_days_exact[of days] p by (auto simp: days_def zero_date_def)
qed

section \<open>Measured days\<close>

text \<open>Rows are stored and days are measured in any order; rows are not removed.\<close>

inductive measuring :: "flow_row list \<Rightarrow> ipdr_row list \<Rightarrow> bool" where
  empty_tables: "measuring [] []"
| row_stored: "measuring rows tbl \<Longrightarrow> measuring (r # rows) tbl"
| day_measured: "measuring rows tbl \<Longrightarrow> measuring rows (snd (computeIPDRDay ok rows day tbl))"

definition tenant_day :: "u32 \<Rightarrow> string \<Rightarrow> flow_row list \<Rightarrow> flow_row list" where
  "tenant_day i day rows = filter (\<lambda>r. fl_isp_id r = i \<and> fl_event_date r = day) rows"

definition day_isps :: "string \<Rightarrow> flow_row list \<Rightarrow> u32 set" where
  "day_isps day rows = fl_isp_id ` set (filter (\<lambda>r. fl_event_date r = day) rows)"

text \<open>A measured figure is at most the count of now, and exact when it is that count.\<close>

definition figures :: "flow_row list \<Rightarrow> ipdr_row list \<Rightarrow> bool" where
  "figures rows tbl \<longleftrightarrow> (\<forall>i day r. latest tbl i day = Some r \<longrightarrow>
     0 < ip_flows r \<and> ip_flows r \<le> length (tenant_day i day rows) \<and>
     (ip_flows r = length (tenant_day i day rows) \<longrightarrow> ip_translated r = countIf translated (tenant_day i day rows)))"

lemma find_append: "find p (xs @ ys) = (case find p xs of None \<Rightarrow> find p ys | Some x \<Rightarrow> Some x)"
  by (induction xs) auto

lemma latest_compute:
  "latest (snd (computeIPDRDay True rows day tbl)) i day' =
     (if day' = day \<and> i \<in> day_isps day rows
      then Some \<lparr>ip_isp_id = i, ip_event_date = day, ip_flows = length (tenant_day i day rows), ip_translated = countIf translated (tenant_day i day rows)\<rparr>
      else latest tbl i day')"
proof -
  let ?f = "\<lambda>i. \<lparr>ip_isp_id = i, ip_event_date = day, ip_flows = length (tenant_day i day rows), ip_translated = countIf translated (tenant_day i day rows)\<rparr>"
  have "find (\<lambda>r. ip_isp_id r = i \<and> ip_event_date r = day') (map ?f is) = (if day' = day \<and> i \<in> set is then Some (?f i) else None)" for "is"
    by (induction "is") auto
  then show ?thesis
    by (simp add: latest_def computeIPDRDay_def find_append tenant_day_def[symmetric] day_isps_def Let_def)
qed

lemma tenant_day_pos: "i \<in> day_isps day rows \<longleftrightarrow> 0 < length (tenant_day i day rows)"
  by (auto simp: day_isps_def tenant_day_def filter_empty_conv)

lemma figures_measuring: "measuring rows tbl \<Longrightarrow> figures rows tbl"
proof (induction rule: measuring.induct)
  case empty_tables
  then show ?case by (simp add: figures_def latest_def)
next
  case (row_stored rows tbl r)
  then show ?case by (fastforce simp: figures_def tenant_day_def countIf_def)
next
  case (day_measured rows tbl ok day)
  then show ?case
    by (cases ok) (auto simp: figures_def latest_compute tenant_day_pos split: if_splits, auto simp: computeIPDRDay_def)
qed

lemma length_by_tenant:
  assumes "finite R" "\<forall>r \<in> set rows. P r \<longrightarrow> fl_isp_id r \<in> R"
  shows "length (filter P rows) = (\<Sum>i\<in>R. length (filter (\<lambda>r. P r \<and> fl_isp_id r = i) rows))"
  using assms(2)
proof (induction rows)
  case (Cons r rows)
  have "(\<Sum>i\<in>R. length (filter (\<lambda>r. P r \<and> fl_isp_id r = i) (r # rows))) =
      (\<Sum>i\<in>R. length (filter (\<lambda>r. P r \<and> fl_isp_id r = i) rows) + (if P r \<and> fl_isp_id r = i then 1 else 0))"
    by (rule sum.cong) auto
  also have "\<dots> = (\<Sum>i\<in>R. length (filter (\<lambda>r. P r \<and> fl_isp_id r = i) rows)) + (if P r then 1 else 0)"
    using Cons.prems assms(1) by (simp add: sum.distrib)
  finally show ?case using Cons by simp
qed simp

definition scope_isps :: "u32 \<Rightarrow> string \<Rightarrow> flow_row list \<Rightarrow> u32 set" where
  "scope_isps isp_id day rows = {i \<in> day_isps day rows. isp_id = 0 \<or> i = isp_id}"

lemma finite_scope_isps [simp]: "finite (scope_isps isp_id day rows)"
  by (simp add: scope_isps_def day_isps_def)

lemma day_rows_by_tenant:
  "length (day_rows isp_id day rows) = (\<Sum>i\<in>scope_isps isp_id day rows. length (tenant_day i day rows))"
  "countIf translated (day_rows isp_id day rows) = (\<Sum>i\<in>scope_isps isp_id day rows. countIf translated (tenant_day i day rows))"
proof -
  let ?R = "scope_isps isp_id day rows"
  have eq: "i \<in> ?R \<Longrightarrow> filter (\<lambda>r. (in_scope isp_id r \<and> fl_event_date r = day) \<and> fl_isp_id r = i) rows = tenant_day i day rows" for i
    by (auto simp: scope_isps_def tenant_day_def in_scope_def intro!: filter_cong)
  have eqt: "i \<in> ?R \<Longrightarrow> filter (\<lambda>r. (in_scope isp_id r \<and> fl_event_date r = day \<and> translated r) \<and> fl_isp_id r = i) rows = filter translated (tenant_day i day rows)" for i
    by (auto simp: scope_isps_def tenant_day_def in_scope_def intro!: filter_cong)
  have R: "\<forall>r \<in> set rows. in_scope isp_id r \<and> fl_event_date r = day \<longrightarrow> fl_isp_id r \<in> ?R"
    by (auto simp: scope_isps_def day_isps_def in_scope_def)
  show "length (day_rows isp_id day rows) = (\<Sum>i\<in>?R. length (tenant_day i day rows))"
    unfolding day_rows_def using length_by_tenant[OF finite_scope_isps R] eq by simp
  show "countIf translated (day_rows isp_id day rows) = (\<Sum>i\<in>?R. countIf translated (tenant_day i day rows))"
    using length_by_tenant[of ?R rows "\<lambda>r. in_scope isp_id r \<and> fl_event_date r = day \<and> translated r"] R eqt
    by (simp add: day_rows_def countIf_def conj_assoc)
qed

lemma measured_isps_set: "set (measured_isps tbl isp_id day) = {i. (isp_id = 0 \<or> i = isp_id) \<and> latest tbl i day \<noteq> None}"
  by (auto simp: measured_isps_def latest_def find_None_iff)

lemma measured_scope: "figures rows tbl \<Longrightarrow> set (measured_isps tbl isp_id day) \<subseteq> scope_isps isp_id day rows"
  unfolding measured_isps_set scope_isps_def tenant_day_pos figures_def by (auto dest: less_le_trans)

lemma sum_tight:
  fixes F C :: "'a \<Rightarrow> nat"
  assumes "finite R" "T \<subseteq> R" "\<forall>i \<in> T. F i \<le> C i" "\<forall>i \<in> R. 0 < C i" "sum F T = sum C R"
  shows "T = R \<and> (\<forall>i \<in> R. F i = C i)"
proof -
  have le: "sum F T \<le> sum C T" using assms(3) by (intro sum_mono) blast
  have split: "sum C R = sum C T + sum C (R - T)" using assms(1,2) by (metis add.commute sum.subset_diff)
  have "sum C (R - T) = 0" using le split assms(5) by simp
  then have "R - T = {}" using assms(1,4) by (auto simp: sum_eq_0_iff) force
  then have "T = R" using assms(2) by blast
  moreover have "\<forall>i \<in> T. F i = C i"
    using sum_mono_inv[of F T C] assms(1-3,5) calculation by (metis finite_subset)
  ultimately show ?thesis by blast
qed

lemma stored_exact:
  assumes "figures rows tbl" "storedIPDRDays True tbl isp_id = Some stored" "stored day = Some (length (day_rows isp_id day rows), t)"
  shows "t = countIf translated (day_rows isp_id day rows)"
proof -
  let ?T = "set (measured_isps tbl isp_id day)" and ?R = "scope_isps isp_id day rows"
  let ?F = "\<lambda>i. case latest tbl i day of None \<Rightarrow> 0 | Some r \<Rightarrow> ip_flows r" and ?G = "\<lambda>i. case latest tbl i day of None \<Rightarrow> 0 | Some r \<Rightarrow> ip_translated r"
  have d: "distinct (measured_isps tbl isp_id day)" by (simp add: measured_isps_def)
  have s: "length (day_rows isp_id day rows) = sum ?F ?T" "t = sum ?G ?T"
    using assms(2,3) d by (auto simp: storedIPDRDays_def Let_def sum_list_distinct_conv_sum_set split: if_splits)
  have F: "\<forall>i \<in> ?T. ?F i \<le> length (tenant_day i day rows)" using assms(1) by (auto simp: measured_isps_set figures_def)
  have C: "\<forall>i \<in> ?R. 0 < length (tenant_day i day rows)" by (simp add: scope_isps_def tenant_day_pos)
  have "sum ?F ?T = sum (\<lambda>i. length (tenant_day i day rows)) ?R" using s(1) day_rows_by_tenant(1) by simp
  then have TR: "?T = ?R" "\<forall>i \<in> ?R. ?F i = length (tenant_day i day rows)"
    using sum_tight[OF finite_scope_isps measured_scope[OF assms(1)] F C] by blast+
  have "?G i = countIf translated (tenant_day i day rows)" if i: "i \<in> ?R" for i
  proof -
    obtain r where r: "latest tbl i day = Some r" using i[folded TR(1)] by (auto simp: measured_isps_set)
    then show ?thesis using TR(2) i assms(1) unfolding figures_def by fastforce
  qed
  then show ?thesis using s(2) TR(1) day_rows_by_tenant(2) by simp
qed

lemma day_groups_flows: "d \<in> set (day_groups rows isp_id) \<Longrightarrow> dy_Flows d = length (day_rows isp_id (dy_Date d) rows) \<and> \<not> dy_TranslatedKnown d"
  by (auto simp: day_groups_def)

lemma dayFlowCounts_groups: "dayFlowCounts parts_ok scan_ok rows isp_id = Some out \<Longrightarrow> out = day_groups rows isp_id"
  by (auto simp: dayFlowCounts_def partsDayCounts_def Let_def split: if_splits)

text \<open>
  C35. The figures of a day are right or absent.  Whatever rows were stored and days were measured in whatever order, for one tenant and for all, a day
  is reported with the number of its rows, and where its translations are given as known, they are the rows of that day that carry one.
\<close>

theorem day_figures_exact:
  assumes "measuring rows tbl" "TranslationsByDay parts_ok scan_ok stored_ok rows tbl isp_id = Some (out, unmeasured)" "d \<in> set out"
  shows "dy_Flows d = length (day_rows isp_id (dy_Date d) rows) \<and>
    (dy_TranslatedKnown d \<longrightarrow> dy_Translated d = countIf translated (day_rows isp_id (dy_Date d) rows))"
proof -
  obtain groups where g: "dayFlowCounts parts_ok scan_ok rows isp_id = Some groups" using assms(2) by (auto simp: TranslationsByDay_def split: option.splits)
  note groups = dayFlowCounts_groups[OF g]
  show ?thesis
  proof (cases "storedIPDRDays stored_ok tbl isp_id")
    case None
    then show ?thesis using assms(2,3) g groups day_groups_flows by (auto simp: TranslationsByDay_def)
  next
    case (Some stored)
    then have ok: "storedIPDRDays True tbl isp_id = Some stored" by (auto simp: storedIPDRDays_def split: if_splits)
    obtain d0 where d0: "d0 \<in> set groups" "d = (case stored (dy_Date d0) of
        Some (f, t) \<Rightarrow> if f = dy_Flows d0 then d0\<lparr>dy_Translated := t, dy_TranslatedKnown := True\<rparr> else d0 | None \<Rightarrow> d0)"
      using assms(2,3) g Some by (auto simp: TranslationsByDay_def)
    have flows: "dy_Flows d0 = length (day_rows isp_id (dy_Date d0) rows)" "\<not> dy_TranslatedKnown d0"
      using day_groups_flows d0(1) groups by blast+
    show ?thesis using d0(2) flows stored_exact[OF figures_measuring[OF assms(1)] ok] by (auto split: option.splits if_splits)
  qed
qed

lemma day_figures_exact_witness:
  "\<exists>d. TranslationsByDay True True True [ex_row] (snd (computeIPDRDay True [ex_row] ''2026-01-02'' [])) 0 = Some ([d], False) \<and>
     dy_TranslatedKnown d \<and> dy_Translated d = countIf translated (day_rows 0 (dy_Date d) [ex_row])"
proof -
  let ?tbl = "snd (computeIPDRDay True [ex_row] ''2026-01-02'' [])"
  have m: "measuring [ex_row] ?tbl" by (intro measuring.intros)
  obtain d where d: "TranslationsByDay True True True [ex_row] ?tbl 0 = Some ([d], False)" "dy_TranslatedKnown d"
    by (simp add: TranslationsByDay_def dayFlowCounts_def partsDayCounts_def day_groups_def day_rows_def in_scope_def storedIPDRDays_def
        measured_isps_def latest_def computeIPDRDay_def ex_row_def)
  show ?thesis using d day_figures_exact[OF m d(1)] by auto
qed

section \<open>The backlog\<close>

definition stale :: "(string \<rightharpoonup> nat \<times> nat) \<Rightarrow> DayIPDR \<Rightarrow> bool" where
  "stale stored d \<longleftrightarrow> (case stored (dy_Date d) of None \<Rightarrow> True | Some (f, t) \<Rightarrow> f \<noteq> dy_Flows d)"

definition stored_figures :: "ipdr_row list \<Rightarrow> string \<rightharpoonup> nat \<times> nat" where
  "stored_figures tbl = the (storedIPDRDays True tbl 0)"

definition stale_days :: "flow_row list \<Rightarrow> ipdr_row list \<Rightarrow> string list" where
  "stale_days rows tbl = map dy_Date (filter (stale (stored_figures tbl)) (day_groups rows 0))"

lemma ipdr_work_take: "ipdrDaysNeedingWork live stored budget = take budget (map dy_Date (filter (stale stored) live))"
proof -
  have "length out \<le> budget \<Longrightarrow> ipdr_work_from live stored budget out = take budget (out @ map dy_Date (filter (stale stored) live))" for out
    by (induction live arbitrary: out) (auto simp: stale_def take_Cons' Suc_diff_Suc split: option.splits)
  then show ?thesis by (simp add: ipdrDaysNeedingWork_def)
qed

lemma ipdrDayPass_work:
  "ipdrDayPass parts_ok True True cancelled fails rows tbl = ipdr_loop cancelled fails rows 0 (take ipdrDayBudget (stale_days rows tbl)) tbl"
  by (auto simp: ipdrDayPass_def dayFlowCounts_def partsDayCounts_def storedIPDRDays_def stale_days_def stored_figures_def ipdr_work_take Let_def)

lemma ipdr_loop_failing: "\<forall>day \<in> set work. fails day \<Longrightarrow> ipdr_loop cancelled fails rows i work tbl = tbl"
  by (induction cancelled fails rows i work tbl rule: ipdr_loop.induct) (auto simp: computeIPDRDay_def)

lemma day_groups_dates: "distinct (map dy_Date (day_groups rows 0))" "set (map dy_Date (day_groups rows 0)) = fl_event_date ` set rows"
  by (auto simp: day_groups_def comp_def in_scope_def)

lemma stored_compute:
  assumes "figures rows tbl" "day \<in> fl_event_date ` set rows"
  shows "stored_figures (snd (computeIPDRDay True rows day tbl)) day' =
    (if day' = day then Some (length (day_rows 0 day rows), countIf translated (day_rows 0 day rows)) else stored_figures tbl day')"
proof (cases "day' = day")
  case True
  let ?tbl = "snd (computeIPDRDay True rows day tbl)"
  have T: "set (measured_isps ?tbl 0 day) = scope_isps 0 day rows"
    using measured_scope[OF assms(1), of 0 day] by (auto simp: measured_isps_set latest_compute scope_isps_def)
  moreover have "measured_isps ?tbl 0 day \<noteq> []"
    using T assms(2) by (auto simp: scope_isps_def day_isps_def simp flip: set_empty)
  moreover have "distinct (measured_isps ?tbl 0 day)" by (simp add: measured_isps_def)
  ultimately show ?thesis using True
    by (auto simp: stored_figures_def storedIPDRDays_def sum_list_distinct_conv_sum_set latest_compute day_rows_by_tenant scope_isps_def intro!: sum.cong)
next
  case False
  have "measured_isps (snd (computeIPDRDay True rows day tbl)) 0 day' = measured_isps tbl 0 day'"
    using False by (simp add: measured_isps_def computeIPDRDay_def Let_def filter_map comp_def)
  then show ?thesis using False by (simp add: stored_figures_def storedIPDRDays_def latest_compute Let_def)
qed

lemma ipdr_loop_measures:
  assumes "measuring rows tbl" "set work \<subseteq> fl_event_date ` set rows" "tbl' = ipdr_loop (\<lambda>_. False) (\<lambda>_. False) rows i work tbl"
  shows "measuring rows tbl' \<and> (\<forall>day. stored_figures tbl' day =
    (if day \<in> set work then Some (length (day_rows 0 day rows), countIf translated (day_rows 0 day rows)) else stored_figures tbl day))"
  using assms
proof (induction work arbitrary: i tbl)
  case (Cons day work)
  have "measuring rows (snd (computeIPDRDay True rows day tbl))" using Cons.prems(1) by (rule day_measured)
  then show ?case
    using Cons.IH[of "snd (computeIPDRDay True rows day tbl)" "i + 1"] Cons.prems stored_compute[OF figures_measuring[OF Cons.prems(1)], of day] by auto
qed simp

lemma pass_stale_days:
  assumes "measuring rows tbl" "tbl' = ipdrDayPass parts_ok True True (\<lambda>_. False) (\<lambda>_. False) rows tbl"
  shows "measuring rows tbl' \<and> stale_days rows tbl' = drop ipdrDayBudget (stale_days rows tbl)"
proof -
  let ?live = "day_groups rows 0" and ?w = "take ipdrDayBudget (stale_days rows tbl)"
  have "set (stale_days rows tbl) \<subseteq> set (map dy_Date (day_groups rows 0))" by (auto simp: stale_days_def)
  then have sub: "set ?w \<subseteq> fl_event_date ` set rows"
    unfolding day_groups_dates(2) by (rule subset_trans[OF set_take_subset])
  note m = ipdr_loop_measures[OF assms(1) sub, of tbl' 0, OF assms(2)[unfolded ipdrDayPass_work]]
  have dist: "distinct (stale_days rows tbl)" unfolding stale_days_def by (rule distinct_map_filter[OF day_groups_dates(1)])
  have "stale (stored_figures tbl') d \<longleftrightarrow> stale (stored_figures tbl) d \<and> dy_Date d \<notin> set ?w" if "d \<in> set ?live" for d
    using m[THEN conjunct2, rule_format, of "dy_Date d"] day_groups_flows[OF that] by (simp add: stale_def)
  then have "stale_days rows tbl' = filter (\<lambda>day. day \<notin> set ?w) (stale_days rows tbl)"
    by (auto simp: stale_days_def filter_map comp_def intro!: arg_cong[where f = "map dy_Date"] filter_cong)
  moreover have "filter (\<lambda>x. x \<notin> set (take k xs)) xs = drop k xs" if "distinct xs" for k and xs :: "string list"
    using that set_take_disj_set_drop_if_distinct[OF that, of k k]
    by (subst append_take_drop_id[of k xs, symmetric], subst filter_append) (auto simp: filter_empty_conv filter_id_conv)
  ultimately show ?thesis using m dist by simp
qed

text \<open>
  The backlog is worked off.  From any state of the tables, if no measurement fails, then after as many passes as a third of the days that hold rows,
  the translations of every day are known.
\<close>

theorem backfill_completes:
  assumes "measuring rows tbl" "length (remdups (map fl_event_date rows)) \<le> 3 * k"
    and "tbl' = (ipdrDayPass parts_ok True True (\<lambda>_. False) (\<lambda>_. False) rows ^^ k) tbl"
  shows "\<exists>out. TranslationsByDay parts_ok True True rows tbl' 0 = Some (out, False) \<and> set (map dy_Date out) = fl_event_date ` set rows \<and>
    (\<forall>d \<in> set out. dy_TranslatedKnown d)"
proof -
  let ?pass = "ipdrDayPass parts_ok True True (\<lambda>_. False) (\<lambda>_. False) rows"
  have step: "measuring rows ((?pass ^^ k) tbl) \<and> stale_days rows ((?pass ^^ k) tbl) = drop (3 * k) (stale_days rows tbl)" for k
  proof (induction k)
    case (Suc k)
    then show ?case using pass_stale_days[of rows "(?pass ^^ k) tbl" _ parts_ok] by (simp add: ipdrDayBudget_def add.commute)
  qed (simp add: assms(1))
  have "length (stale_days rows tbl) \<le> length (day_groups rows 0)" by (simp add: stale_days_def)
  also have "\<dots> \<le> 3 * k" using assms(2) by (simp add: day_groups_def in_scope_def)
  finally have none: "stale_days rows tbl' = []" using step[of k] assms(3) by simp
  have stored: "storedIPDRDays True tbl' 0 = Some (stored_figures tbl')" by (simp add: stored_figures_def storedIPDRDays_def)
  have counts: "dayFlowCounts parts_ok True rows 0 = Some (day_groups rows 0)"
    by (simp add: dayFlowCounts_def partsDayCounts_def Let_def)
  have fresh: "\<exists>t. stored_figures tbl' (dy_Date d) = Some (dy_Flows d, t)" if "d \<in> set (day_groups rows 0)" for d
    using none that by (auto simp: stale_days_def filter_empty_conv stale_def split: option.splits)
  let ?g = "\<lambda>d. case stored_figures tbl' (dy_Date d) of
      Some (f, t) \<Rightarrow> if f = dy_Flows d then d\<lparr>dy_Translated := t, dy_TranslatedKnown := True\<rparr> else d | None \<Rightarrow> d"
  have g: "dy_Date (?g d) = dy_Date d \<and> dy_TranslatedKnown (?g d)" if "d \<in> set (day_groups rows 0)" for d
    using fresh[OF that] by auto
  have out: "TranslationsByDay parts_ok True True rows tbl' 0 = Some (map ?g (day_groups rows 0), False)"
    unfolding TranslationsByDay_def counts stored by simp
  have "set (map dy_Date (map ?g (day_groups rows 0))) = set (map dy_Date (day_groups rows 0))"
    using g by (simp add: image_image cong: image_cong_simp)
  then have dates: "set (map dy_Date (map ?g (day_groups rows 0))) = fl_event_date ` set rows" by (simp only: day_groups_dates(2))
  have "\<forall>d \<in> set (map ?g (day_groups rows 0)). dy_TranslatedKnown d" using g unfolding set_map by blast
  then show ?thesis using out dates by blast
qed

lemma backfill_completes_witness:
  "\<exists>out. TranslationsByDay True True True [ex_row] (ipdrDayPass True True True (\<lambda>_. False) (\<lambda>_. False) [ex_row] []) 0 = Some (out, False) \<and>
     (\<forall>d \<in> set out. dy_TranslatedKnown d)"
proof -
  have "measuring [ex_row] []" by (intro measuring.intros)
  then show ?thesis using backfill_completes[of "[ex_row]" "[]" 1 _ True, OF _ _ refl] by auto
qed



end
