(* ===== verification/Crm.thy ===== *)
theory Crm
  imports Search Store_Audit Auth
begin

text \<open>
  The resolution of subscribers (\<open>internal/director/crm.go\<close>, \<open>internal/director/crm/routeros.go\<close>): the settings of a connector, the cache of
  answers, the lookups of a page of records, and the check of what the remote system answers.

  \<open>url.Parse\<close>, JSON, the time layouts, SHA-256 and AES-GCM are parameters, and so is the remote system.  A time is an instant of
  \<open>crm_time\<close>, \<open>None\<close> the zero time; the clock is read once for the records and once for the answers of a page.
\<close>

type_synonym crm_time = "int option"

section \<open>Settings\<close>

record url =
  ur_Scheme :: string
  ur_Host :: string
  ur_Hostname :: string
  ur_User :: bool
  ur_Fragment :: string

record CRMConnectorSettings =
  cc_ISPID :: u32
  cc_Enabled :: bool
  cc_Type :: string
  cc_Endpoint :: string
  cc_Username :: string
  cc_APIKey :: string
  cc_TimeoutMs :: int
  cc_BatchSize :: int

datatype crm_error = UnsupportedType | EndpointTooLong | KeyTooLong | EndpointRequired | BadURL | URLCredentials | NeedsHTTPS | UsernameRequired

definition trim_brackets :: "string \<Rightarrow> string" where
  "trim_brackets s = (let p = (\<lambda>c. c = CHR ''['' \<or> c = CHR '']'') in rev (dropWhile p (rev (dropWhile p s))))"

definition sanitizeCRMConnector :: "(string \<Rightarrow> url option) \<Rightarrow> CRMConnectorSettings \<Rightarrow> crm_error + CRMConnectorSettings" where
  "sanitizeCRMConnector urlParse v =
     (let ty = to_lower (trim_str (cc_Type v));
          ty = (if ty = [] then ''yeslogs_v1'' else ty)
      in if ty \<noteq> ''yeslogs_v1'' \<and> ty \<noteq> ''routeros'' then Inl UnsupportedType
         else
           let v = v\<lparr>cc_Type := ty, cc_Endpoint := trim_str (cc_Endpoint v), cc_Username := trim_str (cc_Username v), cc_APIKey := trim_str (cc_APIKey v),
                     cc_TimeoutMs := (if cc_TimeoutMs v < 500 \<or> cc_TimeoutMs v > 30000 then 5000 else cc_TimeoutMs v),
                     cc_BatchSize := (if cc_BatchSize v < 1 \<or> cc_BatchSize v > 1000 then 500 else cc_BatchSize v)\<rparr>
           in if length (cc_Endpoint v) > 2048 then Inl EndpointTooLong
              else if length (cc_APIKey v) > 4096 then Inl KeyTooLong
              else if cc_Endpoint v = [] then (if cc_Enabled v then Inl EndpointRequired else Inr v)
              else case urlParse (cc_Endpoint v) of
                None \<Rightarrow> Inl BadURL
              | Some u \<Rightarrow>
                  if ur_Host u = [] \<or> ur_Scheme u \<noteq> ''https'' \<and> ur_Scheme u \<noteq> ''http'' then Inl BadURL
                  else if ur_User u \<or> ur_Fragment u \<noteq> [] then Inl URLCredentials
                  else
                    let host = trim_brackets (to_lower (ur_Hostname u)); ip = ParseIP host in
                    if ur_Scheme u = ''http'' \<and> host \<noteq> ''localhost'' \<and> (ip = nil_ip \<or> \<not> ip_IsLoopback ip) then Inl NeedsHTTPS
                    else if ty = ''routeros'' \<and> ur_Scheme u \<noteq> ''https'' then Inl NeedsHTTPS
                    else if ty = ''routeros'' \<and> cc_Username v = [] then Inl UsernameRequired
                    else Inr v)"

definition crmConnector :: "(string \<Rightarrow> url option) \<Rightarrow> CRMConnectorSettings list \<Rightarrow> u32 \<Rightarrow> CRMConnectorSettings option" where
  "crmConnector urlParse cs isp =
     (if isp = 0 then None
      else case find (\<lambda>c. cc_ISPID c = isp) cs of
        None \<Rightarrow> None
      | Some c \<Rightarrow>
          (case sanitizeCRMConnector urlParse c of
             Inl e \<Rightarrow> None
           | Inr clean \<Rightarrow> if \<not> cc_Enabled clean \<or> cc_APIKey clean = [] then None else Some clean))"

section \<open>Secrets\<close>

definition crmSchemaVersion :: string where
  "crmSchemaVersion = ''yeslogs.crm.lookup.v1''"

definition crmSecretPrefix :: string where
  "crmSecretPrefix = ''enc:v1:''"

definition crmCipher :: "auth_env \<Rightarrow> bytes" where
  "crmCipher E = ae_sha E (bytes_of_str ''yeslogs-crm-secret-v1:'' @ ae_key E)"

definition sealCRMSecret :: "auth_env \<Rightarrow> bytes option \<Rightarrow> string \<Rightarrow> string option" where
  "sealCRMSecret E rnd plain =
     (if plain = [] then Some []
      else map_option (\<lambda>nonce. crmSecretPrefix @ b64_encode (nonce @ ae_seal E (crmCipher E) nonce (bytes_of_str plain) (bytes_of_str crmSchemaVersion))) rnd)"

definition openCRMSecret :: "auth_env \<Rightarrow> string \<Rightarrow> string option" where
  "openCRMSecret E v =
     (if v = [] \<or> take (length crmSecretPrefix) v \<noteq> crmSecretPrefix then Some v
      else case b64_decode (drop (length crmSecretPrefix) v) of
        None \<Rightarrow> None
      | Some raw \<Rightarrow>
          if length raw < nonceSize then None
          else map_option str_of_bytes (ae_open E (crmCipher E) (take nonceSize raw) (drop nonceSize raw) (bytes_of_str crmSchemaVersion)))"

text \<open>The persisted connectors; \<open>rnd\<close> gives the nonce of each, or \<open>None\<close> when the random source fails.\<close>

definition marshalCRMConnectors :: "auth_env \<Rightarrow> (nat \<Rightarrow> bytes option) \<Rightarrow> (CRMConnectorSettings list \<Rightarrow> bytes) \<Rightarrow> CRMConnectorSettings list \<Rightarrow> bytes option" where
  "marshalCRMConnectors E rnd marshal cs =
     map_option marshal (those (map2 (\<lambda>i c. map_option (\<lambda>k. c\<lparr>cc_APIKey := k\<rparr>) (sealCRMSecret E (rnd i) (cc_APIKey c))) [0..<length cs] cs))"

fun load_connectors :: "auth_env \<Rightarrow> (string \<Rightarrow> url option) \<Rightarrow> u32 list \<Rightarrow> CRMConnectorSettings list \<Rightarrow> CRMConnectorSettings list option" where
  "load_connectors E urlParse seen [] = Some []"
| "load_connectors E urlParse seen (c # cs) =
     (if cc_ISPID c = 0 \<or> cc_ISPID c \<in> set seen then None
      else case openCRMSecret E (cc_APIKey c) of
        None \<Rightarrow> None
      | Some key \<Rightarrow>
          (case sanitizeCRMConnector urlParse (c\<lparr>cc_APIKey := key\<rparr>) of
             Inl e \<Rightarrow> None
           | Inr v \<Rightarrow>
               if cc_Enabled v \<and> cc_APIKey v = [] then None
               else map_option ((#) v) (load_connectors E urlParse (cc_ISPID c # seen) cs)))"

definition unmarshalCRMConnectors ::
    "auth_env \<Rightarrow> (string \<Rightarrow> url option) \<Rightarrow> (bytes \<Rightarrow> CRMConnectorSettings list option) \<Rightarrow> bytes \<Rightarrow> CRMConnectorSettings list option" where
  "unmarshalCRMConnectors E urlParse unmarshal raw =
     (case unmarshal raw of
        None \<Rightarrow> None
      | Some cs \<Rightarrow> map_option (sort_key cc_ISPID) (load_connectors E urlParse [] cs))"

section \<open>Answers\<close>

record crmSubscriber =
  su_AccountID :: string
  su_Username :: string
  su_Name :: string
  su_Address :: string
  su_Phone :: string

record crmSession =
  se_AcctSessionID :: string
  se_CallingStationID :: string

record crmResult =
  re_ReferenceCode :: string
  re_Status :: string
  re_Subscriber :: crmSubscriber
  re_Session :: crmSession

text \<open>The runes of a string: the length of the UTF-8 sequence at its head, 0 where there is none, and the text of each rune.\<close>

definition cont :: "byte \<Rightarrow> bool" where
  "cont b \<longleftrightarrow> 0x80 \<le> b \<and> b \<le> 0xBF"

fun utf8_width :: "bytes \<Rightarrow> nat" where
  "utf8_width [] = 0"
| "utf8_width (a # bs) =
     (if a < 0x80 then 1
      else case bs of
        [] \<Rightarrow> 0
      | b # cs \<Rightarrow>
          if 0xC2 \<le> a \<and> a \<le> 0xDF then (if cont b then 2 else 0)
          else case cs of
            [] \<Rightarrow> 0
          | c # ds \<Rightarrow>
              if 0xE0 \<le> a \<and> a \<le> 0xEF then
                (if cont b \<and> cont c \<and> (a = 0xE0 \<longrightarrow> 0xA0 \<le> b) \<and> (a = 0xED \<longrightarrow> b \<le> 0x9F) then 3 else 0)
              else case ds of
                [] \<Rightarrow> 0
              | d # es \<Rightarrow>
                  if 0xF0 \<le> a \<and> a \<le> 0xF4 \<and> cont b \<and> cont c \<and> cont d \<and> (a = 0xF0 \<longrightarrow> 0x90 \<le> b) \<and> (a = 0xF4 \<longrightarrow> b \<le> 0x8F) then 4 else 0)"

function runes :: "bytes \<Rightarrow> bytes list" where
  "runes b =
     (if b = [] then []
      else if utf8_width b = 0 then [0xEF, 0xBF, 0xBD] # runes (tl b)
      else take (utf8_width b) b # runes (drop (utf8_width b) b))"
  by pat_completeness auto
termination
  by (relation "measure length") auto

declare runes.simps [simp del]

definition trimCRMText :: "string \<Rightarrow> nat \<Rightarrow> string" where
  "trimCRMText v n =
     (let v = trim_str v; r = runes (bytes_of_str v) in if length r > n then str_of_bytes (concat (take n r)) else v)"

definition normalizeCRMResult :: "crmResult \<Rightarrow> crmResult" where
  "normalizeCRMResult v =
     (let status = to_lower (trim_str (re_Status v)); u = re_Subscriber v; s = re_Session v in
      \<lparr>re_ReferenceCode = trimCRMText (re_ReferenceCode v) 80,
       re_Status = (if status \<in> {''matched'', ''not_found'', ''ambiguous'', ''error''} then status else ''error''),
       re_Subscriber = \<lparr>su_AccountID = trimCRMText (su_AccountID u) 190, su_Username = trimCRMText (su_Username u) 190,
         su_Name = trimCRMText (su_Name u) 256, su_Address = trimCRMText (su_Address u) 1024, su_Phone = trimCRMText (su_Phone u) 64\<rparr>,
       re_Session = \<lparr>se_AcctSessionID = trimCRMText (se_AcctSessionID s) 190, se_CallingStationID = trimCRMText (se_CallingStationID s) 64\<rparr>\<rparr>)"

section \<open>The cache\<close>

record crmCacheEntry =
  ca_result :: crmResult
  ca_expires :: int

type_synonym crmCache = "(string \<times> crmCacheEntry) list"

definition crmCacheMaxEntries :: nat where
  "crmCacheMaxEntries = 50000"

definition crmCacheGet :: "int \<Rightarrow> string \<Rightarrow> crmCache \<Rightarrow> crmResult option \<times> crmCache" where
  "crmCacheGet now key cache =
     (case map_of cache key of
        None \<Rightarrow> (None, cache)
      | Some e \<Rightarrow> if ca_expires e < now then (None, AList.delete key cache) else (Some (ca_result e), cache))"

definition second_ns :: int where
  "second_ns = 1000000000"

text \<open>\<open>order\<close> is the order in which a map is iterated: it lists the keys of the cache.\<close>

definition crmCachePut :: "(crmCache \<Rightarrow> string list) \<Rightarrow> int \<Rightarrow> string \<Rightarrow> crmResult \<Rightarrow> crmCache \<Rightarrow> crmCache" where
  "crmCachePut order now key v cache =
     (let ttl = (if re_Status v \<noteq> ''matched'' then 2 * 60 * second_ns else 15 * 60 * second_ns);
          cache = (if length cache \<ge> crmCacheMaxEntries
                   then let live = filter (\<lambda>(k, e). \<not> ca_expires e < now) cache;
                            gone = take (length live + 1 - crmCacheMaxEntries * 9 div 10) (order live)
                        in filter (\<lambda>(k, e). k \<notin> set gone) live
                   else cache)
      in AList.update key \<lparr>ca_result = v, ca_expires = now + ttl\<rparr> cache)"

section \<open>Records and lookups\<close>

record crm_row = nat_record +
  row_At :: crm_time
  row_Time :: string
  row_DevID :: u32
  row_ISPID :: u32
  row_ExporterIP :: string
  row_CRMReference :: string
  row_CRMStatus :: string
  row_CRMUsername :: string
  row_CRMName :: string
  row_CRMAddress :: string
  row_CRMPhone :: string
  row_CRMAccountID :: string
  row_CRMSessionID :: string
  row_CRMMAC :: string

record crmLookup =
  lo_ReferenceCode :: string
  lo_LocalIP :: string
  lo_EventTime :: string
  lo_DeviceID :: u32
  lo_NASIdentifier :: string
  lo_NASIPAddress :: string

record crmPendingLookup =
  pe_key :: string
  pe_lookup :: crmLookup
  pe_rowIdxs :: "nat list"

record crmEnrichmentSummary =
  sm_Enabled :: bool
  sm_Status :: string
  sm_Rows :: nat
  sm_UniqueLookups :: nat
  sm_Matched :: nat
  sm_NotFound :: nat
  sm_Ambiguous :: nat
  sm_Failed :: nat
  sm_Cached :: nat

record crmBatchResponse =
  ba_SchemaVersion :: string
  ba_RequestID :: string
  ba_Results :: "crmResult list"

text \<open>What the remote system answers: a status, the length of the body and its JSON; the rows of a RouterOS session query.\<close>

datatype crm_answer = NoAnswer | Answer nat nat "crmBatchResponse option"

record ros_session =
  rs_User :: string
  rs_Username :: string
  rs_CallingStationID :: string
  rs_SessionID :: string

datatype ros_answer = RosFailed | RosAnswer nat "ros_session list option"

text \<open>
  The surroundings: SHA-256, the time layouts read in local time, the text of a second in UTC and its local day, the settings, the devices,
  the order of map iteration, fresh request identifiers, the remote systems, and the number of batches handed out before the request is cancelled.
\<close>

record crm_env =
  cv_sha :: "bytes \<Rightarrow> bytes"
  cv_layout :: "string \<Rightarrow> string \<Rightarrow> crm_time"
  cv_rfc3339 :: "int \<Rightarrow> string"
  cv_istday :: "int \<Rightarrow> string"
  cv_url :: "string \<Rightarrow> url option"
  cv_connectors :: "CRMConnectorSettings list"
  cv_devices :: "sdevice list option"
  cv_order :: "crmCache \<Rightarrow> string list"
  cv_rid :: "nat \<Rightarrow> string"
  cv_post :: "string \<Rightarrow> crmLookup list \<Rightarrow> crm_answer"
  cv_get :: "string \<Rightarrow> string \<Rightarrow> ros_answer"
  cv_batches :: nat

definition parseTime :: "crm_env \<Rightarrow> string \<Rightarrow> crm_time" where
  "parseTime E s =
     (let s = trim_str s in
      if s = [] then None
      else case find (\<lambda>l. cv_layout E l s \<noteq> None)
          [''2006-01-02T15:04'', ''2006-01-02T15:04:05'', ''2006-01-02 15:04'', ''2006-01-02 15:04:05'', ''2006-01-02T15:04:05Z07:00''] of
        None \<Rightarrow> None
      | Some l \<Rightarrow> cv_layout E l s)"

definition recordInstant :: "crm_env \<Rightarrow> crm_row \<Rightarrow> int option" where
  "recordInstant E r =
     (case row_At r of Some t \<Rightarrow> Some (t div second_ns) | None \<Rightarrow> map_option (\<lambda>t. t div second_ns) (parseTime E (row_Time r)))"

definition crmLocalIP :: "crm_row \<Rightarrow> string" where
  "crmLocalIP r =
     (if nr_Translation r = ''destination'' then nr_PostDstIP r
      else if nr_Translation r = ''source'' \<or> nr_Translation r = [] then nr_PrivIP r
      else [])"

fun join_bar :: "string list \<Rightarrow> string" where
  "join_bar [] = []"
| "join_bar [s] = s"
| "join_bar (s # ss) = s @ CHR ''|'' # join_bar ss"

definition evidence_fields :: "crm_env \<Rightarrow> u32 \<Rightarrow> crm_row \<Rightarrow> int \<Rightarrow> string list" where
  "evidence_fields E isp r at_s = [dec_string (unat isp), dec_string (unat (row_DevID r)), row_ExporterIP r, crmLocalIP r, cv_rfc3339 E at_s]"

definition crmLookupHash :: "crm_env \<Rightarrow> u32 \<Rightarrow> string \<Rightarrow> crm_row \<Rightarrow> int \<Rightarrow> string" where
  "crmLookupHash E isp endpoint r at_s = hex_bytes (cv_sha E (bytes_of_str (join_bar (crmSchemaVersion # endpoint # evidence_fields E isp r at_s))))"

definition crmReference :: "crm_env \<Rightarrow> u32 \<Rightarrow> crm_row \<Rightarrow> int \<Rightarrow> string" where
  "crmReference E isp r at_s =
     ''YL-'' @ cv_istday E at_s @ ''-'' @ to_upper (hex_bytes (take 12 (cv_sha E (bytes_of_str (join_bar (crmSchemaVersion # evidence_fields E isp r at_s))))))"

definition resolveRecordDevice :: "sdevice list \<Rightarrow> u32 \<Rightarrow> crm_row \<Rightarrow> sdevice option" where
  "resolveRecordDevice devs scope r =
     (let isp = (if row_ISPID r = 0 then scope else row_ISPID r);
          ms = filter (\<lambda>d. \<not> ((isp \<noteq> 0 \<and> sd_ISPID d \<noteq> isp) \<or> sd_DeviceID d \<noteq> row_DevID r) \<and>
                            \<not> (row_ExporterIP r \<noteq> [] \<and> sd_ExporterIP d \<noteq> row_ExporterIP r)) devs
      in if length ms = 1 then Some (hd ms) else None)"

definition applyCRMResult :: "crmResult \<Rightarrow> crm_row \<Rightarrow> crm_row" where
  "applyCRMResult v r =
     r\<lparr>row_CRMStatus := re_Status v, row_CRMUsername := su_Username (re_Subscriber v), row_CRMName := su_Name (re_Subscriber v),
       row_CRMAddress := su_Address (re_Subscriber v), row_CRMPhone := su_Phone (re_Subscriber v), row_CRMAccountID := su_AccountID (re_Subscriber v),
       row_CRMSessionID := se_AcctSessionID (re_Session v), row_CRMMAC := se_CallingStationID (re_Session v)\<rparr>"

definition addCRMCount :: "string \<Rightarrow> nat \<Rightarrow> crmEnrichmentSummary \<Rightarrow> crmEnrichmentSummary" where
  "addCRMCount status n s =
     (if status = ''matched'' then s\<lparr>sm_Matched := sm_Matched s + n\<rparr>
      else if status = ''not_found'' then s\<lparr>sm_NotFound := sm_NotFound s + n\<rparr>
      else if status = ''ambiguous'' then s\<lparr>sm_Ambiguous := sm_Ambiguous s + n\<rparr>
      else s\<lparr>sm_Failed := sm_Failed s + n\<rparr>)"

section \<open>The remote systems\<close>

definition ros_result :: "crm_env \<Rightarrow> crmLookup \<Rightarrow> crmResult" where
  "ros_result E q =
     (let none = \<lparr>su_AccountID = [], su_Username = [], su_Name = [], su_Address = [], su_Phone = []\<rparr>;
          out = \<lparr>re_ReferenceCode = lo_ReferenceCode q, re_Status = ''not_found'', re_Subscriber = none,
                 re_Session = \<lparr>se_AcctSessionID = [], se_CallingStationID = []\<rparr>\<rparr>
      in case cv_get E (lo_LocalIP q) (lo_EventTime q) of
           RosFailed \<Rightarrow> out\<lparr>re_Status := ''error''\<rparr>
         | RosAnswer code rows \<Rightarrow>
             (case rows of
                None \<Rightarrow> out\<lparr>re_Status := ''error''\<rparr>
              | Some rs \<Rightarrow>
                  if code \<noteq> 200 then out\<lparr>re_Status := ''error''\<rparr>
                  else case rs of
                    [] \<Rightarrow> out
                  | [s] \<Rightarrow> out\<lparr>re_Status := ''matched'', re_Subscriber := none\<lparr>su_Username := (if rs_Username s = [] then rs_User s else rs_Username s)\<rparr>,
                             re_Session := \<lparr>se_AcctSessionID = rs_SessionID s, se_CallingStationID = rs_CallingStationID s\<rparr>\<rparr>
                  | _ \<Rightarrow> out\<lparr>re_Status := ''ambiguous''\<rparr>))"

definition NewRouterOSConnector :: "(string \<Rightarrow> url option) \<Rightarrow> CRMConnectorSettings \<Rightarrow> bool" where
  "NewRouterOSConnector urlParse cfg \<longleftrightarrow>
     (case urlParse (rev (dropWhile (\<lambda>c. c = CHR ''/'') (rev (cc_Endpoint cfg)))) of
        None \<Rightarrow> False
      | Some u \<Rightarrow> ur_Scheme u = ''https'' \<and> ur_Host u \<noteq> [] \<and> cc_Username cfg \<noteq> [])"

type_synonym crm_results = "(string \<times> crmResult) list"

fun check_results :: "string list \<Rightarrow> crm_results \<Rightarrow> crmResult list \<Rightarrow> crm_results option" where
  "check_results expected out [] = Some out"
| "check_results expected out (raw # rest) =
     (let v = normalizeCRMResult raw in
      if re_ReferenceCode v \<notin> set expected \<or> map_of out (re_ReferenceCode v) \<noteq> None then None
      else check_results expected (AList.update (re_ReferenceCode v) v out) rest)"

definition crmMaxResponseBody :: nat where
  "crmMaxResponseBody = 8 * 1024 * 1024"

definition sendCRMBatch :: "crm_env \<Rightarrow> CRMConnectorSettings \<Rightarrow> string \<Rightarrow> crmLookup list \<Rightarrow> crm_results option" where
  "sendCRMBatch E cfg rid lookups =
     (if cc_Type cfg = ''routeros'' then
        (if NewRouterOSConnector (cv_url E) cfg
         then Some (foldl (\<lambda>out v. AList.update (re_ReferenceCode v) v out) [] (map (ros_result E) lookups))
         else None)
      else case cv_post E rid lookups of
        NoAnswer \<Rightarrow> None
      | Answer code len decoded \<Rightarrow>
          if len > crmMaxResponseBody \<or> code < 200 \<or> code \<ge> 300 then None
          else case decoded of
            None \<Rightarrow> None
          | Some d \<Rightarrow>
              if ba_RequestID d \<noteq> [] \<and> ba_RequestID d \<noteq> rid then None
              else if ba_SchemaVersion d \<noteq> [] \<and> ba_SchemaVersion d \<noteq> crmSchemaVersion then None
              else check_results (map lo_ReferenceCode lookups) [] (ba_Results d))"

section \<open>A page of records\<close>

type_synonym scan_state = "crmCache \<times> crmEnrichmentSummary \<times> (string \<times> crmPendingLookup) list"

definition scan_row :: "crm_env \<Rightarrow> u32 \<Rightarrow> CRMConnectorSettings \<Rightarrow> sdevice list \<Rightarrow> int \<Rightarrow> nat \<Rightarrow> crm_row \<Rightarrow> scan_state \<Rightarrow> crm_row \<times> scan_state" where
  "scan_row E isp cfg devs now i r st =
     (case st of (cache, s, pending) \<Rightarrow>
        let localIP = crmLocalIP r in
        if localIP = [] then (r\<lparr>row_CRMStatus := ''insufficient_nat_data''\<rparr>, cache, s\<lparr>sm_Failed := sm_Failed s + 1\<rparr>, pending)
        else case recordInstant E r of
          None \<Rightarrow> (r\<lparr>row_CRMStatus := ''error''\<rparr>, cache, s\<lparr>sm_Failed := sm_Failed s + 1\<rparr>, pending)
        | Some at_s \<Rightarrow>
            if ParseIP localIP = nil_ip then (r\<lparr>row_CRMStatus := ''error''\<rparr>, cache, s\<lparr>sm_Failed := sm_Failed s + 1\<rparr>, pending)
            else
              let key = crmLookupHash E isp (cc_Endpoint cfg) r at_s;
                  ref = crmReference E isp r at_s;
                  r = r\<lparr>row_CRMReference := ref\<rparr>;
                  (hit, cache) = crmCacheGet now key cache
              in case hit of
                   Some v \<Rightarrow> (applyCRMResult v r, cache, (addCRMCount (re_Status v) 1 s)\<lparr>sm_Cached := sm_Cached s + 1\<rparr>, pending)
                 | None \<Rightarrow>
                     (case map_of pending key of
                        Some p \<Rightarrow> (r, cache, s, AList.update key (p\<lparr>pe_rowIdxs := pe_rowIdxs p @ [i]\<rparr>) pending)
                      | None \<Rightarrow>
                          (case resolveRecordDevice devs isp r of
                             None \<Rightarrow> (r\<lparr>row_CRMStatus := ''ambiguous''\<rparr>, cache, s\<lparr>sm_Ambiguous := sm_Ambiguous s + 1\<rparr>, pending)
                           | Some dev \<Rightarrow>
                               (r, cache, s, AList.update key \<lparr>pe_key = key,
                                  pe_lookup = \<lparr>lo_ReferenceCode = ref, lo_LocalIP = localIP, lo_EventTime = cv_rfc3339 E at_s, lo_DeviceID = row_DevID r,
                                    lo_NASIdentifier = sd_Name dev, lo_NASIPAddress = sd_ExporterIP dev\<rparr>, pe_rowIdxs = [i]\<rparr> pending))))"

fun scan_rows :: "crm_env \<Rightarrow> u32 \<Rightarrow> CRMConnectorSettings \<Rightarrow> sdevice list \<Rightarrow> int \<Rightarrow> nat \<Rightarrow> crm_row list \<Rightarrow> scan_state \<Rightarrow> crm_row list \<times> scan_state" where
  "scan_rows E isp cfg devs now i [] st = ([], st)"
| "scan_rows E isp cfg devs now i (r # rs) st =
     (case scan_row E isp cfg devs now i r st of (r', st) \<Rightarrow>
        case scan_rows E isp cfg devs now (i + 1) rs st of (rs', st) \<Rightarrow> (r' # rs', st))"

function batches :: "nat \<Rightarrow> 'a list \<Rightarrow> 'a list list" where
  "batches n xs = (if xs = [] \<or> n = 0 then [] else take n xs # batches n (drop n xs))"
  by pat_completeness auto
termination
  by (relation "measure (\<lambda>(n, xs). length xs)") auto

declare batches.simps [simp del]

definition collect_results :: "crm_env \<Rightarrow> CRMConnectorSettings \<Rightarrow> crmPendingLookup list \<Rightarrow> crm_results" where
  "collect_results E cfg pending =
     foldl (\<lambda>results (i, batch).
         case sendCRMBatch E cfg (cv_rid E i) (map pe_lookup batch) of
           None \<Rightarrow> results
         | Some got \<Rightarrow> foldl (\<lambda>m (ref, v). AList.update ref v m) results got)
       [] (take (cv_batches E) (List.enumerate 0 (batches (nat (cc_BatchSize cfg)) pending)))"

definition finish_lookup ::
    "crm_env \<Rightarrow> int \<Rightarrow> crm_results \<Rightarrow> crm_row list \<times> crmCache \<times> crmEnrichmentSummary \<Rightarrow> crmPendingLookup \<Rightarrow> crm_row list \<times> crmCache \<times> crmEnrichmentSummary" where
  "finish_lookup E now results st p =
     (case st of (rows, cache, s) \<Rightarrow>
        let v = (case map_of results (lo_ReferenceCode (pe_lookup p)) of
                   Some v \<Rightarrow> v
                 | None \<Rightarrow> \<lparr>re_ReferenceCode = lo_ReferenceCode (pe_lookup p), re_Status = ''error'',
                     re_Subscriber = \<lparr>su_AccountID = [], su_Username = [], su_Name = [], su_Address = [], su_Phone = []\<rparr>,
                     re_Session = \<lparr>se_AcctSessionID = [], se_CallingStationID = []\<rparr>\<rparr>);
            v = normalizeCRMResult v
        in (foldl (\<lambda>rows i. rows[i := applyCRMResult v (rows ! i)]) rows (pe_rowIdxs p),
            if re_Status v \<in> {''matched'', ''not_found'', ''ambiguous''} then crmCachePut (cv_order E) now (pe_key p) v cache else cache,
            addCRMCount (re_Status v) (length (pe_rowIdxs p)) s))"

definition enrichCRMRows ::
    "crm_env \<Rightarrow> u32 \<Rightarrow> int \<Rightarrow> int \<Rightarrow> crmCache \<Rightarrow> crm_row list \<Rightarrow> crmEnrichmentSummary \<times> crm_row list \<times> crmCache" where
  "enrichCRMRows E isp now now' cache rows =
     (let s = \<lparr>sm_Enabled = False, sm_Status = ''disabled'', sm_Rows = length rows, sm_UniqueLookups = 0, sm_Matched = 0, sm_NotFound = 0,
                sm_Ambiguous = 0, sm_Failed = 0, sm_Cached = 0\<rparr>
      in case crmConnector (cv_url E) (cv_connectors E) isp of
           None \<Rightarrow> (s, rows, cache)
         | Some cfg \<Rightarrow>
             let s = s\<lparr>sm_Enabled := True, sm_Status := ''complete''\<rparr> in
             if rows = [] then (s, rows, cache)
             else case cv_devices E of
               None \<Rightarrow> (s\<lparr>sm_Status := ''unavailable'', sm_Failed := length rows\<rparr>, rows, cache)
             | Some devs \<Rightarrow>
                 (case scan_rows E isp cfg devs now 0 rows (cache, s, []) of
                    (rows, cache, s, pendingByKey) \<Rightarrow>
                      let pending = sort_key (\<lambda>p. lo_ReferenceCode (pe_lookup p)) (map snd pendingByKey);
                          s = s\<lparr>sm_UniqueLookups := length pending\<rparr>
                      in if pending = [] then (if sm_Failed s > 0 then s\<lparr>sm_Status := ''partial''\<rparr> else s, rows, cache)
                         else case foldl (finish_lookup E now' (collect_results E cfg pending)) (rows, cache, s) pending of
                           (rows, cache, s) \<Rightarrow>
                             (if sm_Failed s = length rows then s\<lparr>sm_Status := ''unavailable''\<rparr>
                              else if sm_Failed s > 0 then s\<lparr>sm_Status := ''partial''\<rparr> else s, rows, cache)))"

section \<open>Counts\<close>

text \<open>A record without what the enrichment writes.\<close>

definition ipdr :: "crm_row \<Rightarrow> crm_row" where
  "ipdr r = r\<lparr>row_CRMReference := [], row_CRMStatus := [], row_CRMUsername := [], row_CRMName := [], row_CRMAddress := [], row_CRMPhone := [],
     row_CRMAccountID := [], row_CRMSessionID := [], row_CRMMAC := []\<rparr>"

definition counted :: "crmEnrichmentSummary \<Rightarrow> nat" where
  "counted s = sm_Matched s + sm_NotFound s + sm_Ambiguous s + sm_Failed s"

definition waiting :: "(string \<times> crmPendingLookup) list \<Rightarrow> nat" where
  "waiting pending = sum_list (map (\<lambda>(k, p). length (pe_rowIdxs p)) pending)"

lemma ipdr_simps [simp]:
  "ipdr (applyCRMResult v r) = ipdr r" "ipdr (r\<lparr>row_CRMReference := x\<rparr>) = ipdr r" "ipdr (r\<lparr>row_CRMStatus := x\<rparr>) = ipdr r"
  by (simp_all add: ipdr_def applyCRMResult_def)

lemma counted_simps [simp]:
  "counted (addCRMCount st n s) = counted s + n" "counted (s\<lparr>sm_Failed := sm_Failed s + m\<rparr>) = counted s + m"
  "counted (s\<lparr>sm_Ambiguous := sm_Ambiguous s + m\<rparr>) = counted s + m" "counted (s\<lparr>sm_Cached := x\<rparr>) = counted s"
  "counted (s\<lparr>sm_Failed := Suc (sm_Failed s)\<rparr>) = Suc (counted s)" "counted (s\<lparr>sm_Ambiguous := Suc (sm_Ambiguous s)\<rparr>) = Suc (counted s)"
  "counted (s\<lparr>sm_UniqueLookups := x\<rparr>) = counted s" "counted (s\<lparr>sm_Status := y\<rparr>) = counted s"
  by (simp_all add: counted_def addCRMCount_def)

lemma sm_simps [simp]: "sm_Enabled (addCRMCount st n s) = sm_Enabled s"
  by (simp add: addCRMCount_def)

lemma waiting_update:
  "map_of pending k = None \<Longrightarrow> waiting (AList.update k p pending) = waiting pending + length (pe_rowIdxs p)"
  "map_of pending k = Some p \<Longrightarrow> waiting (AList.update k (p\<lparr>pe_rowIdxs := pe_rowIdxs p @ [i]\<rparr>) pending) = waiting pending + 1"
  by (induction pending) (auto simp: waiting_def)

lemma scan_row_counts:
  assumes "scan_row E isp cfg devs now i r (cache, s, pending) = (r', cache', s', pending')"
  shows "ipdr r' = ipdr r \<and> counted s' + waiting pending' = counted s + waiting pending + 1 \<and> sm_Enabled s' = sm_Enabled s"
  using assms
  by (auto simp: scan_row_def crmCacheGet_def Let_def waiting_update split: if_splits option.splits)

lemma scan_rows_counts:
  assumes "scan_rows E isp cfg devs now i rs (cache, s, pending) = (rs', cache', s', pending')"
  shows "map ipdr rs' = map ipdr rs \<and> counted s' + waiting pending' = counted s + waiting pending + length rs \<and> sm_Enabled s' = sm_Enabled s"
  using assms
proof (induction rs arbitrary: i cache s pending rs')
  case (Cons r rs)
  obtain r1 c1 s1 p1 where r1: "scan_row E isp cfg devs now i r (cache, s, pending) = (r1, c1, s1, p1)" using prod_cases4 by blast
  obtain rs2 c2 s2 p2 where r2: "scan_rows E isp cfg devs now (i + 1) rs (c1, s1, p1) = (rs2, c2, s2, p2)" using prod_cases4 by blast
  show ?case using scan_row_counts[OF r1] Cons.IH[of "i + 1" c1 s1 p1 rs2] r1 r2 Cons.prems by auto
qed simp

lemma apply_rows: "map ipdr (foldl (\<lambda>rows i. rows[i := applyCRMResult v (rows ! i)]) rows is) = map ipdr rows"
proof (induction "is" arbitrary: rows)
  case (Cons i "is")
  have "map ipdr (rows[i := applyCRMResult v (rows ! i)]) = map ipdr rows"
    by (rule nth_equalityI) (simp_all, metis ipdr_simps(1) nth_list_update_eq nth_list_update_neq)
  then show ?case using Cons by simp
qed simp

lemma finish_counts:
  assumes "foldl (finish_lookup E now results) (rows, cache, s) ps = (rows', cache', s')"
  shows "map ipdr rows' = map ipdr rows \<and> counted s' = counted s + sum_list (map (\<lambda>p. length (pe_rowIdxs p)) ps) \<and> sm_Enabled s' = sm_Enabled s"
  using assms
proof (induction ps arbitrary: rows cache s)
  case (Cons p ps)
  obtain r1 c1 s1 where f: "finish_lookup E now results (rows, cache, s) p = (r1, c1, s1)" using prod_cases3 by blast
  have "map ipdr r1 = map ipdr rows \<and> counted s1 = counted s + length (pe_rowIdxs p) \<and> sm_Enabled s1 = sm_Enabled s"
    using f by (auto simp: finish_lookup_def Let_def apply_rows)
  then show ?case using Cons.IH[of r1 c1 s1] Cons.prems f by simp
qed simp

text \<open>
  Enrichment only adds.  Whatever the remote system answers and whatever is cached, a page keeps its records in order with all fields
  but those of the enrichment, and when a connector is enabled every record is counted exactly once, as matched, not found, ambiguous or failed.
\<close>

theorem enrich_keeps_records:
  assumes "enrichCRMRows E isp now now' cache rows = (s, rows', cache')"
  shows "map ipdr rows' = map ipdr rows \<and> (sm_Enabled s \<longrightarrow> sm_Matched s + sm_NotFound s + sm_Ambiguous s + sm_Failed s = length rows)"
proof -
  have zero: "counted \<lparr>sm_Enabled = True, sm_Status = st, sm_Rows = n, sm_UniqueLookups = 0, sm_Matched = 0, sm_NotFound = 0,
      sm_Ambiguous = 0, sm_Failed = 0, sm_Cached = 0\<rparr> = 0" for st n by (simp add: counted_def)
  have sorted: "sum_list (map (\<lambda>p. length (pe_rowIdxs p)) (sort_key f (map snd pending))) = waiting pending" for f :: "crmPendingLookup \<Rightarrow> string" and pending
  proof -
    have "sum_list (map g (sort_key f xs)) = sum_list (map g xs)" for g :: "crmPendingLookup \<Rightarrow> nat" and xs by (metis mset_map mset_sort sum_mset_sum_list)
    then show ?thesis by (simp add: waiting_def case_prod_unfold comp_def)
  qed
  have "map ipdr rows' = map ipdr rows \<and> (sm_Enabled s \<longrightarrow> counted s = length rows)"
  proof (cases "crmConnector (cv_url E) (cv_connectors E) isp = None \<or> rows = [] \<or> cv_devices E = None")
    case True
    then show ?thesis using assms by (auto simp: enrichCRMRows_def Let_def counted_def split: option.splits if_splits)
  next
    case False
    then obtain cfg devs where c: "crmConnector (cv_url E) (cv_connectors E) isp = Some cfg" "cv_devices E = Some devs" by auto
    let ?s0 = "\<lparr>sm_Enabled = True, sm_Status = ''complete'', sm_Rows = length rows, sm_UniqueLookups = 0, sm_Matched = 0, sm_NotFound = 0,
      sm_Ambiguous = 0, sm_Failed = 0, sm_Cached = 0\<rparr>"
    obtain rows1 cache1 s1 pend where scan: "scan_rows E isp cfg devs now 0 rows (cache, ?s0, []) = (rows1, cache1, s1, pend)" using prod_cases4 by blast
    note n1 = scan_rows_counts[OF scan]
    define ps where "ps = sort_key (\<lambda>p. lo_ReferenceCode (pe_lookup p)) (map snd pend)"
    obtain rows2 cache2 s2 where fin: "foldl (finish_lookup E now' (collect_results E cfg ps)) (rows1, cache1, s1\<lparr>sm_UniqueLookups := length ps\<rparr>) ps = (rows2, cache2, s2)"
      using prod_cases3 by blast
    note n2 = finish_counts[OF fin]
    have w: "sum_list (map (\<lambda>p. length (pe_rowIdxs p)) ps) = waiting pend" unfolding ps_def by (rule sorted)
    have all: "counted s1 + waiting pend = length rows" using n1 zero by (simp add: waiting_def)
    show ?thesis
    proof (cases "ps = []")
      case True
      then have "rows' = rows1" "counted s = counted s1"
        using assms False c scan by (auto simp: enrichCRMRows_def Let_def ps_def[symmetric] split: if_splits)
      then show ?thesis using n1 w all True by simp
    next
      case nonempty: False
      then have "rows' = rows2" "counted s = counted s2"
        using assms False c scan fin by (auto simp: enrichCRMRows_def Let_def ps_def[symmetric] split: if_splits)
      then show ?thesis using n1 n2 w all by simp
    qed
  qed
  then show ?thesis by (simp add: counted_def)
qed

lemma openCRMSecret_seal:
  assumes "sealCRMSecret E (Some nonce) plain = Some v" "length nonce = nonceSize" "\<And>k n p ad. ae_open E k n (ae_seal E k n p ad) ad = Some p"
  shows "openCRMSecret E v = Some plain"
proof (cases "plain = []")
  case False
  then have v: "v = crmSecretPrefix @ b64_encode (nonce @ ae_seal E (crmCipher E) nonce (bytes_of_str plain) (bytes_of_str crmSchemaVersion))"
    using assms(1) by (simp add: sealCRMSecret_def)
  show ?thesis using assms(2,3) by (simp add: openCRMSecret_def v) (simp add: crmSecretPrefix_def)
qed (use assms in \<open>simp add: sealCRMSecret_def openCRMSecret_def\<close>)

text \<open>The cache stays within its bound, in whatever order its map is iterated.\<close>

lemma crm_cache_bounded:
  assumes "distinct (map fst cache)" "length cache \<le> crmCacheMaxEntries" "\<And>c. distinct (ord c)" "\<And>c. set (ord c) = fst ` set c"
  shows "length (crmCachePut ord now k v cache) \<le> crmCacheMaxEntries"
proof -
  have update: "length (AList.update a b c) \<le> length c + 1" for a b and c :: crmCache by (induction c) auto
  show ?thesis
  proof (cases "length cache \<ge> crmCacheMaxEntries")
    case False
    then have "length (AList.update k b cache) \<le> crmCacheMaxEntries" for b using update[of k b cache] by linarith
    then show ?thesis using False by (simp add: crmCachePut_def Let_def)
  next
    case True
    define live where "live = filter (\<lambda>(k, e). \<not> ca_expires e < now) cache"
    define n where "n = length live + 1 - crmCacheMaxEntries * 9 div 10"
    define kept where "kept = filter (\<lambda>(k, e). k \<notin> set (take n (ord live))) live"
    have d: "distinct (map fst live)" unfolding live_def by (rule distinct_map_filter[OF assms(1)])
    have len: "length (ord live) = length live"
      using distinct_card[OF assms(3)[of live]] distinct_card[OF d] assms(4)[of live] by simp
    have "fst ` set kept = fst ` set live - set (take n (ord live))" unfolding kept_def by force
    moreover have "distinct (map fst kept)" unfolding kept_def by (rule distinct_map_filter[OF d])
    moreover have "set (take n (ord live)) \<subseteq> fst ` set live" using set_take_subset assms(4) by metis
    ultimately have "length kept = length live - card (set (take n (ord live)))"
      using distinct_card[of "map fst kept"] distinct_card[OF d] by (simp add: card_Diff_subset)
    also have "card (set (take n (ord live))) = min n (length live)" using distinct_card[OF distinct_take[OF assms(3)[of live], of n]] len by (simp add: min.commute)
    finally have bound: "length kept + 1 \<le> crmCacheMaxEntries" by (simp add: n_def crmCacheMaxEntries_def)
    have put: "crmCachePut ord now k v cache = AList.update k
        \<lparr>ca_result = v, ca_expires = now + (if re_Status v \<noteq> ''matched'' then 2 * 60 * second_ns else 15 * 60 * second_ns)\<rparr> kept"
      using True by (simp add: crmCachePut_def Let_def kept_def n_def live_def)
    show ?thesis unfolding put by (rule le_trans[OF update bound])
  qed
qed

section \<open>Attribution\<close>

text \<open>
  The evidence of a record: the endpoint asked and the fields that go into the key.  What is known of the remote system is a set of pairs of evidence
  and answer; a cache agrees with it if each entry is the answer to evidence that hashes to its key.
\<close>

definition key_fields :: "crm_env \<Rightarrow> u32 \<Rightarrow> CRMConnectorSettings \<Rightarrow> crm_row \<Rightarrow> int \<Rightarrow> string list" where
  "key_fields E isp cfg r at_s = cc_Endpoint cfg # evidence_fields E isp r at_s"

definition hashed :: "string list \<Rightarrow> bytes" where
  "hashed fs = bytes_of_str (join_bar (crmSchemaVersion # fs))"

definition agrees :: "crm_env \<Rightarrow> (string list \<times> crmResult) set \<Rightarrow> crmCache \<Rightarrow> bool" where
  "agrees E Said cache \<longleftrightarrow> (\<forall>k e. map_of cache k = Some e \<longrightarrow> (\<exists>fs. (fs, ca_result e) \<in> Said \<and> k = hex_bytes (cv_sha E (hashed fs))))"

text \<open>The lookup of a record, and what the remote system answers to the records of a page.\<close>

definition lookup_of :: "crm_env \<Rightarrow> u32 \<Rightarrow> sdevice list \<Rightarrow> crm_row \<Rightarrow> int \<Rightarrow> crmLookup \<Rightarrow> bool" where
  "lookup_of E isp devs r at_s q \<longleftrightarrow> (\<exists>dev. resolveRecordDevice devs isp r = Some dev \<and>
     q = \<lparr>lo_ReferenceCode = crmReference E isp r at_s, lo_LocalIP = crmLocalIP r, lo_EventTime = cv_rfc3339 E at_s, lo_DeviceID = row_DevID r,
          lo_NASIdentifier = sd_Name dev, lo_NASIPAddress = sd_ExporterIP dev\<rparr>)"

definition answers :: "crm_env \<Rightarrow> u32 \<Rightarrow> CRMConnectorSettings \<Rightarrow> sdevice list \<Rightarrow> crm_row list \<Rightarrow> (string list \<times> crmResult) set" where
  "answers E isp cfg devs rows = {(key_fields E isp cfg r at_s, normalizeCRMResult v) | r at_s v.
     r \<in> set rows \<and> recordInstant E r = Some at_s \<and>
     (\<exists>q lookups rid got. lookup_of E isp devs r at_s q \<and> q \<in> set lookups \<and> sendCRMBatch E cfg rid lookups = Some got \<and>
        map_of got (lo_ReferenceCode q) = Some v)}"

definition plain :: "string list \<Rightarrow> bool" where
  "plain fs \<longleftrightarrow> length fs = 6 \<and> list_all (\<lambda>f. CHR ''|'' \<notin> set f) (tl fs)"

text \<open>No two different texts of a set have the same hash; likewise for the part of the hash that goes into a reference.\<close>

definition collision_free :: "crm_env \<Rightarrow> string list set \<Rightarrow> bool" where
  "collision_free E F \<longleftrightarrow> (\<forall>b. length (cv_sha E b) = 32) \<and> (\<forall>fs \<in> F. plain fs) \<and> inj_on (cv_sha E) (hashed ` F) \<and>
     inj_on (\<lambda>b. take 12 (cv_sha E b)) ((\<lambda>fs. hashed (tl fs)) ` F)"

lemma sep_last_inj:
  assumes "a @ c # b = a' @ c # b'" "c \<notin> set b" "c \<notin> set b'"
  shows "a = a' \<and> b = b'"
  using sep_append_inj[of "rev b" c "rev a" "rev b'" "rev a'"] arg_cong[OF assms(1), of rev] assms(2,3) by simp

lemma join_bar_snoc: "xs \<noteq> [] \<Longrightarrow> join_bar (xs @ [y]) = join_bar xs @ CHR ''|'' # y"
  by (induction xs rule: join_bar.induct) auto

lemma join_bar_inj:
  assumes "join_bar (a # fs) = join_bar (a' # fs')" "length fs = length fs'"
    and "\<forall>f \<in> set fs. CHR ''|'' \<notin> set f" "\<forall>f \<in> set fs'. CHR ''|'' \<notin> set f"
  shows "a = a' \<and> fs = fs'"
  using assms
proof (induction fs arbitrary: fs' rule: rev_induct)
  case (snoc y xs)
  obtain xs' y' where fs': "fs' = xs' @ [y']" using snoc.prems(2) by (cases fs' rule: rev_cases) auto
  have "join_bar (a # xs) @ CHR ''|'' # y = join_bar (a' # xs') @ CHR ''|'' # y'"
    using snoc.prems(1) join_bar_snoc[of "a # xs" y] join_bar_snoc[of "a' # xs'" y'] by (simp add: fs')
  moreover have "CHR ''|'' \<notin> set y" "CHR ''|'' \<notin> set y'" using snoc.prems(3,4) fs' by auto
  ultimately have "join_bar (a # xs) = join_bar (a' # xs') \<and> y = y'" by (rule sep_last_inj)
  then show ?case using snoc.IH[of xs'] snoc.prems fs' by simp
qed simp

lemma hashed_inj:
  assumes "plain fs" "plain fs'"
  shows "hashed fs = hashed fs' \<Longrightarrow> fs = fs'" "hashed (tl fs) = hashed (tl fs') \<Longrightarrow> tl fs = tl fs'"
proof -
  obtain a gs a' gs' where f: "fs = a # gs" "fs' = a' # gs'" "length gs = length gs'"
    using assms by (cases fs; cases fs') (auto simp: plain_def)
  have bar: "\<forall>g \<in> set gs. CHR ''|'' \<notin> set g" "\<forall>g \<in> set gs'. CHR ''|'' \<notin> set g" using assms f by (auto simp: plain_def list_all_iff)
  have str: "hashed xs = hashed ys \<Longrightarrow> join_bar (crmSchemaVersion # xs) = join_bar (crmSchemaVersion # ys)" for xs ys
    unfolding hashed_def by (metis str_of_bytes_of_str)
  show "tl fs = tl fs'" if "hashed (tl fs) = hashed (tl fs')"
    using join_bar_inj[OF str[OF that]] f bar by simp
  show "fs = fs'" if "hashed fs = hashed fs'"
  proof -
    have "join_bar (crmSchemaVersion # a # gs) = join_bar (crmSchemaVersion # a' # gs')" using str[OF that] f by simp
    then have "join_bar (a # gs) = join_bar (a' # gs')" by simp
    then show ?thesis using join_bar_inj f bar by blast
  qed
qed

lemma upper_hex_digit: "m < 16 \<Longrightarrow> map (of_char :: char \<Rightarrow> nat) (to_upper [hex_digit m]) = [if m < 10 then 48 + m else 55 + m]"
  by (simp add: to_upper_def hex_digit_def Let_def)

lemma upper_hex_inj: "length a = length b \<Longrightarrow> to_upper (hex_bytes a) = to_upper (hex_bytes b) \<Longrightarrow> a = b"
proof (induction a b rule: list_induct2)
  case (Cons x xs y ys)
  have hex: "m = n" if "to_upper [hex_digit m] = to_upper [hex_digit n]" "m < 16" "n < 16" for m n
  proof -
    have "(if m < 10 then 48 + m else 55 + m) = (if n < 10 then 48 + n else 55 + n)"
      using upper_hex_digit[OF that(2)] upper_hex_digit[OF that(3)] unfolding that(1) by (simp only: list.inject)
    then show ?thesis using that(2,3) by (simp split: if_splits)
  qed
  have "to_upper [hex_digit (unat x div 16)] = to_upper [hex_digit (unat y div 16)]" "to_upper [hex_digit (unat x mod 16)] = to_upper [hex_digit (unat y mod 16)]"
    and r: "to_upper (hex_bytes xs) = to_upper (hex_bytes ys)"
    using Cons.prems by (simp_all add: hex_bytes_def to_upper_def)
  then have "unat x div 16 = unat y div 16" "unat x mod 16 = unat y mod 16" 
    using hex byte_nibbles by blast+
  then have "unat x = unat y" by (metis div_mult_mod_eq)
  then show ?case using Cons.IH[OF r] by (simp add: word_unat_eq_iff)
qed simp

lemma to_upper_length [simp]: "length (to_upper s) = length s"
  by (simp add: to_upper_def)

lemma hex_bytes_length [simp]: "length (hex_bytes b) = 2 * length b"
  by (induction b) (simp_all add: hex_bytes_def)

lemma key_inj:
  assumes "collision_free E F" "fs \<in> F" "fs' \<in> F" "hex_bytes (cv_sha E (hashed fs)) = hex_bytes (cv_sha E (hashed fs'))"
  shows "fs = fs'"
proof -
  have "hashed fs = hashed fs'" using assms hex_bytes_inj[OF assms(4)] unfolding collision_free_def by (auto dest: inj_onD)
  then show ?thesis using hashed_inj(1) assms(1-3) unfolding collision_free_def by blast
qed

lemma crmLookupHash_fields: "crmLookupHash E isp (cc_Endpoint cfg) r at_s = hex_bytes (cv_sha E (hashed (key_fields E isp cfg r at_s)))"
  by (simp add: crmLookupHash_def hashed_def key_fields_def)

lemma reference_inj:
  assumes "collision_free E F" "key_fields E isp cfg r at_s \<in> F" "key_fields E isp cfg r' at_s' \<in> F" "crmReference E isp r at_s = crmReference E isp r' at_s'"
  shows "key_fields E isp cfg r at_s = key_fields E isp cfg r' at_s'"
proof -
  let ?h = "\<lambda>r t. take 12 (cv_sha E (hashed (evidence_fields E isp r t)))"
  have ref: "crmReference E isp r t = (''YL-'' @ cv_istday E t @ ''-'') @ to_upper (hex_bytes (?h r t))" for r t
    by (simp add: crmReference_def hashed_def)
  have len: "length (?h r t) = 12" for r t using assms(1) by (simp add: collision_free_def)
  have "to_upper (hex_bytes (?h r at_s)) = to_upper (hex_bytes (?h r' at_s'))"
    using assms(4) len unfolding ref by (metis append_eq_append_conv hex_bytes_length to_upper_length)
  then have "?h r at_s = ?h r' at_s'" using upper_hex_inj len by metis
  then have "hashed (tl (key_fields E isp cfg r at_s)) = hashed (tl (key_fields E isp cfg r' at_s'))"
    using inj_onD[of "\<lambda>b. take 12 (cv_sha E b)" "(\<lambda>fs. hashed (tl fs)) ` F", OF _ _ imageI[OF assms(2)] imageI[OF assms(3)]] assms(1)
    by (simp add: collision_free_def key_fields_def)
  then have "tl (key_fields E isp cfg r at_s) = tl (key_fields E isp cfg r' at_s')"
    using hashed_inj(2) assms(1-3) unfolding collision_free_def by blast
  then show ?thesis by (simp add: key_fields_def)
qed

text \<open>The fields of a record that enrichment does not touch, as the lookups read them.\<close>

lemma untouched:
  "ipdr a = ipdr b \<Longrightarrow> recordInstant E a = recordInstant E b" "ipdr a = ipdr b \<Longrightarrow> crmLocalIP a = crmLocalIP b"
proof -
  assume eq: "ipdr a = ipdr b"
  have "recordInstant E (ipdr r) = recordInstant E r" "crmLocalIP (ipdr r) = crmLocalIP r" for r
    by (simp_all add: recordInstant_def crmLocalIP_def ipdr_def cong: option.case_cong)
  then show "recordInstant E a = recordInstant E b" "crmLocalIP a = crmLocalIP b" using eq by metis+
qed

definition referred :: "crm_env \<Rightarrow> u32 \<Rightarrow> crm_row \<Rightarrow> int \<Rightarrow> crm_row" where
  "referred E isp r at_s = r\<lparr>row_CRMReference := crmReference E isp r at_s\<rparr>"

text \<open>What a record of a page may become: its subscriber is the answer to its own evidence.\<close>

definition attributed :: "crm_env \<Rightarrow> u32 \<Rightarrow> CRMConnectorSettings \<Rightarrow> (string list \<times> crmResult) set \<Rightarrow> crm_row \<Rightarrow> crm_row \<Rightarrow> bool" where
  "attributed E isp cfg Said r r' \<longleftrightarrow> (row_CRMStatus r' \<in> {''matched'', ''not_found''} \<longrightarrow>
     (\<exists>at_s v. recordInstant E r = Some at_s \<and> (key_fields E isp cfg r at_s, v) \<in> Said \<and> r' = applyCRMResult v (referred E isp r at_s)))"

text \<open>The pending lookups of a page whose records are \<open>rows\<close>, with the records so far.\<close>

definition pending_ok :: "crm_env \<Rightarrow> u32 \<Rightarrow> CRMConnectorSettings \<Rightarrow> sdevice list \<Rightarrow> crm_row list \<Rightarrow> (string \<times> crmPendingLookup) list \<Rightarrow> bool" where
  "pending_ok E isp cfg devs rows pending \<longleftrightarrow> (\<forall>(k, p) \<in> set pending. pe_key p = k \<and>
     (\<exists>r at_s. r \<in> set rows \<and> recordInstant E r = Some at_s \<and> k = crmLookupHash E isp (cc_Endpoint cfg) r at_s \<and> lookup_of E isp devs r at_s (pe_lookup p)) \<and>
     (\<forall>i \<in> set (pe_rowIdxs p). i < length rows \<and> (\<exists>at_s. recordInstant E (rows ! i) = Some at_s \<and> k = crmLookupHash E isp (cc_Endpoint cfg) (rows ! i) at_s)))"

lemma apply_apply [simp]: "applyCRMResult v (applyCRMResult w r) = applyCRMResult v r"
  by (simp add: applyCRMResult_def)

lemma agrees_get:
  assumes "agrees E Said cache" "crmCacheGet now k cache = (hit, cache')"
  shows "agrees E Said cache' \<and> (\<forall>v. hit = Some v \<longrightarrow> (\<exists>fs. (fs, v) \<in> Said \<and> k = hex_bytes (cv_sha E (hashed fs))))"
  using assms by (auto simp: crmCacheGet_def agrees_def delete_conv' split: option.splits if_splits)

lemma agrees_put:
  assumes "agrees E Said cache" "(fs, v) \<in> Said" "k = hex_bytes (cv_sha E (hashed fs))" "distinct (map fst cache)"
  shows "agrees E Said (crmCachePut ord now k v cache)"
proof -
  have sub: "map_of (filter P cache) x = Some e \<Longrightarrow> map_of cache x = Some e" for P x e
    using assms(4) by (metis filter_is_subset map_of_eq_Some_iff distinct_map_filter subsetD)
  have sub2: "map_of (filter Q (filter P cache)) x = Some e \<Longrightarrow> map_of cache x = Some e" for P Q x e
    using sub[of "\<lambda>y. P y \<and> Q y"] by (simp add: conj_commute)
  show ?thesis using assms(1-3) sub sub2 unfolding agrees_def crmCachePut_def Let_def by (auto simp: update_conv' split: if_splits)
qed

definition idxs :: "(string \<times> crmPendingLookup) list \<Rightarrow> nat set" where
  "idxs pending = (\<Union>(k, p) \<in> set pending. set (pe_rowIdxs p))"

lemma alist_update_cases: "x \<in> set (AList.update k v al) \<Longrightarrow> x = (k, v) \<or> x \<in> set al"
  by (induction al) (auto split: if_splits)

lemma idxs_update: "idxs (AList.update k p pending) \<subseteq> set (pe_rowIdxs p) \<union> idxs pending"
  by (auto simp: idxs_def dest!: alist_update_cases)

lemma lookup_of_referred: "lookup_of E isp devs r at_s q \<longleftrightarrow> (\<exists>dev. resolveRecordDevice devs isp (referred E isp r at_s) = Some dev \<and>
     q = \<lparr>lo_ReferenceCode = crmReference E isp r at_s, lo_LocalIP = crmLocalIP r, lo_EventTime = cv_rfc3339 E at_s, lo_DeviceID = row_DevID r,
          lo_NASIdentifier = sd_Name dev, lo_NASIPAddress = sd_ExporterIP dev\<rparr>)"
  by (simp add: lookup_of_def resolveRecordDevice_def referred_def)

lemma pending_ok_update:
  assumes "pending_ok E isp cfg devs rows pending" "pe_key p = k" "r \<in> set rows" "recordInstant E r = Some at_s"
    and "k = crmLookupHash E isp (cc_Endpoint cfg) r at_s" "lookup_of E isp devs r at_s (pe_lookup p)"
    and "\<forall>i \<in> set (pe_rowIdxs p). i < length rows \<and> (\<exists>at_s. recordInstant E (rows ! i) = Some at_s \<and> k = crmLookupHash E isp (cc_Endpoint cfg) (rows ! i) at_s)"
  shows "pending_ok E isp cfg devs rows (AList.update k p pending)"
  unfolding pending_ok_def
proof (intro ballI, unfold split_paired_all, simp only: case_prod_conv)
  fix k' p' assume "(k', p') \<in> set (AList.update k p pending)"
  then consider "k' = k" "p' = p" | "(k', p') \<in> set pending" using alist_update_cases by fastforce
  then show "pe_key p' = k' \<and> (\<exists>r at_s. r \<in> set rows \<and> recordInstant E r = Some at_s \<and> k' = crmLookupHash E isp (cc_Endpoint cfg) r at_s \<and> lookup_of E isp devs r at_s (pe_lookup p')) \<and>
     (\<forall>i \<in> set (pe_rowIdxs p'). i < length rows \<and> (\<exists>at_s. recordInstant E (rows ! i) = Some at_s \<and> k' = crmLookupHash E isp (cc_Endpoint cfg) (rows ! i) at_s))"
  proof cases
    case 1
    then show ?thesis using assms(2-7) by blast
  next
    case 2
    then show ?thesis using assms(1) unfolding pending_ok_def by blast
  qed
qed

lemma scan_row_lookup:
  assumes "crmLocalIP r \<noteq> []" "recordInstant E r = Some at_s" "ParseIP (crmLocalIP r) \<noteq> nil_ip"
    and "key = crmLookupHash E isp (cc_Endpoint cfg) r at_s" "crmCacheGet now key cache = (hit, cache1)" "r1 = referred E isp r at_s"
  shows "scan_row E isp cfg devs now i r (cache, s, pending) =
    (case hit of
       Some v \<Rightarrow> (applyCRMResult v r1, cache1, (addCRMCount (re_Status v) 1 s)\<lparr>sm_Cached := sm_Cached s + 1\<rparr>, pending)
     | None \<Rightarrow>
         (case map_of pending key of
            Some p \<Rightarrow> (r1, cache1, s, AList.update key (p\<lparr>pe_rowIdxs := pe_rowIdxs p @ [i]\<rparr>) pending)
          | None \<Rightarrow>
              (case resolveRecordDevice devs isp r1 of
                 None \<Rightarrow> (r1\<lparr>row_CRMStatus := ''ambiguous''\<rparr>, cache1, s\<lparr>sm_Ambiguous := sm_Ambiguous s + 1\<rparr>, pending)
               | Some dev \<Rightarrow>
                   (r1, cache1, s, AList.update key \<lparr>pe_key = key,
                      pe_lookup = \<lparr>lo_ReferenceCode = crmReference E isp r at_s, lo_LocalIP = crmLocalIP r, lo_EventTime = cv_rfc3339 E at_s,
                        lo_DeviceID = row_DevID r, lo_NASIdentifier = sd_Name dev, lo_NASIPAddress = sd_ExporterIP dev\<rparr>, pe_rowIdxs = [i]\<rparr> pending))))"
  using assms(1-5) unfolding assms(6) by (simp add: scan_row_def referred_def Let_def cong: option.case_cong)

lemma scan_row_attributed:
  assumes scan: "scan_row E isp cfg devs now i r (cache, s, pending) = (r', cache', s', pending')"
    and said: "agrees E Said cache" "collision_free E F" "fst ` Said \<subseteq> F" "\<forall>at_s. recordInstant E r = Some at_s \<longrightarrow> key_fields E isp cfg r at_s \<in> F"
    and pend: "pending_ok E isp cfg devs rows pending" "i < length rows" "rows ! i = r" "row_CRMStatus r = []"
  shows "agrees E Said cache' \<and> attributed E isp cfg Said r r' \<and> pending_ok E isp cfg devs rows pending' \<and> idxs pending' \<subseteq> insert i (idxs pending) \<and>
    (i \<in> idxs pending' \<longrightarrow> i \<in> idxs pending \<or> (\<exists>at_s. recordInstant E r = Some at_s \<and> r' = referred E isp r at_s))"
proof (cases "crmLocalIP r = [] \<or> recordInstant E r = None \<or> ParseIP (crmLocalIP r) = nil_ip")
  case True
  then show ?thesis using scan said(1) pend(1) by (auto simp: scan_row_def attributed_def Let_def split: option.splits if_splits)
next
  case False
  then obtain at_s where at_s: "recordInstant E r = Some at_s" by auto
  define key r1 where "key = crmLookupHash E isp (cc_Endpoint cfg) r at_s" and r1: "r1 = referred E isp r at_s"
  note key = this(1)
  have r: "r \<in> set rows" using pend(2,3) by auto
  obtain hit cache1 where get: "crmCacheGet now key cache = (hit, cache1)" by (rule prod.exhaust)
  note agree = agrees_get[OF said(1) get]
  have ok: "crmLocalIP r \<noteq> []" "ParseIP (crmLocalIP r) \<noteq> nil_ip" using False by auto
  note step = scan[unfolded scan_row_lookup[OF ok(1) at_s ok(2) key get r1]]
  have quiet: "row_CRMStatus r1 = []" using pend(4) by (simp add: r1 referred_def)
  have self: "i < length rows \<and> (\<exists>at_s. recordInstant E (rows ! i) = Some at_s \<and> key = crmLookupHash E isp (cc_Endpoint cfg) (rows ! i) at_s)"
    using pend(2,3) at_s key by auto
  show ?thesis
  proof (cases hit)
    case (Some v)
    obtain fs where fs: "(fs, v) \<in> Said" "key = hex_bytes (cv_sha E (hashed fs))" using agree Some by blast
    have "fs \<in> F" "key_fields E isp cfg r at_s \<in> F" using fs(1) said(3,4) at_s by force+
    then have "fs = key_fields E isp cfg r at_s" using key_inj[OF said(2)] fs(2) unfolding key crmLookupHash_fields by blast
    then have "attributed E isp cfg Said r (applyCRMResult v r1)" using fs(1) at_s unfolding attributed_def r1 by blast
    then show ?thesis using step Some agree pend(1) by auto
  next
    case None
    show ?thesis
    proof (cases "map_of pending key")
      case (Some p)
      let ?p = "p\<lparr>pe_rowIdxs := pe_rowIdxs p @ [i]\<rparr>"
      have p: "(key, p) \<in> set pending" using Some by (rule map_of_SomeD)
      then obtain r0 t0 where r0: "pe_key p = key" "r0 \<in> set rows" "recordInstant E r0 = Some t0" "key = crmLookupHash E isp (cc_Endpoint cfg) r0 t0"
        "lookup_of E isp devs r0 t0 (pe_lookup p)"
        "\<forall>i \<in> set (pe_rowIdxs p). i < length rows \<and> (\<exists>at_s. recordInstant E (rows ! i) = Some at_s \<and> key = crmLookupHash E isp (cc_Endpoint cfg) (rows ! i) at_s)"
        using pend(1) unfolding pending_ok_def by blast
      have "pending_ok E isp cfg devs rows (AList.update key ?p pending)"
        using r0 self by (intro pending_ok_update[OF pend(1) _ r0(2-4)]) auto
      moreover have "idxs (AList.update key ?p pending) \<subseteq> insert i (idxs pending)"
        using idxs_update[of key ?p pending] p by (auto simp: idxs_def)
      ultimately show ?thesis using step \<open>hit = None\<close> Some agree at_s quiet r1 by (auto simp: attributed_def)
    next
      case no_pending: None
      show ?thesis
      proof (cases "resolveRecordDevice devs isp r1")
        case None
        then show ?thesis using step \<open>hit = None\<close> no_pending agree pend(1) by (auto simp: attributed_def)
      next
        case (Some dev)
        let ?p = "\<lparr>pe_key = key, pe_lookup = \<lparr>lo_ReferenceCode = crmReference E isp r at_s, lo_LocalIP = crmLocalIP r, lo_EventTime = cv_rfc3339 E at_s,
          lo_DeviceID = row_DevID r, lo_NASIdentifier = sd_Name dev, lo_NASIPAddress = sd_ExporterIP dev\<rparr>, pe_rowIdxs = [i]\<rparr>"
        have "lookup_of E isp devs r at_s (pe_lookup ?p)" using Some unfolding lookup_of_referred r1[symmetric] by simp
        then have "pending_ok E isp cfg devs rows (AList.update key ?p pending)"
          using self by (intro pending_ok_update[OF pend(1) _ r at_s key]) auto
        moreover have "idxs (AList.update key ?p pending) \<subseteq> insert i (idxs pending)"
          using idxs_update[of key ?p pending] by auto
        ultimately show ?thesis using step \<open>hit = None\<close> no_pending Some agree at_s quiet r1 by (auto simp: attributed_def)
      qed
    qed
  qed
qed

lemma scan_rows_attributed:
  assumes "scan_rows E isp cfg devs now i rs (cache, s, pending) = (rs', cache', s', pending')"
    and "agrees E Said cache" "collision_free E F" "fst ` Said \<subseteq> F" "\<forall>r \<in> set rows. \<forall>at_s. recordInstant E r = Some at_s \<longrightarrow> key_fields E isp cfg r at_s \<in> F"
    and "pending_ok E isp cfg devs rows pending" "drop i rows = rs" "i \<le> length rows" "\<forall>r \<in> set rows. row_CRMStatus r = []" "idxs pending \<subseteq> {..<i}"
  shows "agrees E Said cache' \<and> pending_ok E isp cfg devs rows pending' \<and> length rs' = length rs \<and> idxs pending' \<subseteq> idxs pending \<union> {i..} \<and>
    (\<forall>j < length rs. attributed E isp cfg Said (rs ! j) (rs' ! j) \<and>
       (i + j \<in> idxs pending' \<longrightarrow> (\<exists>at_s. recordInstant E (rs ! j) = Some at_s \<and> rs' ! j = referred E isp (rs ! j) at_s)))"
  using assms(1,2,6-8,10)
proof (induction rs arbitrary: i cache s pending rs')
  case (Cons r rs)
  obtain r1 c1 s1 p1 where r1: "scan_row E isp cfg devs now i r (cache, s, pending) = (r1, c1, s1, p1)" using prod_cases4 by blast
  obtain rs2 c2 s2 p2 where r2: "scan_rows E isp cfg devs now (i + 1) rs (c1, s1, p1) = (rs2, c2, s2, p2)" using prod_cases4 by blast
  have i: "i < length rows" "rows ! i = r" "drop (i + 1) rows = rs"
    using Cons.prems(4) by (metis drop_all list.distinct(1) not_le, simp add: nth_via_drop, simp add: drop_Suc flip: tl_drop)
  have r: "r \<in> set rows" using i(1,2) nth_mem by blast
  have eq: "rs' = r1 # rs2" "c2 = cache'" "s2 = s'" "p2 = pending'" using Cons.prems(1) r1 r2 by auto
  note h1 = scan_row_attributed[OF r1 Cons.prems(2) assms(3,4) _ Cons.prems(3) i(1,2)]
  have h1: "agrees E Said c1" "attributed E isp cfg Said r r1" "pending_ok E isp cfg devs rows p1" "idxs p1 \<subseteq> insert i (idxs pending)"
    "i \<in> idxs p1 \<longrightarrow> i \<in> idxs pending \<or> (\<exists>at_s. recordInstant E r = Some at_s \<and> r1 = referred E isp r at_s)"
    using h1 assms(5,9) r by blast+
  have below: "idxs p1 \<subseteq> {..<i + 1}" using h1(4) Cons.prems(6) by auto
  note h2 = Cons.IH[OF r2[unfolded eq(2-4)] h1(1,3) i(3) _ below]
  have h2: "agrees E Said cache'" "pending_ok E isp cfg devs rows pending'" "length rs2 = length rs" "idxs pending' \<subseteq> idxs p1 \<union> {i + 1..}"
    "\<And>j. j < length rs \<Longrightarrow> attributed E isp cfg Said (rs ! j) (rs2 ! j) \<and>
       (i + 1 + j \<in> idxs pending' \<longrightarrow> (\<exists>at_s. recordInstant E (rs ! j) = Some at_s \<and> rs2 ! j = referred E isp (rs ! j) at_s))"
    using h2 i(1) by auto
  have first: "i \<in> idxs pending' \<longrightarrow> (\<exists>at_s. recordInstant E r = Some at_s \<and> r1 = referred E isp r at_s)"
    using h2(4) h1(5) Cons.prems(6) by auto
  have "idxs pending' \<subseteq> idxs pending \<union> {i..}" using h2(4) h1(4) by fastforce
  moreover have "attributed E isp cfg Said ((r # rs) ! j) (rs' ! j) \<and>
       (i + j \<in> idxs pending' \<longrightarrow> (\<exists>at_s. recordInstant E ((r # rs) ! j) = Some at_s \<and> rs' ! j = referred E isp ((r # rs) ! j) at_s))" if "j < length (r # rs)" for j
    using that h1(2) first h2(5)[of "j - 1"] unfolding eq by (cases j) auto
  ultimately show ?case using h2(1-3) eq by auto
qed (auto simp: idxs_def)

lemma scan_distinct:
  assumes "scan_rows E isp cfg devs now i rs (cache, s, pending) = (rs', cache', s', pending')" "distinct (map fst cache)"
  shows "distinct (map fst cache')"
  using assms
proof (induction rs arbitrary: i cache s pending rs')
  case (Cons r rs)
  obtain r1 c1 s1 p1 where r1: "scan_row E isp cfg devs now i r (cache, s, pending) = (r1, c1, s1, p1)" using prod_cases4 by blast
  obtain rs2 c2 s2 p2 where r2: "scan_rows E isp cfg devs now (i + 1) rs (c1, s1, p1) = (rs2, c2, s2, p2)" using prod_cases4 by blast
  have "distinct (map fst c1)"
    using r1 Cons.prems(2) by (auto simp: scan_row_def crmCacheGet_def Let_def distinct_delete split: option.splits if_splits)
  then show ?case using Cons.IH[of "i + 1" c1 s1 p1 rs2] r1 r2 Cons.prems(1) by simp
qed simp

lemma put_distinct: "distinct (map fst cache) \<Longrightarrow> distinct (map fst (crmCachePut ord now k v cache))"
  by (simp add: crmCachePut_def Let_def distinct_update distinct_map_filter)

lemma if_none: "(if c then None else x) = Some y \<Longrightarrow> \<not> c \<and> x = Some y"
  by (cases c) simp_all

lemma check_results_keys:
  assumes "check_results expected out rs = Some got" "distinct (map fst out)" "fst ` set out \<subseteq> set expected"
  shows "distinct (map fst got) \<and> fst ` set got \<subseteq> set expected"
  using assms
proof (induction expected out rs rule: check_results.induct)
  case (2 expected out raw rest)
  let ?v = "normalizeCRMResult raw"
  have new: "fst ` set (AList.update (re_ReferenceCode ?v) ?v out) \<subseteq> insert (re_ReferenceCode ?v) (fst ` set out)"
    by (auto dest!: alist_update_cases)
  have "(if re_ReferenceCode ?v \<notin> set expected \<or> map_of out (re_ReferenceCode ?v) \<noteq> None then None
      else check_results expected (AList.update (re_ReferenceCode ?v) ?v out) rest) = Some got"
    using 2(2) unfolding check_results.simps Let_def .
  note step = if_none[OF this]
  have "re_ReferenceCode ?v \<in> set expected" using conjunct1[OF step] unfolding de_Morgan_disj not_not by (rule conjunct1)
  then have sub: "fst ` set (AList.update (re_ReferenceCode ?v) ?v out) \<subseteq> set expected" using subset_trans[OF new] 2(4) insert_subset by metis
  show ?case by (rule 2(1)[OF refl conjunct1[OF step] conjunct2[OF step] distinct_update[OF 2(3)] sub])
qed simp

lemma send_keys:
  assumes "sendCRMBatch E cfg rid lookups = Some got"
  shows "distinct (map fst got) \<and> fst ` set got \<subseteq> lo_ReferenceCode ` set lookups"
proof (cases "cc_Type cfg = ''routeros''")
  case True
  have "re_ReferenceCode (ros_result E q) = lo_ReferenceCode q" for q
    by (simp add: ros_result_def Let_def split: ros_answer.split option.split list.split)
  moreover have "distinct (map fst out) \<Longrightarrow> distinct (map fst (foldl (\<lambda>out v. AList.update (re_ReferenceCode v) v out) out vs)) \<and>
      fst ` set (foldl (\<lambda>out v. AList.update (re_ReferenceCode v) v out) out vs) \<subseteq> fst ` set out \<union> re_ReferenceCode ` set vs" for out vs
  proof (induction vs arbitrary: out)
    case (Cons v vs)
    have "fst ` set (AList.update (re_ReferenceCode v) v out) \<subseteq> insert (re_ReferenceCode v) (fst ` set out)"
      by (auto dest!: alist_update_cases)
    moreover have "distinct (map fst (AList.update (re_ReferenceCode v) v out))" using Cons.prems by (simp add: distinct_update)
    ultimately show ?case using Cons.IH[of "AList.update (re_ReferenceCode v) v out"] by (simp only: foldl_Cons list.set image_insert) blast
  qed simp
  from this[of "[]" "map (ros_result E) lookups"] show ?thesis
    using assms True calculation by (auto simp: sendCRMBatch_def split: if_splits)
next
  case False
  then show ?thesis
    using assms check_results_keys[of "map lo_ReferenceCode lookups" "[]"] by (auto simp: sendCRMBatch_def split: crm_answer.splits option.splits if_splits)
qed

lemma merge_results:
  "map_of (foldl (\<lambda>m (ref, v). AList.update ref v m) results got) ref = Some v \<Longrightarrow> map_of results ref = Some v \<or> (ref, v) \<in> set got"
proof (induction got arbitrary: results)
  case (Cons g got)
  obtain a b where g: "g = (a, b)" by fastforce
  from Cons.prems have "map_of (foldl (\<lambda>m (ref, v). AList.update ref v m) (AList.update a b results) got) ref = Some v" by (simp add: g)
  from Cons.IH[OF this] show ?case by (auto simp: g update_conv' split: if_splits)
qed simp

lemma batches_subset: "b \<in> set (batches n xs) \<Longrightarrow> set b \<subseteq> set xs"
proof (induction n xs rule: batches.induct)
  case (1 n xs)
  show ?case
  proof (cases "xs = [] \<or> n = 0")
    case False
    then have "b = take n xs \<or> b \<in> set (batches n (drop n xs))" using 1(2) by (subst (asm) batches.simps) simp
    then show ?thesis using 1(1)[OF False] set_take_subset[of n xs] set_drop_subset[of n xs] by blast
  qed (use 1(2) in \<open>simp add: batches.simps\<close>)
qed

lemma collect_results_from:
  assumes "map_of (collect_results E cfg ps) ref = Some v"
  shows "\<exists>batch rid got. set batch \<subseteq> set ps \<and> sendCRMBatch E cfg rid (map pe_lookup batch) = Some got \<and> map_of got ref = Some v"
proof -
  let ?f = "\<lambda>results (i, batch). case sendCRMBatch E cfg (cv_rid E i) (map pe_lookup batch) of None \<Rightarrow> results
      | Some got \<Rightarrow> foldl (\<lambda>m (ref, v). AList.update ref v m) results got"
  have fold: "map_of (foldl ?f results ibs) ref = Some v \<Longrightarrow> map_of results ref = Some v \<or>
      (\<exists>(i, batch) \<in> set ibs. \<exists>got. sendCRMBatch E cfg (cv_rid E i) (map pe_lookup batch) = Some got \<and> (ref, v) \<in> set got)" for results ibs
  proof (induction ibs arbitrary: results)
    case (Cons ib ibs)
    obtain i b where ib: "ib = (i, b)" by fastforce
    show ?case
    proof (cases "sendCRMBatch E cfg (cv_rid E i) (map pe_lookup b)")
      case None
      then show ?thesis using Cons ib by auto
    next
      case (Some got)
      have "map_of (foldl ?f (foldl (\<lambda>m (ref, v). AList.update ref v m) results got) ibs) ref = Some v" using Cons.prems Some ib by simp
      from Cons.IH[OF this] merge_results[of results got ref v] Some show ?thesis unfolding ib by fastforce
    qed
  qed simp
  define ibs where "ibs = take (cv_batches E) (List.enumerate 0 (batches (nat (cc_BatchSize cfg)) ps))"
  have "map_of (foldl ?f [] ibs) ref = Some v" using assms unfolding collect_results_def ibs_def .
  then obtain i b got where ib: "(i, b) \<in> set ibs" "sendCRMBatch E cfg (cv_rid E i) (map pe_lookup b) = Some got" "(ref, v) \<in> set got"
    using fold by fastforce
  have ib1: "(i, b) \<in> set (List.enumerate 0 (batches (nat (cc_BatchSize cfg)) ps))" using ib(1) unfolding ibs_def by (rule in_set_takeD)
  have "b \<in> set (batches (nat (cc_BatchSize cfg)) ps)" using ib1 by (auto simp: in_set_enumerate_eq)
  then have "set b \<subseteq> set ps" by (rule batches_subset)
  moreover have "map_of got ref = Some v" using send_keys[OF ib(2)] ib(3) by (simp add: map_of_is_SomeI)
  ultimately show ?thesis using ib(2) by blast
qed

text \<open>The state of a page while answers are applied: each record is attributed, and those that wait still take any answer as they would have at first.\<close>

definition page_ok :: "crm_env \<Rightarrow> u32 \<Rightarrow> CRMConnectorSettings \<Rightarrow> (string list \<times> crmResult) set \<Rightarrow> nat set \<Rightarrow> crm_row list \<Rightarrow> crm_row list \<Rightarrow> bool" where
  "page_ok E isp cfg Said I rows rows' \<longleftrightarrow> length rows' = length rows \<and> (\<forall>i < length rows. attributed E isp cfg Said (rows ! i) (rows' ! i) \<and>
     (i \<in> I \<longrightarrow> (\<exists>at_s. recordInstant E (rows ! i) = Some at_s \<and> (\<forall>v. applyCRMResult v (rows' ! i) = applyCRMResult v (referred E isp (rows ! i) at_s)))))"

lemma page_apply:
  assumes "page_ok E isp cfg Said I rows rows'" "set is \<subseteq> I" "set is \<subseteq> {..<length rows}"
    and "\<forall>i \<in> set is. \<forall>at_s. recordInstant E (rows ! i) = Some at_s \<longrightarrow> re_Status v \<in> {''matched'', ''not_found''} \<longrightarrow> (key_fields E isp cfg (rows ! i) at_s, v) \<in> Said"
  shows "page_ok E isp cfg Said I rows (foldl (\<lambda>rows i. rows[i := applyCRMResult v (rows ! i)]) rows' is)"
  using assms
proof (induction "is" arbitrary: rows')
  case (Cons i "is")
  obtain at_s where at_s: "recordInstant E (rows ! i) = Some at_s" "\<And>v. applyCRMResult v (rows' ! i) = applyCRMResult v (referred E isp (rows ! i) at_s)"
    using Cons.prems(1-3) unfolding page_ok_def by auto
  have "row_CRMStatus (applyCRMResult v r) = re_Status v" for r by (simp add: applyCRMResult_def)
  then have i: "attributed E isp cfg Said (rows ! i) (applyCRMResult v (rows' ! i))"
    using at_s Cons.prems(4) unfolding attributed_def by auto
  have "page_ok E isp cfg Said I rows (rows'[i := applyCRMResult v (rows' ! i)])"
    unfolding page_ok_def
  proof (intro conjI allI impI)
    fix j assume j: "j < length rows"
    show "attributed E isp cfg Said (rows ! j) (rows'[i := applyCRMResult v (rows' ! i)] ! j)"
      using Cons.prems(1,3) i j unfolding page_ok_def by (cases "j = i") auto
    assume "j \<in> I"
    then show "\<exists>at_s. recordInstant E (rows ! j) = Some at_s \<and> (\<forall>w. applyCRMResult w (rows'[i := applyCRMResult v (rows' ! i)] ! j) = applyCRMResult w (referred E isp (rows ! j) at_s))"
      using Cons.prems(1) at_s j unfolding page_ok_def by (cases "j = i") auto
  qed (use Cons.prems(1) in \<open>simp add: page_ok_def\<close>)
  then show ?case using Cons.IH Cons.prems(2-4) by simp
qed simp

lemma normalize_error: "re_Status v = ''error'' \<Longrightarrow> re_Status (normalizeCRMResult v) = ''error''"
proof -
  have "to_lower (trim_str ''error'') = ''error''" by code_simp
  then show "re_Status v = ''error'' \<Longrightarrow> re_Status (normalizeCRMResult v) = ''error''" by (simp add: normalizeCRMResult_def Let_def)
qed

lemma finish_step:
  assumes "finish_lookup E now (collect_results E cfg ps) (rows', cache, s) p = (rows'', cache'', s'')"
    and "page_ok E isp cfg Said (idxs pending) rows rows'" "agrees E Said cache" "distinct (map fst cache)"
    and "pending_ok E isp cfg devs rows pending" "set ps \<subseteq> snd ` set pending" "p \<in> set ps"
    and "collision_free E F" "\<forall>r \<in> set rows. \<forall>at_s. recordInstant E r = Some at_s \<longrightarrow> key_fields E isp cfg r at_s \<in> F"
    and "answers E isp cfg devs rows \<subseteq> Said"
  shows "page_ok E isp cfg Said (idxs pending) rows rows'' \<and> agrees E Said cache'' \<and> distinct (map fst cache'')"
proof -
  obtain v0 where v0: "v0 = (case map_of (collect_results E cfg ps) (lo_ReferenceCode (pe_lookup p)) of
      Some v \<Rightarrow> v | None \<Rightarrow> \<lparr>re_ReferenceCode = lo_ReferenceCode (pe_lookup p), re_Status = ''error'',
        re_Subscriber = \<lparr>su_AccountID = [], su_Username = [], su_Name = [], su_Address = [], su_Phone = []\<rparr>,
        re_Session = \<lparr>se_AcctSessionID = [], se_CallingStationID = []\<rparr>\<rparr>)" by blast
  define v where "v = normalizeCRMResult v0"
  have out: "rows'' = foldl (\<lambda>rows i. rows[i := applyCRMResult v (rows ! i)]) rows' (pe_rowIdxs p)"
    "cache'' = (if re_Status v \<in> {''matched'', ''not_found'', ''ambiguous''} then crmCachePut (cv_order E) now (pe_key p) v cache else cache)"
    using assms(1) unfolding v_def v0 finish_lookup_def Let_def by auto
  have found: "\<exists>r at_s. r \<in> set rows \<and> recordInstant E r = Some at_s \<and> pe_key p' = crmLookupHash E isp (cc_Endpoint cfg) r at_s \<and> lookup_of E isp devs r at_s (pe_lookup p')"
    if in_ps: "p' \<in> set ps" for p'
  proof -
    obtain k where "(k, p') \<in> set pending" using in_ps assms(6) by auto
    then show ?thesis using assms(5) unfolding pending_ok_def by blast
  qed
  obtain k where kp: "(k, p) \<in> set pending" using assms(6,7) by auto
  obtain r at_s where r: "r \<in> set rows" "recordInstant E r = Some at_s" "pe_key p = crmLookupHash E isp (cc_Endpoint cfg) r at_s" "lookup_of E isp devs r at_s (pe_lookup p)"
    using found[OF assms(7)] by blast
  have F: "key_fields E isp cfg r at_s \<in> F" using assms(9) r(1,2) by blast
  have said: "(key_fields E isp cfg r at_s, v) \<in> Said" if ok: "re_Status v \<in> {''matched'', ''not_found'', ''ambiguous''}"
  proof -
    have some: "map_of (collect_results E cfg ps) (lo_ReferenceCode (pe_lookup p)) = Some v0"
    proof (cases "map_of (collect_results E cfg ps) (lo_ReferenceCode (pe_lookup p))")
      case None
      then have "re_Status v = ''error''" unfolding v_def v0 by (simp add: normalize_error)
      then show ?thesis using ok by simp
    qed (simp add: v0)
    obtain batch rid got where b: "set batch \<subseteq> set ps" "sendCRMBatch E cfg rid (map pe_lookup batch) = Some got" "map_of got (lo_ReferenceCode (pe_lookup p)) = Some v0"
      using collect_results_from[OF some] by blast
    have "lo_ReferenceCode (pe_lookup p) \<in> lo_ReferenceCode ` set (map pe_lookup batch)"
      using send_keys[OF b(2)] map_of_SomeD[OF b(3)] by (metis fst_conv image_eqI subsetD)
    then obtain p' where p': "p' \<in> set batch" "lo_ReferenceCode (pe_lookup p') = lo_ReferenceCode (pe_lookup p)" by auto
    obtain r' t' where r': "r' \<in> set rows" "recordInstant E r' = Some t'" "lookup_of E isp devs r' t' (pe_lookup p')" using found p'(1) b(1) by blast
    have "crmReference E isp r' t' = crmReference E isp r at_s" using p'(2) r(4) r'(3) unfolding lookup_of_def by auto
    then have same: "key_fields E isp cfg r' t' = key_fields E isp cfg r at_s" using reference_inj[OF assms(8)] assms(9) r'(1,2) F by blast
    have "(key_fields E isp cfg r' t', v) \<in> answers E isp cfg devs rows"
    proof -
      have "lookup_of E isp devs r' t' (pe_lookup p') \<and> pe_lookup p' \<in> set (map pe_lookup batch) \<and> sendCRMBatch E cfg rid (map pe_lookup batch) = Some got \<and>
          map_of got (lo_ReferenceCode (pe_lookup p')) = Some v0"
        using r'(3) p' b(2,3) by (simp only: set_map) blast
      then show ?thesis unfolding answers_def v_def using r'(1,2) by blast
    qed
    then show ?thesis using same assms(10) by auto
  qed
  have key: "pe_key p = hex_bytes (cv_sha E (hashed (key_fields E isp cfg r at_s)))" using r(3) by (simp add: crmLookupHash_fields)
  have own: "(key_fields E isp cfg (rows ! i) t, v) \<in> Said"
    if "i \<in> set (pe_rowIdxs p)" "recordInstant E (rows ! i) = Some t" "re_Status v \<in> {''matched'', ''not_found''}" for i t
  proof -
    have i: "i < length rows" "pe_key p = crmLookupHash E isp (cc_Endpoint cfg) (rows ! i) t"
      using assms(5) kp that(1,2) unfolding pending_ok_def by fastforce+
    then have "key_fields E isp cfg (rows ! i) t \<in> F" using assms(9) that(2) nth_mem by blast
    then have "key_fields E isp cfg (rows ! i) t = key_fields E isp cfg r at_s" using key_inj[OF assms(8) _ F] i(2) key by (simp add: crmLookupHash_fields)
    then show ?thesis using said that(3) by auto
  qed
  have "set (pe_rowIdxs p) \<subseteq> idxs pending" using kp by (auto simp: idxs_def)
  moreover have "set (pe_rowIdxs p) \<subseteq> {..<length rows}" using assms(5) kp unfolding pending_ok_def by fastforce
  ultimately have "page_ok E isp cfg Said (idxs pending) rows rows''" using page_apply[OF assms(2)] own unfolding out(1) by blast
  moreover have "agrees E Said cache''" using assms(3,4) agrees_put[OF assms(3) said key assms(4)] unfolding out(2) by simp
  moreover have "distinct (map fst cache'')" using assms(4) put_distinct unfolding out(2) by simp
  ultimately show ?thesis by blast
qed

lemma finish_all:
  assumes "foldl (finish_lookup E now (collect_results E cfg ps)) (rows', cache, s) qs = (rows'', cache'', s'')" "set qs \<subseteq> set ps"
    and "page_ok E isp cfg Said (idxs pending) rows rows'" "agrees E Said cache" "distinct (map fst cache)"
    and "pending_ok E isp cfg devs rows pending" "set ps \<subseteq> snd ` set pending"
    and "collision_free E F" "\<forall>r \<in> set rows. \<forall>at_s. recordInstant E r = Some at_s \<longrightarrow> key_fields E isp cfg r at_s \<in> F"
    and "answers E isp cfg devs rows \<subseteq> Said"
  shows "page_ok E isp cfg Said (idxs pending) rows rows'' \<and> agrees E Said cache'' \<and> distinct (map fst cache'')"
  using assms(1-5)
proof (induction qs arbitrary: rows' cache s)
  case (Cons q qs)
  obtain r1 c1 s1 where f: "finish_lookup E now (collect_results E cfg ps) (rows', cache, s) q = (r1, c1, s1)" using prod_cases3 by blast
  have "page_ok E isp cfg Said (idxs pending) rows r1 \<and> agrees E Said c1 \<and> distinct (map fst c1)"
    using Cons.prems(2) by (intro finish_step[OF f Cons.prems(3-5) assms(6,7) _ assms(8-10)]) simp
  then show ?case using Cons.IH[of r1 c1 s1] Cons.prems(1,2) f by simp
qed simp

lemma agrees_mono: "agrees E Said cache \<Longrightarrow> Said \<subseteq> Said' \<Longrightarrow> agrees E Said' cache"
  unfolding agrees_def by blast

lemma attributed_mono: "attributed E isp cfg Said r r' \<Longrightarrow> Said \<subseteq> Said' \<Longrightarrow> attributed E isp cfg Said' r r'"
  unfolding attributed_def by blast

text \<open>
  C37. No record gets another's subscriber.  Let the cache hold answers to evidence in \<open>Said\<close>, and let no two different evidences of these and of the page
  collide under the hashes.  Then after a page, a record reported as matched or not found carries the answer, from before or to this page, that
  the remote system gave to the evidence of this very record: its tenant, device, exporter, local address and second; and the cache holds such answers again.
\<close>

theorem crm_attribution:
  assumes "enrichCRMRows E isp now now' cache rows = (s, rows', cache')"
    and "crmConnector (cv_url E) (cv_connectors E) isp = Some cfg" "cv_devices E = Some devs"
    and "agrees E Said cache" "distinct (map fst cache)" "\<forall>r \<in> set rows. row_CRMStatus r = []"
    and "Said' = Said \<union> answers E isp cfg devs rows"
    and "collision_free E (fst ` Said \<union> {key_fields E isp cfg r at_s | r at_s. r \<in> set rows \<and> recordInstant E r = Some at_s})"
  shows "agrees E Said' cache' \<and> distinct (map fst cache') \<and> length rows' = length rows \<and>
    (\<forall>i < length rows. row_CRMStatus (rows' ! i) \<in> {''matched'', ''not_found''} \<longrightarrow>
       (\<exists>at_s v. recordInstant E (rows ! i) = Some at_s \<and> (key_fields E isp cfg (rows ! i) at_s, v) \<in> Said' \<and>
          rows' ! i = applyCRMResult v ((rows ! i)\<lparr>row_CRMReference := crmReference E isp (rows ! i) at_s\<rparr>)))"
proof -
  define F where "F = fst ` Said \<union> {key_fields E isp cfg r at_s | r at_s. r \<in> set rows \<and> recordInstant E r = Some at_s}"
  have F: "fst ` Said \<subseteq> F" "\<forall>r \<in> set rows. \<forall>at_s. recordInstant E r = Some at_s \<longrightarrow> key_fields E isp cfg r at_s \<in> F" unfolding F_def by blast+
  note free = assms(8)[folded F_def]
  have goal: "page_ok E isp cfg Said' {} rows rows' \<and> agrees E Said' cache' \<and> distinct (map fst cache')"
  proof (cases "rows = []")
    case True
    then show ?thesis using assms(1-5,7) agrees_mono[OF assms(4), of Said'] by (auto simp: enrichCRMRows_def page_ok_def Let_def)
  next
    case False
    let ?s0 = "\<lparr>sm_Enabled = True, sm_Status = ''complete'', sm_Rows = length rows, sm_UniqueLookups = 0, sm_Matched = 0, sm_NotFound = 0,
      sm_Ambiguous = 0, sm_Failed = 0, sm_Cached = 0\<rparr>"
    obtain rows1 cache1 s1 pend where scan: "scan_rows E isp cfg devs now 0 rows (cache, ?s0, []) = (rows1, cache1, s1, pend)" using prod_cases4 by blast
    have sc: "agrees E Said cache1" "pending_ok E isp cfg devs rows pend" "length rows1 = length rows"
      "\<forall>j < length rows. attributed E isp cfg Said (rows ! j) (rows1 ! j) \<and> (j \<in> idxs pend \<longrightarrow>
         (\<exists>at_s. recordInstant E (rows ! j) = Some at_s \<and> rows1 ! j = referred E isp (rows ! j) at_s))"
      using scan_rows_attributed[OF scan assms(4) free F] assms(6) by (auto simp: pending_ok_def idxs_def)
    have d1: "distinct (map fst cache1)" by (rule scan_distinct[OF scan assms(5)])
    have page: "page_ok E isp cfg Said' (idxs pend) rows rows1"
      using sc(3,4) assms(7) attributed_mono[of E isp cfg Said _ _ Said'] unfolding page_ok_def by auto
    have agree: "agrees E Said' cache1" using agrees_mono[OF sc(1)] assms(7) by blast
    define ps where "ps = sort_key (\<lambda>p. lo_ReferenceCode (pe_lookup p)) (map snd pend)"
    obtain rows2 cache2 s2 where fin: "foldl (finish_lookup E now' (collect_results E cfg ps)) (rows1, cache1, s1\<lparr>sm_UniqueLookups := length ps\<rparr>) ps = (rows2, cache2, s2)"
      using prod_cases3 by blast
    have done2: "page_ok E isp cfg Said' (idxs pend) rows rows2 \<and> agrees E Said' cache2 \<and> distinct (map fst cache2)"
      by (rule finish_all[OF fin order_refl page agree d1 sc(2) _ free F(2)]) (auto simp: ps_def assms(7))
    have weak: "page_ok E isp cfg Said' (idxs pend) rows x \<Longrightarrow> page_ok E isp cfg Said' {} rows x" for x unfolding page_ok_def by blast
    show ?thesis
    proof (cases "ps = []")
      case True
      then have "rows' = rows1" "cache' = cache1" using assms(1-3) False scan by (auto simp: enrichCRMRows_def Let_def ps_def[symmetric] split: if_splits)
      then show ?thesis using weak page agree d1 by blast
    next
      case nonempty: False
      then have "rows' = rows2" "cache' = cache2" using assms(1-3) False scan fin by (auto simp: enrichCRMRows_def Let_def ps_def[symmetric] split: if_splits)
      then show ?thesis using weak done2 by blast
    qed
  qed
  then show ?thesis unfolding page_ok_def attributed_def referred_def by blast
qed

definition ex_result :: crmResult where
  "ex_result = \<lparr>re_ReferenceCode = ''r'', re_Status = ''matched'', re_Subscriber = \<lparr>su_AccountID = [], su_Username = ''bob'', su_Name = [], su_Address = [], su_Phone = []\<rparr>,
     re_Session = \<lparr>se_AcctSessionID = [], se_CallingStationID = []\<rparr>\<rparr>"

definition ex_connector :: CRMConnectorSettings where
  "ex_connector = \<lparr>cc_ISPID = 1, cc_Enabled = True, cc_Type = ''yeslogs_v1'', cc_Endpoint = ''u'', cc_Username = [], cc_APIKey = ''k'', cc_TimeoutMs = 1000, cc_BatchSize = 10\<rparr>"

definition ex_crm :: crm_env where
  "ex_crm = \<lparr>cv_sha = (\<lambda>b. replicate 32 0), cv_layout = (\<lambda>_ _. None), cv_rfc3339 = (\<lambda>_. ''t''), cv_istday = (\<lambda>_. ''d''),
     cv_url = (\<lambda>_. Some \<lparr>ur_Scheme = ''https'', ur_Host = ''h'', ur_Hostname = ''h'', ur_User = False, ur_Fragment = []\<rparr>),
     cv_connectors = [ex_connector], cv_devices = Some [], cv_order = map fst, cv_rid = (\<lambda>_. []), cv_post = (\<lambda>_ _. NoAnswer), cv_get = (\<lambda>_ _. RosFailed), cv_batches = 0\<rparr>"

definition ex_nat_row :: crm_row where
  "ex_nat_row = \<lparr>nr_PrivIP = ''10.0.0.9'', nr_PrivPort = 1, nr_DstIP = [], nr_DstPort = 0, nr_PubIP = [], nr_PubPort = 0, nr_PostDstIP = [], nr_PostDstPort = 0,
     nr_PostSrcIP = [], nr_PostSrcPort = 0, nr_SourceKnown = True, nr_DestinationKnown = False, nr_NatIP = [], nr_NatPort = 0, nr_Untranslated = False,
     nr_Translation = ''source'', row_At = Some 0, row_Time = [], row_DevID = 1, row_ISPID = 1, row_ExporterIP = ''e'', row_CRMReference = [], row_CRMStatus = [],
     row_CRMUsername = [], row_CRMName = [], row_CRMAddress = [], row_CRMPhone = [], row_CRMAccountID = [], row_CRMSessionID = [], row_CRMMAC = []\<rparr>"

definition ex_crm_key :: string where
  "ex_crm_key = crmLookupHash ex_crm 1 ''u'' ex_nat_row 0"

lemma ex_crm_facts:
  "crmConnector (cv_url ex_crm) (cv_connectors ex_crm) 1 = Some ex_connector" "recordInstant ex_crm ex_nat_row = Some 0"
  "ParseIP (crmLocalIP ex_nat_row) \<noteq> nil_ip" "crmLocalIP ex_nat_row \<noteq> []" "plain (key_fields ex_crm 1 ex_connector ex_nat_row 0)"
proof -
  have "trim_str [] = []" "trim_str ''u'' = ''u''" "trim_str ''k'' = ''k''" "to_lower (trim_str ''yeslogs_v1'') = ''yeslogs_v1''" by code_simp+
  then show "crmConnector (cv_url ex_crm) (cv_connectors ex_crm) 1 = Some ex_connector"
    by (simp add: crmConnector_def sanitizeCRMConnector_def ex_crm_def ex_connector_def Let_def)
  show "recordInstant ex_crm ex_nat_row = Some 0" by (simp add: recordInstant_def ex_nat_row_def)
  have ip: "crmLocalIP ex_nat_row = ''10.0.0.9''" by (simp add: crmLocalIP_def ex_nat_row_def)
  have "ParseIP ''10.0.0.9'' \<noteq> nil_ip" by code_simp
  then show "ParseIP (crmLocalIP ex_nat_row) \<noteq> nil_ip" "crmLocalIP ex_nat_row \<noteq> []" unfolding ip by simp_all
  have "dec_string 1 = ''1''" by code_simp
  then show "plain (key_fields ex_crm 1 ex_connector ex_nat_row 0)"
    by (simp add: plain_def key_fields_def evidence_fields_def ip ex_crm_def) (simp add: ex_nat_row_def ex_connector_def \<open>dec_string 1 = ''1''\<close>)
qed

lemma ex_crm_run:
  "\<exists>s cache'. enrichCRMRows ex_crm 1 0 0 [(ex_crm_key, \<lparr>ca_result = ex_result, ca_expires = 5\<rparr>)] [ex_nat_row] =
     (s, [applyCRMResult ex_result (referred ex_crm 1 ex_nat_row 0)], cache')"
proof -
  have key: "ex_crm_key = crmLookupHash ex_crm 1 (cc_Endpoint ex_connector) ex_nat_row 0" by (simp add: ex_crm_key_def ex_connector_def)
  have get: "crmCacheGet 0 ex_crm_key [(ex_crm_key, \<lparr>ca_result = ex_result, ca_expires = 5\<rparr>)] = (Some ex_result, [(ex_crm_key, \<lparr>ca_result = ex_result, ca_expires = 5\<rparr>)])"
    by (simp add: crmCacheGet_def)
  have devs: "cv_devices ex_crm = Some []" by (simp add: ex_crm_def)
  note scan = scan_row_lookup[OF ex_crm_facts(4,2,3) key get refl]
  show ?thesis
    unfolding enrichCRMRows_def ex_crm_facts(1) devs Let_def by (simp add: scan)
qed

theorem enrich_keeps_records_witness:
  "\<exists>s rows' cache'. enrichCRMRows ex_crm 1 0 0 [(ex_crm_key, \<lparr>ca_result = ex_result, ca_expires = 5\<rparr>)] [ex_nat_row] = (s, rows', cache') \<and>
     map ipdr rows' = [ipdr ex_nat_row]"
proof -
  obtain s rows' cache' where run: "enrichCRMRows ex_crm 1 0 0 [(ex_crm_key, \<lparr>ca_result = ex_result, ca_expires = 5\<rparr>)] [ex_nat_row] = (s, rows', cache')"
    using ex_crm_run by blast
  show ?thesis using enrich_keeps_records[OF run] run by auto
qed

theorem crm_attribution_witness:
  "\<exists>s rows' cache' v. enrichCRMRows ex_crm 1 0 0 [(ex_crm_key, \<lparr>ca_result = ex_result, ca_expires = 5\<rparr>)] [ex_nat_row] = (s, rows', cache') \<and>
     row_CRMStatus (rows' ! 0) = ''matched'' \<and>
     (key_fields ex_crm 1 ex_connector ex_nat_row 0, v) \<in> {(key_fields ex_crm 1 ex_connector ex_nat_row 0, ex_result)} \<union> answers ex_crm 1 ex_connector [] [ex_nat_row] \<and>
     rows' ! 0 = applyCRMResult v (ex_nat_row\<lparr>row_CRMReference := crmReference ex_crm 1 ex_nat_row 0\<rparr>)"
proof -
  let ?S = "{(key_fields ex_crm 1 ex_connector ex_nat_row 0, ex_result)}"
  obtain s cache' where run: "enrichCRMRows ex_crm 1 0 0 [(ex_crm_key, \<lparr>ca_result = ex_result, ca_expires = 5\<rparr>)] [ex_nat_row] =
     (s, [applyCRMResult ex_result (referred ex_crm 1 ex_nat_row 0)], cache')" using ex_crm_run by blast
  have key: "ex_crm_key = hex_bytes (cv_sha ex_crm (hashed (key_fields ex_crm 1 ex_connector ex_nat_row 0)))"
    unfolding crmLookupHash_fields[symmetric] by (simp add: ex_crm_key_def ex_connector_def)
  have one: "fst ` ?S \<union> {key_fields ex_crm 1 ex_connector r at_s | r at_s. r \<in> set [ex_nat_row] \<and> recordInstant ex_crm r = Some at_s} =
      {key_fields ex_crm 1 ex_connector ex_nat_row 0}"
    using ex_crm_facts(2) by auto
  have free: "collision_free ex_crm {key_fields ex_crm 1 ex_connector ex_nat_row 0}"
    using ex_crm_facts(5) by (simp add: collision_free_def) (simp add: ex_crm_def)
  have agree: "agrees ex_crm ?S [(ex_crm_key, \<lparr>ca_result = ex_result, ca_expires = 5\<rparr>)]" using key by (auto simp: agrees_def split: if_splits)
  have status: "row_CRMStatus (applyCRMResult ex_result r) = ''matched''" for r by (simp add: applyCRMResult_def ex_result_def)
  have devs: "cv_devices ex_crm = Some []" by (simp add: ex_crm_def)
  have quiet: "\<forall>r \<in> set [ex_nat_row]. row_CRMStatus r = []" by (simp add: ex_nat_row_def)
  have d: "distinct (map fst [(ex_crm_key, \<lparr>ca_result = ex_result, ca_expires = 5\<rparr>)])" by simp
  have "\<exists>at_s v. recordInstant ex_crm ex_nat_row = Some at_s \<and> (key_fields ex_crm 1 ex_connector ex_nat_row at_s, v) \<in> ?S \<union> answers ex_crm 1 ex_connector [] [ex_nat_row] \<and>
      applyCRMResult ex_result (referred ex_crm 1 ex_nat_row 0) = applyCRMResult v (ex_nat_row\<lparr>row_CRMReference := crmReference ex_crm 1 ex_nat_row at_s\<rparr>)"
    using crm_attribution[OF run ex_crm_facts(1) devs agree d quiet refl free[folded one], THEN conjunct2, THEN conjunct2, THEN conjunct2, rule_format, of 0] status
    by (simp only: nth_Cons_0 list.size) simp
  then obtain v where "(key_fields ex_crm 1 ex_connector ex_nat_row 0, v) \<in> ?S \<union> answers ex_crm 1 ex_connector [] [ex_nat_row]"
    "applyCRMResult ex_result (referred ex_crm 1 ex_nat_row 0) = applyCRMResult v (ex_nat_row\<lparr>row_CRMReference := crmReference ex_crm 1 ex_nat_row 0\<rparr>)"
    using ex_crm_facts(2) by auto
  then show ?thesis using run status[of "referred ex_crm 1 ex_nat_row 0"]
    by (intro exI[of _ s] exI[of _ "[applyCRMResult ex_result (referred ex_crm 1 ex_nat_row 0)]"] exI[of _ cache'] exI[of _ v]) simp
qed

end
