(* ===== verification/Rollup.thy ===== *)
theory Rollup
  imports Prelude "HOL-Library.Multiset"
begin

text \<open>
  The rollups behind the dashboard (\<open>internal/director/rollup.go\<close>): summaries that add up on merge, filled by a periodic job that keeps a watermark.

  The statements are evaluated over the rows of \<open>flow_logs\<close>; which of them fail is an argument.  Times are seconds, the resolution of the columns
  \<open>created_at\<close> and \<open>ts\<close>; a state of the approximate counters of distinct addresses is the set of the addresses.
\<close>

section \<open>Tables\<close>

record rollup_flow =
  rf_isp_id :: u32
  rf_event_date :: string
  rf_hour :: nat
  rf_device_id :: u32
  rf_src_ip :: u32
  rf_nat_public_ip :: u32
  rf_protocol :: nat
  rf_bytes :: nat
  rf_packets :: nat
  rf_duration :: nat
  rf_created_at :: int

type_synonym hour_key = "u32 \<times> string \<times> nat \<times> u32"
type_synonym sub_key = "u32 \<times> string \<times> u32"

record rollup_hour =
  rh_key :: hour_key
  rh_flows :: nat
  rh_bytes :: nat
  rh_packets :: nat
  rh_tcp :: nat
  rh_udp :: nat
  rh_icmp :: nat
  rh_other :: nat
  rh_dur_sum :: nat
  rh_subs :: "u32 set"
  rh_nat_ips :: "u32 set"

record rollup_sub =
  rb_key :: sub_key
  rb_bytes :: nat

record rollup_db =
  rd_flow_logs :: "rollup_flow list"
  rd_hourly :: "rollup_hour list"
  rd_subs :: "rollup_sub list"
  rd_state :: "int list"

definition hour_key :: "rollup_flow \<Rightarrow> hour_key" where
  "hour_key r = (rf_isp_id r, rf_event_date r, rf_hour r, rf_device_id r)"

definition sub_key :: "rollup_flow \<Rightarrow> sub_key" where
  "sub_key r = (rf_isp_id r, rf_event_date r, rf_src_ip r)"

definition hour_group :: "rollup_flow list \<Rightarrow> hour_key \<Rightarrow> rollup_hour" where
  "hour_group rows k =
     (let rs = filter (\<lambda>r. hour_key r = k) rows; proto = (\<lambda>p. length (filter (\<lambda>r. rf_protocol r = p) rs)) in
      \<lparr>rh_key = k, rh_flows = length rs, rh_bytes = sum_list (map rf_bytes rs), rh_packets = sum_list (map rf_packets rs),
       rh_tcp = proto 6, rh_udp = proto 17, rh_icmp = proto 1, rh_other = length (filter (\<lambda>r. rf_protocol r \<notin> {6, 17, 1}) rs),
       rh_dur_sum = sum_list (map rf_duration rs), rh_subs = set (map rf_src_ip rs), rh_nat_ips = set (map rf_nat_public_ip rs)\<rparr>)"

definition rollupInsertHourly :: "bool \<Rightarrow> (int \<Rightarrow> bool) \<Rightarrow> rollup_db \<Rightarrow> bool \<times> rollup_db" where
  "rollupInsertHourly ok window db =
     (if \<not> ok then (False, db)
      else let rows = filter (\<lambda>r. window (rf_created_at r)) (rd_flow_logs db)
           in (True, db\<lparr>rd_hourly := rd_hourly db @ map (hour_group rows) (remdups (map hour_key rows))\<rparr>))"

definition rollupInsertSubs :: "bool \<Rightarrow> (int \<Rightarrow> bool) \<Rightarrow> rollup_db \<Rightarrow> bool \<times> rollup_db" where
  "rollupInsertSubs ok window db =
     (if \<not> ok then (False, db)
      else let rows = filter (\<lambda>r. window (rf_created_at r)) (rd_flow_logs db)
           in (True, db\<lparr>rd_subs := rd_subs db @
                 map (\<lambda>k. \<lparr>rb_key = k, rb_bytes = sum_list (map rf_bytes (filter (\<lambda>r. sub_key r = k) rows))\<rparr>) (remdups (map sub_key rows))\<rparr>))"

section \<open>The job\<close>

text \<open>Which statements of the setup answer, in their order; the count of the rollup is read without looking at its error.\<close>

record setup_ok =
  so_ddl :: bool
  so_count :: bool
  so_have :: bool
  so_hourly :: bool
  so_subs :: bool
  so_seed :: bool

definition EnsureRollups :: "setup_ok \<Rightarrow> int \<Rightarrow> rollup_db \<Rightarrow> bool \<times> rollup_db" where
  "EnsureRollups f now db =
     (if \<not> so_ddl f \<or> \<not> so_count f then (False, db)
      else if length (rd_state db) > 0 then (True, db)
      else
        let cutoff = now - 10;
            haveRollup = (if so_have f then length (rd_hourly db) else 0);
            (ok, db) = (if haveRollup = 0 then
                          (case rollupInsertHourly (so_hourly f) (\<lambda>c. c \<le> cutoff) db of
                             (ok, db) \<Rightarrow> if ok then rollupInsertSubs (so_subs f) (\<lambda>c. c \<le> cutoff) db else (False, db))
                        else (True, db))
        in if \<not> ok \<or> \<not> so_seed f then (False, db)
           else (True, db\<lparr>rd_state := cutoff # rd_state db\<rparr>))"

record tick_ok =
  to_read :: bool
  to_advance :: bool
  to_hourly :: bool
  to_subs :: bool

text \<open>The maximum of an empty table is the epoch, which is not the zero time.\<close>

definition RollupTick :: "tick_ok \<Rightarrow> int \<Rightarrow> rollup_db \<Rightarrow> bool \<times> rollup_db" where
  "RollupTick f now db =
     (if \<not> to_read f then (False, db)
      else
        let wm = (if rd_state db = [] then 0 else Max (set (rd_state db))); cutoff = now - 10 in
        if \<not> cutoff > wm then (True, db)
        else if \<not> to_advance f then (False, db)
        else
          let db = db\<lparr>rd_state := cutoff # rd_state db\<rparr> in
          case rollupInsertHourly (to_hourly f) (\<lambda>c. c > wm \<and> c \<le> cutoff) db of
            (ok, db) \<Rightarrow> if ok then rollupInsertSubs (to_subs f) (\<lambda>c. c > wm \<and> c \<le> cutoff) db else (False, db))"

section \<open>Reading\<close>

definition hasRollup :: "bool \<Rightarrow> rollup_db \<Rightarrow> bool" where
  "hasRollup ok db \<longleftrightarrow> (if \<not> ok then False else length (rd_hourly db) > 0)"

definition isp_matches :: "u32 \<Rightarrow> u32 \<Rightarrow> bool" where
  "isp_matches ispID isp \<longleftrightarrow> (if ispID = 0 then True else isp = ispID)"

text \<open>The chart of today; a group with an hour over 23 has no place in it.\<close>

definition chart_key :: "string \<Rightarrow> u32 \<Rightarrow> nat \<Rightarrow> hour_key \<Rightarrow> bool" where
  "chart_key today ispID h k \<longleftrightarrow> (case k of (isp, date, hour, dev) \<Rightarrow> date = today \<and> isp_matches ispID isp \<and> hour = h)"

definition rollupHourly :: "bool \<Rightarrow> string \<Rightarrow> u32 \<Rightarrow> rollup_db \<Rightarrow> nat list" where
  "rollupHourly ok today ispID db =
     (if \<not> ok then replicate 24 0
      else map (\<lambda>h. sum_list (map rh_flows (filter (\<lambda>x. chart_key today ispID h (rh_key x)) (rd_hourly db)))) [0..<24])"

section \<open>No drift\<close>

text \<open>What the dashboard reads: the sums over the rows of a table.\<close>

definition shown_flows :: "rollup_db \<Rightarrow> hour_key \<Rightarrow> nat" where
  "shown_flows db k = sum_list (map rh_flows (filter (\<lambda>h. rh_key h = k) (rd_hourly db)))"

definition shown_bytes :: "rollup_db \<Rightarrow> sub_key \<Rightarrow> nat" where
  "shown_bytes db k = sum_list (map rb_bytes (filter (\<lambda>h. rb_key h = k) (rd_subs db)))"

definition flows_until :: "rollup_db \<Rightarrow> hour_key \<Rightarrow> (int \<Rightarrow> bool) \<Rightarrow> nat" where
  "flows_until db k window = length (filter (\<lambda>r. hour_key r = k \<and> window (rf_created_at r)) (rd_flow_logs db))"

definition bytes_until :: "rollup_db \<Rightarrow> sub_key \<Rightarrow> (int \<Rightarrow> bool) \<Rightarrow> nat" where
  "bytes_until db k window = sum_list (map rf_bytes (filter (\<lambda>r. sub_key r = k \<and> window (rf_created_at r)) (rd_flow_logs db)))"

text \<open>
  A history: rows arrive, time passes, the setup and the ticks run with any of their statements failing, except that the setup reads the
  count of a rollup that has rows.
\<close>

inductive rolling :: "int \<Rightarrow> rollup_db \<Rightarrow> bool" where
  fresh: "rolling now \<lparr>rd_flow_logs = rows, rd_hourly = [], rd_subs = [], rd_state = []\<rparr>"
| flow_stored: "rolling now db \<Longrightarrow> rolling now (db\<lparr>rd_flow_logs := r # rd_flow_logs db\<rparr>)"
| time_passes: "rolling now db \<Longrightarrow> now \<le> now' \<Longrightarrow> rolling now' db"
| setup_run: "rolling now db \<Longrightarrow> so_have f \<or> rd_hourly db = [] \<Longrightarrow> rolling now (snd (EnsureRollups f now db))"
| tick_run: "rolling now db \<Longrightarrow> rd_state db \<noteq> [] \<Longrightarrow> rolling now (snd (RollupTick f now db))"

definition covered :: "int \<Rightarrow> rollup_db \<Rightarrow> int" where
  "covered now db = (if rd_state db = [] then now - 10 else Max (set (rd_state db)))"

definition undrifted :: "int \<Rightarrow> rollup_db \<Rightarrow> bool" where
  "undrifted now db \<longleftrightarrow> (\<forall>k. shown_flows db k \<le> flows_until db k (\<lambda>c. c \<le> covered now db)) \<and>
     (\<forall>k. shown_bytes db k \<le> bytes_until db k (\<lambda>c. c \<le> covered now db)) \<and> covered now db \<le> now - 10 \<and>
     (rd_hourly db = [] \<longrightarrow> rd_state db = [] \<longrightarrow> rd_subs db = [])"

lemma shown_hourly:
  "shown_flows (snd (rollupInsertHourly ok window db)) k = shown_flows db k + (if ok then flows_until db k window else 0)"
proof -
  let ?rows = "filter (\<lambda>r. window (rf_created_at r)) (rd_flow_logs db)"
  have pick: "distinct ks \<Longrightarrow> sum_list (map rh_flows (filter (\<lambda>h. rh_key h = k) (map (hour_group ?rows) ks))) =
      (if k \<in> set ks then rh_flows (hour_group ?rows k) else 0)" for ks
    by (induction ks) (auto simp: hour_group_def Let_def)
  have "rh_flows (hour_group ?rows k) = flows_until db k window" by (simp add: hour_group_def flows_until_def Let_def conj_commute)
  moreover have "k \<notin> set (map hour_key ?rows) \<Longrightarrow> flows_until db k window = 0" by (auto simp: flows_until_def filter_empty_conv)
  ultimately show ?thesis using pick[of "remdups (map hour_key ?rows)"] by (simp add: rollupInsertHourly_def shown_flows_def Let_def)
qed

lemma shown_subs:
  "shown_bytes (snd (rollupInsertSubs ok window db)) k = shown_bytes db k + (if ok then bytes_until db k window else 0)"
proof -
  let ?rows = "filter (\<lambda>r. window (rf_created_at r)) (rd_flow_logs db)"
  let ?g = "\<lambda>k. \<lparr>rb_key = k, rb_bytes = sum_list (map rf_bytes (filter (\<lambda>r. sub_key r = k) ?rows))\<rparr>"
  have pick: "distinct ks \<Longrightarrow> sum_list (map rb_bytes (filter (\<lambda>h. rb_key h = k) (map ?g ks))) =
      (if k \<in> set ks then rb_bytes (?g k) else 0)" for ks
    by (induction ks) auto
  have "rb_bytes (?g k) = bytes_until db k window" by (simp add: bytes_until_def conj_commute)
  moreover have "k \<notin> set (map sub_key ?rows) \<Longrightarrow> bytes_until db k window = 0"
    by (simp add: bytes_until_def image_iff) (metis (mono_tags, lifting) filter_False list.map(1) sum_list.Nil)
  ultimately show ?thesis using pick[of "remdups (map sub_key ?rows)"] by (simp add: rollupInsertSubs_def shown_bytes_def Let_def)
qed

lemma insert_frame:
  "rd_flow_logs (snd (rollupInsertHourly ok w db)) = rd_flow_logs db" "rd_subs (snd (rollupInsertHourly ok w db)) = rd_subs db"
  "rd_state (snd (rollupInsertHourly ok w db)) = rd_state db" "rd_flow_logs (snd (rollupInsertSubs ok w db)) = rd_flow_logs db"
  "rd_hourly (snd (rollupInsertSubs ok w db)) = rd_hourly db" "rd_state (snd (rollupInsertSubs ok w db)) = rd_state db"
  "fst (rollupInsertHourly ok w db) = ok" "fst (rollupInsertSubs ok w db) = ok"
  by (simp_all add: rollupInsertHourly_def rollupInsertSubs_def Let_def)

lemma shown_cong:
  "rd_hourly db' = rd_hourly db \<Longrightarrow> shown_flows db' k = shown_flows db k"
  "rd_subs db' = rd_subs db \<Longrightarrow> shown_bytes db' j = shown_bytes db j"
  by (simp_all add: shown_flows_def shown_bytes_def)

lemma until_cong:
  "rd_flow_logs db' = rd_flow_logs db \<Longrightarrow> flows_until db' k w = flows_until db k w"
  "rd_flow_logs db' = rd_flow_logs db \<Longrightarrow> bytes_until db' j w = bytes_until db j w"
  by (simp_all add: flows_until_def bytes_until_def)

lemma until_split:
  assumes "a \<le> b"
  shows "flows_until db k (\<lambda>c. c \<le> a) + flows_until db k (\<lambda>c. c > a \<and> c \<le> b) = flows_until db k (\<lambda>c. c \<le> b)"
    and "bytes_until db j (\<lambda>c. c \<le> a) + bytes_until db j (\<lambda>c. c > a \<and> c \<le> b) = bytes_until db j (\<lambda>c. c \<le> b)"
proof -
  have "length (filter (\<lambda>r. hour_key r = k \<and> rf_created_at r \<le> a) rs) +
      length (filter (\<lambda>r. hour_key r = k \<and> rf_created_at r > a \<and> rf_created_at r \<le> b) rs) =
      length (filter (\<lambda>r. hour_key r = k \<and> rf_created_at r \<le> b) rs)" for rs using assms by (induction rs) auto
  then show "flows_until db k (\<lambda>c. c \<le> a) + flows_until db k (\<lambda>c. c > a \<and> c \<le> b) = flows_until db k (\<lambda>c. c \<le> b)"
    by (simp add: flows_until_def)
  have "sum_list (map rf_bytes (filter (\<lambda>r. sub_key r = j \<and> rf_created_at r \<le> a) rs)) +
      sum_list (map rf_bytes (filter (\<lambda>r. sub_key r = j \<and> rf_created_at r > a \<and> rf_created_at r \<le> b) rs)) =
      sum_list (map rf_bytes (filter (\<lambda>r. sub_key r = j \<and> rf_created_at r \<le> b) rs))" for rs using assms by (induction rs) auto
  then show "bytes_until db j (\<lambda>c. c \<le> a) + bytes_until db j (\<lambda>c. c > a \<and> c \<le> b) = bytes_until db j (\<lambda>c. c \<le> b)"
    by (simp add: bytes_until_def)
qed

lemma until_mono:
  assumes "a \<le> b"
  shows "flows_until db k (\<lambda>c. c \<le> a) \<le> flows_until db k (\<lambda>c. c \<le> b)" and "bytes_until db j (\<lambda>c. c \<le> a) \<le> bytes_until db j (\<lambda>c. c \<le> b)"
  using until_split(1)[OF assms, of db k] until_split(2)[OF assms, of db j] by linarith+

lemma hourly_none: "rd_hourly (snd (rollupInsertHourly True w db)) = [] \<Longrightarrow> rd_subs db = [] \<Longrightarrow>
    rd_subs (snd (rollupInsertSubs ok w (snd (rollupInsertHourly True w db)))) = []"
  by (simp add: rollupInsertHourly_def rollupInsertSubs_def Let_def)

text \<open>The two inserts of a window, and what they add to what is shown.\<close>

definition rollup_window :: "bool \<Rightarrow> bool \<Rightarrow> (int \<Rightarrow> bool) \<Rightarrow> rollup_db \<Rightarrow> bool \<times> rollup_db" where
  "rollup_window okh oks w db =
     (case rollupInsertHourly okh w db of (ok, db) \<Rightarrow> if ok then rollupInsertSubs oks w db else (False, db))"

lemma rollup_window_parts:
  "shown_flows (snd (rollup_window okh oks w db)) k = shown_flows db k + (if okh then flows_until db k w else 0)"
  "shown_bytes (snd (rollup_window okh oks w db)) j = shown_bytes db j + (if okh \<and> oks then bytes_until db j w else 0)"
  "rd_flow_logs (snd (rollup_window okh oks w db)) = rd_flow_logs db" "rd_state (snd (rollup_window okh oks w db)) = rd_state db"
  "fst (rollup_window okh oks w db) \<longleftrightarrow> okh \<and> oks"
  by (simp_all add: rollup_window_def split_beta insert_frame shown_hourly shown_subs shown_cong(1)[OF insert_frame(5)]
      shown_cong(2)[OF insert_frame(2)] until_cong(2)[OF insert_frame(1)])

lemma rollup_window_none:
  "rd_hourly (snd (rollup_window okh oks w db)) = [] \<Longrightarrow> rd_subs db = [] \<Longrightarrow> rd_subs (snd (rollup_window okh oks w db)) = []"
  using hourly_none[of w db oks] insert_frame[of okh w db] insert_frame[of oks w "snd (rollupInsertHourly okh w db)"]
  by (cases okh) (auto simp: rollup_window_def split_beta)

lemma EnsureRollups_window:
  "EnsureRollups f now db =
     (if \<not> so_ddl f \<or> \<not> so_count f then (False, db) else if rd_state db \<noteq> [] then (True, db)
      else let r = (if \<not> so_have f \<or> rd_hourly db = [] then rollup_window (so_hourly f) (so_subs f) (\<lambda>c. c \<le> now - 10) db else (True, db))
           in if \<not> fst r \<or> \<not> so_seed f then (False, snd r) else (True, (snd r)\<lparr>rd_state := (now - 10) # rd_state (snd r)\<rparr>))"
  by (simp add: EnsureRollups_def rollup_window_def Let_def split_beta)

lemma RollupTick_window:
  "RollupTick f now db =
     (if \<not> to_read f then (False, db)
      else let wm = (if rd_state db = [] then 0 else Max (set (rd_state db))) in
        if now - 10 \<le> wm then (True, db) else if \<not> to_advance f then (False, db)
        else rollup_window (to_hourly f) (to_subs f) (\<lambda>c. c > wm \<and> c \<le> now - 10) (db\<lparr>rd_state := (now - 10) # rd_state db\<rparr>))"
  by (simp add: RollupTick_def rollup_window_def Let_def not_less)

lemma undriftedD:
  assumes "undrifted now db"
  shows "shown_flows db k \<le> flows_until db k (\<lambda>c. c \<le> covered now db)" "shown_bytes db j \<le> bytes_until db j (\<lambda>c. c \<le> covered now db)"
    "covered now db \<le> now - 10"
  using assms unfolding undrifted_def by blast+

lemma undrifted_setup:
  assumes u: "undrifted now db" and h: "so_have f \<or> rd_hourly db = []"
  shows "undrifted now (snd (EnsureRollups f now db))"
proof (cases "so_ddl f \<and> so_count f \<and> rd_state db = []")
  case True
  let ?w = "\<lambda>c. c \<le> now - 10"
  let ?db = "snd (if \<not> so_have f \<or> rd_hourly db = [] then rollup_window (so_hourly f) (so_subs f) ?w db else (True, db))"
  have s: "rd_state ?db = []" "rd_flow_logs ?db = rd_flow_logs db" using True rollup_window_parts(3,4) by simp_all
  have z: "rd_hourly db = [] \<Longrightarrow> shown_flows db k = 0" "rd_hourly db = [] \<Longrightarrow> shown_bytes db j = 0" for k j
    using u True by (simp_all add: undrifted_def shown_flows_def shown_bytes_def)
  have sf: "shown_flows ?db k \<le> flows_until db k ?w" for k
    using undriftedD(1)[OF u, of k] True h z(1)[of k] by (auto simp: rollup_window_parts(1) covered_def)
  have sb: "shown_bytes ?db k \<le> bytes_until db k ?w" for k
    using undriftedD(2)[OF u, of k] True h z(2)[of k] by (auto simp: rollup_window_parts(2) covered_def)
  have ne: "rd_hourly ?db = [] \<Longrightarrow> rd_subs ?db = []"
    using u True h rollup_window_none[of "so_hourly f" "so_subs f" ?w db] by (auto simp: undrifted_def split: if_splits)
  have "undrifted now ?db" using s sf sb ne until_cong[OF s(2)] by (simp add: undrifted_def covered_def)
  moreover have "undrifted now (?db\<lparr>rd_state := (now - 10) # rd_state ?db\<rparr>)"
    using s sf sb until_cong[OF s(2)] by (simp add: undrifted_def covered_def shown_flows_def shown_bytes_def flows_until_def bytes_until_def)
  ultimately show ?thesis using True by (simp add: EnsureRollups_window Let_def)
qed (use u in \<open>auto simp: EnsureRollups_window\<close>)

lemma undrifted_tick:
  assumes u: "undrifted now db" and s: "rd_state db \<noteq> []"
  shows "undrifted now (snd (RollupTick f now db))"
proof -
  let ?wm = "Max (set (rd_state db))"
  let ?w = "\<lambda>c. c > ?wm \<and> c \<le> now - 10"
  let ?adv = "db\<lparr>rd_state := (now - 10) # rd_state db\<rparr>"
  let ?db = "snd (rollup_window (to_hourly f) (to_subs f) ?w ?adv)"
  have cov: "covered now db = ?wm" using s by (simp add: covered_def)
  have wm: "?wm \<le> now - 10" using u cov by (simp add: undrifted_def)
  have st: "rd_state ?db = (now - 10) # rd_state db" "rd_flow_logs ?db = rd_flow_logs db" using rollup_window_parts(3,4) by simp_all
  have c: "covered now ?db = now - 10" using s wm unfolding covered_def st(1) by (simp del: Max_le_iff Max_less_iff add: max_def)
  have f: "shown_flows ?db k \<le> flows_until db k (\<lambda>c. c \<le> now - 10)" for k
    using undriftedD(1)[OF u, of k] until_split(1)[OF wm, of db k]
    by (simp add: rollup_window_parts(1) cov shown_cong(1)[of ?adv db] until_cong(1)[of ?adv db] del: Max_le_iff Max_less_iff)
  have b: "shown_bytes ?db k \<le> bytes_until db k (\<lambda>c. c \<le> now - 10)" for k
    using undriftedD(2)[OF u, of k] until_split(2)[OF wm, of db k]
    by (simp add: rollup_window_parts(2) cov shown_cong(2)[of ?adv db] until_cong(2)[of ?adv db] del: Max_le_iff Max_less_iff)
  have "undrifted now ?db" using f b st(1) until_cong[OF st(2)] by (simp add: undrifted_def c)
  then show ?thesis using u s by (auto simp: RollupTick_window Let_def)
qed

lemma undrifted_arrival:
  assumes "undrifted now db"
  shows "undrifted now (db\<lparr>rd_flow_logs := r # rd_flow_logs db\<rparr>)"
proof -
  have f: "flows_until db k w \<le> flows_until (db\<lparr>rd_flow_logs := r # rd_flow_logs db\<rparr>) k w" for k w by (simp add: flows_until_def)
  have b: "bytes_until db k w \<le> bytes_until (db\<lparr>rd_flow_logs := r # rd_flow_logs db\<rparr>) k w" for k w by (simp add: bytes_until_def)
  have c: "covered now (db\<lparr>rd_flow_logs := r # rd_flow_logs db\<rparr>) = covered now db" by (simp add: covered_def)
  show ?thesis using assms order_trans[OF _ f] order_trans[OF _ b]
    unfolding undrifted_def c by (auto simp: shown_flows_def shown_bytes_def)
qed

lemma undrifted_later:
  assumes "undrifted now db" "now \<le> now'"
  shows "undrifted now' db"
proof -
  have c: "covered now db \<le> covered now' db" "covered now' db \<le> now' - 10" 
    using assms(2) undriftedD(3)[OF assms(1)] by (simp_all add: covered_def del: Max_le_iff split: if_splits)
  show ?thesis using assms(1) order_trans[OF _ until_mono(1)[OF c(1)]] order_trans[OF _ until_mono(2)[OF c(1)]] c(2)
    unfolding undrifted_def by blast
qed

lemma rolling_undrifted: "rolling now db \<Longrightarrow> undrifted now db"
proof (induction rule: rolling.induct)
  case (fresh now rows)
  then show ?case by (simp add: undrifted_def covered_def shown_flows_def shown_bytes_def)
qed (use undrifted_setup undrifted_tick undrifted_arrival undrifted_later in blast)+

lemma sum_by_key:
  assumes "finite K" "key ` set xs \<subseteq> K"
  shows "sum_list (map f (filter (\<lambda>x. P (key x)) xs)) = (\<Sum>k\<in>{k \<in> K. P k}. sum_list (map f (filter (\<lambda>x. key x = k) xs)))"
  using assms(2)
proof (induction xs)
  case (Cons x xs)
  have "(\<Sum>k\<in>{k \<in> K. P k}. sum_list (map f (filter (\<lambda>x. key x = k) (x # xs)))) =
      (\<Sum>k\<in>{k \<in> K. P k}. if key x = k then f x else 0) + (\<Sum>k\<in>{k \<in> K. P k}. sum_list (map f (filter (\<lambda>x. key x = k) xs)))"
    by (subst sum.distrib[symmetric]) (rule sum.cong, auto)
  then show ?case using Cons assms(1) by (auto simp: sum.delta)
qed simp

lemma stored_until: "flows_until db k w \<le> length (filter (\<lambda>r. hour_key r = k) (rd_flow_logs db))"
  "bytes_until db j w \<le> sum_list (map rf_bytes (filter (\<lambda>r. sub_key r = j) (rd_flow_logs db)))"
proof -
  have "length (filter (\<lambda>r. hour_key r = k \<and> w (rf_created_at r)) rs) \<le> length (filter (\<lambda>r. hour_key r = k) rs)" for rs by (induction rs) auto
  then show "flows_until db k w \<le> length (filter (\<lambda>r. hour_key r = k) (rd_flow_logs db))" by (simp add: flows_until_def)
  have "sum_list (map rf_bytes (filter (\<lambda>r. sub_key r = j \<and> w (rf_created_at r)) rs)) \<le> sum_list (map rf_bytes (filter (\<lambda>r. sub_key r = j) rs))" for rs
    by (induction rs) auto
  then show "bytes_until db j w \<le> sum_list (map rf_bytes (filter (\<lambda>r. sub_key r = j) (rd_flow_logs db)))" by (simp add: bytes_until_def)
qed

lemma chart_no_drift:
  assumes "undrifted now db"
  shows "sum_list (map rh_flows (filter (\<lambda>x. P (rh_key x)) (rd_hourly db))) \<le> length (filter (\<lambda>r. P (hour_key r)) (rd_flow_logs db))"
proof -
  let ?K = "rh_key ` set (rd_hourly db) \<union> hour_key ` set (rd_flow_logs db)"
  have "sum_list (map rh_flows (filter (\<lambda>x. P (rh_key x)) (rd_hourly db))) = (\<Sum>k\<in>{k \<in> ?K. P k}. shown_flows db k)"
    unfolding shown_flows_def by (rule sum_by_key) auto
  also have "\<dots> \<le> (\<Sum>k\<in>{k \<in> ?K. P k}. length (filter (\<lambda>r. hour_key r = k) (rd_flow_logs db)))"
    by (rule sum_mono) (rule order_trans[OF undriftedD(1)[OF assms] stored_until(1)])
  also have "\<dots> = sum_list (map (\<lambda>_. 1) (filter (\<lambda>r. P (hour_key r)) (rd_flow_logs db)))"
    by (subst sum_by_key[of ?K hour_key]) (auto simp: sum_list_triv)
  finally show ?thesis by (simp add: sum_list_triv)
qed

text \<open>
  The dashboard never shows more than was stored, whatever fails: for every history, the flows it shows for a
  device and hour and the bytes it shows for a subscriber and day are at most those of the rows in \<open>flow_logs\<close>, and so is each of the
  24 bars of the chart of today.
\<close>

theorem rollup_no_drift:
  assumes "rolling now db"
  shows "shown_flows db k \<le> length (filter (\<lambda>r. hour_key r = k) (rd_flow_logs db)) \<and>
         shown_bytes db j \<le> sum_list (map rf_bytes (filter (\<lambda>r. sub_key r = j) (rd_flow_logs db))) \<and>
         list_all2 (\<le>) (rollupHourly ok today ispID db)
           (map (\<lambda>h. length (filter (\<lambda>r. rf_event_date r = today \<and> isp_matches ispID (rf_isp_id r) \<and> rf_hour r = h) (rd_flow_logs db))) [0..<24])"
proof -
  have u: "undrifted now db" using assms by (rule rolling_undrifted)
  have "sum_list (map rh_flows (filter (\<lambda>x. chart_key today ispID h (rh_key x)) (rd_hourly db))) \<le>
      length (filter (\<lambda>r. rf_event_date r = today \<and> isp_matches ispID (rf_isp_id r) \<and> rf_hour r = h) (rd_flow_logs db))" for h
    using chart_no_drift[OF u, of "chart_key today ispID h"] by (simp add: chart_key_def hour_key_def)
  then show ?thesis
    using order_trans[OF undriftedD(1)[OF u] stored_until(1)] order_trans[OF undriftedD(2)[OF u] stored_until(2)]
    by (simp add: rollupHourly_def list_all2_conv_all_nth)
qed

theorem rollup_no_drift_witness:
  defines "r \<equiv> \<lambda>t. \<lparr>rf_isp_id = 1, rf_event_date = ''2026-01-02'', rf_hour = 3, rf_device_id = 7, rf_src_ip = 167772161, rf_nat_public_ip = 3405803781,
            rf_protocol = 6, rf_bytes = 100, rf_packets = 2, rf_duration = 0, rf_created_at = t\<rparr>"
  defines "all_ok \<equiv> \<lparr>so_ddl = True, so_count = True, so_have = True, so_hourly = True, so_subs = True, so_seed = True\<rparr>"
  defines "no_subs \<equiv> \<lparr>to_read = True, to_advance = True, to_hourly = True, to_subs = False\<rparr>"
  defines "db0 \<equiv> \<lparr>rd_flow_logs = [r 150, r 50], rd_hourly = [], rd_subs = [], rd_state = []\<rparr>"
  defines "db2 \<equiv> snd (RollupTick no_subs 200 (snd (EnsureRollups all_ok 100 db0)))"
  shows "rollupHourly True ''2026-01-02'' 0 db2 ! 3 = 2 \<and> shown_bytes db2 (1, ''2026-01-02'', 167772161) = 100 \<and>
         list_all2 (\<le>) (rollupHourly True ''2026-01-02'' 0 db2)
           (map (\<lambda>h. length (filter (\<lambda>r. rf_event_date r = ''2026-01-02'' \<and> isp_matches 0 (rf_isp_id r) \<and> rf_hour r = h) (rd_flow_logs db2))) [0..<24])"
proof -
  note defs = EnsureRollups_def RollupTick_def rollupInsertHourly_def rollupInsertSubs_def hour_group_def hour_key_def sub_key_def Let_def
    r_def all_ok_def no_subs_def db0_def
  have e: "rolling 100 (snd (EnsureRollups all_ok 100 db0))" unfolding db0_def by (intro rolling.setup_run rolling.fresh) simp
  have "rd_state (snd (EnsureRollups all_ok 100 db0)) \<noteq> []" by (simp add: defs)
  then have "rolling 200 db2" unfolding db2_def by (intro rolling.tick_run rolling.time_passes[OF e]) simp
  note this[THEN rollup_no_drift, of "(1, ''2026-01-02'', 3, 7)" "(1, ''2026-01-02'', 167772161)" True "''2026-01-02''" 0]
  moreover have "rollupHourly True ''2026-01-02'' 0 db2 ! 3 = 2" "shown_bytes db2 (1, ''2026-01-02'', 167772161) = 100"
    by (simp_all add: rollupHourly_def chart_key_def isp_matches_def shown_bytes_def db2_def defs)
  ultimately show ?thesis by blast
qed

text \<open>A tick whose statements all answer carries an exact summary over to the new watermark.\<close>

lemma rollup_tick_exact:
  assumes "rolling now db" "rd_state db \<noteq> []" "to_read f" "to_advance f" "to_hourly f" "to_subs f"
    and f: "\<And>k. shown_flows db k = flows_until db k (\<lambda>c. c \<le> covered now db)"
    and b: "\<And>j. shown_bytes db j = bytes_until db j (\<lambda>c. c \<le> covered now db)"
  shows "shown_flows (snd (RollupTick f now db)) k = flows_until db k (\<lambda>c. c \<le> now - 10)"
    and "shown_bytes (snd (RollupTick f now db)) j = bytes_until db j (\<lambda>c. c \<le> now - 10)"
proof -
  let ?wm = "Max (set (rd_state db))"
  let ?adv = "db\<lparr>rd_state := (now - 10) # rd_state db\<rparr>"
  have c: "covered now db = ?wm" using assms(2) by (simp add: covered_def)
  have wm: "?wm \<le> now - 10" using rolling_undrifted[OF assms(1)] c by (simp add: undrifted_def)
  have t: "snd (RollupTick f now db) = (if now - 10 \<le> ?wm then db else snd (rollup_window True True (\<lambda>c. c > ?wm \<and> c \<le> now - 10) ?adv))"
    using assms(2-6) by (simp add: RollupTick_window Let_def)
  show "shown_flows (snd (RollupTick f now db)) k = flows_until db k (\<lambda>c. c \<le> now - 10)"
    using f[of k] until_split(1)[OF wm, of db k] wm unfolding t c
    by (auto simp del: Max_le_iff Max_less_iff simp: rollup_window_parts(1) shown_cong(1)[of ?adv db] until_cong(1)[of ?adv db])
  show "shown_bytes (snd (RollupTick f now db)) j = bytes_until db j (\<lambda>c. c \<le> now - 10)"
    using b[of j] until_split(2)[OF wm, of db j] wm unfolding t c
    by (auto simp del: Max_le_iff Max_less_iff simp: rollup_window_parts(2) shown_cong(2)[of ?adv db] until_cong(2)[of ?adv db])
qed

text \<open>
  The setup is not resumable: when the backfill of the subscribers fails after that of the hours, the next run finds rows in the rollup, takes
  them for those of the old views and starts the watermark at its own cutoff.  It reports success with the subscribers of the whole history
  missing, and the hours of the time between the two runs.  After the failure the dashboard reads the rollup and not, as the log says, the rows.
\<close>

theorem rollup_setup_gap:
  assumes "rd_state db = []" "rd_hourly db = []" "rd_subs db = []" "r \<in> set (rd_flow_logs db)" "rf_created_at r \<le> now - 10"
    and first: "EnsureRollups \<lparr>so_ddl = True, so_count = True, so_have = True, so_hourly = True, so_subs = False, so_seed = True\<rparr> now db = (ok1, db1)"
    and again: "EnsureRollups \<lparr>so_ddl = True, so_count = True, so_have = True, so_hourly = True, so_subs = True, so_seed = True\<rparr> now' db1 = (ok2, db2)"
  shows "\<not> ok1" and "hasRollup True db1" and "ok2" and "rd_subs db2 = []" and "rd_state db2 = [now' - 10]"
    and "shown_flows db2 k = flows_until db k (\<lambda>c. c \<le> now - 10)"
proof -
  have h: "rd_hourly (snd (rollupInsertHourly True (\<lambda>c. c \<le> now - 10) db)) \<noteq> []"
    using assms(4,5) by (force simp: rollupInsertHourly_def Let_def filter_empty_conv)
  have d1: "db1 = snd (rollup_window True False (\<lambda>c. c \<le> now - 10) db)" "\<not> ok1"
    using first assms(1,2) by (auto simp: EnsureRollups_window Let_def rollup_window_parts(5))
  have e1: "db1 = snd (rollupInsertHourly True (\<lambda>c. c \<le> now - 10) db)"
    using d1(1) by (simp add: rollup_window_def split_beta insert_frame) (simp add: rollupInsertSubs_def)
  have d2: "ok2" "db2 = db1\<lparr>rd_state := (now' - 10) # rd_state db1\<rparr>"
    using again h assms(1) by (auto simp: EnsureRollups_window Let_def e1 insert_frame)
  show "hasRollup True db1" using h by (simp add: hasRollup_def e1)
  show "\<not> ok1" "ok2" using d1 d2 by simp_all
  show "rd_subs db2 = []" "rd_state db2 = [now' - 10]" using d2(2) assms(1,3) by (simp_all add: e1 insert_frame)
  have "shown_flows db2 k = shown_flows db1 k" using d2(2) by (simp add: shown_flows_def)
  then show "shown_flows db2 k = flows_until db k (\<lambda>c. c \<le> now - 10)"
    using assms(2) by (simp add: e1 shown_hourly) (simp add: shown_flows_def)
qed

text \<open>The error of the count is dropped: a backfill already written is then written a second time, and the sums double.\<close>

lemma rollup_count_error_doubles:
  assumes "rd_state db = []" "so_ddl f" "so_count f" "\<not> so_have f" "so_hourly f" "so_subs f" "so_seed f"
    and "shown_flows db k = flows_until db k (\<lambda>c. c \<le> now - 10)"
  shows "fst (EnsureRollups f now db)" and "shown_flows (snd (EnsureRollups f now db)) k = 2 * flows_until db k (\<lambda>c. c \<le> now - 10)"
  using assms by (simp_all add: EnsureRollups_window Let_def rollup_window_parts(5))
    (simp add: shown_cong(1)[of "_\<lparr>rd_state := _\<rparr>"] rollup_window_parts(1))

end
